(* ===== verification/Prelude.thy ===== *)
theory Prelude
  imports Main "HOL-Library.Word"
begin

text \<open>
  Shared vocabulary of the development: the machine integer types, the error values a kernel
  routine can produce, the error numbers of \<open>include/errno.h\<close>, the collections of facts the
  component theories feed to the simplifier, and the generic lemmas on machine words, lists and
  loops that several components use.

  An \<open>int\<close> or \<open>long\<close> of the source is a \<open>u32\<close> read as two's complement (\<open>sint\<close>, \<open><s\<close>,
  \<open>\<le>s\<close>); an \<open>unsigned int\<close>, an \<open>unsigned long\<close> or a pointer is the same type read unsigned
  (\<open>unat\<close>, \<open><\<close>, \<open>\<le>\<close>). Arithmetic wraps, as it does on the machine the code runs on.
\<close>

unbundle bit_operations_syntax

section \<open>Machine integers\<close>

type_synonym u8 = "8 word"
type_synonym u16 = "16 word"
type_synonym u32 = "32 word"

text \<open>Byte-addressed memory, as the string routines see it.\<close>

type_synonym bmem = "u32 \<Rightarrow> u8"

named_theorems word_facts \<open>facts that move word goals to nat or int\<close>
named_theorems frame_facts \<open>what an operation leaves unchanged\<close>
named_theorems inv_facts \<open>preservation of component invariants\<close>

section \<open>Errors as values\<close>

text \<open>
  A kernel routine that does not return normally ends in one of these: \<open>Panic\<close> is a call of
  \<open>panic\<close> (which never returns), \<open>NullDeref\<close> a read or write through a null pointer (undefined
  in C), \<open>OutOfBounds\<close> an array access outside the array, \<open>Hang\<close> a loop that never ends, \<open>DivZero\<close> the
  trap of a division by zero.
\<close>

datatype (plugins only: code size) kerr = Panic string | NullDeref | OutOfBounds | Hang | DivZero

type_synonym 'a kres = "kerr + 'a"

definition kbind :: "'a kres \<Rightarrow> ('a \<Rightarrow> 'b kres) \<Rightarrow> 'b kres" where
  "kbind m f = (case m of Inl e \<Rightarrow> Inl e | Inr a \<Rightarrow> f a)"

lemma kbind_simps [simp]:
  "kbind (Inl e) f = Inl e"
  "kbind (Inr a) f = f a"
  by (simp_all add: kbind_def)

lemma kbind_eq_Inr: "kbind m f = Inr b \<longleftrightarrow> (\<exists>a. m = Inr a \<and> f a = Inr b)"
  by (cases m) auto

lemma kbind_cong [fundef_cong]:
  "m = m' \<Longrightarrow> (\<And>a. m' = Inr a \<Longrightarrow> f a = g a) \<Longrightarrow> kbind m f = kbind m' g"
  by (cases m') auto

text \<open>The same for routines that may not return at all: \<open>None\<close> stops everything.\<close>

definition obind :: "'a kres option \<Rightarrow> ('a \<Rightarrow> 'b kres option) \<Rightarrow> 'b kres option" where
  "obind m f = (case m of None \<Rightarrow> None | Some (Inl e) \<Rightarrow> Some (Inl e) | Some (Inr a) \<Rightarrow> f a)"

lemma obind_simps [simp]:
  "obind None f = None"
  "obind (Some (Inl e)) f = Some (Inl e)"
  "obind (Some (Inr a)) f = f a"
  by (simp_all add: obind_def)

lemma obind_eq: "obind m f = Some (Inr b) \<longleftrightarrow> (\<exists>a. m = Some (Inr a) \<and> f a = Some (Inr b))"
  by (auto simp: obind_def split: option.splits sum.splits)

lemma obind_cong [fundef_cong]:
  "m = m' \<Longrightarrow> (\<And>a. m' = Some (Inr a) \<Longrightarrow> f a = g a) \<Longrightarrow> obind m f = obind m' g"
  by (auto simp: obind_def split: option.splits sum.splits)

section \<open>Error numbers\<close>

datatype (plugins only: code size) errno =
    ERROR | EPERM | ENOENT | ESRCH | EINTR | EIO | ENXIO | E2BIG | ENOEXEC | EBADF | ECHILD
  | EAGAIN | ENOMEM | EACCES | EFAULT | ENOTBLK | EBUSY | EEXIST | EXDEV | ENODEV | ENOTDIR
  | EISDIR | EINVAL | ENFILE | EMFILE | ENOTTY | ETXTBSY | EFBIG | ENOSPC | ESPIPE | EROFS
  | EMLINK | EPIPE | EDOM | ERANGE | EDEADLK | ENAMETOOLONG | ENOLCK | ENOSYS | ENOTEMPTY
  | ERESTARTSYS | ERESTARTNOINTR

primrec errno_num :: "errno \<Rightarrow> u32" where
  "errno_num ERROR = 99"
| "errno_num EPERM = 1"
| "errno_num ENOENT = 2"
| "errno_num ESRCH = 3"
| "errno_num EINTR = 4"
| "errno_num EIO = 5"
| "errno_num ENXIO = 6"
| "errno_num E2BIG = 7"
| "errno_num ENOEXEC = 8"
| "errno_num EBADF = 9"
| "errno_num ECHILD = 10"
| "errno_num EAGAIN = 11"
| "errno_num ENOMEM = 12"
| "errno_num EACCES = 13"
| "errno_num EFAULT = 14"
| "errno_num ENOTBLK = 15"
| "errno_num EBUSY = 16"
| "errno_num EEXIST = 17"
| "errno_num EXDEV = 18"
| "errno_num ENODEV = 19"
| "errno_num ENOTDIR = 20"
| "errno_num EISDIR = 21"
| "errno_num EINVAL = 22"
| "errno_num ENFILE = 23"
| "errno_num EMFILE = 24"
| "errno_num ENOTTY = 25"
| "errno_num ETXTBSY = 26"
| "errno_num EFBIG = 27"
| "errno_num ENOSPC = 28"
| "errno_num ESPIPE = 29"
| "errno_num EROFS = 30"
| "errno_num EMLINK = 31"
| "errno_num EPIPE = 32"
| "errno_num EDOM = 33"
| "errno_num ERANGE = 34"
| "errno_num EDEADLK = 35"
| "errno_num ENAMETOOLONG = 36"
| "errno_num ENOLCK = 37"
| "errno_num ENOSYS = 38"
| "errno_num ENOTEMPTY = 39"
| "errno_num ERESTARTSYS = 512"
| "errno_num ERESTARTNOINTR = 513"

text \<open>The value of a \<open>return -EXXX\<close>.\<close>

abbreviation neg_errno :: "errno \<Rightarrow> u32" where
  "neg_errno e \<equiv> - errno_num e"

lemma neg_errno_negative: "neg_errno e <s 0"
  by (cases e) (simp_all add: word_sless_alt)

section \<open>Words\<close>

lemma unat_and_mask [word_facts]: "unat (w AND mask n :: 'a::len word) = unat w mod 2 ^ n"
  by (simp add: unsigned_and_eq unsigned_take_bit_eq flip: take_bit_eq_mask take_bit_eq_mod)

text \<open>A signed value that is not negative is the unsigned one.\<close>

lemma sint_nonneg:
  fixes w :: "'a::len word"
  assumes "0 \<le> sint w"
  shows "sint w = int (unat w)"
proof -
  have "uint w = take_bit LENGTH('a) (sint w)" by (simp add: uint_sint)
  also have "\<dots> = sint w"
  proof (rule take_bit_int_eq_self [OF assms])
    have "sint w < 2 ^ (LENGTH('a) - 1)" by (rule sint_lt)
    also have "\<dots> \<le> 2 ^ LENGTH('a)" by simp
    finally show "sint w < 2 ^ LENGTH('a)" .
  qed
  finally show ?thesis by simp
qed

lemma sint_of_nat_small: "n < 2 ^ (LENGTH('a) - 1) \<Longrightarrow> sint (of_nat n :: 'a::len word) = int n"
proof -
  assume "n < 2 ^ (LENGTH('a) - 1)"
  then have "int n < 2 ^ (LENGTH('a) - 1)"
    by (metis of_nat_less_iff of_nat_numeral of_nat_power)
  moreover have "- (2 ^ (LENGTH('a) - 1)) \<le> int n"
    by (rule order_trans [of _ 0]) simp_all
  ultimately have "signed_take_bit (LENGTH('a) - 1) (int n) = int n"
    by (intro signed_take_bit_int_eq_self)
  then show ?thesis by (simp add: signed_of_nat)
qed

lemma unat_of_nat_small: "n < 2 ^ LENGTH('a) \<Longrightarrow> unat (of_nat n :: 'a::len word) = n"
  by (simp add: unat_of_nat take_bit_nat_eq_self)

lemma unat_add_small:
  "unat a + n < 2 ^ LENGTH('a) \<Longrightarrow> unat (a + of_nat n :: 'a::len word) = unat a + n"
  by (metis unat_of_nat_small add_lessD1 add.commute unat_add_lem)

lemma word_offset_inj:
  assumes "i < 2 ^ LENGTH('a)" "j < 2 ^ LENGTH('a)" "a + of_nat i = (a + of_nat j :: 'a::len word)"
  shows "i = j"
  using assms by (metis add_left_cancel unat_of_nat_small)

end
