(* ===== verification/Strings.thy ===== *)
theory Strings
  imports Prelude "HOL-Library.Sublist"
begin

text \<open>
  The string library, \<open>lib/string.c\<close>. Almost every routine there is one \<open>asm\<close> statement, so
  the model has two layers: the x86 string instructions the statements use (\<open>repne scasb\<close>,
  \<open>repe cmpsb\<close>, \<open>rep movsb\<close>, \<open>rep stosb\<close>), with their registers and flags, and on top of them
  one definition per C function that follows its instructions. A loop of \<open>lodsb\<close> that stops
  at a zero byte may run for ever on memory that holds none, so it is a
  \<^theory_text>\<open>partial_function (option)\<close>: \<open>None\<close> is "does not return".

  The specification side is \<open>cstr m p xs\<close> (memory \<open>m\<close> holds the string \<open>xs\<close> at \<open>p\<close>),
  \<open>rd m p n\<close> (the \<open>n\<close> bytes at \<open>p\<close>) and \<open>wr m p xs\<close> (\<open>m\<close> with \<open>xs\<close> stored at \<open>p\<close>).
\<close>

section \<open>The string instructions\<close>

text \<open>
  \<open>repne scasb\<close>: compare \<open>al\<close> with the byte at \<open>edi\<close> until they are equal or \<open>ecx\<close> is zero.
  The result is \<open>edi\<close>, \<open>ecx\<close> and the zero flag; with \<open>ecx = 0\<close> no comparison is made and the
  flag is the one the instruction found.
\<close>

function repne_scasb :: "bmem \<Rightarrow> u8 \<Rightarrow> u32 \<Rightarrow> u32 \<Rightarrow> bool \<Rightarrow> u32 \<times> u32 \<times> bool" where
  "repne_scasb m al edi ecx zf =
     (if ecx = 0 then (edi, 0, zf)
      else if m edi = al then (edi + 1, ecx - 1, True)
      else repne_scasb m al (edi + 1) (ecx - 1) False)"
  by pat_completeness auto
termination
  by (relation "measure (\<lambda>(m, al, edi, ecx, zf). unat ecx)") (auto simp: measure_unat)

text \<open>
  \<open>repe cmpsb\<close>: compare the bytes at \<open>esi\<close> and \<open>edi\<close> until they differ or \<open>ecx\<close> is zero.
  The flags are ZF and "less" (SF differs from OF), which \<open>jl\<close> tests.
\<close>

function repe_cmpsb ::
  "bmem \<Rightarrow> u32 \<Rightarrow> u32 \<Rightarrow> u32 \<Rightarrow> bool \<times> bool \<Rightarrow> u32 \<times> u32 \<times> bool \<times> bool" where
  "repe_cmpsb m esi edi ecx flags =
     (if ecx = 0 then (esi, edi, flags)
      else if m esi \<noteq> m edi then (esi + 1, edi + 1, False, m esi <s m edi)
      else repe_cmpsb m (esi + 1) (edi + 1) (ecx - 1) (True, False))"
  by pat_completeness auto
termination
  by (relation "measure (\<lambda>(m, esi, edi, ecx, flags). unat ecx)") (auto simp: measure_unat)

text \<open>
  \<open>rep movsb\<close> copies \<open>ecx\<close> bytes from \<open>esi\<close> to \<open>edi\<close>; \<open>step\<close> is \<open>1\<close> after \<open>cld\<close> and \<open>-1\<close>
  after \<open>std\<close>. \<open>rep stosb\<close> (after \<open>cld\<close>) fills.
\<close>

function rep_movsb :: "u32 \<Rightarrow> bmem \<Rightarrow> u32 \<Rightarrow> u32 \<Rightarrow> u32 \<Rightarrow> bmem" where
  "rep_movsb step m esi edi ecx =
     (if ecx = 0 then m
      else rep_movsb step (m(edi := m esi)) (esi + step) (edi + step) (ecx - 1))"
  by pat_completeness auto
termination
  by (relation "measure (\<lambda>(step, m, esi, edi, ecx). unat ecx)") (auto simp: measure_unat)

function rep_stosb :: "bmem \<Rightarrow> u8 \<Rightarrow> u32 \<Rightarrow> u32 \<Rightarrow> bmem" where
  "rep_stosb m al edi ecx =
     (if ecx = 0 then m else rep_stosb (m(edi := al)) al (edi + 1) (ecx - 1))"
  by pat_completeness auto
termination
  by (relation "measure (\<lambda>(m, al, edi, ecx). unat ecx)") (auto simp: measure_unat)

declare repne_scasb.simps [simp del] repe_cmpsb.simps [simp del]
  rep_movsb.simps [simp del] rep_stosb.simps [simp del]

section \<open>The routines\<close>

partial_function (option) strcpy_loop :: "bmem \<Rightarrow> u32 \<Rightarrow> u32 \<Rightarrow> bmem option" where
  "strcpy_loop m esi edi =
     (let al = m esi; m' = m(edi := al) in
      if al \<noteq> 0 then strcpy_loop m' (esi + 1) (edi + 1) else Some m')"

definition strcpy :: "bmem \<Rightarrow> u32 \<Rightarrow> u32 \<Rightarrow> bmem option" where
  "strcpy m dest src = strcpy_loop m src dest"

text \<open>\<open>strncpy\<close>: \<open>decl\<close> and \<open>js\<close> on the count before each byte, then \<open>rep stosb\<close> of zeros.\<close>

function strncpy_loop :: "bmem \<Rightarrow> u32 \<Rightarrow> u32 \<Rightarrow> u32 \<Rightarrow> bmem" where
  "strncpy_loop m esi edi ecx =
     (let ecx' = ecx - 1 in
      if ecx' <s 0 then m
      else let al = m esi; m' = m(edi := al) in
        if al \<noteq> 0 then strncpy_loop m' (esi + 1) (edi + 1) ecx'
        else rep_stosb m' al (edi + 1) ecx')"
  by pat_completeness auto
termination
proof (relation "measure (\<lambda>(m, esi, edi, ecx). unat ecx)")
  fix m :: bmem and esi edi ecx ecx' :: u32
  assume "ecx' = ecx - 1" "\<not> ecx' <s 0"
  then have "ecx \<noteq> 0" by (auto simp: word_sless_alt)
  then show "((m', esi + 1, edi + 1, ecx'), m, esi, edi, ecx) \<in> measure (\<lambda>(m, esi, edi, ecx). unat ecx)"
    for m' using \<open>ecx' = ecx - 1\<close> by (simp add: measure_unat)
qed simp

definition strncpy :: "bmem \<Rightarrow> u32 \<Rightarrow> u32 \<Rightarrow> u32 \<Rightarrow> bmem" where
  "strncpy m dest src count = strncpy_loop m src dest count"

definition strcat :: "bmem \<Rightarrow> u32 \<Rightarrow> u32 \<Rightarrow> bmem option" where
  "strcat m dest src =
     (case repne_scasb m 0 dest 0xffffffff False of (edi, _, _) \<Rightarrow> strcpy_loop m src (edi - 1))"

function strncat_loop :: "bmem \<Rightarrow> u32 \<Rightarrow> u32 \<Rightarrow> u32 \<Rightarrow> bmem" where
  "strncat_loop m esi edi count =
     (let count' = count - 1 in
      if count' <s 0 then m(edi := 0)
      else let al = m esi; m' = m(edi := al) in
        if al \<noteq> 0 then strncat_loop m' (esi + 1) (edi + 1) count'
        else m'(edi + 1 := 0))"
  by pat_completeness auto
termination
proof (relation "measure (\<lambda>(m, esi, edi, ecx). unat ecx)")
  fix m :: bmem and esi edi ecx ecx' :: u32
  assume "ecx' = ecx - 1" "\<not> ecx' <s 0"
  then have "ecx \<noteq> 0" by (auto simp: word_sless_alt)
  then show "((m', esi + 1, edi + 1, ecx'), m, esi, edi, ecx) \<in> measure (\<lambda>(m, esi, edi, ecx). unat ecx)"
    for m' using \<open>ecx' = ecx - 1\<close> by (simp add: measure_unat)
qed simp

definition strncat :: "bmem \<Rightarrow> u32 \<Rightarrow> u32 \<Rightarrow> u32 \<Rightarrow> bmem" where
  "strncat m dest src count =
     (case repne_scasb m 0 dest 0xffffffff False of (edi, _, _) \<Rightarrow>
        strncat_loop m src (edi - 1) count)"

declare strncpy_loop.simps [simp del] strncat_loop.simps [simp del]

text \<open>\<open>lodsb\<close> reads \<open>ct\<close>, \<open>scasb\<close> compares it with \<open>cs\<close>; \<open>jl\<close> is a signed comparison.\<close>

partial_function (option) strcmp_loop :: "bmem \<Rightarrow> u32 \<Rightarrow> u32 \<Rightarrow> u32 option" where
  "strcmp_loop m esi edi =
     (let al = m esi in
      if al \<noteq> m edi then Some (if al <s m edi then 1 else - 1)
      else if al \<noteq> 0 then strcmp_loop m (esi + 1) (edi + 1)
      else Some 0)"

definition strcmp :: "bmem \<Rightarrow> u32 \<Rightarrow> u32 \<Rightarrow> u32 option" where
  "strcmp m cs ct = strcmp_loop m ct cs"

partial_function (option) strncmp_loop :: "bmem \<Rightarrow> u32 \<Rightarrow> u32 \<Rightarrow> u32 \<Rightarrow> u32 option" where
  "strncmp_loop m esi edi count =
     (let count' = count - 1; al = m esi in
      if count' <s 0 then Some 0
      else if al \<noteq> m edi then Some (if al <s m edi then 1 else - 1)
      else if al \<noteq> 0 then strncmp_loop m (esi + 1) (edi + 1) count'
      else Some 0)"

definition strncmp :: "bmem \<Rightarrow> u32 \<Rightarrow> u32 \<Rightarrow> u32 \<Rightarrow> u32 option" where
  "strncmp m cs ct count = strncmp_loop m ct cs count"

text \<open>A null pointer is the address 0, as in the code.\<close>

partial_function (option) strchr_loop :: "bmem \<Rightarrow> u8 \<Rightarrow> u32 \<Rightarrow> u32 option" where
  "strchr_loop m ah esi =
     (let al = m esi; esi' = esi + 1 in
      if al = ah then Some (esi' - 1)
      else if al \<noteq> 0 then strchr_loop m ah esi'
      else Some (1 - 1))"

definition strchr :: "bmem \<Rightarrow> u32 \<Rightarrow> u8 \<Rightarrow> u32 option" where
  "strchr m s c = strchr_loop m c s"

partial_function (option) strrchr_loop :: "bmem \<Rightarrow> u8 \<Rightarrow> u32 \<Rightarrow> u32 \<Rightarrow> u32 option" where
  "strrchr_loop m ah esi edx =
     (let al = m esi; esi' = esi + 1; edx' = (if al = ah then esi' - 1 else edx) in
      if al \<noteq> 0 then strrchr_loop m ah esi' edx' else Some edx')"

definition strrchr :: "bmem \<Rightarrow> u32 \<Rightarrow> u8 \<Rightarrow> u32 option" where
  "strrchr m s c = strrchr_loop m c s 0"

text \<open>
  The routines that look characters up in a second string first measure it with
  \<open>repne scasb\<close>, \<open>notl\<close>, \<open>decl\<close>, and then search it with another \<open>repne scasb\<close> over that many
  bytes. The flag passed to the search is the one \<open>testb %al,%al\<close> left, which is clear because
  the character is not zero.
\<close>

definition scan_len :: "bmem \<Rightarrow> u32 \<Rightarrow> u32" where
  "scan_len m ct = (case repne_scasb m 0 ct 0xffffffff False of (_, ecx, _) \<Rightarrow> NOT ecx - 1)"

definition scan_has :: "bmem \<Rightarrow> u32 \<Rightarrow> u32 \<Rightarrow> u8 \<Rightarrow> bool" where
  "scan_has m ct edx al = (case repne_scasb m al ct edx False of (_, _, zf) \<Rightarrow> zf)"

partial_function (option) strspn_loop :: "bmem \<Rightarrow> u32 \<Rightarrow> u32 \<Rightarrow> u32 \<Rightarrow> u32 option" where
  "strspn_loop m ct edx esi =
     (let al = m esi; esi' = esi + 1 in
      if al = 0 then Some (esi' - 1)
      else if scan_has m ct edx al then strspn_loop m ct edx esi'
      else Some (esi' - 1))"

definition strspn :: "bmem \<Rightarrow> u32 \<Rightarrow> u32 \<Rightarrow> u32 option" where
  "strspn m cs ct = map_option (\<lambda>res. res - cs) (strspn_loop m ct (scan_len m ct) cs)"

partial_function (option) strcspn_loop :: "bmem \<Rightarrow> u32 \<Rightarrow> u32 \<Rightarrow> u32 \<Rightarrow> u32 option" where
  "strcspn_loop m ct edx esi =
     (let al = m esi; esi' = esi + 1 in
      if al = 0 then Some (esi' - 1)
      else if \<not> scan_has m ct edx al then strcspn_loop m ct edx esi'
      else Some (esi' - 1))"

definition strcspn :: "bmem \<Rightarrow> u32 \<Rightarrow> u32 \<Rightarrow> u32 option" where
  "strcspn m cs ct = map_option (\<lambda>res. res - cs) (strcspn_loop m ct (scan_len m ct) cs)"

partial_function (option) strpbrk_loop :: "bmem \<Rightarrow> u32 \<Rightarrow> u32 \<Rightarrow> u32 \<Rightarrow> u32 option" where
  "strpbrk_loop m ct edx esi =
     (let al = m esi; esi' = esi + 1 in
      if al = 0 then Some 0
      else if \<not> scan_has m ct edx al then strpbrk_loop m ct edx esi'
      else Some (esi' - 1))"

definition strpbrk :: "bmem \<Rightarrow> u32 \<Rightarrow> u32 \<Rightarrow> u32 option" where
  "strpbrk m cs ct = strpbrk_loop m ct (scan_len m ct) cs"

text \<open>
  \<open>strstr\<close>: \<open>repe cmpsb\<close> of the whole second string at each position. The zero flag of the
  first comparison is the one \<open>decl\<close> left on the length, so an empty second string matches at
  once; later it is the one of \<open>cmpb $0,-1(%eax)\<close>, which is clear.
\<close>

partial_function (option) strstr_loop :: "bmem \<Rightarrow> u32 \<Rightarrow> u32 \<Rightarrow> bool \<Rightarrow> u32 \<Rightarrow> u32 option" where
  "strstr_loop m ct edx zf0 esi =
     (case repe_cmpsb m esi ct edx (zf0, False) of (esi', _, zf, _) \<Rightarrow>
        if zf then Some esi
        else if m (esi' - 1) \<noteq> 0 then strstr_loop m ct edx False (esi + 1)
        else Some 0)"

definition strstr :: "bmem \<Rightarrow> u32 \<Rightarrow> u32 \<Rightarrow> u32 option" where
  "strstr m cs ct = (let edx = scan_len m ct in strstr_loop m ct edx (edx = 0) cs)"

partial_function (option) strlen_loop :: "bmem \<Rightarrow> u32 \<Rightarrow> u32 option" where
  "strlen_loop m p = (if m p \<noteq> 0 then strlen_loop m (p + 1) else Some p)"

definition strlen :: "bmem \<Rightarrow> u32 \<Rightarrow> u32 option" where
  "strlen m s = map_option (\<lambda>p. p - s) (strlen_loop m s)"

definition memcpy :: "bmem \<Rightarrow> u32 \<Rightarrow> u32 \<Rightarrow> u32 \<Rightarrow> bmem" where
  "memcpy m dest src n = rep_movsb 1 m src dest n"

definition memmove :: "bmem \<Rightarrow> u32 \<Rightarrow> u32 \<Rightarrow> u32 \<Rightarrow> bmem" where
  "memmove m dest src n =
     (if dest < src then rep_movsb 1 m src dest n
      else rep_movsb (- 1) m (src + n - 1) (dest + n - 1) n)"

text \<open>
  \<open>memcmp\<close> tests the flags of \<open>repe cmpsb\<close>, which for a zero count are those of whatever the
  compiler put before the statement: they are an argument of the model.
\<close>

definition memcmp :: "bool \<times> bool \<Rightarrow> bmem \<Rightarrow> u32 \<Rightarrow> u32 \<Rightarrow> u32 \<Rightarrow> u32" where
  "memcmp flags m cs ct count =
     (case repe_cmpsb m ct cs count flags of (_, _, zf, lt) \<Rightarrow>
        if zf then 0 else if lt then 1 else - 1)"

definition memchr :: "bmem \<Rightarrow> u32 \<Rightarrow> u8 \<Rightarrow> u32 \<Rightarrow> u32" where
  "memchr m cs c count =
     (if count = 0 then 0
      else case repne_scasb m c cs count False of (edi, _, zf) \<Rightarrow>
        if zf then edi - 1 else 1 - 1)"

definition memset :: "bmem \<Rightarrow> u32 \<Rightarrow> u8 \<Rightarrow> u32 \<Rightarrow> bmem" where
  "memset m s c count = rep_stosb m c s count"

text \<open>
  \<open>strtok\<close>. Label 2 skips delimiters, label 3 runs to the next one; both loops report whether
  they stopped at such a character or at the terminating zero, and \<open>esi\<close> after the \<open>lodsb\<close>.
  The result is the token, the new \<open>___strtok\<close> and the memory, where the delimiter after the
  token has become a zero byte.
\<close>

partial_function (option) strtok_skip :: "bmem \<Rightarrow> u32 \<Rightarrow> u32 \<Rightarrow> u32 \<Rightarrow> (bool \<times> u32) option" where
  "strtok_skip m ct edx esi =
     (let al = m esi; esi' = esi + 1 in
      if al = 0 then Some (False, esi')
      else if scan_has m ct edx al then strtok_skip m ct edx esi'
      else Some (True, esi'))"

partial_function (option) strtok_run :: "bmem \<Rightarrow> u32 \<Rightarrow> u32 \<Rightarrow> u32 \<Rightarrow> (bool \<times> u32) option" where
  "strtok_run m ct edx esi =
     (let al = m esi; esi' = esi + 1 in
      if al = 0 then Some (False, esi')
      else if \<not> scan_has m ct edx al then strtok_run m ct edx esi'
      else Some (True, esi'))"

definition strtok :: "u32 \<Rightarrow> bmem \<Rightarrow> u32 \<Rightarrow> u32 \<Rightarrow> (u32 \<times> u32 \<times> bmem) option" where
  "strtok saved m s ct =
     (if s = 0 \<and> saved = 0 then Some (0, s, m)
      else let esi = (if s \<noteq> 0 then s else saved); edx = scan_len m ct in
        if edx = 0 then Some (0, 0, m)
        else Option.bind (strtok_skip m ct edx esi) (\<lambda>(found, esi).
          let esi = esi - 1 in
          if \<not> found \<or> m esi = 0 then Some (0, 0, m)
          else let res = esi in
            Option.bind (strtok_run m ct edx esi) (\<lambda>(found, esi').
              let esi' = esi' - 1;
                  (si, m') = (if \<not> found \<or> m esi' = 0 then (0, m) else (esi' + 1, m(esi' := 0))) in
              if m' res \<noteq> 0 then Some (res, si, m') else Some (0, 0, m'))))"

section \<open>Specification vocabulary\<close>

primrec cstr :: "bmem \<Rightarrow> u32 \<Rightarrow> u8 list \<Rightarrow> bool" where
  "cstr m p [] \<longleftrightarrow> m p = 0"
| "cstr m p (x # xs) \<longleftrightarrow> m p = x \<and> x \<noteq> 0 \<and> cstr m (p + 1) xs"

primrec wr :: "bmem \<Rightarrow> u32 \<Rightarrow> u8 list \<Rightarrow> bmem" where
  "wr m p [] = m"
| "wr m p (x # xs) = wr (m(p := x)) (p + 1) xs"

definition rd :: "bmem \<Rightarrow> u32 \<Rightarrow> nat \<Rightarrow> u8 list" where
  "rd m p n = map (\<lambda>i. m (p + of_nat i)) [0..<n]"

definition disjoint :: "u32 \<Rightarrow> nat \<Rightarrow> u32 \<Rightarrow> nat \<Rightarrow> bool" where
  "disjoint a n b k \<longleftrightarrow> (\<forall>i<n. \<forall>j<k. a + of_nat i \<noteq> b + of_nat j)"

lemma rd_0 [simp]: "rd m p 0 = []"
  by (simp add: rd_def)

lemma rd_Suc: "rd m p (Suc n) = m p # rd m (p + 1) n"
  by (simp add: rd_def upt_conv_Cons map_Suc_upt [symmetric] add.assoc del: upt_Suc map_Suc_upt)

lemma length_rd [simp]: "length (rd m p n) = n"
  by (simp add: rd_def)

lemma wr_other: "(\<And>i. i < length xs \<Longrightarrow> q \<noteq> p + of_nat i) \<Longrightarrow> wr m p xs q = m q"
proof (induction xs arbitrary: m p)
  case (Cons x xs)
  have "q \<noteq> p" using Cons.prems [of 0] by simp
  moreover have "q \<noteq> (p + 1) + of_nat i" if "i < length xs" for i
    using Cons.prems [of "Suc i"] that by (simp add: add.assoc)
  ultimately show ?case by (simp add: Cons.IH)
qed simp

lemma wr_nth:
  "i < length xs \<Longrightarrow> length xs \<le> 2 ^ 32 \<Longrightarrow> wr m p xs (p + of_nat i) = xs ! i"
proof (induction xs arbitrary: m p i)
  case (Cons x xs)
  show ?case
  proof (cases i)
    case 0
    have "p \<noteq> (p + 1) + of_nat j" if "j < length xs" for j
      using word_offset_inj [of 0 "Suc j" p] that Cons.prems by (auto simp: add.assoc)
    then show ?thesis by (simp add: 0 wr_other)
  next
    case (Suc k)
    then have "wr (m(p := x)) (p + 1) xs ((p + 1) + of_nat k) = xs ! k"
      using Cons.prems by (intro Cons.IH) auto
    then show ?thesis by (simp add: Suc add.assoc)
  qed
qed simp

text \<open>The two ways a forward copy loop builds \<open>wr\<close>: byte by byte, and all at once.\<close>

lemma wr_snoc: "wr m p (xs @ [x]) = (wr m p xs)(p + of_nat (length xs) := x)"
  by (induction xs arbitrary: m p) (simp_all add: add.assoc add.left_commute)

lemma cstr_nonzero: "cstr m p xs \<Longrightarrow> i < length xs \<Longrightarrow> m (p + of_nat i) = xs ! i \<and> xs ! i \<noteq> 0"
proof (induction xs arbitrary: p i)
  case (Cons x xs)
  then show ?case
    by (cases i) (auto simp: add.assoc dest: Cons.IH [of "p + 1"])
qed simp

lemma cstr_end: "cstr m p xs \<Longrightarrow> m (p + of_nat (length xs)) = 0"
proof (induction xs arbitrary: p)
  case (Cons x xs)
  then have "m ((p + 1) + of_nat (length xs)) = 0" by simp
  then show ?case by (simp add: add.assoc)
qed simp

lemma cstr_set: "cstr m p xs \<Longrightarrow> 0 \<notin> set xs"
  by (induction xs arbitrary: p) auto

lemma cstr_length: "cstr m p xs \<Longrightarrow> length xs < 2 ^ 32"
proof (rule ccontr)
  assume c: "cstr m p xs" and "\<not> length xs < 2 ^ 32"
  define i where "i = length xs mod 2 ^ 32"
  have "i < length xs" using \<open>\<not> length xs < 2 ^ 32\<close>
    using mod_less_divisor [of "2 ^ 32" "length xs"] by (simp add: i_def)
  moreover have "(of_nat i :: u32) = of_nat (length xs)"
    by (simp add: i_def word_of_nat_eq_iff take_bit_eq_mod)
  ultimately show False
    using cstr_nonzero [OF c, of i] cstr_end [OF c] by simp
qed

lemma cstr_cong_upd:
  "cstr m p xs \<Longrightarrow> (\<And>i. i \<le> length xs \<Longrightarrow> q \<noteq> p + of_nat i) \<Longrightarrow> cstr (m(q := v)) p xs"
proof (induction xs arbitrary: p)
  case Nil
  then show ?case using Nil.prems(2) [of 0] by auto
next
  case (Cons x xs)
  have "q \<noteq> p" using Cons.prems(2) [of 0] by simp
  moreover have "q \<noteq> (p + 1) + of_nat i" if "i \<le> length xs" for i
    using Cons.prems(2) [of "Suc i"] that by (simp add: add.assoc)
  ultimately show ?case using Cons.prems(1) Cons.IH [of "p + 1"] by auto
qed

lemma disjoint_above:
  "unat b + k \<le> unat a \<Longrightarrow> unat a + n \<le> 2 ^ 32 \<Longrightarrow> disjoint a n b k"
  unfolding disjoint_def
proof (intro allI impI notI)
  fix i j assume "unat b + k \<le> unat a" "unat a + n \<le> 2 ^ 32" "i < n" "j < k" "a + of_nat i = b + of_nat j"
  then have "unat (a + of_nat i) = unat a + i" "unat (b + of_nat j) = unat b + j"
    by (intro unat_add_small; simp)+
  with \<open>a + of_nat i = b + of_nat j\<close> have "unat a + i = unat b + j" by simp
  with \<open>unat b + k \<le> unat a\<close> \<open>j < k\<close> show False by linarith
qed

section \<open>Scanning\<close>

lemma strlen_loop_cstr: "cstr m p xs \<Longrightarrow> strlen_loop m p = Some (p + of_nat (length xs))"
  by (induction xs arbitrary: p) (simp_all add: strlen_loop.simps add.assoc)

lemma unat_dec: "ecx \<noteq> 0 \<Longrightarrow> unat (ecx - 1 :: u32) = unat ecx - 1"
  by (simp add: unat_minus_one)

lemma scasb_cstr:
  "cstr m p xs \<Longrightarrow> length xs < unat ecx \<Longrightarrow>
   repne_scasb m 0 p ecx zf = (p + of_nat (length xs) + 1, ecx - of_nat (length xs) - 1, True)"
proof (induction xs arbitrary: p ecx zf)
  case Nil
  then show ?case by (auto simp: repne_scasb.simps [of m 0 p ecx])
next
  case (Cons x xs)
  then have nz: "ecx \<noteq> 0" by auto
  then have "repne_scasb m 0 (p + 1) (ecx - 1) False =
      ((p + 1) + of_nat (length xs) + 1, (ecx - 1) - of_nat (length xs) - 1, True)"
    using Cons.prems by (intro Cons.IH) (auto simp: unat_dec)
  then show ?case using nz Cons.prems
    by (simp add: repne_scasb.simps [of m 0 p ecx] algebra_simps)
qed

lemma scan_len_cstr:
  assumes "cstr m ct ys" "length ys < 2 ^ 32 - 1"
  shows "scan_len m ct = of_nat (length ys)"
  using scasb_cstr [of m ct ys "0xffffffff" False] assms
  by (simp add: scan_len_def not_eq_complement)

lemma scasb_finds:
  "n < 2 ^ 32 \<Longrightarrow> snd (snd (repne_scasb m al p (of_nat n) zf)) = (if n = 0 then zf else al \<in> set (rd m p n))"
proof (induction n arbitrary: p zf)
  case 0
  then show ?case by (simp add: repne_scasb.simps)
next
  case (Suc n)
  have nz: "(of_nat (Suc n) :: u32) \<noteq> 0"
    using Suc.prems by (intro of_nat_neq_0) simp_all
  have "snd (snd (repne_scasb m al (p + 1) (of_nat n) False)) = (al \<in> set (rd m (p + 1) n))"
    using Suc.prems Suc.IH [of "p + 1" False] by (cases "n = 0") auto
  moreover have "of_nat (Suc n) - 1 = (of_nat n :: u32)" by simp
  ultimately show ?case using nz
    by (auto simp add: repne_scasb.simps [of m al p "of_nat (Suc n)"] rd_Suc simp del: of_nat_Suc)
qed

lemma rd_cstr: "cstr m p xs \<Longrightarrow> rd m p (length xs) = xs"
  by (induction xs arbitrary: p) (simp_all add: rd_Suc)

lemma scan_has_cstr:
  assumes "cstr m ct ys"
  shows "scan_has m ct (of_nat (length ys)) al \<longleftrightarrow> al \<in> set ys"
  using scasb_finds [of "length ys" m al ct False] cstr_length [OF assms]
  by (simp add: scan_has_def rd_cstr [OF assms] case_prod_unfold)

lemma strspn_loop_cstr:
  assumes ct: "cstr m ct ys"
  shows "cstr m p xs \<Longrightarrow> strspn_loop m ct (of_nat (length ys)) p =
    Some (p + of_nat (length (takeWhile (\<lambda>x. x \<in> set ys) xs)))"
proof (induction xs arbitrary: p)
  case Nil
  then show ?case by (simp add: strspn_loop.simps)
next
  case (Cons x xs)
  then show ?case
    by (subst strspn_loop.simps) (auto simp: scan_has_cstr [OF ct] Let_def add.assoc)
qed

lemma strcspn_loop_cstr:
  assumes ct: "cstr m ct ys"
  shows "cstr m p xs \<Longrightarrow> strcspn_loop m ct (of_nat (length ys)) p =
    Some (p + of_nat (length (takeWhile (\<lambda>x. x \<notin> set ys) xs)))"
proof (induction xs arbitrary: p)
  case Nil
  then show ?case by (simp add: strcspn_loop.simps)
next
  case (Cons x xs)
  then show ?case
    by (subst strcspn_loop.simps) (auto simp: scan_has_cstr [OF ct] Let_def add.assoc)
qed

section \<open>Copying\<close>

lemma wr_upd_commute:
  "(\<And>i. i < length xs \<Longrightarrow> q \<noteq> p + of_nat i) \<Longrightarrow> wr (m(q := v)) p xs = (wr m p xs)(q := v)"
proof (induction xs arbitrary: m p)
  case (Cons x xs)
  have "q \<noteq> p" using Cons.prems [of 0] by simp
  moreover have "q \<noteq> (p + 1) + of_nat i" if "i < length xs" for i
    using Cons.prems [of "Suc i"] that by (simp add: add.assoc)
  ultimately have "wr ((m(p := x))(q := v)) (p + 1) xs = (wr (m(p := x)) (p + 1) xs)(q := v)"
    and "(m(q := v))(p := x) = (m(p := x))(q := v)"
    by (auto intro: Cons.IH fun_upd_twist)
  then show ?case by (simp only: wr.simps)
qed simp

lemma rd_upd_other: "(\<And>i. i < n \<Longrightarrow> q \<noteq> p + of_nat i) \<Longrightarrow> rd (m(q := v)) p n = rd m p n"
  unfolding rd_def by (rule map_cong) (auto dest: not_sym)

lemma of_nat_Suc_nonzero: "Suc n < 2 ^ 32 \<Longrightarrow> (of_nat (Suc n) :: u32) \<noteq> 0"
  by (rule of_nat_neq_0) simp_all

lemma movsb_forward:
  assumes "n < 2 ^ 32" "\<And>i j. i < j \<Longrightarrow> j < n \<Longrightarrow> dest + of_nat i \<noteq> src + of_nat j"
  shows "rep_movsb 1 m src dest (of_nat n) = wr m dest (rd m src n)"
  using assms
proof (induction n arbitrary: m src dest)
  case 0
  then show ?case by (simp add: rep_movsb.simps)
next
  case (Suc n)
  have step: "dest \<noteq> (src + 1) + of_nat i" if "i < n" for i
    using Suc.prems(2) [of 0 "Suc i"] that by (simp add: add.assoc)
  have "rep_movsb 1 (m(dest := m src)) (src + 1) (dest + 1) (of_nat n) =
      wr (m(dest := m src)) (dest + 1) (rd (m(dest := m src)) (src + 1) n)"
  proof (rule Suc.IH)
    fix i j assume "i < j" "j < n"
    then show "(dest + 1) + of_nat i \<noteq> (src + 1) + of_nat j"
      using Suc.prems(2) [of "Suc i" "Suc j"] by (simp add: add.assoc)
  qed (use Suc.prems in simp)
  then show ?case using Suc.prems step
    by (simp add: rep_movsb.simps [of 1 m src dest] of_nat_Suc_nonzero rd_Suc rd_upd_other
        del: of_nat_Suc) (simp add: add.commute)
qed

lemma movsb_backward:
  assumes "n < 2 ^ 32" "\<And>i j. i < j \<Longrightarrow> j < n \<Longrightarrow> dest + of_nat j \<noteq> src + of_nat i"
  shows "rep_movsb (- 1) m (src + of_nat n - 1) (dest + of_nat n - 1) (of_nat n) = wr m dest (rd m src n)"
  using assms
proof (induction n arbitrary: m)
  case 0
  then show ?case by (simp add: rep_movsb.simps)
next
  case (Suc n)
  let ?m' = "m(dest + of_nat n := m (src + of_nat n))"
  have "rep_movsb (- 1) ?m' (src + of_nat n - 1) (dest + of_nat n - 1) (of_nat n) =
      wr ?m' dest (rd ?m' src n)"
    using Suc.prems by (intro Suc.IH) simp_all
  also have "rd ?m' src n = rd m src n"
    using Suc.prems(2) by (intro rd_upd_other) blast
  also have "wr ?m' dest (rd m src n) =
      (wr m dest (rd m src n))(dest + of_nat n := m (src + of_nat n))"
  proof (intro wr_upd_commute notI)
    fix i assume "i < length (rd m src n)" "dest + of_nat n = dest + of_nat i"
    then show False using word_offset_inj [of n i dest] Suc.prems(1) by simp
  qed
  also have "\<dots> = wr m dest (rd m src (Suc n))"
    using wr_snoc [of m dest "rd m src n" "m (src + of_nat n)"] by (simp add: rd_def)
  finally have "rep_movsb (- 1) ?m' (src + of_nat n - 1) (dest + of_nat n - 1) (of_nat n) =
      wr m dest (rd m src (Suc n))" .
  moreover have "rep_movsb (- 1) m (src + of_nat n) (dest + of_nat n) (of_nat (Suc n)) =
      rep_movsb (- 1) ?m' (src + of_nat n - 1) (dest + of_nat n - 1) (of_nat n)"
    using of_nat_Suc_nonzero [of n] Suc.prems(1)
    by (subst rep_movsb.simps) simp
  ultimately show ?case by (simp add: algebra_simps)
qed

lemma stosb_wr: "n < 2 ^ 32 \<Longrightarrow> rep_stosb m al p (of_nat n) = wr m p (replicate n al)"
proof (induction n arbitrary: m p)
  case 0
  then show ?case by (simp add: rep_stosb.simps)
next
  case (Suc n)
  then show ?case
    by (simp add: rep_stosb.simps [of m al p] of_nat_Suc_nonzero del: of_nat_Suc) (simp add: add.commute)
qed

lemma strcpy_loop_cstr:
  "cstr m src xs \<Longrightarrow> disjoint dest (Suc (length xs)) src (Suc (length xs)) \<Longrightarrow>
   strcpy_loop m src dest = Some (wr m dest (xs @ [0]))"
proof (induction xs arbitrary: m src dest)
  case Nil
  then show ?case by (simp add: strcpy_loop.simps fun_upd_def)
next
  case (Cons x xs)
  let ?m' = "m(dest := x)"
  have other: "dest \<noteq> (src + 1) + of_nat i" if "i \<le> length xs" for i
    using Cons.prems(2) [unfolded disjoint_def, rule_format, of 0 "Suc i"] that
    by (simp add: add.assoc)
  have "cstr ?m' (src + 1) xs"
    using Cons.prems(1) other cstr_cong_upd by simp
  moreover have "disjoint (dest + 1) (Suc (length xs)) (src + 1) (Suc (length xs))"
    unfolding disjoint_def
  proof (intro allI impI)
    fix i j assume "i < Suc (length xs)" "j < Suc (length xs)"
    then show "dest + 1 + of_nat i \<noteq> src + 1 + of_nat j"
      using Cons.prems(2) [unfolded disjoint_def, rule_format, of "Suc i" "Suc j"]
      by (simp add: add.assoc)
  qed
  ultimately have "strcpy_loop ?m' (src + 1) (dest + 1) = Some (wr ?m' (dest + 1) (xs @ [0]))"
    by (rule Cons.IH)
  then show ?case using Cons.prems(1) by (simp add: strcpy_loop.simps [of m src dest])
qed

text \<open>C20: \<open>memmove\<close> copies correctly also when the two ranges overlap: afterwards the \<open>n\<close>
  bytes at \<open>dest\<close> are those that were at \<open>src\<close>, and no other byte has changed. The ranges must
  not run past the end of the address space.\<close>

theorem memmove_overlap_safe:
  assumes "n < 2 ^ 32" "unat src + n \<le> 2 ^ 32" "unat dest + n \<le> 2 ^ 32"
  shows "memmove m dest src (of_nat n) = wr m dest (rd m src n)"
proof (cases "dest < src")
  case True
  have "rep_movsb 1 m src dest (of_nat n) = wr m dest (rd m src n)"
  proof (rule movsb_forward)
    fix i j assume "i < j" "j < n"
    then have "unat (dest + of_nat i) < unat (src + of_nat j)"
      using assms True by (simp add: unat_add_small word_less_nat_alt)
    then show "dest + of_nat i \<noteq> src + of_nat j" by auto
  qed fact
  with True show ?thesis by (simp add: memmove_def)
next
  case False
  have "rep_movsb (- 1) m (src + of_nat n - 1) (dest + of_nat n - 1) (of_nat n) = wr m dest (rd m src n)"
  proof (rule movsb_backward)
    fix i j assume "i < j" "j < n"
    then have "unat (src + of_nat i) < unat (dest + of_nat j)"
      using assms False by (simp add: unat_add_small word_less_nat_alt)
    then show "dest + of_nat j \<noteq> src + of_nat i" by auto
  qed fact
  with False show ?thesis by (simp add: memmove_def)
qed

theorem memmove_overlap_safe_witness:
  "memmove (\<lambda>a. ucast a) 11 10 3 = wr (\<lambda>a. ucast a) 11 [10, 11, 12]"
  using memmove_overlap_safe [of 3 10 11 "\<lambda>a. ucast a"]
  by (simp add: rd_def upt_rec)

section \<open>Comparing and searching\<close>

lemma strcmp_loop_cstr:
  "cstr m p ys \<Longrightarrow> cstr m q xs \<Longrightarrow> strcmp_loop m p q =
    Some (if ys = xs then 0
          else let k = length (longest_common_prefix (ys @ [0]) (xs @ [0])) in
            if (ys @ [0]) ! k <s (xs @ [0]) ! k then 1 else - 1)"
proof (induction ys arbitrary: p q xs)
  case Nil
  then show ?case by (cases xs) (auto simp: strcmp_loop.simps)
next
  case (Cons y ys)
  show ?case
  proof (cases xs)
    case Nil
    with Cons.prems show ?thesis by (auto simp: strcmp_loop.simps)
  next
    case (Cons x xs')
    with Cons.prems Cons.IH [of "p + 1" "q + 1" xs'] show ?thesis
      by (auto simp: strcmp_loop.simps [of m p q] Let_def)
  qed
qed

text \<open>C21: \<open>strcmp\<close> returns for any two strings: 0 exactly when they are equal, and otherwise 1 or
  -1 by the first byte at which they differ (the terminating zero included), compared as signed
  characters.\<close>

theorem strcmp_correct:
  assumes "cstr m cs xs" "cstr m ct ys"
  shows "strcmp m cs ct =
    Some (if ys = xs then 0
          else let k = length (longest_common_prefix (ys @ [0]) (xs @ [0])) in
            if (ys @ [0]) ! k <s (xs @ [0]) ! k then 1 else - 1)"
  unfolding strcmp_def using assms by (intro strcmp_loop_cstr)

theorem strcmp_correct_witness:
  "strcmp (wr (wr (\<lambda>_. 0) 100 [97, 98, 0]) 200 [97, 99, 0]) 100 200 = Some (- 1)"
  using strcmp_correct [of "wr (wr (\<lambda>_. 0) 100 [97, 98, 0]) 200 [97, 99, 0]" 100 "[97, 98]" 200 "[97, 99]"]
  by (simp add: word_sless_alt)

text \<open>The first position of a list at which another one starts.\<close>

primrec find_sub :: "'a list \<Rightarrow> 'a list \<Rightarrow> nat option" where
  "find_sub ys [] = (if ys = [] then Some 0 else None)"
| "find_sub ys (x # xs) = (if prefix ys (x # xs) then Some 0 else map_option Suc (find_sub ys xs))"

lemma find_sub_short: "length xs < length ys \<Longrightarrow> find_sub ys xs = None"
  by (induction xs) (auto dest: prefix_length_le)

lemma find_sub_iff:
  "find_sub ys xs = Some i \<longleftrightarrow> i \<le> length xs \<and> prefix ys (drop i xs) \<and> (\<forall>j<i. \<not> prefix ys (drop j xs))"
proof (induction xs arbitrary: i)
  case (Cons x xs)
  then show ?case
    by (cases i) (auto simp: less_Suc_eq_0_disj)
qed auto

lemma find_sub_None: "find_sub ys xs = None \<longleftrightarrow> (\<forall>i\<le>length xs. \<not> prefix ys (drop i xs))"
proof (induction xs)
  case (Cons x xs)
  have "(\<forall>i\<le>length (x # xs). \<not> prefix ys (drop i (x # xs))) \<longleftrightarrow>
      \<not> prefix ys (x # xs) \<and> (\<forall>i\<le>length xs. \<not> prefix ys (drop i xs))"
    by (metis Suc_le_mono bot_nat_0.extremum drop0 drop_Suc_Cons length_Cons old.nat.exhaust)
  with Cons show ?case by (simp del: length_Cons)
qed auto

lemma repe_cmpsb_cstr:
  "cstr m p xs \<Longrightarrow> cstr m q ys \<Longrightarrow> repe_cmpsb m p q (of_nat (length ys)) fl =
    (let k = length (longest_common_prefix xs ys) in
     if prefix ys xs then (p + of_nat k, q + of_nat k, if ys = [] then fl else (True, False))
     else (p + of_nat k + 1, q + of_nat k + 1, False, m (p + of_nat k) <s m (q + of_nat k)))"
proof (induction ys arbitrary: p q xs fl)
  case Nil
  then show ?case by (cases xs) (simp_all add: repe_cmpsb.simps)
next
  case (Cons y ys)
  have nz: "(of_nat (length (y # ys)) :: u32) \<noteq> 0"
    using cstr_length [OF Cons.prems(2)] by (simp add: of_nat_Suc_nonzero del: of_nat_Suc)
  have dec: "of_nat (length (y # ys)) - 1 = (of_nat (length ys) :: u32)" by simp
  show ?case
  proof (cases xs)
    case Nil
    with Cons.prems nz show ?thesis
      by (simp add: repe_cmpsb.simps [of m p q "of_nat (Suc (length ys))"] Let_def del: of_nat_Suc)
  next
    case xs: (Cons x xs')
    show ?thesis
    proof (cases "x = y")
      case False
      with xs Cons.prems nz show ?thesis
        by (simp add: repe_cmpsb.simps [of m p q "of_nat (Suc (length ys))"] Let_def del: of_nat_Suc)
    next
      case True
      then have "repe_cmpsb m p q (of_nat (length (y # ys))) fl =
          repe_cmpsb m (p + 1) (q + 1) (of_nat (length ys)) (True, False)"
        using xs Cons.prems nz dec by (subst repe_cmpsb.simps) simp
      then show ?thesis
        using True xs Cons.prems Cons.IH [of "p + 1" xs' "q + 1" "(True, False)"]
        by (simp add: Let_def algebra_simps)
    qed
  qed
qed

lemma strstr_loop_cstr:
  assumes ct: "cstr m ct ys" and ne: "ys \<noteq> []"
  shows "cstr m p xs \<Longrightarrow> strstr_loop m ct (of_nat (length ys)) zf p =
    Some (case find_sub ys xs of None \<Rightarrow> 0 | Some i \<Rightarrow> p + of_nat i)"
proof (induction xs arbitrary: p zf)
  case Nil
  then show ?case using ne by (simp add: strstr_loop.simps repe_cmpsb_cstr [OF Nil.prems ct] Let_def)
next
  case (Cons x xs)
  define k where "k = length (longest_common_prefix (x # xs) ys)"
  have kle: "k \<le> length (x # xs)" "k \<le> length ys" unfolding k_def
    by (rule prefix_length_le, rule longest_common_prefix_prefix1)
       (rule prefix_length_le, rule longest_common_prefix_prefix2)
  show ?case
  proof (cases "prefix ys (x # xs)")
    case True
    then show ?thesis using ne
      by (simp add: strstr_loop.simps repe_cmpsb_cstr [OF Cons.prems ct] Let_def)
  next
    case False
    have step: "strstr_loop m ct (of_nat (length ys)) zf p =
        (if m (p + of_nat k) \<noteq> 0 then strstr_loop m ct (of_nat (length ys)) False (p + 1) else Some 0)"
      using False by (simp add: strstr_loop.simps [of m ct _ zf p] repe_cmpsb_cstr [OF Cons.prems ct]
          Let_def flip: k_def)
    show ?thesis
    proof (cases "k < length (x # xs)")
      case True
      then have "m (p + of_nat k) \<noteq> 0" using cstr_nonzero [OF Cons.prems] by metis
      then show ?thesis using step False Cons.prems Cons.IH [of "p + 1" False]
        by (simp add: add.assoc split: option.splits)
    next
      case l: False
      then have k: "k = length (x # xs)" using kle by simp
      then have "longest_common_prefix (x # xs) ys = x # xs"
        using longest_common_prefix_prefix1 [of "x # xs" ys]
        by (metis k_def append_eq_conv_conj prefixE take_all_iff order_refl)
      then have "prefix (x # xs) ys" by (metis longest_common_prefix_prefix2)
      then have "length xs < length ys" using prefix_length_le by fastforce
      moreover have "m (p + of_nat k) = 0" using cstr_end [OF Cons.prems] k by simp
      ultimately show ?thesis using step False by (simp add: find_sub_short)
    qed
  qed
qed

text \<open>\<open>strstr\<close> returns the address of the first place at which the second string occurs in the
  first, and the null pointer when it occurs nowhere.\<close>

theorem strstr_correct:
  assumes "cstr m cs xs" "cstr m ct ys" "length ys < 2 ^ 32 - 1"
  shows "strstr m cs ct =
    Some (if \<exists>i\<le>length xs. prefix ys (drop i xs)
          then cs + of_nat (LEAST i. prefix ys (drop i xs)) else 0)"
proof -
  have "strstr m cs ct = Some (case find_sub ys xs of None \<Rightarrow> 0 | Some i \<Rightarrow> cs + of_nat i)"
  proof (cases "ys = []")
    case True
    then show ?thesis
      using scan_len_cstr [OF assms(2,3)]
      by (cases xs) (simp_all add: strstr_def strstr_loop.simps repe_cmpsb.simps)
  next
    case False
    then have "(of_nat (length ys) :: u32) \<noteq> 0" using assms(3) by (intro of_nat_neq_0) auto
    then show ?thesis
      using scan_len_cstr [OF assms(2,3)] strstr_loop_cstr [OF assms(2) False assms(1)]
      by (simp add: strstr_def)
  qed
  also have "\<dots> = Some (if \<exists>i\<le>length xs. prefix ys (drop i xs)
      then cs + of_nat (LEAST i. prefix ys (drop i xs)) else 0)"
  proof (cases "find_sub ys xs")
    case None
    then have "\<not> (\<exists>i\<le>length xs. prefix ys (drop i xs))"
      unfolding find_sub_None by blast
    then show ?thesis by (simp only: if_False None option.case)
  next
    case (Some i)
    then have "(LEAST i. prefix ys (drop i xs)) = i"
      unfolding find_sub_iff by (intro Least_equality) (auto simp: not_less [symmetric])
    moreover have "\<exists>i\<le>length xs. prefix ys (drop i xs)"
      using Some unfolding find_sub_iff by blast
    ultimately show ?thesis using Some by simp
  qed
  finally show ?thesis .
qed

theorem strstr_correct_witness:
  "\<exists>a. strstr (wr (wr (\<lambda>_. 0) 100 [97, 97, 98, 0]) 200 [97, 98, 0]) 100 200 = Some a \<and> a = 101"
proof -
  have "(LEAST i. prefix [97, 98] (drop i [97, 97, 98 :: u8])) = 1"
    by (rule Least_equality) (auto simp: Suc_le_eq intro!: gr0I)
  moreover have "\<exists>i\<le>length [97, 97, 98 :: u8]. prefix [97, 98] (drop i [97, 97, 98 :: u8])"
    by (rule exI [of _ 1]) simp
  ultimately show ?thesis
    using strstr_correct [of "wr (wr (\<lambda>_. 0) 100 [97, 97, 98, 0]) 200 [97, 98, 0]" 100 "[97, 97, 98]"
        200 "[97, 98]"] by simp
qed

section \<open>Bounded copying\<close>

lemma sless_dec: "n < 2 ^ 31 \<Longrightarrow> ((of_nat n - 1 :: u32) <s 0) \<longleftrightarrow> n = 0"
proof (cases n)
  case (Suc k)
  assume "n < 2 ^ 31"
  then have "sint (of_nat k :: u32) = int k"
    using Suc by (simp add: signed_of_nat signed_take_bit_int_eq_self)
  then show ?thesis by (simp add: Suc word_sless_alt)
qed (simp add: word_sless_alt)

lemma strncpy_loop_cstr:
  "cstr m src xs \<Longrightarrow> n < 2 ^ 31 \<Longrightarrow> disjoint dest n src (Suc (length xs)) \<Longrightarrow>
   strncpy_loop m src dest (of_nat n) = wr m dest (take n (xs @ replicate n 0))"
proof (induction n arbitrary: m src dest xs)
  case 0
  then show ?case by (simp add: strncpy_loop.simps word_sless_alt)
next
  case (Suc n)
  have dec: "of_nat (Suc n) - 1 = (of_nat n :: u32)" by simp
  have go: "\<not> (of_nat n :: u32) <s 0"
    using sless_dec [OF Suc.prems(2)] by simp
  show ?case
  proof (cases xs)
    case Nil
    then have "m src = 0" using Suc.prems(1) by simp
    then show ?thesis using go Suc.prems(2)
      by (subst strncpy_loop.simps) (simp add: Nil dec Let_def stosb_wr del: of_nat_Suc)
  next
    case (Cons x xs')
    have other: "dest \<noteq> (src + 1) + of_nat i" if "i \<le> length xs'" for i
      using Suc.prems(3) [unfolded disjoint_def, rule_format, of 0 "Suc i"] that Cons
      by (simp add: add.assoc)
    have "cstr (m(dest := x)) (src + 1) xs'"
      using Suc.prems(1) other cstr_cong_upd Cons by simp
    moreover have "n < 2 ^ 31" using Suc.prems(2) by simp
    moreover have "disjoint (dest + 1) n (src + 1) (Suc (length xs'))"
      unfolding disjoint_def
    proof (intro allI impI)
      fix i j assume "i < n" "j < Suc (length xs')"
      then show "dest + 1 + of_nat i \<noteq> src + 1 + of_nat j"
        using Suc.prems(3) [unfolded disjoint_def, rule_format, of "Suc i" "Suc j"] Cons
        by (simp add: add.assoc)
    qed
    ultimately have "strncpy_loop (m(dest := x)) (src + 1) (dest + 1) (of_nat n) =
        wr (m(dest := x)) (dest + 1) (take n (xs' @ replicate n 0))"
      by (rule Suc.IH)
    moreover have "take n (xs' @ 0 # replicate n 0) = take n (xs' @ replicate n (0 :: u8))"
    proof (cases "n \<le> length xs'")
      case False
      then obtain k where "n = Suc (length xs' + k)"
        using less_imp_Suc_add by (metis not_le)
      then show ?thesis by (simp add: min_def flip: replicate_Suc)
    qed simp
    ultimately show ?thesis using go Suc.prems(1) Cons
      by (subst strncpy_loop.simps) (simp add: dec Let_def del: of_nat_Suc)
  qed
qed

text \<open>\<open>strncpy\<close> writes exactly \<open>count\<close> bytes: the string cut at \<open>count\<close>, padded with zeros to
  \<open>count\<close>, so that the result is not terminated when the source is too long.\<close>

theorem strncpy_correct:
  assumes "cstr m src xs" "n < 2 ^ 31" "disjoint dest n src (Suc (length xs))"
  shows "strncpy m dest src (of_nat n) = wr m dest (take n (xs @ replicate n 0))"
  unfolding strncpy_def using assms by (rule strncpy_loop_cstr)

theorem strncpy_correct_witness:
  "strncpy (wr (\<lambda>_. 0) 100 [97, 98, 0]) 200 100 4 = wr (wr (\<lambda>_. 0) 100 [97, 98, 0]) 200 [97, 98, 0, 0]"
  using strncpy_correct [of "wr (\<lambda>_. 0) 100 [97, 98, 0]" 100 "[97, 98]" 4 200]
    replicate_Suc [of 1 "0 :: u8"]
  by (simp add: disjoint_above numeral_2_eq_2 [symmetric])

section \<open>The remaining routines on strings\<close>

lemma strlen_cstr: "cstr m s xs \<Longrightarrow> strlen m s = Some (of_nat (length xs))"
  by (simp add: strlen_def strlen_loop_cstr)

lemma strcpy_cstr:
  "cstr m src xs \<Longrightarrow> disjoint dest (Suc (length xs)) src (Suc (length xs)) \<Longrightarrow>
   strcpy m dest src = Some (wr m dest (xs @ [0]))"
  unfolding strcpy_def by (rule strcpy_loop_cstr)

lemma strcat_cstr:
  assumes "cstr m dest ds" "cstr m src xs" "length ds < 2 ^ 32 - 1"
    "disjoint (dest + of_nat (length ds)) (Suc (length xs)) src (Suc (length xs))"
  shows "strcat m dest src = Some (wr m (dest + of_nat (length ds)) (xs @ [0]))"
  using scasb_cstr [OF assms(1), of "0xffffffff" False] assms(3) strcpy_loop_cstr [OF assms(2,4)]
  by (simp add: strcat_def)

lemma strspn_cstr:
  assumes "cstr m cs xs" "cstr m ct ys" "length ys < 2 ^ 32 - 1"
  shows "strspn m cs ct = Some (of_nat (length (takeWhile (\<lambda>x. x \<in> set ys) xs)))"
    "strcspn m cs ct = Some (of_nat (length (takeWhile (\<lambda>x. x \<notin> set ys) xs)))"
  using assms
  by (simp_all add: strspn_def strcspn_def scan_len_cstr strspn_loop_cstr strcspn_loop_cstr)

lemma memset_wr: "n < 2 ^ 32 \<Longrightarrow> memset m s c (of_nat n) = wr m s (replicate n c)"
  by (simp add: memset_def stosb_wr)

end
