(* ===== verification/Task.thy ===== *)
theory Task
  imports Prelude
begin

text \<open>
  The process table and the task structure: \<open>include/linux/sched.h\<close> and \<open>include/signal.h\<close>.
  A \<open>struct task_struct *\<close> is the address of the structure (\<open>tptr\<close>, the null pointer is 0); the
  kernel state keeps the structures in \<open>tcb\<close>, the array \<open>task\<close> of pointers, and the globals of
  \<open>kernel/sched.c\<close> and \<open>kernel/fork.c\<close>. The same address space of pointers is used for the i-nodes
  and open files a task holds.
\<close>

section \<open>Constants\<close>

definition HZ :: u32 where "HZ = 100"
definition NR_TASKS :: nat where "NR_TASKS = 64"
definition TASK_SIZE :: u32 where "TASK_SIZE = 0x04000000"
definition NR_OPEN :: nat where "NR_OPEN = 20"
definition NGROUPS :: nat where "NGROUPS = 32"
definition NOGROUP :: u32 where "NOGROUP = 0xffffffff"

definition TASK_RUNNING :: u32 where "TASK_RUNNING = 0"
definition TASK_INTERRUPTIBLE :: u32 where "TASK_INTERRUPTIBLE = 1"
definition TASK_UNINTERRUPTIBLE :: u32 where "TASK_UNINTERRUPTIBLE = 2"
definition TASK_ZOMBIE :: u32 where "TASK_ZOMBIE = 3"
definition TASK_STOPPED :: u32 where "TASK_STOPPED = 4"

lemmas task_state_defs =
  TASK_RUNNING_def TASK_INTERRUPTIBLE_def TASK_UNINTERRUPTIBLE_def TASK_ZOMBIE_def TASK_STOPPED_def

text \<open>The signal numbers the kernel itself uses, and the flags of \<open>sa_flags\<close>.\<close>

datatype (plugins only: code size) signame =
    SIGHUP | SIGINT | SIGQUIT | SIGILL | SIGTRAP | SIGIOT | SIGFPE | SIGKILL | SIGUSR1 | SIGSEGV
  | SIGUSR2 | SIGPIPE | SIGALRM | SIGTERM | SIGSTKFLT | SIGCHLD | SIGCONT | SIGSTOP | SIGTSTP
  | SIGTTIN | SIGTTOU

primrec signo :: "signame \<Rightarrow> u32" where
  "signo SIGHUP = 1"
| "signo SIGINT = 2"
| "signo SIGQUIT = 3"
| "signo SIGILL = 4"
| "signo SIGTRAP = 5"
| "signo SIGIOT = 6"
| "signo SIGFPE = 8"
| "signo SIGKILL = 9"
| "signo SIGUSR1 = 10"
| "signo SIGSEGV = 11"
| "signo SIGUSR2 = 12"
| "signo SIGPIPE = 13"
| "signo SIGALRM = 14"
| "signo SIGTERM = 15"
| "signo SIGSTKFLT = 16"
| "signo SIGCHLD = 17"
| "signo SIGCONT = 18"
| "signo SIGSTOP = 19"
| "signo SIGTSTP = 20"
| "signo SIGTTIN = 21"
| "signo SIGTTOU = 22"

definition SA_NOCLDSTOP :: u32 where "SA_NOCLDSTOP = 1"
definition SA_INTERRUPT :: u32 where "SA_INTERRUPT = 0x20000000"
definition SA_NOMASK :: u32 where "SA_NOMASK = 0x40000000"
definition SA_ONESHOT :: u32 where "SA_ONESHOT = 0x80000000"

lemmas sa_flag_defs = SA_NOCLDSTOP_def SA_INTERRUPT_def SA_NOMASK_def SA_ONESHOT_def

text \<open>\<open>1<<(sig-1)\<close>: on the machine a shift count is taken modulo 32.\<close>

definition sigbit :: "u32 \<Rightarrow> u32" where
  "sigbit sig = push_bit (unat (sig - 1) mod 32) 1"

section \<open>The task structure\<close>

type_synonym tptr = u32

record sigaction =
  sa_handler :: u32
  sa_mask :: u32
  sa_flags :: u32
  sa_restorer :: u32

record tss_struct =
  tss_back_link :: u32
  tss_esp0 :: u32
  tss_ss0 :: u32
  tss_esp1 :: u32
  tss_ss1 :: u32
  tss_esp2 :: u32
  tss_ss2 :: u32
  tss_cr3 :: u32
  tss_eip :: u32
  tss_eflags :: u32
  tss_eax :: u32
  tss_ecx :: u32
  tss_edx :: u32
  tss_ebx :: u32
  tss_esp :: u32
  tss_ebp :: u32
  tss_esi :: u32
  tss_edi :: u32
  tss_es :: u32
  tss_cs :: u32
  tss_ss :: u32
  tss_ds :: u32
  tss_fs :: u32
  tss_gs :: u32
  tss_ldt :: u32
  tss_trace_bitmap :: u32

record task_struct =
  t_state :: u32
  t_counter :: u32
  t_priority :: u32
  t_signal :: u32
  t_sigaction :: "sigaction list"
  t_blocked :: u32
  t_exit_code :: u32
  t_start_code :: u32
  t_end_code :: u32
  t_end_data :: u32
  t_brk :: u32
  t_start_stack :: u32
  t_pid :: u32
  t_pgrp :: u32
  t_session :: u32
  t_leader :: u32
  t_groups :: "u32 list"
  t_p_pptr :: tptr
  t_p_cptr :: tptr
  t_p_ysptr :: tptr
  t_p_osptr :: tptr
  t_uid :: u16
  t_euid :: u16
  t_suid :: u16
  t_gid :: u16
  t_egid :: u16
  t_sgid :: u16
  t_timeout :: u32
  t_alarm :: u32
  t_utime :: u32
  t_stime :: u32
  t_cutime :: u32
  t_cstime :: u32
  t_start_time :: u32
  t_flags :: u32
  t_used_math :: u16
  t_tty :: u32
  t_umask :: u16
  t_pwd :: u32
  t_root :: u32
  t_executable :: u32
  t_library :: u32
  t_close_on_exec :: u32
  t_filp :: "u32 list"
  t_ldt :: "(u32 \<times> u32) list"
  t_tss :: tss_struct

section \<open>The kernel state\<close>

text \<open>\<open>klog\<close> collects what \<open>printk\<close> is called with, the newest message last.\<close>

record kern =
  task :: "tptr list"
  tcb :: "tptr \<Rightarrow> task_struct"
  current :: tptr
  jiffies :: u32
  startup_time :: u32
  last_pid :: u32
  klog :: "string list"

definition upd :: "tptr \<Rightarrow> (task_struct \<Rightarrow> task_struct) \<Rightarrow> kern \<Rightarrow> kern" where
  "upd p f k = k\<lparr>tcb := (tcb k)(p := f (tcb k p))\<rparr>"

lemma upd_simps [simp]:
  "task (upd p f k) = task k"
  "current (upd p f k) = current k"
  "jiffies (upd p f k) = jiffies k"
  "startup_time (upd p f k) = startup_time k"
  "last_pid (upd p f k) = last_pid k"
  "klog (upd p f k) = klog k"
  "tcb (upd p f k) q = (if q = p then f (tcb k p) else tcb k q)"
  by (simp_all add: upd_def)

lemma upd_same: "(\<And>t. f t = t) \<Longrightarrow> upd p f k = k"
  by (simp add: upd_def)

abbreviation cur :: "kern \<Rightarrow> task_struct" where
  "cur k \<equiv> tcb k (current k)"

text \<open>
  The process table invariant every component relies on: 64 slots, slot 0 holds the initial
  task, the pointers in use are distinct, and the running task is one of them.
\<close>

definition slots :: "kern \<Rightarrow> tptr set" where
  "slots k = set (task k) - {0}"

definition table_ok :: "kern \<Rightarrow> bool" where
  "table_ok k \<longleftrightarrow> length (task k) = NR_TASKS \<and> task k ! 0 \<noteq> 0 \<and>
     distinct (filter (\<lambda>p. p \<noteq> 0) (task k)) \<and> current k \<in> slots k"

end
