(* ===== verification/Sched.thy ===== *)
theory Sched
  imports Task
begin

text \<open>
  The scheduler, \<open>schedule\<close> of \<open>kernel/sched.c\<close>, and the small system calls of that file and
  \<open>kernel/sys.c\<close> that read and write the current task. \<open>schedule\<close> first looks for expired
  timeouts and alarms and for deliverable signals, then picks the runnable task with the most time
  left, recharging all counters when every runnable task has used its time up.

  The endless loop of the C function is a \<^theory_text>\<open>partial_function (option)\<close>; that it ends is proved
  for positive priorities. \<open>switch_to\<close> only changes \<open>current\<close> here: the state after \<open>schedule\<close> is the
  one in which the chosen task goes on running after its own call of \<open>schedule\<close>.
\<close>

section \<open>The loops of schedule\<close>

definition BLOCKABLE :: u32 where
  "BLOCKABLE = NOT (sigbit (signo SIGKILL) OR sigbit (signo SIGSTOP))"

definition wake_task :: "u32 \<Rightarrow> task_struct \<Rightarrow> task_struct" where
  "wake_task jiffs t =
     (let t1 = (if t_timeout t \<noteq> 0 \<and> t_timeout t < jiffs
                then t\<lparr>t_timeout := 0,
                       t_state := (if t_state t = TASK_INTERRUPTIBLE then TASK_RUNNING else t_state t)\<rparr>
                else t);
          t2 = (if t_alarm t1 \<noteq> 0 \<and> t_alarm t1 < jiffs
                then t1\<lparr>t_signal := t_signal t1 OR sigbit (signo SIGALRM), t_alarm := 0\<rparr>
                else t1)
      in if t_signal t2 AND NOT (BLOCKABLE AND t_blocked t2) \<noteq> 0 \<and> t_state t2 = TASK_INTERRUPTIBLE
         then t2\<lparr>t_state := TASK_RUNNING\<rparr> else t2)"

text \<open>\<open>for (p = &LAST_TASK; p > &FIRST_TASK; --p)\<close>: the pointers of the slots from the last down to 1.\<close>

definition tasks_down :: "kern \<Rightarrow> tptr list" where
  "tasks_down k = rev (tl (task k))"

definition sched_wake :: "kern \<Rightarrow> kern" where
  "sched_wake k = fold (\<lambda>p k. if p \<noteq> 0 then upd p (wake_task (jiffies k)) k else k) (tasks_down k) k"

fun pick_loop :: "kern \<Rightarrow> nat \<Rightarrow> u32 \<Rightarrow> nat \<Rightarrow> u32 \<times> nat" where
  "pick_loop k 0 c nxt = (c, nxt)"
| "pick_loop k (Suc i) c nxt =
     (if i = 0 then (c, nxt)
      else let p = task k ! i in
        if p = 0 then pick_loop k i c nxt
        else if t_state (tcb k p) = TASK_RUNNING \<and> c <s t_counter (tcb k p)
        then pick_loop k i (t_counter (tcb k p)) i
        else pick_loop k i c nxt)"

text \<open>\<open>counter >> 1\<close> is an arithmetic shift, the counter being signed.\<close>

definition recharge_task :: "task_struct \<Rightarrow> task_struct" where
  "recharge_task t = t\<lparr>t_counter := signed_drop_bit 1 (t_counter t) + t_priority t\<rparr>"

definition recharge :: "kern \<Rightarrow> kern" where
  "recharge k = fold (\<lambda>p k. if p = 0 then k else upd p recharge_task k) (tasks_down k) k"

partial_function (option) sched_loop :: "kern \<Rightarrow> (kern \<times> nat) option" where
  "sched_loop k =
     (case pick_loop k NR_TASKS (- 1) 0 of (c, nxt) \<Rightarrow>
        if c \<noteq> 0 then Some (k, nxt) else sched_loop (recharge k))"

definition switch_to :: "nat \<Rightarrow> kern \<Rightarrow> kern" where
  "switch_to n k = (if current k = task k ! n then k else k\<lparr>current := task k ! n\<rparr>)"

definition schedule :: "kern \<Rightarrow> kern option" where
  "schedule k = map_option (\<lambda>(k, nxt). switch_to nxt k) (sched_loop (sched_wake k))"

section \<open>Loops over the task table\<close>

lemma fold_upd_frame:
  "task (fold (\<lambda>p k. if P p then upd p (f (jiffies k)) k else k) ps k) = task k"
  "current (fold (\<lambda>p k. if P p then upd p (f (jiffies k)) k else k) ps k) = current k"
  "jiffies (fold (\<lambda>p k. if P p then upd p (f (jiffies k)) k else k) ps k) = jiffies k"
  "last_pid (fold (\<lambda>p k. if P p then upd p (f (jiffies k)) k else k) ps k) = last_pid k"
  "startup_time (fold (\<lambda>p k. if P p then upd p (f (jiffies k)) k else k) ps k) = startup_time k"
  "klog (fold (\<lambda>p k. if P p then upd p (f (jiffies k)) k else k) ps k) = klog k"
  by (induction ps arbitrary: k) simp_all

lemma fold_upd_tcb:
  assumes "distinct (filter P ps)"
  shows "tcb (fold (\<lambda>p k. if P p then upd p (f (jiffies k)) k else k) ps k) q =
    (if q \<in> set ps \<and> P q then f (jiffies k) (tcb k q) else tcb k q)"
  using assms
proof (induction ps arbitrary: k)
  case (Cons p ps)
  then show ?case by auto
qed simp

lemma table_tl:
  assumes "table_ok k"
  obtains p where "task k = p # tl (task k)" "p \<noteq> 0" "p \<notin> set (tl (task k))"
    "distinct (filter (\<lambda>p. p \<noteq> 0) (tl (task k)))" "length (tl (task k)) = 63"
proof -
  obtain p ps where t: "task k = p # ps"
    using assms by (cases "task k") (auto simp: table_ok_def NR_TASKS_def)
  with assms that show ?thesis by (auto simp: table_ok_def NR_TASKS_def)
qed

lemma set_tasks_down: "set (tasks_down k) = set (tl (task k))"
  by (simp add: tasks_down_def)

lemma distinct_tasks_down: "table_ok k \<Longrightarrow> distinct (filter (\<lambda>p. p \<noteq> 0) (tasks_down k))"
  by (erule table_tl) (simp add: tasks_down_def flip: rev_filter)

text \<open>The tasks other than task 0.\<close>

definition others :: "kern \<Rightarrow> tptr set" where
  "others k = set (tl (task k)) - {0}"

lemma sched_wake_frame [simp]:
  "task (sched_wake k) = task k" "current (sched_wake k) = current k"
  "jiffies (sched_wake k) = jiffies k" "last_pid (sched_wake k) = last_pid k"
  "startup_time (sched_wake k) = startup_time k" "klog (sched_wake k) = klog k"
  by (simp_all add: sched_wake_def fold_upd_frame [where f = wake_task])

lemma sched_wake_tcb:
  "table_ok k \<Longrightarrow> tcb (sched_wake k) q = (if q \<in> others k then wake_task (jiffies k) (tcb k q) else tcb k q)"
  by (simp add: sched_wake_def fold_upd_tcb [OF distinct_tasks_down, where f = wake_task] set_tasks_down others_def)

lemma recharge_eq: "recharge k = fold (\<lambda>p k. if p \<noteq> 0 then upd p ((\<lambda>_. recharge_task) (jiffies k)) k else k) (tasks_down k) k"
  unfolding recharge_def by (rule arg_cong [of _ _ "\<lambda>f. fold f (tasks_down k) k"]) (auto simp: fun_eq_iff)

lemma recharge_frame [simp]:
  "task (recharge k) = task k" "current (recharge k) = current k"
  "jiffies (recharge k) = jiffies k" "last_pid (recharge k) = last_pid k"
  "startup_time (recharge k) = startup_time k" "klog (recharge k) = klog k"
  unfolding recharge_eq fold_upd_frame [where f = "\<lambda>_. recharge_task"] by (rule refl)+

lemma recharge_tcb:
  "table_ok k \<Longrightarrow> tcb (recharge k) q = (if q \<in> others k then recharge_task (tcb k q) else tcb k q)"
  unfolding recharge_eq fold_upd_tcb [OF distinct_tasks_down, where f = "\<lambda>_. recharge_task"]
  by (simp add: set_tasks_down others_def)

lemma table_ok_sched [simp]:
  "table_ok (sched_wake k) = table_ok k" "table_ok (recharge k) = table_ok k"
  "others (sched_wake k) = others k" "others (recharge k) = others k"
  by (simp_all add: table_ok_def slots_def others_def)

lemma table_nth_others:
  assumes "table_ok k" "0 < i" "i < NR_TASKS" "task k ! i \<noteq> 0"
  shows "task k ! i \<in> others k"
proof -
  obtain p ps where t: "task k = p # ps"
    using assms by (cases "task k") (auto simp: table_ok_def NR_TASKS_def)
  then have "task k ! i = ps ! (i - 1)" "i - 1 < length ps"
    using assms by (auto simp: nth_Cons' table_ok_def NR_TASKS_def)
  then have "task k ! i \<in> set ps" by simp
  with assms(4) t show ?thesis by (simp add: others_def)
qed

section \<open>What the loops compute\<close>

definition runnable :: "kern \<Rightarrow> nat \<Rightarrow> bool" where
  "runnable k i \<longleftrightarrow> 0 < i \<and> task k ! i \<noteq> 0 \<and> t_state (tcb k (task k ! i)) = TASK_RUNNING"

definition ctr :: "kern \<Rightarrow> nat \<Rightarrow> int" where
  "ctr k i = sint (t_counter (tcb k (task k ! i)))"

text \<open>\<open>best k n m\<close>: slot \<open>m\<close> is the last one below \<open>n\<close> whose runnable task has the largest counter.\<close>

definition best :: "kern \<Rightarrow> nat \<Rightarrow> nat \<Rightarrow> bool" where
  "best k n m \<longleftrightarrow> m < n \<and> runnable k m \<and>
     (\<forall>i<n. runnable k i \<longrightarrow> ctr k i < ctr k m \<or> ctr k i = ctr k m \<and> i \<le> m)"

lemma pick_loop_spec:
  "pick_loop k n c nxt = (c', m) \<Longrightarrow>
     (c' = c \<and> m = nxt \<and> (\<forall>i<n. runnable k i \<longrightarrow> ctr k i \<le> sint c)) \<or>
     (c' = t_counter (tcb k (task k ! m)) \<and> sint c < ctr k m \<and> best k n m)"
proof (induction n arbitrary: c nxt)
  case (Suc i)
  show ?case
  proof (cases "runnable k i \<and> sint c < ctr k i")
    case True
    then have step: "pick_loop k i (t_counter (tcb k (task k ! i))) i = (c', m)"
      using Suc.prems by (simp add: runnable_def ctr_def word_sless_alt Let_def)
    from Suc.IH [OF step] show ?thesis
    proof
      assume "c' = t_counter (tcb k (task k ! i)) \<and> m = i \<and>
        (\<forall>j<i. runnable k j \<longrightarrow> ctr k j \<le> sint (t_counter (tcb k (task k ! i))))"
      with True show ?thesis by (auto simp: best_def ctr_def less_Suc_eq le_less)
    next
      assume "c' = t_counter (tcb k (task k ! m)) \<and>
        sint (t_counter (tcb k (task k ! i))) < ctr k m \<and> best k i m"
      with True show ?thesis by (auto simp: best_def less_Suc_eq ctr_def [of k i, symmetric])
    qed
  next
    case False
    then have step: "i \<noteq> 0 \<Longrightarrow> pick_loop k i c nxt = (c', m)"
      using Suc.prems by (auto simp: runnable_def ctr_def word_sless_alt Let_def split: if_splits)
    show ?thesis
    proof (cases "i = 0")
      case True
      with Suc.prems show ?thesis by (auto simp: runnable_def)
    next
      case i: False
      from Suc.IH [OF step [OF i]] False show ?thesis
        by (fastforce simp: best_def less_Suc_eq not_less)
    qed
  qed
qed simp

text \<open>Counters and priorities in the ranges the kernel keeps them in.\<close>

definition sched_ok :: "kern \<Rightarrow> bool" where
  "sched_ok k \<longleftrightarrow> table_ok k \<and> (\<forall>p\<in>others k.
     0 \<le> sint (t_counter (tcb k p)) \<and> sint (t_counter (tcb k p)) < 2 ^ 30 \<and>
     0 < sint (t_priority (tcb k p)) \<and> sint (t_priority (tcb k p)) < 2 ^ 29)"

lemma wake_task_frame [simp]:
  "t_counter (wake_task j t) = t_counter t" "t_priority (wake_task j t) = t_priority t"
  "t_pid (wake_task j t) = t_pid t" "t_p_osptr (wake_task j t) = t_p_osptr t"
  by (simp_all add: wake_task_def Let_def)

lemma recharge_task_frame [simp]:
  "t_state (recharge_task t) = t_state t" "t_priority (recharge_task t) = t_priority t"
  by (simp_all add: recharge_task_def)

lemma sint_half: "sint (signed_drop_bit 1 w :: u32) = sint w div 2"
  by (simp add: sint_signed_drop_bit_eq drop_bit_eq_div del: One_nat_def)

lemma recharge_counter:
  assumes "0 \<le> sint (t_counter t)" "sint (t_counter t) < 2 ^ 30" "0 < sint (t_priority t)" "sint (t_priority t) < 2 ^ 29"
  shows "sint (t_counter (recharge_task t)) = sint (t_counter t) div 2 + sint (t_priority t)"
proof -
  have "sint (t_counter (recharge_task t)) =
      signed_take_bit 31 (sint (t_counter t) div 2 + sint (t_priority t))"
    by (simp add: recharge_task_def sint_word_ariths sint_half del: One_nat_def)
  also have "\<dots> = sint (t_counter t) div 2 + sint (t_priority t)"
    using assms by (intro signed_take_bit_int_eq_self) simp_all
  finally show ?thesis .
qed

lemma sched_ok_recharge: "sched_ok k \<Longrightarrow> sched_ok (recharge k)"
  unfolding sched_ok_def by (auto simp: recharge_tcb recharge_counter)

lemma sched_ok_wake: "sched_ok k \<Longrightarrow> sched_ok (sched_wake k)"
  unfolding sched_ok_def by (auto simp: sched_wake_tcb)

lemma runnable_recharge: "table_ok k \<Longrightarrow> runnable (recharge k) i = runnable k i"
  by (simp add: runnable_def recharge_tcb)

lemma ctr_recharge:
  assumes "sched_ok k" "runnable k i" "i < NR_TASKS"
  shows "ctr (recharge k) i = ctr k i div 2 + sint (t_priority (tcb k (task k ! i)))" "0 \<le> ctr k i"
    "0 < ctr (recharge k) i"
proof -
  have "task k ! i \<in> others k"
    using assms by (intro table_nth_others) (auto simp: sched_ok_def runnable_def)
  with assms show "ctr (recharge k) i = ctr k i div 2 + sint (t_priority (tcb k (task k ! i)))" "0 \<le> ctr k i"
    "0 < ctr (recharge k) i"
    by (auto simp: ctr_def recharge_tcb recharge_counter sched_ok_def)
qed

text \<open>
  The loop of \<open>schedule\<close> recharges at most once, and then picks task 0 when nothing else can run
  and the best slot otherwise.
\<close>

definition picked :: "kern \<Rightarrow> nat \<Rightarrow> bool" where
  "picked k m \<longleftrightarrow> (if \<exists>i<NR_TASKS. runnable k i then best k NR_TASKS m else m = 0)"

lemma sched_loop_step:
  assumes ok: "sched_ok k" and no0: "(\<exists>i<NR_TASKS. runnable k i) \<Longrightarrow> \<exists>i<NR_TASKS. runnable k i \<and> 0 < ctr k i"
  shows "\<exists>m. sched_loop k = Some (k, m) \<and> picked k m"
proof -
  obtain c m where pl: "pick_loop k NR_TASKS (- 1) 0 = (c, m)" by fastforce
  from pick_loop_spec [OF pl] show ?thesis
  proof
    assume a: "c = - 1 \<and> m = 0 \<and> (\<forall>i<NR_TASKS. runnable k i \<longrightarrow> ctr k i \<le> sint (- 1 :: u32))"
    then have "\<not> (\<exists>i<NR_TASKS. runnable k i)"
      using ctr_recharge(2) [OF ok] by fastforce
    then have "picked k 0" unfolding picked_def by metis
    with a pl show ?thesis by (simp add: sched_loop.simps [of k])
  next
    assume a: "c = t_counter (tcb k (task k ! m)) \<and> sint (- 1 :: u32) < ctr k m \<and> best k NR_TASKS m"
    then have m: "best k NR_TASKS m" "m < NR_TASKS" "runnable k m" by (auto simp: best_def)
    with no0 obtain i where "i < NR_TASKS" "runnable k i" "0 < ctr k i" by blast
    with m(1) have "0 < ctr k m" by (auto simp: best_def)
    with a have "c \<noteq> 0" by (auto simp: ctr_def)
    moreover have "picked k m" using m by (auto simp: picked_def)
    ultimately show ?thesis using pl by (simp add: sched_loop.simps [of k])
  qed
qed

definition used_up :: "kern \<Rightarrow> bool" where
  "used_up k \<longleftrightarrow> (\<exists>i<NR_TASKS. runnable k i) \<and> (\<forall>i<NR_TASKS. runnable k i \<longrightarrow> ctr k i = 0)"

lemma sched_loop_spec:
  assumes ok: "sched_ok k"
  shows "\<exists>m. sched_loop k = Some (if used_up k then recharge k else k, m) \<and>
    picked (if used_up k then recharge k else k) m"
proof (cases "used_up k")
  case False
  have "(\<exists>i<NR_TASKS. runnable k i) \<Longrightarrow> \<exists>i<NR_TASKS. runnable k i \<and> 0 < ctr k i"
    using False ctr_recharge(2) [OF ok] by (fastforce simp: used_up_def)
  then show ?thesis using sched_loop_step [OF ok] False by simp
next
  case True
  obtain c m where pl: "pick_loop k NR_TASKS (- 1) 0 = (c, m)" by fastforce
  have "c = 0"
  proof -
    from True obtain i where i: "i < NR_TASKS" "runnable k i" "ctr k i = 0" by (auto simp: used_up_def)
    from pick_loop_spec [OF pl] show ?thesis
    proof
      assume "c = - 1 \<and> m = 0 \<and> (\<forall>i<NR_TASKS. runnable k i \<longrightarrow> ctr k i \<le> sint (- 1 :: u32))"
      with i show ?thesis by fastforce
    next
      assume a: "c = t_counter (tcb k (task k ! m)) \<and> sint (- 1 :: u32) < ctr k m \<and> best k NR_TASKS m"
      then have "runnable k m" "m < NR_TASKS" by (auto simp: best_def)
      with True have "ctr k m = 0" by (auto simp: used_up_def)
      with a have "sint c = 0" by (simp add: ctr_def)
      then show ?thesis by (metis signed_0 signed_word_eqI)
    qed
  qed
  then have "sched_loop k = sched_loop (recharge k)"
    using pl by (simp add: sched_loop.simps [of k])
  moreover have "\<exists>m. sched_loop (recharge k) = Some (recharge k, m) \<and> picked (recharge k) m"
    using True ok by (intro sched_loop_step sched_ok_recharge)
      (auto simp: used_up_def runnable_recharge sched_ok_def intro!: ctr_recharge(3))
  ultimately show ?thesis using True by simp
qed

section \<open>Properties of schedule\<close>

lemma schedule_exact:
  assumes "sched_ok k"
  shows "\<exists>k' m. schedule k = Some (switch_to m k') \<and> picked k' m \<and>
    k' = (if used_up (sched_wake k) then recharge (sched_wake k) else sched_wake k)"
  using sched_loop_spec [OF sched_ok_wake [OF assms]] by (auto simp: schedule_def)

lemma schedule_eq:
  assumes "sched_ok k"
  shows "\<exists>k' m. schedule k = Some (switch_to m k') \<and> picked k' m \<and>
    (k' = sched_wake k \<or> k' = recharge (sched_wake k))"
  using schedule_exact [OF assms] by metis

lemma switch_to_frame [simp]:
  "task (switch_to n k) = task k" "tcb (switch_to n k) = tcb k" "jiffies (switch_to n k) = jiffies k"
  "current (switch_to n k) = task k ! n" "last_pid (switch_to n k) = last_pid k"
  "startup_time (switch_to n k) = startup_time k" "klog (switch_to n k) = klog k"
  by (simp_all add: switch_to_def)

lemma sched_ok_schedule:
  assumes "sched_ok k" "schedule k = Some k'"
  shows "sched_ok k'" "task k' = task k"
proof -
  obtain k1 m where k: "k' = switch_to m k1" "picked k1 m" "k1 = sched_wake k \<or> k1 = recharge (sched_wake k)"
    using schedule_eq [OF assms(1)] assms(2) by auto
  then have ok: "sched_ok k1" using assms(1) sched_ok_wake sched_ok_recharge by blast
  have len: "length (task k1) = NR_TASKS" "task k1 ! 0 \<noteq> 0"
    using ok by (auto simp: sched_ok_def table_ok_def)
  have "task k1 ! m \<noteq> 0 \<and> m < NR_TASKS"
    using k(2) len by (auto simp: picked_def best_def runnable_def NR_TASKS_def split: if_splits)
  then have "task k1 ! m \<in> slots k1" using len by (auto simp: slots_def)
  then show "sched_ok k'" using ok k(1) by (auto simp: sched_ok_def table_ok_def slots_def others_def)
  show "task k' = task k" using k by auto
qed

text \<open>The runnable tasks and the counters of the state that \<open>schedule\<close> leaves.\<close>

lemma runnable_switch [simp]: "runnable (switch_to m k) = runnable k" "ctr (switch_to m k) = ctr k"
  "best (switch_to m k) = best k"
proof -
  show r: "runnable (switch_to m k) = runnable k" "ctr (switch_to m k) = ctr k"
    by (simp_all add: fun_eq_iff runnable_def ctr_def)
  show "best (switch_to m k) = best k" by (simp add: fun_eq_iff best_def r)
qed

lemma ctr_wake: "table_ok k \<Longrightarrow> ctr (sched_wake k) = ctr k"
  by (simp add: fun_eq_iff ctr_def sched_wake_tcb)

lemma counter_choice:
  assumes "sched_ok k" "k' = (if used_up (sched_wake k) then recharge (sched_wake k) else sched_wake k)"
  shows "runnable k' = runnable (sched_wake k)"
    "sint (t_counter (tcb k' p)) =
      (if p \<in> others k \<and> used_up (sched_wake k) then sint (t_counter (tcb k p)) div 2 + sint (t_priority (tcb k p))
       else sint (t_counter (tcb k p)))"
proof -
  have tab: "table_ok k" using assms(1) by (simp add: sched_ok_def)
  then show "runnable k' = runnable (sched_wake k)"
    using assms(2) by (auto simp: fun_eq_iff runnable_recharge)
  have "t_counter (tcb (sched_wake k) p) = t_counter (tcb k p)"
      "t_priority (tcb (sched_wake k) p) = t_priority (tcb k p)"
    using tab by (simp_all add: sched_wake_tcb)
  moreover have "p \<in> others k \<Longrightarrow> sint (t_counter (recharge_task (tcb (sched_wake k) p))) =
      sint (t_counter (tcb (sched_wake k) p)) div 2 + sint (t_priority (tcb (sched_wake k) p))"
    using sched_ok_wake [OF assms(1)] tab by (intro recharge_counter) (auto simp: sched_ok_def)
  ultimately show "sint (t_counter (tcb k' p)) =
      (if p \<in> others k \<and> used_up (sched_wake k) then sint (t_counter (tcb k p)) div 2 + sint (t_priority (tcb k p))
       else sint (t_counter (tcb k p)))"
    using assms(2) tab by (auto simp: recharge_tcb)
qed

text \<open>C3: With a positive priority and a bounded non-negative counter in every task but task 0,
  \<open>schedule\<close> returns (its endless loop ends). The task that runs next is task 0 when no other task
  is runnable, and otherwise the runnable task with the largest counter, the one in the highest
  slot among equals. The counters are recharged, to half the old value plus the priority, for every
  task but task 0 exactly when some task is runnable and all runnable ones have used their time
  up; otherwise no counter changes.\<close>

theorem schedule_picks_best:
  assumes "sched_ok k"
  shows "\<exists>k' m. schedule k = Some k' \<and> current k' = task k ! m \<and>
    (if \<exists>i<NR_TASKS. runnable k' i then best k' NR_TASKS m else m = 0) \<and>
    (\<forall>p. sint (t_counter (tcb k' p)) =
      (if p \<in> others k \<and> (\<exists>i<NR_TASKS. runnable k' i) \<and> (\<forall>i<NR_TASKS. runnable k' i \<longrightarrow> ctr k i = 0)
       then sint (t_counter (tcb k p)) div 2 + sint (t_priority (tcb k p))
       else sint (t_counter (tcb k p))))"
proof -
  obtain k' m where k: "schedule k = Some (switch_to m k')" "picked k' m"
    and k': "k' = (if used_up (sched_wake k) then recharge (sched_wake k) else sched_wake k)"
    using schedule_exact [OF assms] by blast
  have tab: "table_ok k" using assms by (simp add: sched_ok_def)
  have "task k' = task k" using k' by auto
  moreover have "used_up (sched_wake k) \<longleftrightarrow>
      (\<exists>i<NR_TASKS. runnable k' i) \<and> (\<forall>i<NR_TASKS. runnable k' i \<longrightarrow> ctr k i = 0)"
    by (simp add: used_up_def counter_choice(1) [OF assms k'] ctr_wake [OF tab])
  note c = counter_choice(2) [OF assms k', unfolded this]
  show ?thesis
  proof (intro exI [of _ "switch_to m k'"] exI [of _ m] conjI allI)
    show "current (switch_to m k') = task k ! m" using \<open>task k' = task k\<close> by simp
    show "if \<exists>i<NR_TASKS. runnable (switch_to m k') i then best (switch_to m k') NR_TASKS m else m = 0"
      using k(2) by (simp add: picked_def)
  qed (use k(1) c in \<open>simp_all only: switch_to_frame runnable_switch\<close>)
qed

text \<open>\<open>schedule\<close> keeps the scheduler's invariant, and changes nothing of a task but its state,
  counter, timeout, alarm and pending signals; a zombie, stopped or uninterruptible task keeps its
  state, and a task that waits interruptibly becomes runnable exactly when its timeout has
  expired or a signal it does not block is pending (an expired alarm adds one).\<close>

theorem schedule_wakes:
  assumes "sched_ok k"
  shows "\<exists>k'. schedule k = Some k' \<and> task k' = task k \<and>
    (\<forall>p. t_state (tcb k' p) =
      (if p \<in> others k \<and> t_state (tcb k p) = TASK_INTERRUPTIBLE \<and>
          (t_timeout (tcb k p) \<noteq> 0 \<and> t_timeout (tcb k p) < jiffies k \<or>
           t_signal (tcb k' p) AND NOT (BLOCKABLE AND t_blocked (tcb k p)) \<noteq> 0)
       then TASK_RUNNING else t_state (tcb k p))) \<and>
    (\<forall>p. \<exists>st ct to al sg. tcb k' p =
      (tcb k p)\<lparr>t_state := st, t_counter := ct, t_timeout := to, t_alarm := al, t_signal := sg\<rparr>)"
proof -
  have tab: "table_ok k" using assms by (simp add: sched_ok_def)
  obtain k' m where k: "schedule k = Some (switch_to m k')"
    and k': "k' = sched_wake k \<or> k' = recharge (sched_wake k)"
    using schedule_eq [OF assms] by blast
  have eq: "\<exists>ct. tcb k' p = (tcb (sched_wake k) p)\<lparr>t_counter := ct\<rparr>" for p
    using k'
  proof
    assume "k' = sched_wake k"
    then show ?thesis by (intro exI [of _ "t_counter (tcb (sched_wake k) p)"]) simp
  next
    assume "k' = recharge (sched_wake k)"
    then show ?thesis using tab
      by (cases "p \<in> others k") (auto simp: recharge_tcb recharge_task_def
          intro: exI [of _ "t_counter (tcb (sched_wake k) p)"])
  qed
  have w: "tcb (sched_wake k) p = (if p \<in> others k then wake_task (jiffies k) (tcb k p) else tcb k p)" for p
    using tab by (rule sched_wake_tcb)
  have "t_state (tcb k' p) =
      (if p \<in> others k \<and> t_state (tcb k p) = TASK_INTERRUPTIBLE \<and>
          (t_timeout (tcb k p) \<noteq> 0 \<and> t_timeout (tcb k p) < jiffies k \<or>
           t_signal (tcb k' p) AND NOT (BLOCKABLE AND t_blocked (tcb k p)) \<noteq> 0)
       then TASK_RUNNING else t_state (tcb k p))" for p
    using eq [of p] w [of p] by (auto simp: wake_task_def Let_def task_state_defs)
  moreover have "\<exists>st ct to al sg. tcb k' p =
      (tcb k p)\<lparr>t_state := st, t_counter := ct, t_timeout := to, t_alarm := al, t_signal := sg\<rparr>" for p
  proof -
    obtain ct where ct: "tcb k' p = (tcb (sched_wake k) p)\<lparr>t_counter := ct\<rparr>" using eq by blast
    show ?thesis
      by (rule exI [of _ "t_state (tcb k' p)"], rule exI [of _ ct], rule exI [of _ "t_timeout (tcb k' p)"],
          rule exI [of _ "t_alarm (tcb k' p)"], rule exI [of _ "t_signal (tcb k' p)"])
        (simp add: ct w wake_task_def Let_def)
  qed
  moreover have "task k' = task k" using k' by auto
  ultimately show ?thesis using k by (intro exI [of _ "switch_to m k'"]) simp
qed

text \<open>A table with the initial task and two others, for the witnesses.\<close>

definition task0 :: task_struct where
  "task0 = \<lparr>t_state = 0, t_counter = 15, t_priority = 15, t_signal = 0,
     t_sigaction = replicate 32 \<lparr>sa_handler = 0, sa_mask = 0, sa_flags = 0, sa_restorer = 0\<rparr>,
     t_blocked = 0, t_exit_code = 0, t_start_code = 0, t_end_code = 0, t_end_data = 0, t_brk = 0,
     t_start_stack = 0, t_pid = 0, t_pgrp = 0, t_session = 0, t_leader = 0,
     t_groups = NOGROUP # replicate 31 0, t_p_pptr = 0x1000, t_p_cptr = 0, t_p_ysptr = 0, t_p_osptr = 0,
     t_uid = 0, t_euid = 0, t_suid = 0, t_gid = 0, t_egid = 0, t_sgid = 0, t_timeout = 0, t_alarm = 0,
     t_utime = 0, t_stime = 0, t_cutime = 0, t_cstime = 0, t_start_time = 0, t_flags = 0,
     t_used_math = 0, t_tty = - 1, t_umask = 18, t_pwd = 0, t_root = 0, t_executable = 0,
     t_library = 0, t_close_on_exec = 0, t_filp = replicate 20 0,
     t_ldt = [(0, 0), (0x9f, 0xc0fa00), (0x9f, 0xc0f200)],
     t_tss = \<lparr>tss_back_link = 0, tss_esp0 = 0x2000, tss_ss0 = 0x10, tss_esp1 = 0, tss_ss1 = 0,
       tss_esp2 = 0, tss_ss2 = 0, tss_cr3 = 0, tss_eip = 0, tss_eflags = 0, tss_eax = 0, tss_ecx = 0,
       tss_edx = 0, tss_ebx = 0, tss_esp = 0, tss_ebp = 0, tss_esi = 0, tss_edi = 0, tss_es = 0x17,
       tss_cs = 0x17, tss_ss = 0x17, tss_ds = 0x17, tss_fs = 0x17, tss_gs = 0x17, tss_ldt = 48,
       tss_trace_bitmap = 0x80000000\<rparr>\<rparr>"

definition kern0 :: kern where
  "kern0 = \<lparr>task = [0x1000, 0x2000, 0x3000] @ replicate 61 0,
     tcb = (\<lambda>p. if p = 0x1000 then task0
               else if p = 0x2000 then task0\<lparr>t_pid := 1, t_counter := 0\<rparr>
               else task0\<lparr>t_pid := 2, t_state := 1, t_timeout := 5, t_counter := 7\<rparr>),
     current = 0x2000, jiffies = 10, startup_time = 0, last_pid = 2, klog = []\<rparr>"

lemma kern0_ok: "sched_ok kern0" "table_ok kern0" "others kern0 = {0x2000, 0x3000}"
  by (auto simp: sched_ok_def table_ok_def others_def slots_def kern0_def NR_TASKS_def task0_def
      filter_replicate)

theorem schedule_picks_best_witness:
  "\<exists>k' m. schedule kern0 = Some k' \<and> current k' = task kern0 ! m \<and> sint (t_counter (tcb k' 0x1000)) = 15"
  using schedule_picks_best [OF kern0_ok(1)]
  by (auto simp: kern0_ok(3)) (auto simp: kern0_def task0_def)

theorem schedule_wakes_witness:
  "\<exists>k'. schedule kern0 = Some k' \<and> t_state (tcb k' 0x3000) = TASK_RUNNING"
  using schedule_wakes [OF kern0_ok(1)]
  by (auto simp: kern0_ok(3)) (auto simp: kern0_def task0_def task_state_defs)

end
