(* ===== verification/Wait.thy ===== *)
theory Wait
  imports Sched
begin

text \<open>
  Sleeping and waking: \<open>__sleep_on\<close>, \<open>sleep_on\<close>, \<open>interruptible_sleep_on\<close> and \<open>wake_up\<close> of
  \<open>kernel/sched.c\<close>. A wait queue is one pointer variable; the list of the tasks that wait on it is
  spread over the local variables \<open>tmp\<close> of their suspended calls of \<open>__sleep_on\<close>. The state
  therefore has, beside the kernel state, the contents of the queue variables by address (\<open>wq\<close>) and
  for every suspended call its argument and its \<open>tmp\<close> (\<open>frames\<close>).

  The body of \<open>__sleep_on\<close> is cut at its calls of \<open>schedule\<close>: \<open>sleep_enter\<close> is the part before the
  label \<open>repeat\<close>, \<open>sleep_resume\<close> the part after \<open>schedule\<close> has come back. The relation \<open>wstep\<close>
  interleaves them with \<open>wake_up\<close> and with task switches made by the real \<open>schedule\<close>.
\<close>

record wsys =
  wk :: kern
  wq :: "u32 \<Rightarrow> tptr"
  frames :: "tptr \<Rightarrow> (u32 \<times> tptr) option"

abbreviation me :: "wsys \<Rightarrow> tptr" where
  "me w \<equiv> current (wk w)"

definition set_state :: "tptr \<Rightarrow> u32 \<Rightarrow> kern \<Rightarrow> kern" where
  "set_state p st k = upd p (\<lambda>t. t\<lparr>t_state := st\<rparr>) k"

definition sleep_enter :: "u32 \<Rightarrow> u32 \<Rightarrow> wsys \<Rightarrow> wsys kres" where
  "sleep_enter p st w =
     (if p = 0 then Inr w
      else if me w = task (wk w) ! 0 then Inl (Panic ''task[0] trying to sleep'')
      else let tmp = wq w p in
        Inr (w\<lparr>wq := (wq w)(p := me w), wk := set_state (me w) st (wk w),
               frames := (frames w)(me w \<mapsto> (p, tmp))\<rparr>))"

text \<open>The state after \<open>schedule\<close> has returned to a task inside \<open>__sleep_on\<close>: either it goes round
  again (the frame stays) or it leaves.\<close>

definition sleep_resume :: "wsys \<Rightarrow> wsys" where
  "sleep_resume w =
     (case frames w (me w) of None \<Rightarrow> w
      | Some (p, tmp) \<Rightarrow>
          if wq w p \<noteq> 0 \<and> wq w p \<noteq> me w then
            w\<lparr>wk := set_state (me w) TASK_UNINTERRUPTIBLE (set_state (wq w p) TASK_RUNNING (wk w))\<rparr>
          else
            let k = (if wq w p = 0 then wk w\<lparr>klog := klog (wk w) @ [''Warning: *P = NULL'']\<rparr> else wk w)
            in w\<lparr>wq := (wq w)(p := tmp),
                 wk := (if tmp \<noteq> 0 then set_state tmp TASK_RUNNING k else k),
                 frames := (frames w)(me w := None)\<rparr>)"

definition interruptible_sleep_on :: "u32 \<Rightarrow> wsys \<Rightarrow> wsys kres" where
  "interruptible_sleep_on p = sleep_enter p TASK_INTERRUPTIBLE"

definition sleep_on :: "u32 \<Rightarrow> wsys \<Rightarrow> wsys kres" where
  "sleep_on p = sleep_enter p TASK_UNINTERRUPTIBLE"

definition wake_up :: "u32 \<Rightarrow> wsys \<Rightarrow> wsys" where
  "wake_up p w =
     (if p \<noteq> 0 \<and> wq w p \<noteq> 0 then
        let st = t_state (tcb (wk w) (wq w p));
            msgs = (if st = TASK_STOPPED then [''wake_up: TASK_STOPPED''] else []) @
                   (if st = TASK_ZOMBIE then [''wake_up: TASK_ZOMBIE''] else [])
        in w\<lparr>wk := (set_state (wq w p) TASK_RUNNING (wk w))\<lparr>klog := klog (wk w) @ msgs\<rparr>\<rparr>
      else w)"

definition run_next :: "wsys \<Rightarrow> wsys option" where
  "run_next w = map_option (\<lambda>k. sleep_resume (w\<lparr>wk := k\<rparr>)) (schedule (wk w))"

text \<open>
  What can happen: the running task, which is not inside \<open>__sleep_on\<close>, goes to sleep; somebody (a task
  or an interrupt) calls \<open>wake_up\<close>; \<open>schedule\<close> switches to a task, which continues its
  \<open>__sleep_on\<close> if it was inside one.
\<close>

inductive wstep :: "wsys \<Rightarrow> wsys \<Rightarrow> bool" where
  ws_sleep: "frames w (me w) = None \<Longrightarrow> sleep_on p w = Inr w' \<Longrightarrow> wstep w w'"
| ws_isleep: "frames w (me w) = None \<Longrightarrow> interruptible_sleep_on p w = Inr w' \<Longrightarrow> wstep w w'"
| ws_wake: "wstep w (wake_up p w)"
| ws_run: "run_next w = Some w' \<Longrightarrow> wstep w w'"

inductive_cases wstep_cases: "wstep w w'"

section \<open>The chain of waiting tasks\<close>

text \<open>\<open>qchain fr p h ts\<close>: starting from the head \<open>h\<close> and following the saved \<open>tmp\<close>s one meets exactly
  the tasks \<open>ts\<close>, all of them asleep on \<open>p\<close>.\<close>

primrec qchain :: "(tptr \<Rightarrow> (u32 \<times> tptr) option) \<Rightarrow> u32 \<Rightarrow> tptr \<Rightarrow> tptr list \<Rightarrow> bool" where
  "qchain fr p h [] \<longleftrightarrow> h = 0"
| "qchain fr p h (t # ts) \<longleftrightarrow> h = t \<and> t \<noteq> 0 \<and> (\<exists>tmp. fr t = Some (p, tmp) \<and> qchain fr p tmp ts)"

definition sleepers :: "(tptr \<Rightarrow> (u32 \<times> tptr) option) \<Rightarrow> u32 \<Rightarrow> tptr set" where
  "sleepers fr p = {t. \<exists>tmp. fr t = Some (p, tmp)}"

definition queue_ok :: "(u32 \<Rightarrow> tptr) \<Rightarrow> (tptr \<Rightarrow> (u32 \<times> tptr) option) \<Rightarrow> u32 \<Rightarrow> bool" where
  "queue_ok hq fr p \<longleftrightarrow> (\<exists>ts. qchain fr p (hq p) ts \<and> distinct ts \<and> set ts = sleepers fr p)"

definition wait_ok :: "wsys \<Rightarrow> bool" where
  "wait_ok w \<longleftrightarrow> sched_ok (wk w) \<and> (\<forall>p. p \<noteq> 0 \<longrightarrow> queue_ok (wq w) (frames w) p) \<and> sleepers (frames w) 0 = {}"

lemma qchain_upd: "t \<notin> set ts \<Longrightarrow> qchain (fr(t := x)) p h ts = qchain fr p h ts"
  by (induction ts arbitrary: h) auto

lemma queue_ok_push:
  assumes "queue_ok hq fr q" "fr t = None" "t \<noteq> 0"
  shows "queue_ok (hq(p := t)) (fr(t \<mapsto> (p, hq p))) q"
proof -
  obtain ts where ts: "qchain fr q (hq q) ts" "distinct ts" "set ts = sleepers fr q"
    using assms(1) by (auto simp: queue_ok_def)
  then have t: "t \<notin> set ts" using assms(2) by (simp add: sleepers_def)
  show ?thesis
  proof (cases "q = p")
    case True
    have "set (t # ts) = sleepers (fr(t \<mapsto> (p, hq p))) q"
      using ts(3) True by (auto simp: sleepers_def)
    moreover have "qchain (fr(t \<mapsto> (p, hq p))) q t (t # ts)"
      using ts(1) t True assms(3) by (simp add: qchain_upd)
    moreover have "distinct (t # ts)" using t ts(2) by simp
    ultimately show ?thesis
      using True unfolding queue_ok_def by (intro exI [of _ "t # ts"]) (simp del: qchain.simps)
  next
    case False
    have "set ts = sleepers (fr(t \<mapsto> (p, hq p))) q"
      using ts(3) t False by (auto simp: sleepers_def)
    then show ?thesis
      using False t ts by (auto simp: queue_ok_def qchain_upd intro!: exI [of _ ts])
  qed
qed

lemma queue_ok_pop:
  assumes "queue_ok hq fr q" "fr t = Some (p, tmp)" "hq p = t"
  shows "queue_ok (hq(p := tmp)) (fr(t := None)) q"
proof -
  obtain ts where ts: "qchain fr q (hq q) ts" "distinct ts" "set ts = sleepers fr q"
    using assms(1) by (auto simp: queue_ok_def)
  show ?thesis
  proof (cases "q = p")
    case True
    then have "t \<in> set ts" using ts(3) assms(2) by (auto simp: sleepers_def)
    then obtain ts' where ts': "ts = t # ts'" using ts(1) True assms(3) by (cases ts) auto
    then have "qchain fr p tmp ts'" "t \<notin> set ts'" using ts True assms(2) by auto
    moreover have "set ts' = sleepers (fr(t := None)) q"
      using ts(2,3) ts' by (auto simp: sleepers_def)
    ultimately show ?thesis
      using True ts(2) ts' by (auto simp: queue_ok_def qchain_upd intro!: exI [of _ ts'])
  next
    case False
    then have "t \<notin> set ts" using ts(3) assms(2) by (auto simp: sleepers_def)
    moreover have "set ts = sleepers (fr(t := None)) q"
      using ts(3) assms(2) False by (auto simp: sleepers_def)
    ultimately show ?thesis
      using False ts by (auto simp: queue_ok_def qchain_upd intro!: exI [of _ ts])
  qed
qed

lemma queue_ok_nonempty:
  "queue_ok hq fr p \<Longrightarrow> fr t = Some (p, tmp) \<Longrightarrow> hq p \<noteq> 0 \<and> hq p \<in> sleepers fr p"
  unfolding queue_ok_def sleepers_def by (metis (mono_tags, lifting) empty_iff empty_set
      list.set_intros(1) mem_Collect_eq neq_Nil_conv qchain.simps(2))

section \<open>The invariant\<close>

lemma set_state_frame [simp]:
  "task (set_state p st k) = task k" "current (set_state p st k) = current k"
  "jiffies (set_state p st k) = jiffies k" "klog (set_state p st k) = klog k"
  "tcb (set_state p st k) q = (if q = p then (tcb k p)\<lparr>t_state := st\<rparr> else tcb k q)"
  by (simp_all add: set_state_def)

lemma set_state_fields [simp]:
  "t_counter (tcb (set_state p st k) q) = t_counter (tcb k q)"
  "t_priority (tcb (set_state p st k) q) = t_priority (tcb k q)"
  by simp_all

lemma sched_ok_set_state [simp]: "sched_ok (set_state p st k) = sched_ok k"
  unfolding sched_ok_def table_ok_def slots_def others_def
  by (simp only: set_state_frame(1,2) set_state_fields)

lemma sched_ok_klog [simp]: "sched_ok (k\<lparr>klog := l\<rparr>) = sched_ok k"
  by (simp add: sched_ok_def table_ok_def slots_def others_def)

lemma sched_ok_current: "sched_ok k \<Longrightarrow> current k \<noteq> 0"
  by (auto simp: sched_ok_def table_ok_def slots_def)

lemma wait_ok_sleep_enter:
  assumes "wait_ok w" "frames w (me w) = None" "sleep_enter p st w = Inr w'"
  shows "wait_ok w'"
proof (cases "p = 0")
  case True
  with assms show ?thesis by (simp add: sleep_enter_def)
next
  case False
  then have w': "w' = w\<lparr>wq := (wq w)(p := me w), wk := set_state (me w) st (wk w),
               frames := (frames w)(me w \<mapsto> (p, wq w p))\<rparr>"
    using assms(3) by (simp add: sleep_enter_def Let_def split: if_splits)
  have "me w \<noteq> 0" using assms(1) sched_ok_current by (auto simp: wait_ok_def)
  then have "queue_ok (wq w') (frames w') q" if "q \<noteq> 0" for q
    using assms(1,2) that unfolding w' by (auto simp: wait_ok_def intro!: queue_ok_push)
  moreover have "sleepers (frames w') 0 = {}"
    using assms(1) False unfolding w' by (auto simp: wait_ok_def sleepers_def)
  ultimately show ?thesis using assms(1) unfolding w' by (simp add: wait_ok_def)
qed

text \<open>The two outcomes of coming back from \<open>schedule\<close>.\<close>

lemma sleep_resume_again:
  "frames w (me w) = Some (p, tmp) \<Longrightarrow> wq w p \<noteq> me w \<Longrightarrow> wq w p \<noteq> 0 \<Longrightarrow>
    sleep_resume w = w\<lparr>wk := set_state (me w) TASK_UNINTERRUPTIBLE (set_state (wq w p) TASK_RUNNING (wk w))\<rparr>"
  by (simp add: sleep_resume_def)

lemma sleep_resume_head:
  "frames w (me w) = Some (p, tmp) \<Longrightarrow> wq w p = me w \<Longrightarrow> me w \<noteq> 0 \<Longrightarrow>
    sleep_resume w = w\<lparr>wq := (wq w)(p := tmp), wk := (if tmp \<noteq> 0 then set_state tmp TASK_RUNNING (wk w) else wk w),
      frames := (frames w)(me w := None)\<rparr>"
  by (simp add: sleep_resume_def Let_def)

lemma wait_ok_sleep_resume: "wait_ok w \<Longrightarrow> wait_ok (sleep_resume w)"
proof (cases "frames w (me w)")
  case (Some f)
  obtain p tmp where f: "frames w (me w) = Some (p, tmp)" using Some by (cases f) auto
  assume ok: "wait_ok w"
  then have p: "p \<noteq> 0" using f by (auto simp: wait_ok_def sleepers_def)
  have nz: "me w \<noteq> 0" using ok sched_ok_current by (auto simp: wait_ok_def)
  show ?thesis
  proof (cases "wq w p \<noteq> me w")
    case True
    have "wq w p \<noteq> 0"
      using queue_ok_nonempty [of "wq w" "frames w" p "me w" tmp] f ok p by (auto simp: wait_ok_def)
    with True show ?thesis using ok by (simp add: sleep_resume_again [OF f] wait_ok_def)
  next
    case False
    have "queue_ok ((wq w)(p := tmp)) ((frames w)(me w := None)) q" if "q \<noteq> 0" for q
      using ok f that False by (auto simp: wait_ok_def intro!: queue_ok_pop)
    moreover have "sleepers ((frames w)(me w := None)) 0 = {}"
      using ok by (auto simp: wait_ok_def sleepers_def)
    ultimately show ?thesis using ok False nz by (simp add: sleep_resume_head [OF f] wait_ok_def)
  qed
qed (simp add: sleep_resume_def)

lemma wait_ok_wake_up: "wait_ok w \<Longrightarrow> wait_ok (wake_up p w)"
proof -
  assume ok: "wait_ok w"
  have "wq (wake_up p w) = wq w" "frames (wake_up p w) = frames w"
    by (simp_all add: wake_up_def Let_def)
  moreover have "sched_ok (wk (wake_up p w)) = sched_ok (wk w)"
    by (simp add: wake_up_def Let_def)
  ultimately show ?thesis using ok by (simp add: wait_ok_def)
qed

lemma wait_ok_step:
  assumes "wstep w w'" "wait_ok w"
  shows "wait_ok w'"
  using assms
proof (cases rule: wstep.cases)
  case (ws_sleep p)
  then show ?thesis
    by (intro wait_ok_sleep_enter [OF assms(2), of _ TASK_UNINTERRUPTIBLE]) (simp_all add: sleep_on_def)
next
  case (ws_isleep p)
  then show ?thesis
    by (intro wait_ok_sleep_enter [OF assms(2), of _ TASK_INTERRUPTIBLE]) (simp_all add: interruptible_sleep_on_def)
next
  case (ws_wake p)
  with assms(2) show ?thesis by (simp add: wait_ok_wake_up)
next
  case ws_run
  then obtain k where k: "schedule (wk w) = Some k" "w' = sleep_resume (w\<lparr>wk := k\<rparr>)"
    by (auto simp: run_next_def)
  then have "wait_ok (w\<lparr>wk := k\<rparr>)"
    using assms(2) sched_ok_schedule(1) [OF _ k(1)] by (simp add: wait_ok_def)
  with k(2) show ?thesis by (simp add: wait_ok_sleep_resume)
qed

lemma wait_ok_steps: "wstep\<^sup>*\<^sup>* w w' \<Longrightarrow> wait_ok w \<Longrightarrow> wait_ok w'"
  by (induction rule: rtranclp_induct) (auto intro: wait_ok_step)

lemma wait_ok_init: "sched_ok k \<Longrightarrow> wait_ok \<lparr>wk = k, wq = \<lambda>_. 0, frames = \<lambda>_. None\<rparr>"
  by (auto simp: wait_ok_def queue_ok_def sleepers_def intro!: exI [of _ "[]"])

section \<open>Properties of the wait queues\<close>

text \<open>C4: However sleeps, wake-ups and task switches interleave, no sleeper is ever lost: for every
  queue variable the head and the \<open>tmp\<close>s saved by the suspended calls form a list that has each task
  asleep on that queue exactly once, and nothing else.\<close>

theorem no_sleeper_lost:
  assumes "sched_ok k" "wstep\<^sup>*\<^sup>* \<lparr>wk = k, wq = \<lambda>_. 0, frames = \<lambda>_. None\<rparr> w" "p \<noteq> 0"
  shows "\<exists>ts. qchain (frames w) p (wq w p) ts \<and> distinct ts \<and>
    set ts = {t. \<exists>tmp. frames w t = Some (p, tmp)}"
  using wait_ok_steps [OF assms(2) wait_ok_init [OF assms(1)]] assms(3)
  by (auto simp: wait_ok_def queue_ok_def sleepers_def)

theorem no_sleeper_lost_witness:
  "\<exists>w. wstep\<^sup>*\<^sup>* \<lparr>wk = kern0, wq = \<lambda>_. 0, frames = \<lambda>_. None\<rparr> w \<and> wq w 5 = 0x2000 \<and>
    (\<exists>ts. qchain (frames w) 5 (wq w 5) ts \<and> set ts = {0x2000})"
proof -
  let ?w = "\<lparr>wk = kern0, wq = \<lambda>_. 0, frames = \<lambda>_. None\<rparr>"
  have "me ?w = 0x2000" "task kern0 ! 0 = 0x1000" by (simp_all add: kern0_def)
  then obtain w where w: "sleep_on 5 ?w = Inr w" and q: "wq w 5 = 0x2000" "frames w = [0x2000 \<mapsto> (5, 0)]"
    by (simp add: sleep_on_def sleep_enter_def)
  have steps: "wstep\<^sup>*\<^sup>* ?w w" by (rule r_into_rtranclp, rule ws_sleep [OF _ w]) simp
  show ?thesis
    using no_sleeper_lost [OF kern0_ok(1) steps, of 5] steps q
    by (intro exI [of _ w]) (auto split: if_splits)
qed

text \<open>When a waiter that is not the head of its queue is woken by something else (a signal), it wakes
  the head, goes back to sleep uninterruptibly, and the queue is as before.\<close>

lemma sleep_resume_not_head:
  assumes "wait_ok w" "frames w (me w) = Some (p, tmp)" "wq w p \<noteq> me w"
  shows "wq (sleep_resume w) = wq w \<and> frames (sleep_resume w) = frames w \<and>
    t_state (tcb (wk (sleep_resume w)) (wq w p)) = TASK_RUNNING \<and>
    t_state (tcb (wk (sleep_resume w)) (me w)) = TASK_UNINTERRUPTIBLE"
proof -
  have "p \<noteq> 0" using assms(1,2) by (auto simp: wait_ok_def sleepers_def)
  then have "wq w p \<noteq> 0"
    using queue_ok_nonempty [of "wq w" "frames w" p "me w" tmp] assms by (auto simp: wait_ok_def)
  then show ?thesis using assms(3) by (auto simp: sleep_resume_again [OF assms(2,3)])
qed

text \<open>The task \<open>t\<close> comes back from its call of \<open>schedule\<close>.\<close>

definition run_as :: "tptr \<Rightarrow> wsys \<Rightarrow> wsys" where
  "run_as t w = sleep_resume (w\<lparr>wk := (wk w)\<lparr>current := t\<rparr>\<rparr>)"

lemma run_as_head:
  assumes "frames w t = Some (p, tmp)" "wq w p = t" "t \<noteq> 0"
  shows "wq (run_as t w) p = tmp" "frames (run_as t w) = (frames w)(t := None)"
    "tcb (wk (run_as t w)) = (if tmp \<noteq> 0 then (tcb (wk w))(tmp := (tcb (wk w) tmp)\<lparr>t_state := TASK_RUNNING\<rparr>)
       else tcb (wk w))"
  using sleep_resume_head [of "w\<lparr>wk := (wk w)\<lparr>current := t\<rparr>\<rparr>" p tmp] assms
  by (auto simp: run_as_def)

lemma drain_chain:
  "qchain (frames w) p (wq w p) ts \<Longrightarrow> distinct ts \<Longrightarrow>
   (ts \<noteq> [] \<longrightarrow> t_state (tcb (wk w) (wq w p)) = TASK_RUNNING) \<Longrightarrow>
   (\<forall>i<length ts. t_state (tcb (wk (fold run_as (take i ts) w)) (ts ! i)) = TASK_RUNNING) \<and>
   wq (fold run_as ts w) p = 0 \<and>
   frames (fold run_as ts w) = (\<lambda>t. if t \<in> set ts then None else frames w t)"
proof (induction ts arbitrary: w)
  case (Cons t ts)
  then obtain tmp where t: "wq w p = t" "t \<noteq> 0" "frames w t = Some (p, tmp)" "qchain (frames w) p tmp ts"
    by auto
  let ?w = "run_as t w"
  have head: "ts \<noteq> [] \<Longrightarrow> tmp \<noteq> 0" using t(4) by (cases ts) auto
  have "qchain (frames ?w) p (wq ?w p) ts"
    using t Cons.prems(2) by (simp add: run_as_head [OF t(3,1,2)] qchain_upd)
  moreover have "ts \<noteq> [] \<longrightarrow> t_state (tcb (wk ?w) (wq ?w p)) = TASK_RUNNING"
    using head by (simp add: run_as_head [OF t(3,1,2)])
  ultimately have IH: "(\<forall>i<length ts. t_state (tcb (wk (fold run_as (take i ts) ?w)) (ts ! i)) = TASK_RUNNING) \<and>
     wq (fold run_as ts ?w) p = 0 \<and>
     frames (fold run_as ts ?w) = (\<lambda>t. if t \<in> set ts then None else frames ?w t)"
    using Cons.prems(2) by (intro Cons.IH) simp_all
  have "t_state (tcb (wk (fold run_as (take i (t # ts)) w)) ((t # ts) ! i)) = TASK_RUNNING"
    if "i < length (t # ts)" for i
    using that IH Cons.prems(3) t(1) by (cases i) auto
  moreover have "wq (fold run_as (t # ts) w) p = 0" using IH by simp
  moreover have "frames (fold run_as (t # ts) w) = (\<lambda>x. if x \<in> set (t # ts) then None else frames w x)"
    using IH by (auto simp: run_as_head [OF t(3,1,2)] fun_eq_iff)
  ultimately show ?case by blast
qed auto

text \<open>C18: One \<open>wake_up\<close> is enough for all: after it the waiters come out of \<open>__sleep_on\<close> one after the
  other in the order of the chain, each made runnable by the one before it, and in the end the queue
  is empty and no call is left suspended on it.\<close>

theorem wake_up_drains_queue:
  assumes "wait_ok w" "p \<noteq> 0"
  shows "\<exists>ts. set ts = {t. \<exists>tmp. frames w t = Some (p, tmp)} \<and>
    (\<forall>i<length ts. t_state (tcb (wk (fold run_as (take i ts) (wake_up p w))) (ts ! i)) = TASK_RUNNING) \<and>
    wq (fold run_as ts (wake_up p w)) p = 0 \<and>
    (\<forall>t tmp. frames (fold run_as ts (wake_up p w)) t \<noteq> Some (p, tmp))"
proof -
  obtain ts where ts: "qchain (frames w) p (wq w p) ts" "distinct ts" "set ts = sleepers (frames w) p"
    using assms by (auto simp: wait_ok_def queue_ok_def)
  have same: "frames (wake_up p w) = frames w" "wq (wake_up p w) = wq w"
    by (simp_all add: wake_up_def Let_def)
  have "ts \<noteq> [] \<longrightarrow> t_state (tcb (wk (wake_up p w)) (wq (wake_up p w) p)) = TASK_RUNNING"
    using ts(1) assms(2) by (cases ts) (simp_all add: wake_up_def Let_def)
  then have d: "(\<forall>i<length ts. t_state (tcb (wk (fold run_as (take i ts) (wake_up p w))) (ts ! i)) = TASK_RUNNING) \<and>
     wq (fold run_as ts (wake_up p w)) p = 0 \<and>
     frames (fold run_as ts (wake_up p w)) = (\<lambda>t. if t \<in> set ts then None else frames (wake_up p w) t)"
    using ts(1,2) same by (intro drain_chain) simp_all
  have "frames (fold run_as ts (wake_up p w)) t \<noteq> Some (p, tmp)" for t tmp
    using d ts(3) same by (auto simp: sleepers_def)
  with d ts(3) show ?thesis by (intro exI [of _ ts]) (auto simp: sleepers_def)
qed

theorem wake_up_drains_queue_witness:
  "\<exists>ts. set ts = {0x2000, 0x3000} \<and>
    wq (fold run_as ts (wake_up 5 \<lparr>wk = kern0, wq = (\<lambda>_. 0)(5 := 0x3000),
      frames = [0x3000 \<mapsto> (5, 0x2000), 0x2000 \<mapsto> (5, 0)]\<rparr>)) 5 = 0"
proof -
  let ?w = "\<lparr>wk = kern0, wq = (\<lambda>_. 0)(5 := 0x3000), frames = [0x3000 \<mapsto> (5, 0x2000), 0x2000 \<mapsto> (5, 0)]\<rparr>"
  have "queue_ok (wq ?w) (frames ?w) p" if "p \<noteq> 0" for p
  proof (cases "p = 5")
    case True
    then show ?thesis by (auto simp: queue_ok_def sleepers_def intro!: exI [of _ "[0x3000, 0x2000]"])
  next
    case False
    then show ?thesis by (auto simp: queue_ok_def sleepers_def intro!: exI [of _ "[]"])
  qed
  then have ok: "wait_ok ?w" using kern0_ok(1) by (auto simp: wait_ok_def sleepers_def)
  have "{t. \<exists>tmp. frames ?w t = Some (5, tmp)} = {0x2000, 0x3000}" by auto
  then show ?thesis
    using wake_up_drains_queue [OF ok, of 5] by (simp only:) auto
qed

end
