(* ===== verification/Timer.thy ===== *)
theory Timer
  imports Wait
begin

text \<open>
  The clock side of \<open>kernel/sched.c\<close>: the kernel timers (\<open>add_timer\<close>), the floppy motor timers
  (\<open>ticks_to_floppy_on\<close>, \<open>floppy_off\<close>, \<open>do_floppy_timer\<close>) and the clock interrupt \<open>do_timer\<close>.

  The timer requests are 64 nodes linked by \<open>next\<close>; each holds the ticks that remain after the one
  before it has fired. A pointer into the array is its index, a null pointer \<open>None\<close>; a function is
  its address, and calling it is recorded in \<open>fired\<close>. The loops over the links are
  \<^theory_text>\<open>partial_function (option)\<close>, and are proved to end on every list \<open>add_timer\<close> can build.
\<close>

section \<open>Timer requests\<close>

record timer_node =
  tn_jiffies :: u32
  tn_fn :: u32
  tn_next :: "nat option"

record timers =
  timer_list :: "timer_node list"
  next_timer :: "nat option"
  fired :: "u32 list"

definition TIME_REQUESTS :: nat where "TIME_REQUESTS = 64"

fun find_free :: "timer_node list \<Rightarrow> nat \<Rightarrow> nat" where
  "find_free [] i = i"
| "find_free (n # ns) i = (if tn_fn n = 0 then i else find_free ns (Suc i))"

text \<open>The \<open>while\<close> loop of \<open>add_timer\<close>: the new request moves down by exchanging contents with the
  next node.\<close>

partial_function (option) timer_sift :: "timer_node list \<Rightarrow> nat \<Rightarrow> timer_node list option" where
  "timer_sift nds p =
     (case tn_next (nds ! p) of
        None \<Rightarrow> Some nds
      | Some n \<Rightarrow>
          if tn_jiffies (nds ! n) <s tn_jiffies (nds ! p) then
            timer_sift (nds[p := (nds ! p)\<lparr>tn_jiffies := tn_jiffies (nds ! n), tn_fn := tn_fn (nds ! n)\<rparr>,
                           n := (nds ! n)\<lparr>tn_jiffies := tn_jiffies (nds ! p) - tn_jiffies (nds ! n),
                                         tn_fn := tn_fn (nds ! p)\<rparr>]) n
          else Some nds)"

definition add_timer :: "u32 \<Rightarrow> u32 \<Rightarrow> timers \<Rightarrow> timers kres option" where
  "add_timer jiffs fn tm =
     (if fn = 0 then Some (Inr tm)
      else if jiffs \<le>s 0 then Some (Inr (tm\<lparr>fired := fired tm @ [fn]\<rparr>))
      else let p = find_free (timer_list tm) 0 in
        if p \<ge> TIME_REQUESTS then Some (Inl (Panic ''No more time requests free''))
        else
          let nds = (timer_list tm)[p := \<lparr>tn_jiffies = jiffs, tn_fn = fn, tn_next = next_timer tm\<rparr>];
              nds' = (case next_timer tm of
                       None \<Rightarrow> nds
                     | Some n \<Rightarrow> if jiffs <s tn_jiffies (nds ! n)
                                then nds[n := (nds ! n)\<lparr>tn_jiffies := tn_jiffies (nds ! n) - jiffs\<rparr>] else nds)
          in map_option (\<lambda>nds. Inr (tm\<lparr>timer_list := nds, next_timer := Some p\<rparr>)) (timer_sift nds' p))"

partial_function (option) fire_timers :: "timers \<Rightarrow> timers option" where
  "fire_timers tm =
     (case next_timer tm of
        None \<Rightarrow> Some tm
      | Some n \<Rightarrow>
          let nd = timer_list tm ! n in
          if tn_jiffies nd \<le>s 0 then
            fire_timers (tm\<lparr>timer_list := (timer_list tm)[n := nd\<lparr>tn_fn := 0\<rparr>], next_timer := tn_next nd,
                            fired := fired tm @ [tn_fn nd]\<rparr>)
          else Some tm)"

text \<open>The timer part of one clock tick.\<close>

definition timer_tick :: "timers \<Rightarrow> timers option" where
  "timer_tick tm =
     (case next_timer tm of
        None \<Rightarrow> Some tm
      | Some n \<Rightarrow> fire_timers (tm\<lparr>timer_list :=
          (timer_list tm)[n := (timer_list tm ! n)\<lparr>tn_jiffies := tn_jiffies (timer_list tm ! n) - 1\<rparr>]\<rparr>))"

section \<open>Floppy motors\<close>

text \<open>\<open>fd_wait\<close> holds the addresses of \<open>wait_motor[i]\<close>, \<open>fd_out\<close> the bytes sent to the port \<open>FD_DOR\<close>.\<close>

record motors =
  mon_timer :: "u32 list"
  moff_timer :: "u32 list"
  current_DOR :: u8
  selected :: u8
  fd_wait :: "u32 list"
  fd_out :: "u8 list"

definition ticks_to_floppy_on :: "u32 \<Rightarrow> motors \<Rightarrow> (u32 \<times> motors) kres" where
  "ticks_to_floppy_on nr f =
     (if 3 < nr then Inl (Panic ''floppy_on: nr>3'')
      else
        let i = unat nr;
            f = f\<lparr>moff_timer := (moff_timer f)[i := 10000]\<rparr>;
            mask = push_bit i 0x10 OR current_DOR f;
            mask = (if selected f = 0 then (mask AND 0xFC) OR ucast nr else mask);
            f' = (if mask \<noteq> current_DOR f then
                   f\<lparr>fd_out := fd_out f @ [mask],
                     mon_timer :=
                       (if (mask XOR current_DOR f) AND 0xf0 \<noteq> 0 then (mon_timer f)[i := HZ div 2]
                        else if mon_timer f ! i <s 2 then (mon_timer f)[i := 2]
                        else mon_timer f),
                     current_DOR := mask\<rparr>
                 else f)
        in Inr (mon_timer f' ! i, f'))"

text \<open>\<open>floppy_off\<close> does not check its argument.\<close>

definition floppy_off :: "u32 \<Rightarrow> motors \<Rightarrow> motors kres" where
  "floppy_off nr f =
     (if unat nr < 4 then Inr (f\<lparr>moff_timer := (moff_timer f)[unat nr := 3 * HZ]\<rparr>) else Inl OutOfBounds)"

definition motor_step :: "nat \<Rightarrow> motors \<times> wsys \<Rightarrow> motors \<times> wsys" where
  "motor_step i s =
     (case s of (f, w) \<Rightarrow>
        let mask = push_bit i 0x10 in
        if mask AND current_DOR f = 0 then (f, w)
        else if mon_timer f ! i \<noteq> 0 then
          (f\<lparr>mon_timer := (mon_timer f)[i := mon_timer f ! i - 1]\<rparr>,
           if mon_timer f ! i - 1 = 0 then wake_up (fd_wait f ! i) w else w)
        else if moff_timer f ! i = 0 then
          (f\<lparr>current_DOR := current_DOR f AND NOT mask, fd_out := fd_out f @ [current_DOR f AND NOT mask]\<rparr>, w)
        else (f\<lparr>moff_timer := (moff_timer f)[i := moff_timer f ! i - 1]\<rparr>, w))"

definition do_floppy_timer :: "motors \<times> wsys \<Rightarrow> motors \<times> wsys" where
  "do_floppy_timer s = fold motor_step [0, 1, 2, 3] s"

section \<open>The clock interrupt\<close>

record clock =
  ck_w :: wsys
  ck_timers :: timers
  ck_motors :: motors

definition do_timer :: "u32 \<Rightarrow> clock \<Rightarrow> clock option" where
  "do_timer cpl c =
     (let c1 = c\<lparr>ck_w := (ck_w c)\<lparr>wk := upd (me (ck_w c))
                 (\<lambda>t. if cpl \<noteq> 0 then t\<lparr>t_utime := t_utime t + 1\<rparr> else t\<lparr>t_stime := t_stime t + 1\<rparr>) (wk (ck_w c))\<rparr>\<rparr>
      in Option.bind (timer_tick (ck_timers c1)) (\<lambda>tm.
        let c2 = c1\<lparr>ck_timers := tm\<rparr>;
            c3 = (if current_DOR (ck_motors c2) AND 0xf0 \<noteq> 0 then
                    case do_floppy_timer (ck_motors c2, ck_w c2) of (f, w) \<Rightarrow> c2\<lparr>ck_motors := f, ck_w := w\<rparr>
                  else c2);
            w = ck_w c3;
            n = t_counter (tcb (wk w) (me w)) - 1
        in if 0 <s n then
             Some (c3\<lparr>ck_w := w\<lparr>wk := upd (me w) (\<lambda>t. t\<lparr>t_counter := n\<rparr>) (wk w)\<rparr>\<rparr>)
           else
             let k = upd (me w) (\<lambda>t. t\<lparr>t_counter := 0\<rparr>) (wk w) in
             if cpl = 0 then Some (c3\<lparr>ck_w := w\<lparr>wk := k\<rparr>\<rparr>)
             else map_option (\<lambda>k. c3\<lparr>ck_w := w\<lparr>wk := k\<rparr>\<rparr>) (schedule k)))"

section \<open>The list behind the links\<close>

text \<open>The abstract timer queue: pairs of ticks and function, and what the code does on it.\<close>

fun q_sift :: "(u32 \<times> u32) list \<Rightarrow> (u32 \<times> u32) list" where
  "q_sift ((j, f) # (j', f') # r) =
     (if j' <s j then (j', f') # q_sift ((j - j', f) # r) else (j, f) # (j', f') # r)"
| "q_sift xs = xs"

definition q_insert :: "u32 \<Rightarrow> u32 \<Rightarrow> (u32 \<times> u32) list \<Rightarrow> (u32 \<times> u32) list" where
  "q_insert j f xs = q_sift ((j, f) #
     (case xs of [] \<Rightarrow> [] | (j', f') # r \<Rightarrow> (if j <s j' then j' - j else j', f') # r))"

fun q_fire :: "(u32 \<times> u32) list \<Rightarrow> u32 list \<times> (u32 \<times> u32) list" where
  "q_fire [] = ([], [])"
| "q_fire ((j, f) # r) = (if j \<le>s 0 then (case q_fire r of (fs, r') \<Rightarrow> (f # fs, r')) else ([], (j, f) # r))"

definition q_tick :: "(u32 \<times> u32) list \<Rightarrow> u32 list \<times> (u32 \<times> u32) list" where
  "q_tick xs = (case xs of [] \<Rightarrow> ([], []) | (j, f) # r \<Rightarrow> q_fire ((j - 1, f) # r))"

primrec tchain :: "timer_node list \<Rightarrow> nat option \<Rightarrow> nat list \<Rightarrow> bool" where
  "tchain nds p [] \<longleftrightarrow> p = None"
| "tchain nds p (i # is) \<longleftrightarrow> p = Some i \<and> i < length nds \<and> tchain nds (tn_next (nds ! i)) is"

definition contents :: "timer_node list \<Rightarrow> nat \<Rightarrow> u32 \<times> u32" where
  "contents nds i = (tn_jiffies (nds ! i), tn_fn (nds ! i))"

text \<open>\<open>timers_rep tm xs\<close>: the linked nodes hold the queue \<open>xs\<close>, and exactly the others are free.\<close>

definition timers_rep :: "timers \<Rightarrow> (u32 \<times> u32) list \<Rightarrow> bool" where
  "timers_rep tm xs \<longleftrightarrow> length (timer_list tm) = TIME_REQUESTS \<and>
     (\<exists>is. tchain (timer_list tm) (next_timer tm) is \<and> distinct is \<and>
        (\<forall>i<TIME_REQUESTS. tn_fn (timer_list tm ! i) \<noteq> 0 \<longleftrightarrow> i \<in> set is) \<and>
        xs = map (contents (timer_list tm)) is)"

lemma tchain_bound: "tchain nds p is \<Longrightarrow> i \<in> set is \<Longrightarrow> i < length nds"
  by (induction "is" arbitrary: p) auto

lemma tchain_cong:
  "tchain nds p is \<Longrightarrow> length nds' = length nds \<Longrightarrow> (\<And>i. i \<in> set is \<Longrightarrow> tn_next (nds' ! i) = tn_next (nds ! i)) \<Longrightarrow>
    tchain nds' p is"
  by (induction "is" arbitrary: p) auto

lemma timer_sift_rep:
  "tchain nds (Some p) (p # is) \<Longrightarrow> distinct (p # is) \<Longrightarrow>
   \<exists>nds'. timer_sift nds p = Some nds' \<and> length nds' = length nds \<and>
     (\<forall>i. tn_next (nds' ! i) = tn_next (nds ! i)) \<and> (\<forall>i. i \<notin> set (p # is) \<longrightarrow> nds' ! i = nds ! i) \<and>
     map (contents nds') (p # is) = q_sift (map (contents nds) (p # is))"
proof (induction "is" arbitrary: nds p)
  case Nil
  then show ?case by (simp add: timer_sift.simps contents_def)
next
  case (Cons n "is")
  then have pn: "tn_next (nds ! p) = Some n" "p < length nds" "n < length nds" "p \<noteq> n" by auto
  show ?case
  proof (cases "tn_jiffies (nds ! n) <s tn_jiffies (nds ! p)")
    case False
    then show ?thesis using pn
      by (intro exI [of _ nds]) (simp add: timer_sift.simps contents_def)
  next
    case True
    define nds1 where "nds1 = nds[p := (nds ! p)\<lparr>tn_jiffies := tn_jiffies (nds ! n), tn_fn := tn_fn (nds ! n)\<rparr>,
      n := (nds ! n)\<lparr>tn_jiffies := tn_jiffies (nds ! p) - tn_jiffies (nds ! n), tn_fn := tn_fn (nds ! p)\<rparr>]"
    have next1: "tn_next (nds1 ! i) = tn_next (nds ! i)" for i
      using pn by (auto simp: nds1_def nth_list_update)
    have "tchain nds1 (Some n) (n # is)"
    proof (rule tchain_cong)
      show "tchain nds (Some n) (n # is)" using Cons.prems(1) pn by simp
      show "length nds1 = length nds" by (simp add: nds1_def)
    qed (rule next1)
    then obtain nds' where nds': "timer_sift nds1 n = Some nds'" "length nds' = length nds1"
        "\<And>i. tn_next (nds' ! i) = tn_next (nds1 ! i)" "\<And>i. i \<notin> set (n # is) \<Longrightarrow> nds' ! i = nds1 ! i"
        "map (contents nds') (n # is) = q_sift (map (contents nds1) (n # is))"
      using Cons.IH [of nds1 n] Cons.prems(2) by auto
    have sift: "timer_sift nds p = Some nds'"
      using True pn nds'(1) by (simp add: timer_sift.simps [of nds p] nds1_def)
    have "map (contents nds1) is = map (contents nds) is"
    proof (rule map_cong [OF refl])
      fix x assume "x \<in> set is"
      then have "x \<noteq> p" "x \<noteq> n" using Cons.prems(2) by auto
      then show "contents nds1 x = contents nds x" by (simp add: nds1_def contents_def)
    qed
    moreover have "contents nds' p = contents nds n"
      using nds'(4) [of p] Cons.prems(2) pn by (simp add: nds1_def contents_def)
    moreover have "contents nds1 n = (tn_jiffies (nds ! p) - tn_jiffies (nds ! n), tn_fn (nds ! p))"
      using pn by (simp add: nds1_def contents_def)
    moreover have "q_sift (map (contents nds) (p # n # is)) =
        contents nds n # q_sift ((tn_jiffies (nds ! p) - tn_jiffies (nds ! n), tn_fn (nds ! p)) # map (contents nds) is)"
      using True by (simp add: contents_def)
    ultimately have "map (contents nds') (p # n # is) = q_sift (map (contents nds) (p # n # is))"
      using nds'(5) by (simp del: map_eq_conv)
    moreover have "nds' ! k = nds ! k" if "k \<notin> set (p # n # is)" for k
      using nds'(4) [of k] that by (simp add: nds1_def)
    moreover have "length nds' = length nds" using nds'(2) by (simp add: nds1_def)
    ultimately show ?thesis
      using nds'(3) next1 sift by (intro exI [of _ nds'] conjI allI impI) simp_all
  qed
qed

lemma find_free_spec:
  obtains i where "find_free ns k = k + i" "i \<le> length ns" "i < length ns \<Longrightarrow> tn_fn (ns ! i) = 0"
    "i = length ns \<Longrightarrow> \<forall>n\<in>set ns. tn_fn n \<noteq> 0"
proof -
  have "\<exists>i. find_free ns k = k + i \<and> i \<le> length ns \<and> (i < length ns \<longrightarrow> tn_fn (ns ! i) = 0) \<and>
      (i = length ns \<longrightarrow> (\<forall>n\<in>set ns. tn_fn n \<noteq> 0))"
  proof (induction ns k rule: find_free.induct)
    case (2 n ns k)
    show ?case
    proof (cases "tn_fn n = 0")
      case False
      then obtain i where "find_free ns (Suc k) = Suc k + i \<and> i \<le> length ns \<and>
          (i < length ns \<longrightarrow> tn_fn (ns ! i) = 0) \<and> (i = length ns \<longrightarrow> (\<forall>n\<in>set ns. tn_fn n \<noteq> 0))"
        using 2 by blast
      with False show ?thesis by (intro exI [of _ "Suc i"]) auto
    qed (auto intro: exI [of _ 0])
  qed simp
  then show ?thesis using that by blast
qed

lemma timers_full:
  assumes "timers_rep tm xs"
  shows "length xs = TIME_REQUESTS \<longleftrightarrow> find_free (timer_list tm) 0 = TIME_REQUESTS"
    "length xs \<le> TIME_REQUESTS"
proof -
  let ?l = "timer_list tm"
  obtain "is" where i: "length ?l = TIME_REQUESTS" "distinct is" "xs = map (contents ?l) is"
      "\<And>i. i < TIME_REQUESTS \<Longrightarrow> tn_fn (?l ! i) \<noteq> 0 \<longleftrightarrow> i \<in> set is" "set is \<subseteq> {..<TIME_REQUESTS}"
    using assms tchain_bound unfolding timers_rep_def by (metis lessThan_iff subsetI)
  have card: "length is = card (set is)" using i(2) by (simp add: distinct_card)
  then show "length xs \<le> TIME_REQUESTS"
    using card_mono [OF _ i(5)] i(3) by simp
  obtain f where f: "find_free ?l 0 = 0 + f" "f \<le> length ?l" "f < length ?l \<Longrightarrow> tn_fn (?l ! f) = 0"
      "f = length ?l \<Longrightarrow> \<forall>n\<in>set ?l. tn_fn n \<noteq> 0" by (rule find_free_spec [of ?l 0]) auto
  show "length xs = TIME_REQUESTS \<longleftrightarrow> find_free ?l 0 = TIME_REQUESTS"
  proof
    assume "length xs = TIME_REQUESTS"
    then have "set is = {..<TIME_REQUESTS}"
      using i(3,5) card by (intro card_subset_eq) auto
    then have "\<not> f < TIME_REQUESTS" using f(3) i(1,4) by auto
    with f(1,2) i(1) show "find_free ?l 0 = TIME_REQUESTS" by simp
  next
    assume "find_free ?l 0 = TIME_REQUESTS"
    then have "{..<TIME_REQUESTS} \<subseteq> set is" using f(1,4) i(1,4) by fastforce
    then have "set is = {..<TIME_REQUESTS}" using i(5) by auto
    with card i(3) show "length xs = TIME_REQUESTS" by simp
  qed
qed

lemma add_timer_rep:
  assumes rep: "timers_rep tm xs" and fn: "fn \<noteq> 0" and j: "0 <s j" and room: "length xs < TIME_REQUESTS"
  shows "\<exists>tm'. add_timer j fn tm = Some (Inr tm') \<and> timers_rep tm' (q_insert j fn xs) \<and> fired tm' = fired tm"
proof -
  let ?l = "timer_list tm"
  obtain "is" where i: "length ?l = TIME_REQUESTS" "tchain ?l (next_timer tm) is" "distinct is"
      "\<And>i. i < TIME_REQUESTS \<Longrightarrow> tn_fn (?l ! i) \<noteq> 0 \<longleftrightarrow> i \<in> set is" "xs = map (contents ?l) is"
    using rep unfolding timers_rep_def by blast
  define p where "p = find_free ?l 0"
  obtain f where "find_free ?l 0 = 0 + f" "f \<le> length ?l" "f < length ?l \<Longrightarrow> tn_fn (?l ! f) = 0"
    by (rule find_free_spec [of ?l 0]) auto
  then have p: "p < TIME_REQUESTS" "tn_fn (?l ! p) = 0"
    using timers_full [OF rep] room i(1) by (auto simp: p_def le_less)
  then have notin: "p \<notin> set is" using i(4) by blast
  define nds where "nds = ?l[p := \<lparr>tn_jiffies = j, tn_fn = fn, tn_next = next_timer tm\<rparr>]"
  define nds' where "nds' = (case next_timer tm of None \<Rightarrow> nds
     | Some n \<Rightarrow> if j <s tn_jiffies (nds ! n) then nds[n := (nds ! n)\<lparr>tn_jiffies := tn_jiffies (nds ! n) - j\<rparr>] else nds)"
  have one: "f (xs[n := g (xs ! n)] ! k) = f (xs ! k)" if "\<And>x. f (g x) = f x"
    for f :: "timer_node \<Rightarrow> 'x" and g n k and xs :: "timer_node list"
    using that by (cases "n < length xs") (auto simp: nth_list_update list_update_beyond not_less)
  have next': "tn_next (nds' ! k) = tn_next (nds ! k)" "length nds' = TIME_REQUESTS"
      "tn_fn (nds' ! k) = tn_fn (nds ! k)" for k
    using i(1) one [of tn_next "\<lambda>x. x\<lparr>tn_jiffies := tn_jiffies x - j\<rparr>"]
      one [of tn_fn "\<lambda>x. x\<lparr>tn_jiffies := tn_jiffies x - j\<rparr>"]
    by (simp_all add: nds'_def nds_def split: option.split)
  have other: "k \<noteq> p \<Longrightarrow> nds ! k = ?l ! k" for k by (simp add: nds_def)
  have at_p: "nds ! p = \<lparr>tn_jiffies = j, tn_fn = fn, tn_next = next_timer tm\<rparr>"
    using p i(1) by (simp add: nds_def)
  have "tchain nds' (next_timer tm) is"
    using i(1) next' notin other by (intro tchain_cong [OF i(2)]) (metis, metis)
  then have chain: "tchain nds' (Some p) (p # is)" using p at_p next' by simp
  have dist: "distinct (p # is)" using notin i(3) by simp
  obtain nds'' where s: "timer_sift nds' p = Some nds''" "length nds'' = length nds'"
      "\<And>k. tn_next (nds'' ! k) = tn_next (nds' ! k)" "\<And>k. k \<notin> set (p # is) \<Longrightarrow> nds'' ! k = nds' ! k"
      "map (contents nds'') (p # is) = q_sift (map (contents nds') (p # is))"
    using timer_sift_rep [OF chain dist] by blast
  have pc: "nds' ! p = nds ! p"
    using i(2) notin by (cases "is") (auto simp: nds'_def split: option.splits)
  have "map (contents nds') (p # is) =
      (j, fn) # (case xs of [] \<Rightarrow> [] | (j', f') # r \<Rightarrow> (if j <s j' then j' - j else j', f') # r)"
  proof (cases "is")
    case Nil
    then show ?thesis using i(5) pc at_p by (simp add: contents_def)
  next
    case (Cons n ns)
    then have n: "next_timer tm = Some n" "n < TIME_REQUESTS" "n \<noteq> p" "n \<notin> set ns" using i notin by auto
    have "contents nds' k = contents ?l k" if "k \<in> set ns" for k
    proof -
      have "k \<noteq> p" "k \<noteq> n" using that n(4) Cons notin by auto
      then show ?thesis using n(1) other by (simp add: nds'_def contents_def)
    qed
    moreover have "contents nds' n = (if j <s tn_jiffies (?l ! n) then tn_jiffies (?l ! n) - j
        else tn_jiffies (?l ! n), tn_fn (?l ! n))"
      using n other i(1) by (simp add: nds'_def contents_def nds_def)
    ultimately show ?thesis using i(5) pc at_p Cons by (simp add: contents_def)
  qed
  then have q: "map (contents nds'') (p # is) = q_insert j fn xs" using s(5) by (simp add: q_insert_def)
  let ?tm = "tm\<lparr>timer_list := nds'', next_timer := Some p\<rparr>"
  have used: "tn_fn (nds'' ! k) \<noteq> 0 \<longleftrightarrow> k \<in> set (p # is)" if "k < TIME_REQUESTS" for k
  proof (cases "k \<in> set (p # is)")
    case False
    then show ?thesis using s(4) next'(3) other i(4) that by auto
  next
    case True
    have ne: "snd ` set (q_sift ys) = snd ` set ys" for ys :: "(u32 \<times> u32) list"
      by (induction ys rule: q_sift.induct) auto
    have "snd (contents nds'' k) \<in> snd ` set (map (contents nds') (p # is))"
      using True ne [of "map (contents nds') (p # is)"] s(5) by (metis image_eqI list.set_map)
    also have "\<dots> \<subseteq> {x. x \<noteq> 0}"
      using next'(3) at_p other i(4) fn tchain_bound [OF i(2)] i(1) notin
      by (auto simp: contents_def) metis
    finally show ?thesis using True by (simp add: contents_def)
  qed
  have "timers_rep ?tm (q_insert j fn xs)"
    unfolding timers_rep_def
  proof (intro conjI exI [of _ "p # is"] allI impI)
    show "tchain (timer_list ?tm) (next_timer ?tm) (p # is)"
      using tchain_cong [OF chain s(2,3)] by (simp del: tchain.simps)
  qed (use s(2) next'(2) q dist used in simp_all)
  moreover have "add_timer j fn tm = Some (Inr ?tm)"
    using fn j p s(1) by (simp add: add_timer_def Let_def word_sless_alt word_sle_eq flip: p_def nds_def nds'_def)
  ultimately show ?thesis by auto
qed

lemma fire_timers_rep:
  "timers_rep tm xs \<Longrightarrow> \<exists>tm'. fire_timers tm = Some tm' \<and> timers_rep tm' (snd (q_fire xs)) \<and>
     fired tm' = fired tm @ fst (q_fire xs)"
proof (induction xs arbitrary: tm)
  case Nil
  then have "next_timer tm = None" by (auto simp: timers_rep_def)
  with Nil show ?case by (auto simp: fire_timers.simps)
next
  case (Cons x xs)
  let ?l = "timer_list tm"
  obtain n ns where i: "length ?l = TIME_REQUESTS" "next_timer tm = Some n" "n < length ?l"
      "tchain ?l (tn_next (?l ! n)) ns" "distinct (n # ns)" "x = contents ?l n" "xs = map (contents ?l) ns"
      "\<And>i. i < TIME_REQUESTS \<Longrightarrow> tn_fn (?l ! i) \<noteq> 0 \<longleftrightarrow> i \<in> set (n # ns)"
    using Cons.prems unfolding timers_rep_def by (auto simp: Cons_eq_map_conv)
  let ?l' = "?l[n := (?l ! n)\<lparr>tn_fn := 0\<rparr>]"
  let ?tm = "tm\<lparr>timer_list := ?l', next_timer := tn_next (?l ! n), fired := fired tm @ [tn_fn (?l ! n)]\<rparr>"
  show ?case
  proof (cases "tn_jiffies (?l ! n) \<le>s 0")
    case False
    with i(2,6) Cons.prems show ?thesis by (auto simp: fire_timers.simps contents_def Let_def)
  next
    case True
    have same: "k \<noteq> n \<Longrightarrow> ?l' ! k = ?l ! k" for k by simp
    have "timers_rep ?tm xs"
      unfolding timers_rep_def
    proof (intro conjI exI [of _ ns] allI impI)
      have "tchain ?l' (tn_next (?l ! n)) ns"
      proof (rule tchain_cong [OF i(4)])
        fix k assume "k \<in> set ns"
        then have "k \<noteq> n" using i(5) by auto
        then show "tn_next (?l' ! k) = tn_next (?l ! k)" by simp
      qed simp
      then show "tchain (timer_list ?tm) (next_timer ?tm) ns" by simp
      show "xs = map (contents (timer_list ?tm)) ns"
        unfolding i(7)
      proof (rule map_cong [OF refl])
        fix k assume "k \<in> set ns"
        then have "k \<noteq> n" using i(5) by auto
        then show "contents ?l k = contents (timer_list ?tm) k" by (simp add: contents_def)
      qed
      fix k assume "k < TIME_REQUESTS"
      then show "tn_fn (timer_list ?tm ! k) \<noteq> 0 \<longleftrightarrow> k \<in> set ns"
        using i(8) [of k] i(1,3,5) by (cases "k = n") auto
    qed (use i(1,5) in simp_all)
    then obtain tm' where "fire_timers ?tm = Some tm'" "timers_rep tm' (snd (q_fire xs))"
        "fired tm' = fired ?tm @ fst (q_fire xs)" using Cons.IH by blast
    moreover have "fire_timers tm = fire_timers ?tm"
      using True i(2) by (simp add: fire_timers.simps [of tm] Let_def)
    ultimately show ?thesis using True i(6)
      by (auto simp: contents_def split: prod.splits)
  qed
qed

lemma timer_tick_rep:
  assumes "timers_rep tm xs"
  shows "\<exists>tm'. timer_tick tm = Some tm' \<and> timers_rep tm' (snd (q_tick xs)) \<and>
     fired tm' = fired tm @ fst (q_tick xs)"
proof (cases xs)
  case Nil
  with assms have "next_timer tm = None" by (auto simp: timers_rep_def)
  with Nil assms show ?thesis by (simp add: timer_tick_def q_tick_def)
next
  case (Cons x r)
  let ?l = "timer_list tm"
  obtain n ns where i: "length ?l = TIME_REQUESTS" "next_timer tm = Some n" "n < length ?l"
      "tchain ?l (tn_next (?l ! n)) ns" "distinct (n # ns)" "x = contents ?l n" "r = map (contents ?l) ns"
      "\<And>i. i < TIME_REQUESTS \<Longrightarrow> tn_fn (?l ! i) \<noteq> 0 \<longleftrightarrow> i \<in> set (n # ns)"
    using assms Cons unfolding timers_rep_def by (auto simp: Cons_eq_map_conv)
  let ?l' = "?l[n := (?l ! n)\<lparr>tn_jiffies := tn_jiffies (?l ! n) - 1\<rparr>]"
  have same: "tn_next (?l' ! k) = tn_next (?l ! k)" "tn_fn (?l' ! k) = tn_fn (?l ! k)" for k
    using i(3) by (auto simp: nth_list_update)
  have "timers_rep (tm\<lparr>timer_list := ?l'\<rparr>) ((fst x - 1, snd x) # r)"
    unfolding timers_rep_def
  proof (intro conjI exI [of _ "n # ns"] allI impI)
    show "tchain (timer_list (tm\<lparr>timer_list := ?l'\<rparr>)) (next_timer (tm\<lparr>timer_list := ?l'\<rparr>)) (n # ns)"
      using i(2,3) same tchain_cong [OF i(4), of ?l'] by simp
    show "(fst x - 1, snd x) # r = map (contents (timer_list (tm\<lparr>timer_list := ?l'\<rparr>))) (n # ns)"
      using i(3,5) unfolding i(6,7) by (auto simp: contents_def nth_list_update)
  qed (use i(1,5,8) same in simp_all)
  from fire_timers_rep [OF this] show ?thesis
    using i(2) Cons by (auto simp: timer_tick_def q_tick_def split: prod.splits)
qed

section \<open>When timers fire\<close>

text \<open>The ticks after which each request of the queue is due, counting from now.\<close>

fun due :: "nat \<Rightarrow> (u32 \<times> u32) list \<Rightarrow> (nat \<times> u32) list" where
  "due a [] = []"
| "due a ((j, f) # r) = (a + unat j, f) # due (a + unat j) r"

definition q_ok :: "(u32 \<times> u32) list \<Rightarrow> bool" where
  "q_ok xs \<longleftrightarrow> (\<forall>x\<in>set xs. 0 \<le>s fst x) \<and> (xs \<noteq> [] \<longrightarrow> 0 <s fst (hd xs))"

lemma due_shift: "due (a + b) xs = map (\<lambda>(t, f). (t + a, f)) (due b xs)"
  by (induction b xs rule: due.induct) (auto simp: ac_simps)

lemma due_ge: "(t, f) \<in> set (due a xs) \<Longrightarrow> a \<le> t"
  by (induction a xs rule: due.induct) auto

lemma q_fire_due:
  "\<forall>x\<in>set xs. 0 \<le>s fst x \<Longrightarrow>
    fst (q_fire xs) = map snd (filter (\<lambda>(t, f). t = a) (due a xs)) \<and>
    due a (snd (q_fire xs)) = filter (\<lambda>(t, f). a < t) (due a xs) \<and> q_ok (snd (q_fire xs))"
proof (induction xs rule: q_fire.induct)
  case (2 j f r)
  show ?case
  proof (cases "j \<le>s 0")
    case True
    then have "j = 0" using 2 by (simp add: word_sle_eq) (metis dual_order.antisym signed_0 signed_word_eqI)
    with True 2 show ?thesis by (auto split: prod.splits)
  next
    case False
    then have "j \<noteq> 0" by (auto simp: word_sle_eq)
    then have j: "0 < unat j" by (simp add: unat_gt_0)
    then have "\<And>t g. (t, g) \<in> set (due (a + unat j) r) \<Longrightarrow> a < t" using due_ge by fastforce
    then have "filter (\<lambda>(t, f). t = a) (due (a + unat j) r) = []"
        "filter (\<lambda>(t, f). a < t) (due (a + unat j) r) = due (a + unat j) r"
      by (auto simp: filter_empty_conv filter_id_conv)
    with False 2(2) j show ?thesis by (auto simp: q_ok_def word_sless_alt word_sle_eq)
  qed
qed (simp add: q_ok_def)

lemma q_tick_due:
  assumes "q_ok xs"
  shows "fst (q_tick xs) = map snd (filter (\<lambda>(t, f). t \<le> 1) (due 0 xs)) \<and>
    due 1 (snd (q_tick xs)) = filter (\<lambda>(t, f). 1 < t) (due 0 xs) \<and> q_ok (snd (q_tick xs))"
proof (cases xs)
  case (Cons x r)
  obtain j f where x: "x = (j, f)" by (cases x)
  have j: "0 < sint j" using assms Cons x by (simp add: q_ok_def word_sless_alt)
  then have nz: "j \<noteq> 0" by auto
  then have dec: "unat (j - 1) = unat j - 1" "0 < unat j" by (simp_all add: unat_minus_one unat_gt_0)
  have "sint j = int (unat j)" using j by (simp add: sint_nonneg)
  then have "unat j = nat (sint j)" by simp
  then have "unat j < 2 ^ 31" using sint_lt [of j] j by (simp add: nat_less_iff)
  then have "sint (of_nat (unat j - 1) :: u32) = int (unat j - 1)"
    by (intro sint_of_nat_small) simp
  moreover have "of_nat (unat j - 1) = j - 1" unfolding dec(1) [symmetric] by simp
  ultimately have "0 \<le> sint (j - 1)" by simp
  then have "\<forall>y\<in>set ((j - 1, f) # r). 0 \<le>s fst y"
    using assms Cons x by (auto simp: q_ok_def word_sle_eq)
  from q_fire_due [OF this, of 1] have q:
    "fst (q_tick xs) = map snd (filter (\<lambda>(t, f). t = 1) (due 1 ((j - 1, f) # r)))"
    "due 1 (snd (q_tick xs)) = filter (\<lambda>(t, f). 1 < t) (due 1 ((j - 1, f) # r))" "q_ok (snd (q_tick xs))"
    by (simp_all add: q_tick_def Cons x)
  have "due 1 ((j - 1, f) # r) = due 0 xs" using dec by (simp add: Cons x)
  moreover have "(\<lambda>(t, f). t = 1) z \<longleftrightarrow> (\<lambda>(t, f). t \<le> 1) z" if "z \<in> set (due 0 xs)" for z
  proof -
    have "0 < fst z" using that due_ge [of "fst z" "snd z" "unat j" r] dec by (auto simp: Cons x)
    then show ?thesis by (cases z) auto
  qed
  ultimately show ?thesis using q by (simp cong: filter_cong)
qed (simp add: q_tick_def q_ok_def)

text \<open>An empty table, and one with a single request that is due in five ticks.\<close>

definition timers0 :: timers where
  "timers0 = \<lparr>timer_list = replicate 64 \<lparr>tn_jiffies = 0, tn_fn = 0, tn_next = None\<rparr>,
     next_timer = None, fired = []\<rparr>"

definition timers1 :: timers where
  "timers1 = timers0\<lparr>timer_list := (timer_list timers0)[0 := \<lparr>tn_jiffies = 5, tn_fn = 1, tn_next = None\<rparr>],
     next_timer := Some 0\<rparr>"

lemma timers0_rep: "timers_rep timers0 []"
  by (auto simp: timers_rep_def timers0_def TIME_REQUESTS_def intro!: exI [of _ "[]"])

lemma timers1_rep: "timers_rep timers1 [(5, 1)]"
  by (auto simp: timers_rep_def timers1_def timers0_def TIME_REQUESTS_def contents_def nth_list_update
      intro!: exI [of _ "[0]"])

lemma due_append: "due a (xs @ ys) = due a xs @ due (a + sum_list (map (unat \<circ> fst) xs)) ys"
  by (induction a xs rule: due.induct) (simp_all add: ac_simps)

lemma q_sift_append:
  assumes "\<forall>x\<in>set xs. 0 \<le>s fst x" "unat j < 2 ^ 31" "sum_list (map (unat \<circ> fst) xs) < unat j"
  shows "q_sift ((j, f) # xs) = xs @ [(j - of_nat (sum_list (map (unat \<circ> fst) xs)), f)]"
  using assms
proof (induction xs arbitrary: j)
  case (Cons x xs)
  obtain j' f' where x: "x = (j', f')" by (cases x)
  have le: "unat j' \<le> unat j" "unat j' < unat j" using Cons.prems(3) x by auto
  have "sint j' = int (unat j')" using Cons.prems(1) x by (intro sint_nonneg) (simp add: word_sle_eq)
  moreover have "sint j = int (unat j)"
    using sint_of_nat_small [of "unat j", where ?'a = 32] Cons.prems(2) by simp
  ultimately have less: "j' <s j" using le(2) by (simp only: word_sless_alt of_nat_less_iff)
  have sub: "unat (j - j') = unat j - unat j'" using le by (simp add: unat_sub_if')
  have "q_sift ((j - j', f) # xs) = xs @ [(j - j' - of_nat (sum_list (map (unat \<circ> fst) xs)), f)]"
    using Cons.prems x sub by (intro Cons.IH) auto
  with less x show ?case by (simp add: algebra_simps comp_def)
qed simp

lemma sless_small:
  assumes "0 < unat j" "unat j < 2 ^ 31"
  shows "0 <s (j :: u32)"
proof -
  have "sint j = int (unat j)"
    using sint_of_nat_small [of "unat j", where ?'a = 32] assms(2) by simp
  with assms(1) show ?thesis by (simp only: word_sless_alt signed_0 of_nat_0_less_iff)
qed

text \<open>\<open>add_timer\<close> on a linked list of requests that is not full, with a time later than all of
  theirs, ends, takes a free node, and schedules the new request after exactly \<open>j\<close> ticks; the times
  of the others do not change.\<close>

lemma add_timer_latest:
  assumes "timers_rep tm xs" "q_ok xs" "length xs < 64" "fn \<noteq> 0" "0 < unat j" "unat j < 2 ^ 31"
    "\<forall>(t, g)\<in>set (due 0 xs). t < unat j"
  shows "\<exists>tm' xs'. add_timer j fn tm = Some (Inr tm') \<and> timers_rep tm' xs' \<and> q_ok xs' \<and>
    fired tm' = fired tm \<and> due 0 xs' = due 0 xs @ [(unat j, fn)]"
proof -
  let ?s = "sum_list (map (unat \<circ> fst) xs)"
  have last: "?s < unat j"
  proof (cases "xs = []")
    case False
    then obtain ys y where xs: "xs = ys @ [y]" by (metis rev_exhaust)
    obtain jy g where y: "y = (jy, g)" by (cases y)
    have "(?s, g) \<in> set (due 0 xs)" by (simp add: xs y due_append)
    with assms(7) show ?thesis by auto
  qed (use assms(5) in simp)
  have sj: "sint j = int (unat j)"
    using sint_of_nat_small [of "unat j", where ?'a = 32] assms(6) by simp
  have ins: "q_insert j fn xs = xs @ [(j - of_nat ?s, fn)]"
  proof (cases xs)
    case Nil
    then show ?thesis by (simp add: q_insert_def)
  next
    case (Cons x r)
    then obtain j' f' where x: "x = (j', f')" by (cases x)
    have "sint j' = int (unat j')"
      using assms(2) Cons x by (intro sint_nonneg) (auto simp: q_ok_def word_sle_eq)
    moreover have "unat j' < unat j" using last Cons x by simp
    ultimately have "\<not> j <s j'" using sj by (simp only: word_sless_alt of_nat_less_iff not_less less_imp_le)
    then show ?thesis
      using q_sift_append [of xs j fn] assms(2,6) last Cons x by (simp add: q_insert_def q_ok_def)
  qed
  have "?s < 2 ^ 32" using last assms(6) by simp
  then have "unat (of_nat ?s :: u32) = ?s" by (intro unat_of_nat_small) simp
  then have "unat (j - of_nat ?s) = unat j - ?s" using last by (simp add: unat_sub_if')
  then have "due 0 (q_insert j fn xs) = due 0 xs @ [(unat j, fn)]"
    using last by (simp add: ins due_append)
  moreover have "0 < sint j" using sj assms(5) by (simp only: of_nat_0_less_iff)
  then have "0 <s j" by (simp add: word_sless_alt)
  moreover have "q_ok (q_insert j fn xs)"
  proof -
    have "unat (j - of_nat ?s) < 2 ^ 31" "0 < unat (j - of_nat ?s)"
      using \<open>unat (j - of_nat ?s) = unat j - ?s\<close> last assms(6) by simp_all
    then have pos: "0 <s j - of_nat ?s" using sless_small [of "j - of_nat ?s"] by blast
    show ?thesis unfolding ins using assms(2) signed.less_imp_le [OF pos] pos
      by (cases "xs = []") (auto simp: q_ok_def)
  qed
  ultimately show ?thesis
    using add_timer_rep [OF assms(1,4), of j] assms(3) by (fastforce simp: TIME_REQUESTS_def)
qed

text \<open>
  With an earlier time the code goes wrong: it takes the new time off the old head and then, when
  the rest is smaller than the new time, moves the new request behind it all the same. A request
  due in 5 ticks fires after 2 and a new one for 3 ticks fires after 3.
\<close>

lemma add_timer_earlier_breaks_order:
  "\<exists>tm' xs'. add_timer 3 2 timers1 = Some (Inr tm') \<and> timers_rep tm' xs' \<and> due 0 xs' = [(2, 1), (3, 2)]"
proof -
  obtain tm' where "add_timer 3 2 timers1 = Some (Inr tm')" "timers_rep tm' (q_insert 3 2 [(5, 1)])"
    using add_timer_rep [OF timers1_rep, of 2 3] by (auto simp: word_sless_alt TIME_REQUESTS_def)
  then show ?thesis
    by (intro exI [of _ tm'] exI [of _ "[(2, 1), (1, 2)]"]) (simp add: q_insert_def word_sless_alt)
qed

lemma add_timer_full:
  "timers_rep tm xs \<Longrightarrow> length xs = TIME_REQUESTS \<Longrightarrow> fn \<noteq> 0 \<Longrightarrow> 0 <s j \<Longrightarrow>
    add_timer j fn tm = Some (Inl (Panic ''No more time requests free''))"
  using timers_full(1) [of tm xs] by (simp add: add_timer_def word_sle_eq word_sless_alt)

section \<open>Timers over a run of the kernel\<close>

text \<open>What happens to the timers while the kernel runs: calls of \<open>add_timer\<close>, and clock ticks.\<close>

datatype timer_event = Tick | Add_timer u32 u32

fun timer_run :: "timer_event list \<Rightarrow> timers \<Rightarrow> timers kres option" where
  "timer_run [] tm = Some (Inr tm)"
| "timer_run (Tick # es) tm = Option.bind (timer_tick tm) (timer_run es)"
| "timer_run (Add_timer j fn # es) tm = Option.bind (add_timer j fn tm) (case_sum (Some \<circ> Inl) (timer_run es))"

text \<open>
  What is asked for, with no list and no differences: \<open>alarms_of\<close> gives each call of \<open>add_timer\<close> the
  number of the tick at which its function is due, the ticks so far and the ones it asks for.
\<close>

definition ticks_of :: "timer_event list \<Rightarrow> nat" where
  "ticks_of es = length (filter (\<lambda>e. e = Tick) es)"

fun alarms_of :: "nat \<Rightarrow> timer_event list \<Rightarrow> (nat \<times> u32) list" where
  "alarms_of now [] = []"
| "alarms_of now (Tick # es) = alarms_of (Suc now) es"
| "alarms_of now (Add_timer j fn # es) = (now + unat j, fn) # alarms_of now es"

definition pending_after :: "timer_event list \<Rightarrow> (nat \<times> u32) list" where
  "pending_after es = filter (\<lambda>(t, f). ticks_of es < t) (alarms_of 0 es)"

lemma ticks_of_snoc [simp]: "ticks_of [] = 0" "ticks_of (es @ [Tick]) = Suc (ticks_of es)"
  "ticks_of (es @ [Add_timer j fn]) = ticks_of es"
  by (simp_all add: ticks_of_def)

lemma alarms_snoc [simp]: "alarms_of n (es @ [Tick]) = alarms_of n es"
  "alarms_of n (es @ [Add_timer j fn]) = alarms_of n es @ [(n + ticks_of es + unat j, fn)]"
  by (induction n es rule: alarms_of.induct) (simp_all add: ticks_of_def)

lemma timer_run_append:
  "timer_run (es @ fs) tm = Option.bind (timer_run es tm) (case_sum (Some \<circ> Inl) (timer_run fs))"
  by (induction es tm rule: timer_run.induct) (auto simp: bind_assoc comp_def split: sum.splits bind_splits)

lemma filter_le_Suc:
  "sorted (map fst A) \<Longrightarrow> map snd (filter (\<lambda>(t, f). t \<le> Suc n) A) =
    map snd (filter (\<lambda>(t, f). t \<le> n) A) @ map snd (filter (\<lambda>(t, f). t \<le> Suc n) (filter (\<lambda>(t, f). n < t) A))"
proof (induction A)
  case (Cons x A)
  show ?case
  proof (cases "fst x \<le> n")
    case False
    then have "filter (\<lambda>(t, f). t \<le> n) A = []" using Cons.prems by (fastforce simp: filter_empty_conv)
    with False Cons show ?thesis by (auto split: prod.splits)
  qed (use Cons in \<open>auto split: prod.splits\<close>)
qed simp

lemma length_due [simp]: "length (due a xs) = length xs"
  by (induction a xs rule: due.induct) simp_all

text \<open>One tick and one new request, with the times counted from the start of the run.\<close>

lemma timer_tick_at:
  assumes "timers_rep tm xs" "q_ok xs"
  shows "\<exists>tm' xs'. timer_tick tm = Some tm' \<and> timers_rep tm' xs' \<and> q_ok xs' \<and>
    fired tm' = fired tm @ map snd (filter (\<lambda>(t, f). t \<le> Suc n) (due n xs)) \<and>
    due (Suc n) xs' = filter (\<lambda>(t, f). Suc n < t) (due n xs)"
proof -
  let ?xs = "snd (q_tick xs)"
  obtain tm' where t: "timer_tick tm = Some tm'" "timers_rep tm' ?xs" "fired tm' = fired tm @ fst (q_tick xs)"
    using timer_tick_rep [OF assms(1)] by blast
  have q: "fst (q_tick xs) = map snd (filter (\<lambda>(t, f). t \<le> 1) (due 0 xs))"
      "due 1 ?xs = filter (\<lambda>(t, f). 1 < t) (due 0 xs)" "q_ok ?xs"
    using q_tick_due [OF assms(2)] by blast+
  have "due (Suc n) ?xs = filter (\<lambda>(t, f). Suc n < t) (due n xs)"
    using due_shift [of n 1 ?xs] due_shift [of n 0 xs] q(2)
    by (simp add: filter_map comp_def case_prod_unfold)
  moreover have "fst (q_tick xs) = map snd (filter (\<lambda>(t, f). t \<le> Suc n) (due n xs))"
    using due_shift [of n 0 xs] q(1) by (simp add: filter_map comp_def case_prod_unfold)
  ultimately show ?thesis using t q(3) by (intro exI [of _ tm'] exI [of _ ?xs]) simp
qed

lemma add_timer_at:
  assumes "timers_rep tm xs" "q_ok xs" "length xs < 64" "fn \<noteq> 0" "0 < unat j" "unat j < 2 ^ 31"
    "\<forall>(t, g)\<in>set (due n xs). t < n + unat j"
  shows "\<exists>tm' xs'. add_timer j fn tm = Some (Inr tm') \<and> timers_rep tm' xs' \<and> q_ok xs' \<and>
    fired tm' = fired tm \<and> due n xs' = due n xs @ [(n + unat j, fn)]"
proof -
  note sh = due_shift [of n 0, simplified]
  have "\<forall>(t, g)\<in>set (due 0 xs). t < unat j" using assms(7) by (fastforce simp: sh)
  from add_timer_latest [OF assms(1-6) this] show ?thesis by (fastforce simp: sh)
qed

text \<open>C10: The kernel timers fire on time. Take any sequence of clock ticks and calls of \<open>add_timer\<close> (with
  a function and a tick count that is a non-negative \<open>long\<close>) in which every request is due later than
  all earlier ones and never more than 64 are pending. Then every call and every tick returns, no call
  panics, and the functions called so far are exactly those whose tick has come, each at the number
  of ticks it was set for after the tick of its call, in the order of their times. The statement
  holds of every sequence, hence after every event of one. (With a request due at the same tick as
  a pending one or earlier \<open>add_timer\<close> goes wrong: \<open>add_timer_earlier_breaks_order\<close>.)\<close>

theorem timers_fire_on_time:
  assumes "\<forall>j fn. Add_timer j fn \<in> set es \<longrightarrow> fn \<noteq> 0 \<and> unat j < 2 ^ 31"
    "sorted_wrt (<) (map fst (alarms_of 0 es))" "\<forall>n\<le>length es. length (pending_after (take n es)) \<le> 64"
  shows "\<exists>tm xs. timer_run es timers0 = Some (Inr tm) \<and> timers_rep tm xs \<and> q_ok xs \<and>
    fired tm = map snd (filter (\<lambda>(t, f). t \<le> ticks_of es) (alarms_of 0 es)) \<and> due (ticks_of es) xs = pending_after es"
  using assms
proof (induction es rule: rev_induct)
  case Nil
  show ?case using timers0_rep by (auto simp: q_ok_def pending_after_def timers0_def)
next
  case (snoc e es)
  have prem: "sorted_wrt (<) (map fst (alarms_of 0 es))" using snoc.prems(2) by (cases e) (simp_all add: sorted_wrt_append)
  have room: "\<forall>n\<le>length es. length (pending_after (take n es)) \<le> 64"
  proof (intro allI impI)
    fix n assume "n \<le> length es"
    then show "length (pending_after (take n es)) \<le> 64" using snoc.prems(3) [rule_format, of n] by simp
  qed
  obtain tm xs where IH: "timer_run es timers0 = Some (Inr tm)" "timers_rep tm xs" "q_ok xs"
      "fired tm = map snd (filter (\<lambda>(t, f). t \<le> ticks_of es) (alarms_of 0 es))" "due (ticks_of es) xs = pending_after es"
    using snoc.IH [OF _ prem room] snoc.prems(1) by auto
  have srt: "sorted (map fst (alarms_of 0 es))"
    using prem by (rule strict_sorted_imp_sorted)
  show ?case
  proof (cases e)
    case Tick
    obtain tm' xs' where t: "timer_tick tm = Some tm'" "timers_rep tm' xs'" "q_ok xs'"
        "fired tm' = fired tm @ map snd (filter (\<lambda>(t, f). t \<le> Suc (ticks_of es)) (due (ticks_of es) xs))"
        "due (Suc (ticks_of es)) xs' = filter (\<lambda>(t, f). Suc (ticks_of es) < t) (due (ticks_of es) xs)"
      using timer_tick_at [OF IH(2,3)] by blast
    have "filter (\<lambda>(t, f). Suc (ticks_of es) < t) (pending_after es) = pending_after (es @ [Tick])"
      by (auto simp: pending_after_def intro: filter_cong)
    with t IH Tick filter_le_Suc [OF srt, of "ticks_of es"] show ?thesis
      by (intro exI [of _ tm'] exI [of _ xs']) (simp add: timer_run_append pending_after_def [of es])
  next
    case (Add_timer j fn)
    have fn: "fn \<noteq> 0" "unat j < 2 ^ 31" using snoc.prems(1) Add_timer by auto
    have later: "\<forall>(t, g)\<in>set (alarms_of 0 es). t < ticks_of es + unat j"
      using snoc.prems(2) Add_timer by (fastforce simp: sorted_wrt_append)
    show ?thesis
    proof (cases "j = 0")
      case True
      then have "add_timer j fn tm = Some (Inr (tm\<lparr>fired := fired tm @ [fn]\<rparr>))"
        using fn by (simp add: add_timer_def)
      moreover have "timers_rep (tm\<lparr>fired := fired tm @ [fn]\<rparr>) xs" using IH(2) by (simp add: timers_rep_def)
      ultimately show ?thesis using IH Add_timer True
        by (intro exI [of _ "tm\<lparr>fired := fired tm @ [fn]\<rparr>"] exI [of _ xs])
          (simp add: timer_run_append pending_after_def)
    next
      case False
      then have j: "0 < unat j" by (simp add: unat_gt_0)
      have "length (pending_after (es @ [e])) \<le> 64"
        using snoc.prems(3) [rule_format, of "length (es @ [e])"] by simp
      moreover have "pending_after (es @ [e]) = pending_after es @ [(ticks_of es + unat j, fn)]"
        using Add_timer j by (simp add: pending_after_def)
      moreover have "length xs = length (pending_after es)" using arg_cong [OF IH(5), of length] by simp
      ultimately have "length xs < 64" by simp
      moreover have "\<forall>(t, g)\<in>set (due (ticks_of es) xs). t < ticks_of es + unat j"
        using later by (auto simp: IH(5) pending_after_def)
      ultimately obtain tm' xs' where "add_timer j fn tm = Some (Inr tm')" "timers_rep tm' xs'" "q_ok xs'"
          "fired tm' = fired tm" "due (ticks_of es) xs' = due (ticks_of es) xs @ [(ticks_of es + unat j, fn)]"
        using add_timer_at [OF IH(2,3) _ fn(1) j fn(2)] by blast
      then show ?thesis using IH Add_timer j
        by (intro exI [of _ tm'] exI [of _ xs']) (simp add: timer_run_append pending_after_def)
    qed
  qed
qed

text \<open>Two requests, for 2 ticks and for 3, the second set after the first tick: after three ticks
  only the first has been called, after four both.\<close>

theorem timers_fire_on_time_witness:
  "\<exists>tm tm'. timer_run [Add_timer 2 7, Tick, Add_timer 3 8, Tick, Tick] timers0 = Some (Inr tm) \<and> fired tm = [7] \<and>
    timer_run [Add_timer 2 7, Tick, Add_timer 3 8, Tick, Tick, Tick] timers0 = Some (Inr tm') \<and> fired tm' = [7, 8]"
proof -
  let ?es = "[Add_timer 2 7, Tick, Add_timer 3 8, Tick, Tick]"
  have few: "length (alarms_of a fs) \<le> length fs" for a fs by (induction a fs rule: alarms_of.induct) auto
  have room: "length (pending_after (take n es)) \<le> 64" if "length es \<le> 64" for n es
  proof -
    have "length (pending_after (take n es)) \<le> length (alarms_of 0 (take n es))"
      unfolding pending_after_def by (rule length_filter_le)
    also have "\<dots> \<le> length (take n es)" by (rule few)
    also have "\<dots> \<le> 64" using that by simp
    finally show ?thesis .
  qed
  have "\<exists>tm. timer_run ?es timers0 = Some (Inr tm) \<and> fired tm = [7]"
    using timers_fire_on_time [of ?es] room [of ?es] by (auto simp: ticks_of_def)
  moreover have "\<exists>tm. timer_run (?es @ [Tick]) timers0 = Some (Inr tm) \<and> fired tm = [7, 8]"
    using timers_fire_on_time [of "?es @ [Tick]"] room [of "?es @ [Tick]"] by (auto simp: ticks_of_def)
  ultimately show ?thesis by auto
qed

section \<open>When motors stop\<close>

definition motor_on :: "motors \<Rightarrow> nat \<Rightarrow> bool" where
  "motor_on f i \<longleftrightarrow> bit (current_DOR f) (4 + i)"

lemma motor_mask: "i < 4 \<Longrightarrow> push_bit i 0x10 AND d = 0 \<longleftrightarrow> \<not> bit (d :: u8) (4 + i)"
proof -
  have "push_bit i 0x10 = (2 :: u8) ^ (4 + i)"
    by (simp add: push_bit_eq_mult power_add)
  moreover assume "i < 4"
  ultimately show ?thesis
    using and_exp_eq_0_iff_not_bit [of d "4 + i"] by (simp add: and.commute)
qed

lemma motor_clear: "i < 4 \<Longrightarrow> j < 4 \<Longrightarrow>
    bit (d AND NOT (push_bit i 0x10) :: u8) (4 + j) \<longleftrightarrow> bit d (4 + j) \<and> i \<noteq> j"
proof -
  assume "i < 4" "j < 4"
  have "push_bit i 0x10 = (2 :: u8) ^ (4 + i)"
    by (simp add: push_bit_eq_mult power_add)
  then show ?thesis using \<open>j < 4\<close> by (auto simp: bit_simps)
qed

definition motors_ok :: "motors \<Rightarrow> bool" where
  "motors_ok f \<longleftrightarrow> length (mon_timer f) = 4 \<and> length (moff_timer f) = 4"

text \<open>What a tick does to the motor \<open>i\<close> alone.\<close>

lemma motor_step_other:
  assumes "motors_ok f" "i < 4" "j < 4" "i \<noteq> j" "motor_step j (f, w) = (f', w')"
  shows "motors_ok f'" "motor_on f' i = motor_on f i" "mon_timer f' ! i = mon_timer f ! i"
    "moff_timer f' ! i = moff_timer f ! i"
  using assms by (auto simp: motor_step_def motors_ok_def motor_on_def motor_clear Let_def split: if_splits)

lemma motor_step_self:
  assumes "motors_ok f" "i < 4" "motor_on f i" "mon_timer f ! i = 0" "motor_step i (f, w) = (f', w')"
  shows "motors_ok f'" "mon_timer f' ! i = 0"
    "motor_on f' i \<longleftrightarrow> moff_timer f ! i \<noteq> 0"
    "moff_timer f ! i \<noteq> 0 \<Longrightarrow> moff_timer f' ! i = moff_timer f ! i - 1"
  using assms by (auto simp: motor_step_def motors_ok_def motor_on_def motor_clear motor_mask Let_def
      split: if_splits)

lemma motor_step_off:
  "i < 4 \<Longrightarrow> \<not> motor_on f i \<Longrightarrow> motor_step i (f, w) = (f, w)"
  by (simp add: motor_step_def motor_on_def motor_mask)

lemma motor_fold_other:
  "set js \<subseteq> {..<4} - {i} \<Longrightarrow> motors_ok f \<Longrightarrow> i < 4 \<Longrightarrow> fold motor_step js (f, w) = (f', w') \<Longrightarrow>
    motors_ok f' \<and> motor_on f' i = motor_on f i \<and> mon_timer f' ! i = mon_timer f ! i \<and>
    moff_timer f' ! i = moff_timer f ! i"
proof (induction js arbitrary: f w)
  case (Cons j js)
  obtain f1 w1 where j: "motor_step j (f, w) = (f1, w1)" by fastforce
  have "i < 4" "j < 4" "i \<noteq> j" using Cons.prems by auto
  note o = motor_step_other [OF Cons.prems(2) this j]
  show ?case using Cons.IH [of f1 w1] o j Cons.prems by auto
qed simp

lemma do_floppy_timer_view:
  assumes "motors_ok f" "i < 4" "do_floppy_timer (f, w) = (f', w')"
  shows "motors_ok f'"
    "\<not> motor_on f i \<Longrightarrow> \<not> motor_on f' i"
    "motor_on f i \<Longrightarrow> mon_timer f ! i = 0 \<Longrightarrow> mon_timer f' ! i = 0 \<and>
      (motor_on f' i \<longleftrightarrow> moff_timer f ! i \<noteq> 0) \<and>
      (moff_timer f ! i \<noteq> 0 \<longrightarrow> moff_timer f' ! i = moff_timer f ! i - 1)"
proof -
  obtain a b where ab: "[0, 1, 2, 3] = a @ i # b" "set a \<subseteq> {..<4} - {i}" "set b \<subseteq> {..<4} - {i}"
  proof -
    have "i = 0 \<or> i = 1 \<or> i = 2 \<or> i = 3" using assms(2) by linarith
    then show thesis
    proof (elim disjE)
      assume "i = 0" then show thesis by (intro that [of "[]" "[1, 2, 3]"]) auto
    next
      assume "i = 1" then show thesis by (intro that [of "[0]" "[2, 3]"]) auto
    next
      assume "i = 2" then show thesis by (intro that [of "[0, 1]" "[3]"]) auto
    next
      assume "i = 3" then show thesis by (intro that [of "[0, 1, 2]" "[]"]) auto
    qed
  qed
  obtain f1 w1 where 1: "fold motor_step a (f, w) = (f1, w1)" by fastforce
  obtain f2 w2 where 2: "motor_step i (f1, w1) = (f2, w2)" by fastforce
  have 3: "fold motor_step b (f2, w2) = (f', w')"
    using assms(3) 1 2 unfolding do_floppy_timer_def ab(1) by simp
  note A = motor_fold_other [OF ab(2) assms(1,2) 1]
  have B: "motors_ok f2"
    using motor_step_self(1) [OF _ assms(2) _ _ 2] motor_step_off [OF assms(2)] 2 A
    by (auto simp: motor_step_def motors_ok_def Let_def split: if_splits)
  note C = motor_fold_other [OF ab(3) B assms(2) 3]
  show "motors_ok f'" using C by simp
  show "\<not> motor_on f' i" if "\<not> motor_on f i"
    using that A C 2 motor_step_off [OF assms(2), of f1 w1] by auto
  show "mon_timer f' ! i = 0 \<and> (motor_on f' i \<longleftrightarrow> moff_timer f ! i \<noteq> 0) \<and>
      (moff_timer f ! i \<noteq> 0 \<longrightarrow> moff_timer f' ! i = moff_timer f ! i - 1)"
    if "motor_on f i" "mon_timer f ! i = 0"
    using motor_step_self [OF _ assms(2) _ _ 2] that A C by auto
qed

text \<open>C19: A floppy motor that is running, with no spin-up pending, is switched off by the clock exactly
  when its off-timer has run out: it is still on after \<open>n\<close> calls of \<open>do_floppy_timer\<close> if and only if
  \<open>n\<close> is at most the value \<open>m\<close> of the timer. The other motors do not matter.\<close>

theorem floppy_motor_off:
  assumes "motors_ok f" "i < 4" "motor_on f i" "mon_timer f ! i = 0" "moff_timer f ! i = of_nat m" "m < 2 ^ 32"
  shows "motor_on (fst ((do_floppy_timer ^^ n) (f, w))) i \<longleftrightarrow> n \<le> m"
  using assms
proof (induction n arbitrary: f w m)
  case (Suc n)
  obtain f' w' where st: "do_floppy_timer (f, w) = (f', w')" by fastforce
  note v = do_floppy_timer_view [OF Suc.prems(1,2) st]
  have off: "motors_ok g \<Longrightarrow> \<not> motor_on g i \<Longrightarrow> \<not> motor_on (fst ((do_floppy_timer ^^ k) (g, x))) i" for g x k
  proof (induction k arbitrary: g x)
    case (Suc k)
    obtain g' x' where "do_floppy_timer (g, x) = (g', x')" by fastforce
    with do_floppy_timer_view [OF Suc.prems(1) \<open>i < 4\<close> this] Suc show ?case
      by (simp add: funpow_swap1 del: funpow.simps) (simp add: funpow_Suc_right del: funpow.simps)
  qed simp
  have unroll: "(do_floppy_timer ^^ Suc n) (f, w) = (do_floppy_timer ^^ n) (f', w')"
    using st by (simp add: funpow_Suc_right del: funpow.simps)
  show ?case
  proof (cases m)
    case 0
    then have "\<not> motor_on f' i" using v(3) Suc.prems by simp
    then show ?thesis using off [OF v(1)] 0 unroll by simp
  next
    case (Suc k)
    then have nz: "moff_timer f ! i \<noteq> 0" using Suc.prems(5,6) of_nat_neq_0 [of m, where ?'a = 32] by simp
    then have "moff_timer f' ! i = of_nat k" using v(3) Suc.prems Suc by simp
    then have "motor_on (fst ((do_floppy_timer ^^ n) (f', w'))) i \<longleftrightarrow> n \<le> k"
      using v nz Suc.prems Suc by (intro Suc.IH) auto
    then show ?thesis using Suc unroll by simp
  qed
qed simp

theorem floppy_motor_off_witness:
  "\<not> motor_on (fst ((do_floppy_timer ^^ 301) (\<lparr>mon_timer = [0, 0, 0, 0], moff_timer = [0, 300, 0, 0],
     current_DOR = 0x2c, selected = 0, fd_wait = [1, 2, 3, 4], fd_out = []\<rparr>,
     \<lparr>wk = kern0, wq = \<lambda>_. 0, frames = \<lambda>_. None\<rparr>))) 1"
proof -
  let ?f = "\<lparr>mon_timer = [0, 0, 0, 0], moff_timer = [0, 300, 0, 0], current_DOR = 0x2c, selected = 0,
    fd_wait = [1, 2, 3, 4], fd_out = []\<rparr>"
  have "motors_ok ?f" "motor_on ?f 1" "mon_timer ?f ! 1 = 0" "moff_timer ?f ! 1 = of_nat 300"
    by (simp_all add: motors_ok_def motor_on_def)
  note off = floppy_motor_off [OF this(1) _ this(2,3,4)]
  show ?thesis
  proof
    assume "motor_on (fst ((do_floppy_timer ^^ 301) (?f, \<lparr>wk = kern0, wq = \<lambda>_. 0, frames = \<lambda>_. None\<rparr>))) 1"
    then have "(301 :: nat) \<le> 300" by (rule off [THEN iffD1, rotated -1]) simp_all
    then show False by simp
  qed
qed

end
