(* ===== verification/Segment.thy ===== *)
theory Segment
  imports Task
begin

text \<open>
  User memory (\<open>kernel/segment.c\<close>: the moves through the \<open>fs\<close> segment, little-endian) and the
  segment descriptors of \<open>include/linux/sched.h\<close> and \<open>include/asm/system.h\<close>. A descriptor is the
  pair of its two 32-bit words; the \<open>asm\<close> statements that take it apart byte by byte are written out
  as masks and shifts. \<open>get_limit\<close> is the \<open>lsl\<close> instruction on the descriptor of the selector.
\<close>

section \<open>User memory\<close>

definition put_fs_byte :: "u8 \<Rightarrow> u32 \<Rightarrow> bmem \<Rightarrow> bmem" where
  "put_fs_byte val addr m = m(addr := val)"

definition get_fs_byte :: "u32 \<Rightarrow> bmem \<Rightarrow> u8" where
  "get_fs_byte addr m = m addr"

definition put_fs_long :: "u32 \<Rightarrow> u32 \<Rightarrow> bmem \<Rightarrow> bmem" where
  "put_fs_long val addr m =
     m(addr := ucast val, addr + 1 := ucast (drop_bit 8 val),
       addr + 2 := ucast (drop_bit 16 val), addr + 3 := ucast (drop_bit 24 val))"

definition get_fs_long :: "u32 \<Rightarrow> bmem \<Rightarrow> u32" where
  "get_fs_long addr m =
     ucast (m addr) OR push_bit 8 (ucast (m (addr + 1))) OR push_bit 16 (ucast (m (addr + 2)))
       OR push_bit 24 (ucast (m (addr + 3)))"

text \<open>The four addresses of a long are different, and a long that is read back is the one written.\<close>

lemma word_ne_offset: "(k :: u32) \<noteq> 0 \<Longrightarrow> a + k \<noteq> a"
  by simp

lemma word32_bytes:
  fixes v :: u32
  shows "ucast (ucast v :: u8) OR push_bit 8 (ucast (ucast (drop_bit 8 v) :: u8))
     OR push_bit 16 (ucast (ucast (drop_bit 16 v) :: u8)) OR push_bit 24 (ucast (ucast (drop_bit 24 v) :: u8)) = v"
    (is "?lhs = v")
proof (rule bit_word_eqI)
  fix n assume "n < LENGTH(32)"
  then have "n < 8 \<or> 8 \<le> n \<and> n < 16 \<or> 16 \<le> n \<and> n < 24 \<or> 24 \<le> n \<and> n < 32" by auto
  then show "bit ?lhs n = bit v n"
    by (elim disjE) (auto simp: bit_simps)
qed

lemma get_put_same [simp]: "get_fs_long a (put_fs_long v a m) = v"
  by (simp add: get_fs_long_def put_fs_long_def word32_bytes)

text \<open>Two longs that do not overlap.\<close>

definition far :: "u32 \<Rightarrow> u32 \<Rightarrow> bool" where
  "far a b \<longleftrightarrow> 4 \<le> unat (a - b) \<and> 4 \<le> unat (b - a)"

lemma put_fs_long_other: "4 \<le> unat (b - a) \<Longrightarrow> put_fs_long v a m b = m b"
proof -
  assume "4 \<le> unat (b - a)"
  then have "b - a \<noteq> 0 \<and> b - a \<noteq> 1 \<and> b - a \<noteq> 2 \<and> b - a \<noteq> 3" by auto
  then have "b \<noteq> a \<and> b \<noteq> a + 1 \<and> b \<noteq> a + 2 \<and> b \<noteq> a + 3" by (auto simp: algebra_simps)
  then show ?thesis by (simp add: put_fs_long_def)
qed

lemma get_put_far: "far a b \<Longrightarrow> get_fs_long b (put_fs_long v a m) = get_fs_long b m"
proof -
  assume f: "far a b"
  have "4 \<le> unat (b + of_nat i - a)" if "i < 4" for i
  proof -
    have "unat (a - b) + unat (b - a) = 2 ^ 32"
      using f by (auto simp: far_def unat_sub_if' split: if_splits)
    then have "unat (b - a) + i < 2 ^ 32" using f that by (simp add: far_def)
    then have "unat ((b - a) + of_nat i) = unat (b - a) + i" by (intro unat_add_small) simp
    then show ?thesis using f by (simp add: far_def algebra_simps)
  qed
  from this [of 0] this [of 1] this [of 2] this [of 3] show ?thesis
    by (simp add: get_fs_long_def put_fs_long_other)
qed

section \<open>Descriptors\<close>

type_synonym desc = "u32 \<times> u32"

definition set_base :: "desc \<Rightarrow> u32 \<Rightarrow> desc" where
  "set_base d base =
     (case d of (a, b) \<Rightarrow>
        ((a AND 0xffff) OR push_bit 16 base,
         (b AND 0x00ffff00) OR (drop_bit 16 base AND 0xff) OR (base AND 0xff000000)))"

definition get_base :: "desc \<Rightarrow> u32" where
  "get_base d =
     (case d of (a, b) \<Rightarrow> drop_bit 16 a OR push_bit 16 (b AND 0xff) OR (b AND 0xff000000))"

text \<open>\<open>set_limit(ldt, limit)\<close> stores \<open>(limit-1) >> 12\<close> and keeps the upper half of the sixth byte.\<close>

definition set_limit :: "desc \<Rightarrow> u32 \<Rightarrow> desc" where
  "set_limit d limit =
     (case d of (a, b) \<Rightarrow> let l = drop_bit 12 (limit - 1) in
        ((a AND 0xffff0000) OR (l AND 0xffff),
         (b AND 0xff00ffff) OR push_bit 16 ((drop_bit 16 l AND 0xff) OR (drop_bit 16 b AND 0xf0))))"

definition get_limit :: "desc \<Rightarrow> u32" where
  "get_limit d =
     (case d of (a, b) \<Rightarrow> let l = (a AND 0xffff) OR (b AND 0x000f0000) in
        (if bit b 23 then push_bit 12 l OR 0xfff else l) + 1)"

text \<open>\<open>set_tss_desc\<close> and \<open>set_ldt_desc\<close>: limit 104, the address, and the type byte.\<close>

definition set_tssldt_desc :: "u32 \<Rightarrow> u32 \<Rightarrow> desc" where
  "set_tssldt_desc addr type =
     (push_bit 16 addr OR 104, (drop_bit 16 addr AND 0xff) OR push_bit 8 type OR (addr AND 0xff000000))"

definition set_tss_desc :: "u32 \<Rightarrow> desc" where "set_tss_desc addr = set_tssldt_desc addr 0x89"

definition set_ldt_desc :: "u32 \<Rightarrow> desc" where "set_ldt_desc addr = set_tssldt_desc addr 0x82"

text \<open>The gate descriptors of \<open>set_trap_gate\<close>, \<open>set_intr_gate\<close> and \<open>set_system_gate\<close>.\<close>

definition set_gate :: "u32 \<Rightarrow> u32 \<Rightarrow> u32 \<Rightarrow> desc" where
  "set_gate type dpl addr =
     (0x00080000 OR (addr AND 0xffff),
      (addr AND 0xffff0000) OR (0x8000 + push_bit 13 dpl + push_bit 8 type))"

definition set_trap_gate :: "u32 \<Rightarrow> desc" where "set_trap_gate addr = set_gate 15 0 addr"
definition set_intr_gate :: "u32 \<Rightarrow> desc" where "set_intr_gate addr = set_gate 14 0 addr"
definition set_system_gate :: "u32 \<Rightarrow> desc" where "set_system_gate addr = set_gate 15 3 addr"

text \<open>The masks above as runs of ones.\<close>

lemma masks:
  "(0xffff :: u32) = mask 16" "(0xff :: u32) = mask 8" "(0xff000000 :: u32) = push_bit 24 (mask 8)"
  "(0x00ffff00 :: u32) = push_bit 8 (mask 16)" "(0xffff0000 :: u32) = push_bit 16 (mask 16)"
  "(0x000f0000 :: u32) = push_bit 16 (mask 4)" "(0xff00ffff :: u32) = NOT (push_bit 16 (mask 8))"
  "(0xf0 :: u32) = push_bit 4 (mask 4)"
  by (simp_all add: mask_numeral)

lemma get_set_base: "get_base (set_base d base) = base"
proof (cases d)
  case (Pair a b)
  show ?thesis
  proof (rule bit_word_eqI)
    fix n assume "n < LENGTH(32)"
    then have "n < 8 \<or> 8 \<le> n \<and> n < 16 \<or> 16 \<le> n \<and> n < 24 \<or> 24 \<le> n \<and> n < 32" by auto
    then show "bit (get_base (set_base d base)) n = bit base n"
      unfolding get_base_def set_base_def Pair masks
      by (elim disjE) (auto simp: bit_simps)
  qed
qed

lemma get_base_set_limit: "get_base (set_limit d limit) = get_base d"
proof (cases d)
  case (Pair a b)
  show ?thesis
  proof (rule bit_word_eqI)
    fix n assume "n < LENGTH(32)"
    then have "n < 8 \<or> 8 \<le> n \<and> n < 16 \<or> 16 \<le> n \<and> n < 24 \<or> 24 \<le> n \<and> n < 32" by auto
    then show "bit (get_base (set_limit d limit)) n = bit (get_base d) n"
      unfolding get_base_def set_limit_def Pair masks Let_def
      by (elim disjE) (auto simp: bit_simps dest: bit_imp_le_length)
  qed
qed

lemma get_limit_set_base: "get_limit (set_base d base) = get_limit d"
proof (cases d)
  case (Pair a b)
  have "((a AND 0xffff) OR push_bit 16 base) AND 0xffff = a AND 0xffff"
    unfolding masks by (rule bit_word_eqI) (auto simp: bit_simps)
  moreover have "((b AND 0x00ffff00) OR (drop_bit 16 base AND 0xff) OR (base AND 0xff000000)) AND 0x000f0000 = b AND 0x000f0000"
    unfolding masks by (rule bit_word_eqI) (auto simp: bit_simps)
  moreover have "bit ((b AND 0x00ffff00) OR (drop_bit 16 base AND 0xff) OR (base AND 0xff000000)) 23 = bit b 23"
    unfolding masks by (auto simp: bit_simps)
  ultimately show ?thesis by (simp only: get_limit_def set_base_def Pair prod.case Let_def)
qed

end
