(* ===== verification/Sys.thy ===== *)
theory Sys
  imports Sched
begin

text \<open>
  The system calls that only read or write fields of the current task: \<open>kernel/sys.c\<close> and the last
  part of \<open>kernel/sched.c\<close>. A value of type \<open>unsigned short\<close> is zero-extended to the \<open>int\<close> returned.
  A call that stores to user memory returns the list of its \<open>put_fs_long\<close> stores.
\<close>

definition suser :: "kern \<Rightarrow> bool" where
  "suser k \<longleftrightarrow> t_euid (cur k) = 0"

definition CURRENT_TIME :: "kern \<Rightarrow> u32" where
  "CURRENT_TIME k = startup_time k + jiffies k div HZ"

text \<open>
  \<open>old - jiffies\<close> has an unsigned operand, so the subtraction and the division are unsigned;
  \<open>HZ*seconds\<close> is a signed product that wraps.
\<close>

definition sys_alarm :: "u32 \<Rightarrow> kern \<Rightarrow> u32 \<times> kern" where
  "sys_alarm seconds k =
     (let old = t_alarm (cur k);
          old' = (if old \<noteq> 0 then (old - jiffies k) div HZ else old);
          al = (if 0 <s seconds then jiffies k + HZ * seconds else 0)
      in (old', upd (current k) (\<lambda>t. t\<lparr>t_alarm := al\<rparr>) k))"

definition sys_getuid :: "kern \<Rightarrow> u32" where "sys_getuid k = ucast (t_uid (cur k))"

definition sys_getpid :: "kern \<Rightarrow> u32" where "sys_getpid k = t_pid (cur k)"

definition sys_getppid :: "kern \<Rightarrow> u32 kres" where
  "sys_getppid k = (if t_p_pptr (cur k) = 0 then Inl NullDeref else Inr (t_pid (tcb k (t_p_pptr (cur k)))))"

definition sys_geteuid :: "kern \<Rightarrow> u32" where "sys_geteuid k = ucast (t_euid (cur k))"

definition sys_getgid :: "kern \<Rightarrow> u32" where "sys_getgid k = ucast (t_gid (cur k))"

definition sys_getegid :: "kern \<Rightarrow> u32" where "sys_getegid k = ucast (t_egid (cur k))"

definition sys_time :: "u32 \<Rightarrow> kern \<Rightarrow> u32 \<times> (u32 \<times> u32) list" where
  "sys_time tloc k = (let i = CURRENT_TIME k in (i, if tloc \<noteq> 0 then [(tloc, i)] else []))"

definition sys_setsid :: "kern \<Rightarrow> u32 \<times> kern" where
  "sys_setsid k =
     (if t_leader (cur k) \<noteq> 0 \<and> \<not> suser k then (neg_errno EPERM, k)
      else let k' = upd (current k) (\<lambda>t. t\<lparr>t_leader := 1, t_session := t_pid t, t_pgrp := t_pid t,
                                           t_tty := - 1\<rparr>) k
        in (t_pgrp (cur k'), k'))"

fun in_groups :: "u16 \<Rightarrow> u32 list \<Rightarrow> u32" where
  "in_groups grp [] = 0"
| "in_groups grp (g # gs) =
     (if g = NOGROUP then 0 else if g = ucast grp then 1 else in_groups grp gs)"

definition in_group_p :: "u16 \<Rightarrow> kern \<Rightarrow> u32" where
  "in_group_p grp k =
     (if grp = t_egid (cur k) then 1 else in_groups grp (take NGROUPS (t_groups (cur k))))"

text \<open>The assignments to the \<open>unsigned short\<close> fields truncate; the comparisons are of \<open>int\<close>s.\<close>

definition sys_setuid :: "u32 \<Rightarrow> kern \<Rightarrow> u32 \<times> kern" where
  "sys_setuid uid k =
     (if suser k then
        (0, upd (current k) (\<lambda>t. t\<lparr>t_uid := ucast uid, t_euid := ucast uid, t_suid := ucast uid\<rparr>) k)
      else if uid = ucast (t_uid (cur k)) \<or> uid = ucast (t_suid (cur k)) then
        (0, upd (current k) (\<lambda>t. t\<lparr>t_euid := ucast uid\<rparr>) k)
      else (neg_errno EPERM, k))"

section \<open>Properties\<close>

lemma ucast_u16_back [simp]: "(ucast (ucast (w :: u16) :: u32) :: u16) = w"
  by (rule bit_word_eqI) (auto simp: bit_simps)

text \<open>C17: \<open>sys_setuid\<close> gives away no privilege: a caller that is not the super-user never changes
  its real or saved user id, and its effective id afterwards is the old effective, the real or the
  saved one; every other task is untouched.\<close>

theorem sys_setuid_no_escalation:
  assumes "\<not> suser k" "sys_setuid uid k = (r, k')"
  shows "t_uid (cur k') = t_uid (cur k) \<and> t_suid (cur k') = t_suid (cur k) \<and>
    t_euid (cur k') \<in> {t_euid (cur k), t_uid (cur k), t_suid (cur k)} \<and>
    (r = 0 \<or> r = neg_errno EPERM \<and> k' = k) \<and> (\<forall>p. p \<noteq> current k \<longrightarrow> tcb k' p = tcb k p)"
  using assms by (auto simp: sys_setuid_def split: if_splits)

theorem sys_setuid_no_escalation_witness:
  "\<exists>k r k'. \<not> suser k \<and> sys_setuid 7 k = (r, k') \<and> t_euid (cur k') = 7"
proof -
  let ?k = "upd (current kern0) (\<lambda>t. t\<lparr>t_uid := 7, t_euid := 9, t_suid := 8\<rparr>) kern0"
  have "\<not> suser ?k" by (simp add: suser_def)
  moreover obtain r k' where "sys_setuid 7 ?k = (r, k')" by fastforce
  ultimately show ?thesis
    using sys_setuid_no_escalation [of ?k 7 r k'] by (auto simp: sys_setuid_def split: if_splits)
qed

text \<open>\<open>in_groups\<close> stops at the first \<open>NOGROUP\<close>.\<close>

lemma in_groups_iff:
  "in_groups grp gs = 1 \<longleftrightarrow> ucast grp \<in> set (takeWhile (\<lambda>g. g \<noteq> NOGROUP) gs)"
  "in_groups grp gs = 0 \<longleftrightarrow> ucast grp \<notin> set (takeWhile (\<lambda>g. g \<noteq> NOGROUP) gs)"
  by (induction gs) auto

lemma sys_alarm_sets:
  "sys_alarm seconds k = (r, k') \<Longrightarrow>
    t_alarm (cur k') = (if 0 <s seconds then jiffies k + HZ * seconds else 0)"
  by (auto simp: sys_alarm_def Let_def)

lemma sys_alarm_remaining:
  assumes "sys_alarm s k = (r, k1)" "0 < sint s" "unat (jiffies k) + 100 * nat (sint s) < 2 ^ 32"
    "sys_alarm s' k1 = (r', k2)"
  shows "r' = s"
proof -
  have s: "sint s = int (unat s)"
    using assms(2) by (simp add: sint_nonneg)
  have "(jiffies k + 100 * s) \<noteq> 0 \<and> (100 * s) div 100 = s"
  proof
    have m: "unat (100 * s) = 100 * unat s"
      using assms(3) s by (simp add: unat_word_ariths)
    then show "(100 * s) div 100 = s"
      by (intro unsigned_word_eqI [where ?'a = nat]) (simp add: unat_div)
    have "unat (jiffies k + 100 * s) = unat (jiffies k) + 100 * unat s"
      using assms(3) s m by (simp add: unat_word_ariths)
    moreover have "0 < unat s" using assms(2) s by linarith
    ultimately show "jiffies k + 100 * s \<noteq> 0" by (metis add_is_0 mult_is_0 not_gr0 unsigned_0 zero_neq_numeral)
  qed
  then show ?thesis using assms(1,2,4)
    by (auto simp: sys_alarm_def Let_def HZ_def word_sless_alt)
qed

lemma sys_setsid_leader:
  "sys_setsid k = (r, k') \<Longrightarrow> k' \<noteq> k \<Longrightarrow>
    r = t_pid (cur k) \<and> t_session (cur k') = r \<and> t_pgrp (cur k') = r \<and> t_leader (cur k') = 1 \<and> t_tty (cur k') = - 1"
  by (auto simp: sys_setsid_def Let_def split: if_splits)

end
