(* ===== verification/Signal.thy ===== *)
theory Signal
  imports Segment Sys
begin

text \<open>
  Signal handling, \<open>kernel/signal.c\<close>: installing handlers (\<open>sys_signal\<close>, \<open>sys_sigaction\<close>) and the
  delivery of one signal (\<open>do_signal\<close>), which rewrites the registers the interrupted program will be
  resumed with and builds the frame of the handler on its stack.

  The state is the kernel state, the user memory of the current task, and the list of the areas
  \<open>verify_area\<close> was called for, in order (\<open>verify_area\<close> itself un-shares the pages of an area and
  leaves their contents alone). The text that \<open>do_signal\<close> prints is not modelled.
\<close>

record usys =
  uk :: kern
  um :: bmem
  uv :: "(u32 \<times> u32) list"

definition verify_area :: "u32 \<Rightarrow> u32 \<Rightarrow> usys \<Rightarrow> usys" where
  "verify_area addr sz u = u\<lparr>uv := uv u @ [(addr, sz)]\<rparr>"

abbreviation put_long :: "u32 \<Rightarrow> u32 \<Rightarrow> usys \<Rightarrow> usys" where
  "put_long val addr u \<equiv> u\<lparr>um := put_fs_long val addr (um u)\<rparr>"

abbreviation sigact_of :: "u32 \<Rightarrow> kern \<Rightarrow> sigaction" where
  "sigact_of signum k \<equiv> t_sigaction (cur k) ! unat (signum - 1)"

definition set_sigact :: "u32 \<Rightarrow> sigaction \<Rightarrow> kern \<Rightarrow> kern" where
  "set_sigact signum sa k =
     upd (current k) (\<lambda>t. t\<lparr>t_sigaction := (t_sigaction t)[unat (signum - 1) := sa]\<rparr>) k"

definition bad_signum :: "u32 \<Rightarrow> bool" where
  "bad_signum signum \<longleftrightarrow>
     signum <s 1 \<or> 32 <s signum \<or> signum = signo SIGKILL \<or> signum = signo SIGSTOP"

section \<open>Installing handlers\<close>

definition sys_signal :: "u32 \<Rightarrow> u32 \<Rightarrow> u32 \<Rightarrow> kern \<Rightarrow> u32 \<times> kern" where
  "sys_signal signum handler restorer k =
     (if bad_signum signum then (neg_errno EINVAL, k)
      else (sa_handler (sigact_of signum k),
            set_sigact signum \<lparr>sa_handler = handler, sa_mask = 0, sa_flags = SA_ONESHOT OR SA_NOMASK,
                               sa_restorer = restorer\<rparr> k))"

text \<open>\<open>get_new\<close> and \<open>save_old\<close> copy the sixteen bytes of a \<open>struct sigaction\<close>.\<close>

definition get_new :: "u32 \<Rightarrow> bmem \<Rightarrow> sigaction" where
  "get_new from m = \<lparr>sa_handler = get_fs_long from m, sa_mask = get_fs_long (from + 4) m,
     sa_flags = get_fs_long (from + 8) m, sa_restorer = get_fs_long (from + 12) m\<rparr>"

definition save_old :: "sigaction \<Rightarrow> u32 \<Rightarrow> usys \<Rightarrow> usys" where
  "save_old sa dst u =
     (let u = verify_area dst 16 u in
      put_long (sa_restorer sa) (dst + 12) (put_long (sa_flags sa) (dst + 8)
        (put_long (sa_mask sa) (dst + 4) (put_long (sa_handler sa) dst u))))"

definition sys_sigaction :: "u32 \<Rightarrow> u32 \<Rightarrow> u32 \<Rightarrow> usys \<Rightarrow> u32 \<times> usys" where
  "sys_sigaction signum action oldaction u =
     (if bad_signum signum then (neg_errno EINVAL, u)
      else
        let tmp = sigact_of signum (uk u);
            u1 = u\<lparr>uk := set_sigact signum (get_new action (um u)) (uk u)\<rparr>;
            u2 = (if oldaction \<noteq> 0 then save_old tmp oldaction u1 else u1);
            sa = sigact_of signum (uk u2);
            sa' = (if sa_flags sa AND SA_NOMASK \<noteq> 0 then sa\<lparr>sa_mask := 0\<rparr>
                   else sa\<lparr>sa_mask := sa_mask sa OR sigbit signum\<rparr>)
        in (0, u2\<lparr>uk := set_sigact signum sa' (uk u2)\<rparr>))"

section \<open>Delivering a signal\<close>

text \<open>The registers saved on entry to the kernel, which are the arguments of \<open>do_signal\<close>.\<close>

record regs =
  r_eax :: u32
  r_ebx :: u32
  r_ecx :: u32
  r_edx :: u32
  r_orig_eax :: u32
  r_fs :: u32
  r_es :: u32
  r_ds :: u32
  r_eip :: u32
  r_cs :: u32
  r_eflags :: u32
  r_esp :: u32
  r_ss :: u32

definition core_dump :: "u32 \<Rightarrow> u32" where "core_dump signr = 0"

text \<open>\<open>do_signal\<close> returns, or ends the task with \<open>do_exit\<close>.\<close>

datatype sigres = SigRet u32 regs usys | SigExit u32 regs usys

definition restart_call :: "u32 \<Rightarrow> sigaction \<Rightarrow> regs \<Rightarrow> regs \<times> u32" where
  "restart_call signr sa r =
     (if r_orig_eax r \<noteq> - 1 \<and> (r_eax r = neg_errno ERESTARTSYS \<or> r_eax r = neg_errno ERESTARTNOINTR) then
        if r_eax r = neg_errno ERESTARTSYS \<and>
           (sa_flags sa AND SA_INTERRUPT \<noteq> 0 \<or> signr <s signo SIGCONT \<or> signo SIGTTOU <s signr)
        then (r\<lparr>r_eax := neg_errno EINTR\<rparr>, r_eip r)
        else (r\<lparr>r_eax := r_orig_eax r, r_eip := r_eip r - 2\<rparr>, r_eip r - 2)
      else (r, r_eip r))"

definition stop_self :: "u32 \<Rightarrow> kern \<Rightarrow> kern kres" where
  "stop_self signr k =
     (let k1 = upd (current k) (\<lambda>t. t\<lparr>t_state := TASK_STOPPED, t_exit_code := signr\<rparr>) k;
          pp = t_p_pptr (cur k1)
      in if pp = 0 then Inl NullDeref
         else if sa_flags (t_sigaction (tcb k1 pp) ! unat (signo SIGCHLD - 1)) AND SA_NOCLDSTOP = 0
         then Inr (upd pp (\<lambda>t. t\<lparr>t_signal := t_signal t OR sigbit (signo SIGCHLD)\<rparr>) k1)
         else Inr k1)"

definition default_action :: "u32 \<Rightarrow> regs \<Rightarrow> usys \<Rightarrow> sigres kres" where
  "default_action signr r u =
     (if signr \<in> {signo SIGCONT, signo SIGCHLD} then Inr (SigRet 1 r u)
      else if signr \<in> {signo SIGSTOP, signo SIGTSTP, signo SIGTTIN, signo SIGTTOU} then
        kbind (stop_self signr (uk u)) (\<lambda>k. Inr (SigRet 1 r (u\<lparr>uk := k\<rparr>)))
      else if signr \<in> {signo SIGQUIT, signo SIGILL, signo SIGTRAP, signo SIGIOT, signo SIGFPE, signo SIGSEGV} \<and>
              core_dump signr \<noteq> 0 then Inr (SigExit (signr OR 0x80) r u)
      else Inr (SigExit signr r u))"

text \<open>The stores of the handler's frame, upwards from the new stack pointer.\<close>

primrec push_longs :: "u32 \<Rightarrow> u32 list \<Rightarrow> bmem \<Rightarrow> bmem" where
  "push_longs p [] m = m"
| "push_longs p (v # vs) m = push_longs (p + 4) vs (put_fs_long v p m)"

definition handler_frame :: "u32 \<Rightarrow> sigaction \<Rightarrow> u32 \<Rightarrow> regs \<Rightarrow> u32 \<Rightarrow> u32 list" where
  "handler_frame signr sa blk r old_eip =
     [sa_restorer sa, signr] @ (if sa_flags sa AND SA_NOMASK = 0 then [blk] else []) @
     [r_eax r, r_ecx r, r_edx r, r_eflags r, old_eip]"

definition do_signal :: "u32 \<Rightarrow> regs \<Rightarrow> usys \<Rightarrow> sigres kres" where
  "do_signal signr r0 u =
     (let sa = sigact_of signr (uk u);
          (r, old_eip) = restart_call signr sa r0;
          h = sa_handler sa
      in if h = 1 then Inr (SigRet 1 r u)
         else if h = 0 then default_action signr r u
         else
           let u1 = (if sa_flags sa AND SA_ONESHOT \<noteq> 0
                     then u\<lparr>uk := set_sigact signr (sa\<lparr>sa_handler := 0\<rparr>) (uk u)\<rparr> else u);
               longs = (if sa_flags sa AND SA_NOMASK \<noteq> 0 then 7 else 8);
               r1 = r\<lparr>r_eip := h, r_esp := r_esp r - 4 * longs\<rparr>;
               u2 = verify_area (r_esp r1) (longs * 4) u1;
               u3 = u2\<lparr>um := push_longs (r_esp r1) (handler_frame signr sa (t_blocked (cur (uk u2))) r old_eip) (um u2)\<rparr>
           in Inr (SigRet 0 r1 (u3\<lparr>uk := upd (current (uk u3)) (\<lambda>t. t\<lparr>t_blocked := t_blocked t OR sa_mask sa\<rparr>) (uk u3)\<rparr>)))"

section \<open>Properties\<close>

definition read_longs :: "u32 \<Rightarrow> nat \<Rightarrow> bmem \<Rightarrow> u32 list" where
  "read_longs p n m = map (\<lambda>i. get_fs_long (p + 4 * of_nat i) m) [0..<n]"

lemma read_longs_Suc: "read_longs p (Suc n) m = get_fs_long p m # read_longs (p + 4) n m"
proof -
  have "[0..<Suc n] = 0 # map Suc [0..<n]" by (subst upt_conv_Cons) (simp_all only: map_Suc_upt zero_less_Suc)
  then show ?thesis unfolding read_longs_def by (simp add: distrib_left add.assoc del: upt_Suc)
qed

lemma push_longs_other:
  "4 * length vs \<le> unat (b - p) \<Longrightarrow> push_longs p vs m b = m b"
proof (induction vs arbitrary: p m)
  case (Cons v vs)
  then have le: "4 \<le> unat (b - p)" by simp
  have e: "b - (p + 4) = b - p - 4" by simp
  have "unat (b - (p + 4)) = unat (b - p) - 4"
    unfolding e using unat_sub_if' [of "b - p" 4] le by (simp del: diff_diff_add diff_diff_eq)
  then have "push_longs (p + 4) vs (put_fs_long v p m) b = put_fs_long v p m b"
    using Cons by (intro Cons.IH) simp
  with le show ?case by (simp add: put_fs_long_other)
qed simp

lemma read_push_longs:
  "length vs \<le> 2 ^ 20 \<Longrightarrow> read_longs p (length vs) (push_longs p vs m) = vs"
proof (induction vs arbitrary: p m)
  case (Cons v vs)
  have "get_fs_long p (push_longs (p + 4) vs (put_fs_long v p m)) = v"
  proof -
    have "push_longs (p + 4) vs (put_fs_long v p m) (p + of_nat i) = put_fs_long v p m (p + of_nat i)" if "i < 4" for i
    proof (rule push_longs_other)
      have "unat (of_nat i - 4 :: u32) = i + 2 ^ 32 - 4"
        using that unat_sub_if' [of "of_nat i" "4 :: u32"] by (simp add: unat_of_nat_small)
      then show "4 * length vs \<le> unat (p + of_nat i - (p + 4))" using Cons.prems that by simp
    qed
    from this [of 0] this [of 1] this [of 2] this [of 3] get_put_same [of p v m] show ?thesis
      by (simp add: get_fs_long_def)
  qed
  then show ?case using Cons by (simp add: read_longs_Suc)
qed (simp add: read_longs_def)

lemma set_sigact_frame [simp]:
  "current (set_sigact s sa k) = current k" "task (set_sigact s sa k) = task k"
  "t_blocked (tcb (set_sigact s sa k) p) = t_blocked (tcb k p)"
  by (simp_all add: set_sigact_def)

lemma longs_of_nat: "of_nat (4 * n) = (4 :: u32) * of_nat n"
  by simp

text \<open>C11: When a signal with a handler is delivered, the program resumes in the handler on a lower
  stack. The frame there holds, upwards, the restorer, the signal number, the blocked mask (unless
  the handler was installed with \<open>SA_NOMASK\<close>), \<open>eax\<close>, \<open>ecx\<close>, \<open>edx\<close>, the flags and the address to
  return to, the order in which the restorer pops them. A system call that ended with
  \<open>-ERESTARTNOINTR\<close>, or with \<open>-ERESTARTSYS\<close> for one of the signals \<open>SIGCONT\<close> to \<open>SIGTTOU\<close> with a
  handler without \<open>SA_INTERRUPT\<close>, is made to run again: \<open>eax\<close> is its number and the address is that
  of its \<open>int\<close> instruction, two bytes back; any other one that ended with \<open>-ERESTARTSYS\<close> gives
  \<open>-EINTR\<close>. Exactly the area of the frame was verified for writing, no other byte of user memory and
  no other register changed, and a handler installed with \<open>SA_ONESHOT\<close> is reset to the default.\<close>

theorem do_signal_calls_handler:
  assumes "sa = sigact_of signr (uk u)" "sa_handler sa \<noteq> 0" "sa_handler sa \<noteq> 1"
    "again \<longleftrightarrow> r_orig_eax r \<noteq> - 1 \<and> (r_eax r = neg_errno ERESTARTNOINTR \<or> r_eax r = neg_errno ERESTARTSYS \<and>
       sa_flags sa AND SA_INTERRUPT = 0 \<and> signo SIGCONT \<le>s signr \<and> signr \<le>s signo SIGTTOU)"
    "interrupted \<longleftrightarrow> r_orig_eax r \<noteq> - 1 \<and> r_eax r = neg_errno ERESTARTSYS \<and> \<not> again"
    "eax = (if again then r_orig_eax r else if interrupted then neg_errno EINTR else r_eax r)"
    "fr = [sa_restorer sa, signr] @ (if sa_flags sa AND SA_NOMASK = 0 then [t_blocked (cur (uk u))] else []) @
       [eax, r_ecx r, r_edx r, r_eflags r, if again then r_eip r - 2 else r_eip r]"
  shows "\<exists>r' u'. do_signal signr r u = Inr (SigRet 0 r' u') \<and>
    r' = r\<lparr>r_eax := eax, r_eip := sa_handler sa, r_esp := r_esp r - of_nat (4 * length fr)\<rparr> \<and>
    read_longs (r_esp r') (length fr) (um u') = fr \<and>
    uv u' = uv u @ [(r_esp r', of_nat (4 * length fr))] \<and>
    (\<forall>b. 4 * length fr \<le> unat (b - r_esp r') \<longrightarrow> um u' b = um u b) \<and>
    t_blocked (cur (uk u')) = t_blocked (cur (uk u)) OR sa_mask sa \<and>
    t_sigaction (cur (uk u')) = (if sa_flags sa AND SA_ONESHOT = 0 then t_sigaction (cur (uk u))
      else (t_sigaction (cur (uk u)))[unat (signr - 1) := sa\<lparr>sa_handler := 0\<rparr>])"
proof -
  let ?n = "if sa_flags sa AND SA_NOMASK \<noteq> 0 then 7 else 8 :: u32"
  have n: "of_nat (length fr) = ?n" "length fr \<le> 2 ^ 20"
    by (simp_all add: assms(7))
  have n4: "of_nat (4 * length fr) = ?n * 4" using n(1) by simp
  define rr where "rr = r\<lparr>r_eax := eax, r_eip := if again then r_eip r - 2 else r_eip r\<rparr>"
  have neq: "neg_errno ERESTARTSYS \<noteq> neg_errno ERESTARTNOINTR" by simp
  have rc: "restart_call signr sa r = (rr, if again then r_eip r - 2 else r_eip r)"
    using neq by (cases r) (auto simp: restart_call_def rr_def assms(4-6) signed.not_le)
  have fr: "handler_frame signr sa (t_blocked (cur (uk u))) rr (if again then r_eip r - 2 else r_eip r) = fr"
    by (simp add: handler_frame_def assms(7) rr_def)
  define u1 where "u1 = (if sa_flags sa AND SA_ONESHOT \<noteq> 0
    then u\<lparr>uk := set_sigact signr (sa\<lparr>sa_handler := 0\<rparr>) (uk u)\<rparr> else u)"
  have u1: "um u1 = um u" "uv u1 = uv u" "current (uk u1) = current (uk u)"
      "t_blocked (cur (uk u1)) = t_blocked (cur (uk u))"
    by (simp_all add: u1_def)
  define r' where "r' = rr\<lparr>r_eip := sa_handler sa, r_esp := r_esp rr - 4 * ?n\<rparr>"
  define u' where "u' = (verify_area (r_esp r') (?n * 4) u1)\<lparr>um := push_longs (r_esp r') fr (um u1),
    uk := upd (current (uk u1)) (\<lambda>t. t\<lparr>t_blocked := t_blocked t OR sa_mask sa\<rparr>) (uk u1)\<rparr>"
  have "do_signal signr r u = Inr (SigRet 0 r' u')"
    using assms(2,3) u1 rc
    by (simp add: do_signal_def Let_def verify_area_def u'_def r'_def fr flip: assms(1) u1_def)
  moreover have "uv u' = uv u @ [(r_esp r', of_nat (4 * length fr))]"
    unfolding n4 using u1 by (simp add: u'_def verify_area_def)
  moreover have "r' = r\<lparr>r_eax := eax, r_eip := sa_handler sa, r_esp := r_esp r - of_nat (4 * length fr)\<rparr>"
    unfolding n4 by (simp add: r'_def rr_def)
  moreover have "read_longs (r_esp r') (length fr) (um u') = fr"
    using read_push_longs [OF n(2)] by (simp add: u'_def)
  moreover have "um u' b = um u b" if "4 * length fr \<le> unat (b - r_esp r')" for b
    using push_longs_other [OF that] u1 by (simp add: u'_def)
  moreover have "t_blocked (cur (uk u')) = t_blocked (cur (uk u)) OR sa_mask sa"
    using u1 by (simp add: u'_def verify_area_def)
  moreover have "t_sigaction (cur (uk u')) = (if sa_flags sa AND SA_ONESHOT = 0 then t_sigaction (cur (uk u))
      else (t_sigaction (cur (uk u)))[unat (signr - 1) := sa\<lparr>sa_handler := 0\<rparr>])"
    by (simp add: u'_def u1_def verify_area_def set_sigact_def)
  ultimately show ?thesis by blast
qed

definition usys0 :: usys where
  "usys0 = \<lparr>uk = upd 0x2000 (\<lambda>t. t\<lparr>t_sigaction := (t_sigaction t)[1 := \<lparr>sa_handler = 0x400, sa_mask = 2,
     sa_flags = 0, sa_restorer = 0x500\<rparr>]\<rparr>) kern0, um = (\<lambda>_. 0), uv = []\<rparr>"

definition regs0 :: regs where
  "regs0 = \<lparr>r_eax = 1, r_ebx = 2, r_ecx = 3, r_edx = 4, r_orig_eax = - 1, r_fs = 0x17, r_es = 0x17,
     r_ds = 0x17, r_eip = 0x100, r_cs = 0x0f, r_eflags = 0x200, r_esp = 0x8000, r_ss = 0x17\<rparr>"

theorem do_signal_calls_handler_witness:
  "\<exists>r' u'. do_signal 2 (regs0\<lparr>r_orig_eax := 3, r_eax := neg_errno ERESTARTSYS\<rparr>) usys0 = Inr (SigRet 0 r' u') \<and>
    r_eip r' = 0x400 \<and> r_eax r' = neg_errno EINTR \<and> r_ecx r' = 3 \<and>
    read_longs (r_esp r') (length [0x500, 2, 0, neg_errno EINTR, 3, 4, 0x200, 0x100 :: u32]) (um u') =
      [0x500, 2, 0, neg_errno EINTR, 3, 4, 0x200, 0x100]"
proof -
  have sa: "sigact_of 2 (uk usys0) = \<lparr>sa_handler = 0x400, sa_mask = 2, sa_flags = 0, sa_restorer = 0x500\<rparr>"
    "t_blocked (cur (uk usys0)) = 0"
    by (simp_all add: usys0_def kern0_def task0_def)
  have "\<not> (signo SIGCONT \<le>s 2 \<and> 2 \<le>s signo SIGTTOU)" "neg_errno ERESTARTSYS \<noteq> neg_errno ERESTARTNOINTR"
    by (simp_all add: word_sle_eq)
  with do_signal_calls_handler [OF sa(1) [symmetric] _ _ refl refl refl refl,
      of "regs0\<lparr>r_orig_eax := 3, r_eax := neg_errno ERESTARTSYS\<rparr>"] show ?thesis
    by (auto simp: sa(2) regs0_def)
qed

text \<open>C15: \<open>SIGKILL\<close> and \<open>SIGSTOP\<close> can be neither caught nor ignored: whatever the arguments of
  \<open>sys_signal\<close> and \<open>sys_sigaction\<close>, the entries of these two signals stay as they are, and so does
  every other task.\<close>

theorem kill_stop_not_catchable:
  assumes "i \<in> {unat (signo SIGKILL - 1), unat (signo SIGSTOP - 1)}"
  shows "t_sigaction (cur (snd (sys_signal signum h rst k))) ! i = t_sigaction (cur k) ! i \<and>
    t_sigaction (cur (uk (snd (sys_sigaction signum act oldact u)))) ! i = t_sigaction (cur (uk u)) ! i \<and>
    (p \<noteq> current (uk u) \<longrightarrow> tcb (uk (snd (sys_sigaction signum act oldact u))) p = tcb (uk u) p)"
proof -
  have ne: "bad_signum signum \<or> unat (signum - 1) \<noteq> i"
  proof (rule disjCI)
    assume "\<not> unat (signum - 1) \<noteq> i"
    then have "unat (signum - 1) = 8 \<or> unat (signum - 1) = 18" using assms by auto
    then have "signum - 1 = 8 \<or> signum - 1 = 18"
      by (auto simp: word_eq_iff_unsigned [where ?'a = nat])
    then show "bad_signum signum" by (auto simp: bad_signum_def algebra_simps)
  qed
  have set_other: "unat (signum - 1) \<noteq> i \<Longrightarrow> t_sigaction (cur (set_sigact signum sa k)) ! i = t_sigaction (cur k) ! i"
    for sa k by (simp add: set_sigact_def)
  show ?thesis
    using ne set_other by (auto simp: sys_signal_def sys_sigaction_def Let_def save_old_def verify_area_def set_sigact_def)
qed

theorem kill_stop_not_catchable_witness:
  "t_sigaction (cur (snd (sys_signal 9 1 0 kern0))) ! 8 = t_sigaction (cur kern0) ! 8"
  using kill_stop_not_catchable [where i = 8 and signum = 9 and h = 1 and rst = 0 and k = kern0] by simp

end
