(* ===== verification/Memory.thy ===== *)
theory Memory
  imports Segment Sched
begin

text \<open>
  Memory management, \<open>mm/memory.c\<close> and \<open>mm/swap.c\<close>: the allocation of physical pages with their
  reference counts \<open>mem_map\<close>, and the page tables, which live in physical memory itself (the page
  directory at address 0). Physical memory is byte-addressed; page table entries are its aligned
  longs. \<open>invalidate\<close> loads \<open>cr3\<close>, which is counted. An index outside \<open>mem_map\<close> is the error
  \<open>OutOfBounds\<close>; \<open>oom\<close> only prints, as in the code.
\<close>

definition LOW_MEM :: u32 where "LOW_MEM = 0x100000"
definition PAGING_PAGES :: nat where "PAGING_PAGES = 3840"
definition USED :: u8 where "USED = 100"
definition PAGE_DIRTY :: u32 where "PAGE_DIRTY = 0x40"

record mem =
  phys :: bmem
  mem_map :: "u8 list"
  HIGH_MEMORY :: u32
  cr3_loads :: nat
  mlog :: "string list"

definition MAP_NR :: "u32 \<Rightarrow> nat" where
  "MAP_NR addr = unat (drop_bit 12 (addr - LOW_MEM))"

abbreviation ld :: "u32 \<Rightarrow> mem \<Rightarrow> u32" where
  "ld a m \<equiv> get_fs_long a (phys m)"

definition st :: "u32 \<Rightarrow> u32 \<Rightarrow> mem \<Rightarrow> mem" where
  "st v a m = m\<lparr>phys := put_fs_long v a (phys m)\<rparr>"

definition invalidate :: "mem \<Rightarrow> mem" where
  "invalidate m = m\<lparr>cr3_loads := cr3_loads m + 1\<rparr>"

definition oom :: "mem \<Rightarrow> mem" where
  "oom m = m\<lparr>mlog := mlog m @ [''out of memory'']\<rparr>"

definition map_count :: "nat \<Rightarrow> mem \<Rightarrow> u8 kres" where
  "map_count i m = (if i < length (mem_map m) then Inr (mem_map m ! i) else Inl OutOfBounds)"

definition map_set :: "nat \<Rightarrow> u8 \<Rightarrow> mem \<Rightarrow> mem kres" where
  "map_set i v m = (if i < length (mem_map m) then Inr (m\<lparr>mem_map := (mem_map m)[i := v]\<rparr>) else Inl OutOfBounds)"

text \<open>The page frame bits of an entry.\<close>

abbreviation frame :: "u32 \<Rightarrow> u32" where
  "frame e \<equiv> 0xfffff000 AND e"

text \<open>The addresses of the directory entry and of the table entry for a linear address.\<close>

definition dir_entry :: "u32 \<Rightarrow> u32" where
  "dir_entry address = drop_bit 20 address AND 0xffc"

definition table_offset :: "u32 \<Rightarrow> u32" where
  "table_offset address = drop_bit 10 address AND 0xffc"

section \<open>Page allocation\<close>

text \<open>\<open>repne scasb\<close> downwards from the last byte of \<open>mem_map\<close>, for a zero byte.\<close>

fun scan_map :: "u8 list \<Rightarrow> nat \<Rightarrow> nat option" where
  "scan_map mm 0 = None"
| "scan_map mm (Suc i) = (if mm ! i = 0 then Some i else scan_map mm i)"

text \<open>\<open>rep stosl\<close> downwards with \<open>eax = 0\<close>.\<close>

fun stosl_down :: "nat \<Rightarrow> u32 \<Rightarrow> bmem \<Rightarrow> bmem" where
  "stosl_down 0 edi p = p"
| "stosl_down (Suc n) edi p = stosl_down n (edi - 4) (put_fs_long 0 edi p)"

lemma scan_map_Some:
  "scan_map mm n = Some i \<Longrightarrow> i < n \<and> mm ! i = 0 \<and> (\<forall>j<n. i < j \<longrightarrow> mm ! j \<noteq> 0)"
  by (induction mm n rule: scan_map.induct) (auto simp: less_Suc_eq split: if_splits)

lemma scan_map_None: "scan_map mm n = None \<longleftrightarrow> (\<forall>j<n. mm ! j \<noteq> 0)"
  by (induction mm n rule: scan_map.induct) (auto simp: less_Suc_eq)

text \<open>
  A page at or above \<open>HIGH_MEMORY\<close> is marked as used and the search is repeated. When no byte is
  zero the result is 0, and with \<open>HIGH_MEMORY = 0\<close> (before \<open>mem_init\<close>) the loop never ends.
\<close>

function get_free_page :: "mem \<Rightarrow> (u32 \<times> mem) kres" where
  "get_free_page m =
     (case scan_map (mem_map m) (length (mem_map m)) of
        None \<Rightarrow> if HIGH_MEMORY m = 0 then Inl Hang else Inr (0, m)
      | Some i \<Rightarrow>
          let res = push_bit 12 (of_nat i) + LOW_MEM;
              m' = m\<lparr>mem_map := (mem_map m)[i := 1], phys := stosl_down 1024 (res + 4092) (phys m)\<rparr>
          in if HIGH_MEMORY m \<le> res then get_free_page m' else Inr (res, m'))"
  by pat_completeness auto
termination
proof (relation "measure (\<lambda>m. length (filter (\<lambda>b. b = 0) (mem_map m)))")
  fix m :: mem and i res m'
  assume i: "scan_map (mem_map m) (length (mem_map m)) = Some i"
    and m': "m' = m\<lparr>mem_map := (mem_map m)[i := 1], phys := stosl_down 1024 (res + 4092) (phys m)\<rparr>"
  from scan_map_Some [OF i] have "i < length (mem_map m)" "mem_map m ! i = 0" by auto
  then have "length (filter (\<lambda>b. b = 0) ((mem_map m)[i := 1])) < length (filter (\<lambda>b. b = 0) (mem_map m))"
    by (subst (2) id_take_nth_drop [of i "mem_map m"]) (simp_all add: upd_conv_take_nth_drop)
  then show "(m', m) \<in> measure (\<lambda>m. length (filter (\<lambda>b. b = 0) (mem_map m)))" by (simp add: m')
qed simp

declare get_free_page.simps [simp del]

definition free_page :: "u32 \<Rightarrow> mem \<Rightarrow> mem kres" where
  "free_page addr m =
     (if addr < LOW_MEM then Inr m
      else if HIGH_MEMORY m \<le> addr then Inl (Panic ''trying to free nonexistent page'')
      else kbind (map_count (MAP_NR addr) m) (\<lambda>c.
        if c \<noteq> 0 then map_set (MAP_NR addr) (c - 1) m
        else Inl (Panic ''trying to free free page'')))"

definition mem_init :: "u32 \<Rightarrow> u32 \<Rightarrow> mem \<Rightarrow> mem kres" where
  "mem_init start_mem end_mem m =
     (let i = MAP_NR start_mem; n = unat (drop_bit 12 (end_mem - start_mem)) in
      if 0 < n \<and> PAGING_PAGES < i + n then Inl OutOfBounds
      else Inr (m\<lparr>HIGH_MEMORY := end_mem,
        mem_map := fold (\<lambda>k mm. mm[i + k := 0]) [0..<n] (replicate PAGING_PAGES USED)\<rparr>))"

section \<open>Page tables\<close>

fun free_entries :: "nat \<Rightarrow> u32 \<Rightarrow> mem \<Rightarrow> mem kres" where
  "free_entries 0 pg m = Inr m"
| "free_entries (Suc n) pg m =
     kbind (if ld pg m \<noteq> 0 then
              kbind (if 1 AND ld pg m \<noteq> 0 then free_page (frame (ld pg m)) m else Inr m) (\<lambda>m. Inr (st 0 pg m))
            else Inr m)
       (free_entries n (pg + 4))"

fun free_dirs :: "nat \<Rightarrow> u32 \<Rightarrow> mem \<Rightarrow> mem kres" where
  "free_dirs 0 dir m = Inr m"
| "free_dirs (Suc n) dir m =
     kbind (if 1 AND ld dir m = 0 then Inr m
            else kbind (free_entries 1024 (frame (ld dir m)) m) (\<lambda>m.
                 kbind (free_page (frame (ld dir m)) m) (\<lambda>m. Inr (st 0 dir m))))
       (free_dirs n (dir + 4))"

definition free_page_tables :: "u32 \<Rightarrow> u32 \<Rightarrow> mem \<Rightarrow> (u32 \<times> mem) kres" where
  "free_page_tables from sz m =
     (if from AND 0x3fffff \<noteq> 0 then Inl (Panic ''free_page_tables called with wrong alignment'')
      else if from = 0 then Inl (Panic ''Trying to free up swapper memory space'')
      else kbind (free_dirs (unat (drop_bit 22 (sz + 0x3fffff))) (dir_entry from) m)
        (\<lambda>m. Inr (0, invalidate m)))"

fun copy_entries :: "nat \<Rightarrow> u32 \<Rightarrow> u32 \<Rightarrow> mem \<Rightarrow> mem kres" where
  "copy_entries 0 from to m = Inr m"
| "copy_entries (Suc n) from to m =
     (let e = ld from m in
      kbind (if e = 0 \<or> 1 AND e = 0 then Inr m
             else let e = e AND NOT 2; m1 = st e to m in
               if LOW_MEM < e then
                 let m2 = st e from m1 in
                 kbind (map_count (MAP_NR e) m2) (\<lambda>c. map_set (MAP_NR e) (c + 1) m2)
               else Inr m1)
        (copy_entries n (from + 4) (to + 4)))"

text \<open>The outer loop; \<open>first\<close> is the \<open>from\<close> of the call, which is 0 for the kernel's own space.\<close>

fun copy_dirs :: "nat \<Rightarrow> bool \<Rightarrow> u32 \<Rightarrow> u32 \<Rightarrow> mem \<Rightarrow> (u32 \<times> mem) kres" where
  "copy_dirs 0 first from_dir to_dir m = Inr (0, invalidate m)"
| "copy_dirs (Suc n) first from_dir to_dir m =
     (if 1 AND ld to_dir m \<noteq> 0 then Inl (Panic ''copy_page_tables: already exist'')
      else if 1 AND ld from_dir m = 0 then copy_dirs n first (from_dir + 4) (to_dir + 4) m
      else
        let from_pt = frame (ld from_dir m) in
        kbind (get_free_page m) (\<lambda>(to_pt, m).
          if to_pt = 0 then Inr (- 1, m)
          else kbind (copy_entries (if first then 0xA0 else 1024) from_pt to_pt (st (to_pt OR 7) to_dir m))
            (copy_dirs n first (from_dir + 4) (to_dir + 4))))"

definition copy_page_tables :: "u32 \<Rightarrow> u32 \<Rightarrow> u32 \<Rightarrow> mem \<Rightarrow> (u32 \<times> mem) kres" where
  "copy_page_tables from to sz m =
     (if from AND 0x3fffff \<noteq> 0 \<or> to AND 0x3fffff \<noteq> 0
      then Inl (Panic ''copy_page_tables called with wrong alignment'')
      else copy_dirs (unat (drop_bit 22 (sz + 0x3fffff))) (from = 0) (dir_entry from) (dir_entry to) m)"

section \<open>Copy on write\<close>

text \<open>\<open>copy_page\<close>: \<open>rep movsl\<close> of 1024 longs, upwards.\<close>

fun movsl :: "nat \<Rightarrow> u32 \<Rightarrow> u32 \<Rightarrow> bmem \<Rightarrow> bmem" where
  "movsl 0 from to p = p"
| "movsl (Suc n) from to p = movsl n (from + 4) (to + 4) (put_fs_long (get_fs_long from p) to p)"

definition copy_page :: "u32 \<Rightarrow> u32 \<Rightarrow> mem \<Rightarrow> mem" where
  "copy_page from to m = m\<lparr>phys := movsl 1024 from to (phys m)\<rparr>"

text \<open>The result of \<open>get_free_page\<close> is not checked: with no page left the copy goes to address 0.\<close>

definition un_wp_page :: "u32 \<Rightarrow> mem \<Rightarrow> mem kres" where
  "un_wp_page entry m =
     (let old_page = frame (ld entry m) in
      kbind (if LOW_MEM \<le> old_page then map_count (MAP_NR old_page) m else Inr 0) (\<lambda>c.
        if LOW_MEM \<le> old_page \<and> c = 1 then Inr (invalidate (st (ld entry m OR 2) entry m))
        else
          kbind (get_free_page m) (\<lambda>(new_page, m).
          kbind (if LOW_MEM \<le> old_page then
                   kbind (map_count (MAP_NR old_page) m) (\<lambda>c. map_set (MAP_NR old_page) (c - 1) m)
                 else Inr m) (\<lambda>m.
            Inr (invalidate (st (new_page OR 7) entry (copy_page old_page new_page m)))))))"

definition do_wp_page :: "u32 \<Rightarrow> u32 \<Rightarrow> mem \<Rightarrow> mem kres" where
  "do_wp_page error_code address m =
     (if address < TASK_SIZE then Inl (Panic ''BAD! KERNEL MEMORY WP-ERR!'')
      else un_wp_page (table_offset address + frame (ld (dir_entry address) m)) m)"

definition write_verify :: "u32 \<Rightarrow> mem \<Rightarrow> mem kres" where
  "write_verify address m =
     (if ld (dir_entry address) m AND 1 = 0 then Inr m
      else
        let page = frame (ld (dir_entry address) m) + table_offset address in
        if 3 AND ld page m = 1 then un_wp_page page m else Inr m)"

section \<open>Mapping pages\<close>

definition put_checks :: "u32 \<Rightarrow> mem \<Rightarrow> mem kres" where
  "put_checks page m =
     (let m1 = (if page < LOW_MEM \<or> HIGH_MEMORY m \<le> page then m\<lparr>mlog := mlog m @ [''Trying to put page'']\<rparr> else m) in
      kbind (map_count (MAP_NR page) m1) (\<lambda>c.
        Inr (if c \<noteq> 1 then m1\<lparr>mlog := mlog m1 @ [''mem_map disagrees'']\<rparr> else m1)))"

definition put_page_flags :: "u32 \<Rightarrow> u32 \<Rightarrow> u32 \<Rightarrow> mem \<Rightarrow> (u32 \<times> mem) kres" where
  "put_page_flags flags page address m =
     kbind (put_checks page m) (\<lambda>m.
     let put = (\<lambda>pt m. Inr (page, st (page OR flags) (pt + 4 * (drop_bit 12 address AND 0x3ff)) m)) in
     if ld (dir_entry address) m AND 1 \<noteq> 0 then put (frame (ld (dir_entry address) m)) m
     else kbind (get_free_page m) (\<lambda>(tmp, m).
       if tmp = 0 then Inr (0, m) else put tmp (st (tmp OR 7) (dir_entry address) m)))"

definition put_page :: "u32 \<Rightarrow> u32 \<Rightarrow> mem \<Rightarrow> (u32 \<times> mem) kres" where
  "put_page page address m = put_page_flags 7 page address m"

definition put_dirty_page :: "u32 \<Rightarrow> u32 \<Rightarrow> mem \<Rightarrow> (u32 \<times> mem) kres" where
  "put_dirty_page page address m = put_page_flags (PAGE_DIRTY OR 7) page address m"

definition get_empty_page :: "u32 \<Rightarrow> mem \<Rightarrow> mem kres" where
  "get_empty_page address m =
     kbind (get_free_page m) (\<lambda>(tmp, m).
       if tmp = 0 then kbind (free_page tmp m) (\<lambda>m. Inr (oom m))
       else kbind (put_page tmp address m) (\<lambda>(r, m).
         if r = 0 then kbind (free_page tmp m) (\<lambda>m. Inr (oom m)) else Inr m))"

section \<open>Sharing pages between tasks\<close>

text \<open>\<open>my_start\<close> and \<open>p_start\<close> are the \<open>start_code\<close> of the current task and of \<open>p\<close>.\<close>

definition try_to_share :: "u32 \<Rightarrow> u32 \<Rightarrow> u32 \<Rightarrow> mem \<Rightarrow> (u32 \<times> mem) kres" where
  "try_to_share address my_start p_start m =
     (let off = drop_bit 20 address AND 0xffc;
          from_dir = off + (drop_bit 20 p_start AND 0xffc);
          to_dir = off + (drop_bit 20 my_start AND 0xffc);
          from = ld from_dir m
      in if from AND 1 = 0 then Inr (0, m)
         else
           let from_page = frame from + table_offset address;
               phys_addr = ld from_page m
           in if phys_addr AND 0x41 \<noteq> 0x01 then Inr (0, m)
              else if HIGH_MEMORY m \<le> frame phys_addr \<or> frame phys_addr < LOW_MEM then Inr (0, m)
              else
                kbind (if ld to_dir m AND 1 = 0 then
                         kbind (get_free_page m) (\<lambda>(to, m).
                           Inr (if to \<noteq> 0 then (to, st (to OR 7) to_dir m) else (to, oom m)))
                       else Inr (ld to_dir m, m)) (\<lambda>(to, m).
                  let to_page = frame to + table_offset address in
                  if 1 AND ld to_page m \<noteq> 0 then Inl (Panic ''try_to_share: to_page already exists'')
                  else
                    let m1 = st (ld from_page m AND NOT 2) from_page m;
                        m2 = invalidate (st (ld from_page m1) to_page m1)
                    in kbind (map_count (MAP_NR (frame phys_addr)) m2) (\<lambda>c.
                       kbind (map_set (MAP_NR (frame phys_addr)) (c + 1) m2) (\<lambda>m3. Inr (1, m3)))))"

text \<open>The loop of \<open>share_page\<close> stops at the first task it can share with; both ways the value is 0.\<close>

fun share_loop :: "tptr list \<Rightarrow> u32 \<Rightarrow> u32 \<Rightarrow> kern \<Rightarrow> mem \<Rightarrow> mem kres" where
  "share_loop [] inode address k m = Inr m"
| "share_loop (p # ps) inode address k m =
     (if p = 0 \<or> current k = p \<or> inode \<noteq> t_executable (tcb k p) then share_loop ps inode address k m
      else kbind (try_to_share address (t_start_code (cur k)) (t_start_code (tcb k p)) m) (\<lambda>(r, m).
        if r \<noteq> 0 then Inr m else share_loop ps inode address k m))"

definition share_page :: "(u32 \<Rightarrow> u16) \<Rightarrow> u32 \<Rightarrow> u32 \<Rightarrow> kern \<Rightarrow> mem \<Rightarrow> (u32 \<times> mem) kres" where
  "share_page i_count inode address k m =
     (if inode = 0 then Inl NullDeref
      else if i_count inode < 2 then Inr (0, m)
      else kbind (share_loop (tasks_down k) inode address k m) (\<lambda>m. Inr (0, m)))"

section \<open>Addresses\<close>

lemma frame_shift: "(0xfffff000 :: u32) AND e = push_bit 12 (drop_bit 12 e)"
proof -
  have c: "(0xfffff000 :: u32) = push_bit 12 (mask 20)" by (simp add: mask_numeral)
  show ?thesis unfolding c by (rule bit_word_eqI) (auto simp: bit_simps)
qed

lemma unat_frame: "unat ((0xfffff000 :: u32) AND e) = 4096 * (unat e div 4096)"
proof -
  have "unat e div 4096 * 4096 < 2 ^ 32" using unsigned_less [of e, where ?'a = nat] by simp
  then show ?thesis unfolding frame_shift
    by (simp add: push_bit_eq_mult drop_bit_eq_div unat_word_ariths unat_div del: push_bit_of_nat)
qed

lemma ffc_shift: "(w :: u32) AND 0xffc = push_bit 2 (drop_bit 2 w AND mask 10)"
proof -
  have c: "(0xffc :: u32) = push_bit 2 (mask 10)" by (simp add: mask_numeral)
  show ?thesis unfolding c by (rule bit_word_eqI) (auto simp: bit_simps le_iff_add)
qed

lemma unat_offset: "unat ((w :: u32) AND 0xffc) = 4 * (unat w div 4 mod 1024)"
proof -
  have "unat w div 4 mod 1024 * 4 < 2 ^ 32" using mod_less_divisor [of 1024 "unat w div 4"] by simp
  moreover have "unat w div 4 < 2 ^ 32" using unsigned_less [of w, where ?'a = nat] by simp
  ultimately show ?thesis unfolding ffc_shift
    by (simp add: push_bit_eq_mult drop_bit_eq_div unat_word_ariths unat_div unat_and_mask)
qed


lemma unat_plus: "unat a + unat b < 2 ^ 32 \<Longrightarrow> unat (a + b :: u32) = unat a + unat b"
  by (simp add: unat_word_ariths)


lemma far_unat:
  assumes "unat a + 4 \<le> unat b \<or> unat b + 4 \<le> unat a" "unat a + 4 \<le> 2 ^ 32" "unat b + 4 \<le> 2 ^ 32"
  shows "far a b"
  using assms by (auto simp: far_def unat_sub_if')

lemma far_sym: "far a b \<Longrightarrow> far b a"
  by (simp add: far_def)

definition page_addr :: "nat \<Rightarrow> u32" where
  "page_addr i = push_bit 12 (of_nat i) + LOW_MEM"

lemma unat_page_addr: "i < PAGING_PAGES \<Longrightarrow> unat (page_addr i) = 4096 * i + 0x100000"
proof -
  assume i: "i < PAGING_PAGES"
  then have "unat (push_bit 12 (of_nat i) :: u32) = 4096 * i"
    by (simp add: PAGING_PAGES_def push_bit_eq_mult unat_word_ariths unat_of_nat_small)
  then show ?thesis using i
    by (simp add: page_addr_def LOW_MEM_def PAGING_PAGES_def unat_plus)
qed

lemma MAP_NR_unat: "LOW_MEM \<le> a \<Longrightarrow> MAP_NR a = (unat a - 0x100000) div 4096"
  by (simp add: MAP_NR_def LOW_MEM_def drop_bit_eq_div unat_div unat_sub_if' word_le_nat_alt)

lemma page_addr_ge: "i < PAGING_PAGES \<Longrightarrow> LOW_MEM \<le> page_addr i"
  by (simp add: word_le_nat_alt unat_page_addr) (simp add: LOW_MEM_def)

lemma MAP_NR_page_addr: "i < PAGING_PAGES \<Longrightarrow> MAP_NR (page_addr i) = i"
  by (simp add: MAP_NR_unat page_addr_ge unat_page_addr)

section \<open>Filling and copying pages\<close>

lemma inside_long: "unat (b - a) < 4 \<Longrightarrow> b = a \<or> b = a + 1 \<or> b = a + 2 \<or> b = (a + 3 :: u32)"
proof -
  assume "unat (b - a) < 4"
  then have "unat (b - a) \<in> {0, 1, 2, 3}" by auto
  then have "b - a = 0 \<or> b - a = 1 \<or> b - a = 2 \<or> b - a = 3"
    by (auto simp: word_eq_iff_unsigned [where ?'a = nat])
  then show ?thesis by (auto simp: diff_eq_eq add.commute)
qed

lemma put_fs_long_inside: "unat (b - a) < 4 \<Longrightarrow> put_fs_long v a p b = put_fs_long v a q b"
  by (auto simp: put_fs_long_def dest: inside_long)

lemma put_zero: "unat (b - a) < 4 \<Longrightarrow> put_fs_long 0 a p b = 0"
  by (auto simp: put_fs_long_def dest: inside_long)

lemma unat_rev: "Suc (unat (c :: u32)) = n \<Longrightarrow> unat (c - d) < n \<longleftrightarrow> unat d < n"
  using unsigned_less [of d, where ?'a = nat] by (auto simp: unat_sub_if')

lemma stosl_down_byte:
  "n \<le> 2 ^ 20 \<Longrightarrow> stosl_down n edi p b = (if unat (edi + 3 - b) < 4 * n then 0 else p b)"
proof (induction n arbitrary: edi p)
  case (Suc n)
  let ?d = "edi + 3 - b"
  have sub: "edi - 4 + 3 - b = ?d - 4" by simp
  have step: "stosl_down (Suc n) edi p b =
      (if unat (?d - 4) < 4 * n then 0 else put_fs_long 0 edi p b)"
    using Suc.IH [of "edi - 4" "put_fs_long 0 edi p"] Suc.prems unfolding sub by simp
  have be: "b - edi = 3 - ?d" by simp
  show ?case
  proof (cases "unat ?d < 4")
    case True
    then have "\<not> unat (?d - 4) < 4 * n" using Suc.prems unat_sub_if' [of ?d 4] by simp
    moreover have "unat (b - edi) < 4" unfolding be using True by (subst unat_rev) simp_all
    ultimately show ?thesis unfolding step using True by (simp add: put_zero)
  next
    case False
    then have "unat (?d - 4) = unat ?d - 4" using unat_sub_if' [of ?d 4] by simp
    moreover have "\<not> unat (b - edi) < 4" unfolding be using False by (subst unat_rev) simp_all
    ultimately show ?thesis unfolding step using False by (simp add: put_fs_long_other not_less) linarith
  qed
qed simp

text \<open>Two areas of \<open>k\<close> bytes that do not overlap, by their distances.\<close>

definition apart :: "u32 \<Rightarrow> u32 \<Rightarrow> nat \<Rightarrow> bool" where
  "apart a b k \<longleftrightarrow> k \<le> unat (a - b) \<and> k \<le> unat (b - a)"

lemma apart_unat:
  assumes "unat a + k \<le> unat b \<or> unat b + k \<le> unat a" "unat a + k \<le> 2 ^ 32" "unat b + k \<le> 2 ^ 32"
  shows "apart a b k"
  using assms by (auto simp: apart_def unat_sub_if')

lemma long_bytes:
  "ucast (get_fs_long f p) = p f" "ucast (drop_bit 8 (get_fs_long f p)) = p (f + 1)"
  "ucast (drop_bit 16 (get_fs_long f p)) = p (f + 2)" "ucast (drop_bit 24 (get_fs_long f p)) = p (f + 3)"
  by (rule bit_word_eqI; auto simp: get_fs_long_def bit_simps dest: bit_imp_le_length)+

lemma put_get_byte:
  assumes "unat (b - a) < 4"
  shows "put_fs_long (get_fs_long f p) a q b = p (f + (b - a))"
  using inside_long [OF assms] by (elim disjE) (simp_all add: put_fs_long_def long_bytes)

lemma movsl_byte:
  "n \<le> 2 ^ 20 \<Longrightarrow> apart from to (4 * n) \<Longrightarrow>
    movsl n from to p b = (if unat (b - to) < 4 * n then p (from + (b - to)) else p b)"
proof (induction n arbitrary: "from" to p)
  case (Suc n)
  let ?p = "put_fs_long (get_fs_long from p) to p" and ?d = "b - to"
  have sub: "b - (to + 4) = ?d - 4" "from + 4 + (b - (to + 4)) = from + ?d" by simp_all
  have "apart (from + 4) (to + 4) (4 * n)" using Suc.prems(2) by (simp add: apart_def)
  then have step: "movsl (Suc n) from to p b = (if unat (?d - 4) < 4 * n then ?p (from + ?d) else ?p b)"
    using Suc.IH [of "from + 4" "to + 4" ?p] Suc.prems(1) unfolding sub by simp
  show ?case
  proof (cases "unat ?d < 4")
    case True
    then have "\<not> unat (?d - 4) < 4 * n" using Suc.prems unat_sub_if' [of ?d 4] by simp
    then show ?thesis unfolding step using True by (simp add: put_get_byte)
  next
    case False
    then have d4: "unat (?d - 4) = unat ?d - 4" using unat_sub_if' [of ?d 4] by simp
    show ?thesis
    proof (cases "unat ?d < 4 * Suc n")
      case True
      have ap: "4 * Suc n \<le> unat (from - to)" "4 * Suc n \<le> unat (to - from)"
        using Suc.prems(2) by (simp_all add: apart_def)
      have "unat (from - to) + unat (to - from) = 2 ^ 32"
        using ap by (auto simp: unat_sub_if' split: if_splits)
      then have "unat ((from - to) + ?d) = unat (from - to) + unat ?d"
        using ap True by (intro unat_plus) linarith
      then have "4 \<le> unat (from + ?d - to)" using ap by (simp add: algebra_simps)
      then have "?p (from + ?d) = p (from + ?d)" by (rule put_fs_long_other)
      then show ?thesis unfolding step using True d4 False by auto
    next
      case big: False
      then have "\<not> unat (?d - 4) < 4 * n" using d4 False by simp
      then show ?thesis unfolding step using big False by (simp add: put_fs_long_other)
    qed
  qed
qed simp

section \<open>Allocation: what it guarantees\<close>

definition mem_ok :: "mem \<Rightarrow> bool" where
  "mem_ok m \<longleftrightarrow> length (mem_map m) = PAGING_PAGES \<and> HIGH_MEMORY m \<noteq> 0 \<and>
     (\<forall>i<PAGING_PAGES. mem_map m ! i = 0 \<longrightarrow> page_addr i < HIGH_MEMORY m)"

text \<open>The bytes of the page at \<open>p\<close>.\<close>

abbreviation in_page :: "u32 \<Rightarrow> u32 \<Rightarrow> bool" where
  "in_page p b \<equiv> unat (b - p) < 4096"

lemma in_page_rev: "in_page p b \<longleftrightarrow> unat (p + 4092 + 3 - b) < 4096"
proof -
  have e: "p + 4092 + 3 - b = 4095 - (b - p)" by simp
  show ?thesis unfolding e by (rule unat_rev [symmetric]) simp
qed

lemma get_free_page_spec:
  assumes "mem_ok m"
  shows "(\<forall>i<PAGING_PAGES. mem_map m ! i \<noteq> 0) \<and> get_free_page m = Inr (0, m) \<or>
    (\<exists>i<PAGING_PAGES. mem_map m ! i = 0 \<and> (\<forall>j<PAGING_PAGES. i < j \<longrightarrow> mem_map m ! j \<noteq> 0) \<and>
      get_free_page m = Inr (page_addr i, m\<lparr>mem_map := (mem_map m)[i := 1],
        phys := (\<lambda>b. if in_page (page_addr i) b then 0 else phys m b)\<rparr>))"
proof (cases "scan_map (mem_map m) (length (mem_map m))")
  case None
  then have "\<forall>i<PAGING_PAGES. mem_map m ! i \<noteq> 0" using assms by (simp add: scan_map_None mem_ok_def)
  then show ?thesis using None assms by (simp add: get_free_page.simps [of m] mem_ok_def)
next
  case (Some i)
  have len: "length (mem_map m) = PAGING_PAGES" using assms by (simp add: mem_ok_def)
  note i = scan_map_Some [OF Some, unfolded len]
  then have hi: "\<not> HIGH_MEMORY m \<le> page_addr i" using assms by (auto simp: mem_ok_def not_le)
  have st: "stosl_down 1024 (page_addr i + 4092) p = (\<lambda>b. if in_page (page_addr i) b then 0 else p b)" for p
  proof
    fix b
    have "stosl_down 1024 (page_addr i + 4092) p b =
        (if unat (page_addr i + 4092 + 3 - b) < 4 * 1024 then 0 else p b)"
      by (rule stosl_down_byte) simp
    then show "stosl_down 1024 (page_addr i + 4092) p b = (if in_page (page_addr i) b then 0 else p b)"
      using in_page_rev [of b "page_addr i"] by simp
  qed
  have "get_free_page m = Inr (page_addr i, m\<lparr>mem_map := (mem_map m)[i := 1],
        phys := (\<lambda>b. if in_page (page_addr i) b then 0 else phys m b)\<rparr>)"
    by (subst get_free_page.simps) (simp only: Some option.case Let_def st page_addr_def [symmetric] hi if_False)
  with i show ?thesis by blast
qed

lemma get_free_page_some:
  assumes m: "mem_ok m" and free: "\<exists>i<PAGING_PAGES. mem_map m ! i = 0"
  obtains i where "i < PAGING_PAGES" "mem_map m ! i = 0"
    "get_free_page m = Inr (page_addr i, m\<lparr>mem_map := (mem_map m)[i := 1],
        phys := (\<lambda>b. if in_page (page_addr i) b then 0 else phys m b)\<rparr>)"
  using get_free_page_spec [OF m]
proof (elim disjE exE conjE)
  assume "\<forall>i<PAGING_PAGES. mem_map m ! i \<noteq> 0"
  with free show thesis by blast
qed (rule that)

lemma mem_ok_upd: "mem_ok m \<Longrightarrow> v \<noteq> 0 \<Longrightarrow> mem_ok (m\<lparr>mem_map := (mem_map m)[i := v], phys := p\<rparr>)"
  by (cases "i < length (mem_map m)") (auto simp: mem_ok_def nth_list_update split: if_splits)

lemma page_addr_shift: "page_addr i = push_bit 12 (of_nat i + 0x100)"
  by (simp add: page_addr_def LOW_MEM_def push_bit_add)

lemma frame_or: "frame (push_bit 12 w OR mask 3 :: u32) = push_bit 12 w" "frame (push_bit 12 w :: u32) = push_bit 12 w"
  unfolding frame_shift by (rule bit_word_eqI, auto simp: bit_simps)+

lemma frame_page_addr [simp]: "frame (page_addr i OR 7) = page_addr i" "frame (page_addr i) = page_addr i"
  using frame_or [of "of_nat i + 0x100"] by (simp_all add: page_addr_shift mask_numeral)

lemma page_addr_distinct:
  "i < PAGING_PAGES \<Longrightarrow> j < PAGING_PAGES \<Longrightarrow> i \<noteq> j \<Longrightarrow> apart (page_addr i) (page_addr j) 4096"
  by (rule apart_unat) (auto simp: unat_page_addr PAGING_PAGES_def nat_neq_iff)

text \<open>Longs inside a page.\<close>

lemma dir_entry_bounds: "unat (dir_entry a) < 4096" "unat (dir_entry a) mod 4 = 0"
  unfolding dir_entry_def unat_offset using mod_less_divisor [of 1024 "unat (drop_bit 20 a) div 4"] by auto

lemma table_offset_bounds: "unat (table_offset a) + 4 \<le> 4096"
  unfolding table_offset_def unat_offset using mod_less_divisor [of 1024 "unat (drop_bit 10 a) div 4"] by auto

lemma unat_entry: "t < PAGING_PAGES \<Longrightarrow> unat (page_addr t + table_offset a) = unat (page_addr t) + unat (table_offset a)"
  using table_offset_bounds [of a] by (intro unat_plus) (simp add: unat_page_addr PAGING_PAGES_def)

text \<open>A long outside a page is not changed by a change inside it.\<close>

lemma ld_cong: "(\<And>k. k < 4 \<Longrightarrow> p (a + of_nat k) = q (a + of_nat k)) \<Longrightarrow> get_fs_long a p = get_fs_long a q"
proof -
  assume a: "\<And>k. k < 4 \<Longrightarrow> p (a + of_nat k) = q (a + of_nat k)"
  from a [of 0] a [of 1] a [of 2] a [of 3] show ?thesis by (simp add: get_fs_long_def)
qed

lemma in_page_apart: "apart p q 4096 \<Longrightarrow> in_page p b \<Longrightarrow> \<not> in_page q b"
proof -
  assume ap: "apart p q 4096" and b: "in_page p b"
  have "unat (p - q) + unat (q - p) = 2 ^ 32"
    using ap by (auto simp: apart_def unat_sub_if' split: if_splits)
  then have "unat ((p - q) + (b - p)) = unat (p - q) + unat (b - p)"
    using ap b by (intro unat_plus) (simp add: apart_def)
  then show ?thesis using ap by (simp add: apart_def)
qed

lemma in_entry: "unat (b - (p + table_offset a)) < 4 \<Longrightarrow> in_page p b"
proof -
  assume "unat (b - (p + table_offset a)) < 4"
  moreover have "b - p = (b - (p + table_offset a)) + table_offset a" by simp
  ultimately show ?thesis
    using table_offset_bounds [of a] unat_plus [of "b - (p + table_offset a)" "table_offset a"] by simp
qed

lemma low_not_above: "unat b < 2 ^ 20 \<Longrightarrow> 2 ^ 20 \<le> unat p \<Longrightarrow> unat p \<le> 2 ^ 31 \<Longrightarrow> 4096 \<le> unat (b - p :: u32)"
  by (simp add: unat_sub_if')

lemma page_offset: "k < 4096 \<Longrightarrow> in_page p (p + of_nat k)"
  by (simp add: unat_of_nat_small)

text \<open>The directory entry is below the first mebibyte, where no allocated page is.\<close>

lemma dir_entry_byte: "k < 4 \<Longrightarrow> unat (dir_entry a + of_nat k) < 2 ^ 20"
  using dir_entry_bounds [of a] unat_add_small [of "dir_entry a" k] by simp

lemma page_addr_range: "t < PAGING_PAGES \<Longrightarrow> 2 ^ 20 \<le> unat (page_addr t) \<and> unat (page_addr t) + 4096 \<le> 2 ^ 31"
  by (simp add: unat_page_addr PAGING_PAGES_def)

section \<open>Properties of memory management\<close>

text \<open>C16: \<open>get_free_page\<close> returns. If some page is free it hands out one, below \<open>HIGH_MEMORY\<close>, that nobody
  was using, with reference count 1 and filled with zeros, and changes nothing else; freeing that
  page again restores \<open>mem_map\<close>. It returns 0 exactly when every page is in use.\<close>

theorem get_free_page_correct:
  assumes "mem_ok m"
  shows "\<exists>p m'. get_free_page m = Inr (p, m') \<and> mem_ok m' \<and>
    (if \<forall>i<PAGING_PAGES. mem_map m ! i \<noteq> 0 then p = 0 \<and> m' = m
     else p < HIGH_MEMORY m \<and> (\<exists>i<PAGING_PAGES. p = page_addr i \<and> mem_map m ! i = 0 \<and> mem_map m' = (mem_map m)[i := 1]) \<and>
       (\<forall>b. phys m' b = (if in_page p b then 0 else phys m b)) \<and>
       (\<exists>m''. free_page p m' = Inr m'' \<and> mem_map m'' = mem_map m))"
  using get_free_page_spec [OF assms]
proof
  assume "(\<forall>i<PAGING_PAGES. mem_map m ! i \<noteq> 0) \<and> get_free_page m = Inr (0, m)"
  with assms show ?thesis by (intro exI [of _ 0] exI [of _ m]) simp
next
  assume "\<exists>i<PAGING_PAGES. mem_map m ! i = 0 \<and> (\<forall>j<PAGING_PAGES. i < j \<longrightarrow> mem_map m ! j \<noteq> 0) \<and>
      get_free_page m = Inr (page_addr i, m\<lparr>mem_map := (mem_map m)[i := 1],
        phys := (\<lambda>b. if in_page (page_addr i) b then 0 else phys m b)\<rparr>)"
  then obtain i where i: "i < PAGING_PAGES" "mem_map m ! i = 0"
    "get_free_page m = Inr (page_addr i, m\<lparr>mem_map := (mem_map m)[i := 1],
        phys := (\<lambda>b. if in_page (page_addr i) b then 0 else phys m b)\<rparr>)" by blast
  let ?m = "m\<lparr>mem_map := (mem_map m)[i := 1], phys := (\<lambda>b. if in_page (page_addr i) b then 0 else phys m b)\<rparr>"
  have hi: "page_addr i < HIGH_MEMORY m" and len: "length (mem_map m) = PAGING_PAGES"
    using assms i by (auto simp: mem_ok_def)
  have "(mem_map m)[i := 0] = mem_map m" using i(2) by (metis list_update_id)
  then have "free_page (page_addr i) ?m = Inr (?m\<lparr>mem_map := mem_map m\<rparr>)"
    using i(1,2) hi len page_addr_ge [OF i(1)]
    by (simp add: free_page_def map_count_def map_set_def MAP_NR_page_addr leD)
  moreover have "mem_ok ?m" using assms by (rule mem_ok_upd) simp
  ultimately show ?thesis using i hi
    by (intro exI [of _ "page_addr i"] exI [of _ ?m]) auto
qed

definition mem0 :: mem where
  "mem0 = \<lparr>phys = (\<lambda>_. 0), mem_map = replicate PAGING_PAGES 0, HIGH_MEMORY = 0x1000000, cr3_loads = 0, mlog = []\<rparr>"

lemma mem0_ok: "mem_ok mem0"
  by (auto simp: mem_ok_def mem0_def word_less_nat_alt unat_page_addr PAGING_PAGES_def)

theorem get_free_page_correct_witness:
  "\<exists>p m'. get_free_page mem0 = Inr (p, m') \<and> p < 0x1000000 \<and> phys m' p = 0"
proof -
  have "\<not> (\<forall>i<PAGING_PAGES. mem_map mem0 ! i \<noteq> 0)" by (auto simp: mem0_def PAGING_PAGES_def intro: exI [of _ 0])
  from get_free_page_correct [OF mem0_ok, unfolded if_not_P [OF this]]
  obtain p m' where "get_free_page mem0 = Inr (p, m')" "p < HIGH_MEMORY mem0"
    "\<forall>b. phys m' b = (if in_page p b then 0 else phys mem0 b)" by blast
  then show ?thesis by (intro exI [of _ p] exI [of _ m']) (simp add: mem0_def)
qed

lemma zero_below:
  "n \<le> length mm - i \<Longrightarrow> length (fold (\<lambda>k mm. mm[i + k := v]) [0..<n] mm) = length mm \<and>
    (\<forall>j. fold (\<lambda>k mm. mm[i + k := v]) [0..<n] mm ! j = (if i \<le> j \<and> j < i + n then v else mm ! j))"
  by (induction n) (auto simp: nth_list_update)

text \<open>\<open>mem_init\<close> leaves exactly the pages between \<open>start_mem\<close> and \<open>end_mem\<close> free, and sets up the
  invariant under which \<open>get_free_page\<close> works.\<close>

theorem mem_init_correct:
  assumes "LOW_MEM \<le> start_mem" "start_mem \<le> end_mem" "end_mem \<le> 0x1000000"
    "unat start_mem mod 4096 = 0" "unat end_mem mod 4096 = 0"
  shows "\<exists>m'. mem_init start_mem end_mem m = Inr m' \<and> mem_ok m' \<and> HIGH_MEMORY m' = end_mem \<and>
    (\<forall>i<PAGING_PAGES. mem_map m' ! i = (if start_mem \<le> page_addr i \<and> page_addr i < end_mem then 0 else USED))"
proof -
  let ?i = "MAP_NR start_mem" and ?n = "unat (drop_bit 12 (end_mem - start_mem))"
  have b: "0x100000 \<le> unat start_mem" "unat start_mem \<le> unat end_mem" "unat end_mem \<le> 0x1000000"
    using assms(1-3) by (simp_all add: LOW_MEM_def word_le_nat_alt)
  obtain k l where kl: "unat start_mem = 4096 * k" "unat end_mem = 4096 * l"
    using assms(4,5) by (auto simp: mod_eq_0_iff_dvd elim!: dvdE)
  have k: "256 \<le> k" "k \<le> l" using b kl by auto
  have "?i = k - 256"
    using k by (simp add: MAP_NR_unat [OF assms(1)] kl flip: diff_mult_distrib2 [of 4096 k 256, simplified])
  then have i: "4096 * ?i + 0x100000 = unat start_mem" using k kl by simp
  have "?n = (unat end_mem - unat start_mem) div 4096"
    using b(2) by (simp add: drop_bit_eq_div unat_div unat_sub_if')
  also have "\<dots> = l - k" unfolding kl by (simp flip: diff_mult_distrib2)
  finally have n: "4096 * (?i + ?n) + 0x100000 = unat end_mem"
    using i k kl by simp
  then have le: "?i + ?n \<le> PAGING_PAGES" using b(3) by (simp add: PAGING_PAGES_def)
  let ?mm = "fold (\<lambda>k mm. mm[?i + k := 0]) [0..<?n] (replicate PAGING_PAGES USED)"
  have mm: "length ?mm = PAGING_PAGES" "\<And>j. ?mm ! j = (if ?i \<le> j \<and> j < ?i + ?n then 0 else replicate PAGING_PAGES USED ! j)"
    using zero_below [of ?n "replicate PAGING_PAGES USED" ?i 0] le by auto
  have inside: "start_mem \<le> page_addr j \<and> page_addr j < end_mem \<longleftrightarrow> ?i \<le> j \<and> j < ?i + ?n" if "j < PAGING_PAGES" for j
    using i n unat_page_addr [OF that] by (auto simp: word_le_nat_alt word_less_nat_alt)
  let ?m = "m\<lparr>HIGH_MEMORY := end_mem, mem_map := ?mm\<rparr>"
  have "mem_init start_mem end_mem m = Inr ?m" using le by (simp add: mem_init_def Let_def)
  moreover have "mem_map ?m ! j = (if start_mem \<le> page_addr j \<and> page_addr j < end_mem then 0 else USED)"
    if "j < PAGING_PAGES" for j
    using mm(2) [of j] that by (simp only: inside [OF that]) simp
  moreover have "USED \<noteq> 0" by (simp add: USED_def)
  moreover have "end_mem \<noteq> 0" using b by auto
  ultimately show ?thesis using mm(1) by (intro exI [of _ ?m]) (auto simp: mem_ok_def split: if_splits)
qed

theorem mem_init_correct_witness:
  "\<exists>m'. mem_init 0x400000 0x1000000 mem0 = Inr m' \<and> mem_ok m' \<and> HIGH_MEMORY m' = 0x1000000"
  using mem_init_correct [of "0x400000" "0x1000000" mem0] by (auto simp: LOW_MEM_def)

text \<open>The address of the page table entry for a linear address, when its directory entry is present.\<close>

definition pte_addr :: "u32 \<Rightarrow> mem \<Rightarrow> u32" where
  "pte_addr a m = frame (ld (dir_entry a) m) + table_offset a"

lemma dir_entry_untouched:
  assumes "\<And>b. unat b < 2 ^ 20 \<Longrightarrow> p b = q b"
  shows "get_fs_long (dir_entry a) p = get_fs_long (dir_entry a) q"
  using assms dir_entry_byte by (intro ld_cong) blast

lemma un_wp_shared:
  assumes m: "mem_ok m" and free: "\<exists>i<PAGING_PAGES. mem_map m ! i = 0"
    and t: "t < PAGING_PAGES" "mem_map m ! t \<noteq> 0" and old: "old < PAGING_PAGES" "frame (ld x m) = page_addr old" "old \<noteq> t"
    and x: "x = page_addr t + table_offset a" and c: "mem_map m ! old \<noteq> 0" "mem_map m ! old \<noteq> 1"
  obtains i m' where "i < PAGING_PAGES" "mem_map m ! i = 0" "un_wp_page x m = Inr m'"
    "\<And>b. phys m' b = (if unat (b - x) < 4 then put_fs_long (page_addr i OR 7) x (phys m) b
       else if in_page (page_addr i) b then phys m (page_addr old + (b - page_addr i)) else phys m b)"
    "mem_map m' = (mem_map m)[i := 1, old := mem_map m ! old - 1]"
proof -
  obtain i where i: "i < PAGING_PAGES" "mem_map m ! i = 0"
    "get_free_page m = Inr (page_addr i, m\<lparr>mem_map := (mem_map m)[i := 1],
        phys := (\<lambda>b. if in_page (page_addr i) b then 0 else phys m b)\<rparr>)"
    using get_free_page_some [OF m free] by blast
  let ?m1 = "m\<lparr>mem_map := (mem_map m)[i := 1], phys := (\<lambda>b. if in_page (page_addr i) b then 0 else phys m b)\<rparr>"
  let ?m2 = "?m1\<lparr>mem_map := (mem_map m)[i := 1, old := mem_map m ! old - 1]\<rparr>"
  let ?m' = "invalidate (st (page_addr i OR 7) x (copy_page (page_addr old) (page_addr i) ?m2))"
  have len: "length (mem_map m) = PAGING_PAGES" using m by (simp add: mem_ok_def)
  have io: "i \<noteq> old" "i \<noteq> t" using i(2) c(1) t(2) by auto
  have "un_wp_page x m = Inr ?m'"
    using old(1) c(2) i io len page_addr_ge [OF old(1)]
    by (simp add: un_wp_page_def Let_def old(2) map_count_def map_set_def MAP_NR_page_addr)
  moreover have "phys ?m' b = (if unat (b - x) < 4 then put_fs_long (page_addr i OR 7) x (phys m) b
       else if in_page (page_addr i) b then phys m (page_addr old + (b - page_addr i)) else phys m b)" for b
  proof (cases "unat (b - x) < 4")
    case True
    then show ?thesis by (simp add: st_def invalidate_def) (rule put_fs_long_inside)
  next
    case False
    have ap: "apart (page_addr old) (page_addr i) (4 * 1024)"
      using page_addr_distinct [OF old(1) i(1)] io by simp
    have ret: "in_page (page_addr i) b \<Longrightarrow> in_page (page_addr old) (page_addr old + (b - page_addr i))" by simp
    have "in_page (page_addr i) b \<Longrightarrow> \<not> in_page (page_addr i) (page_addr old + (b - page_addr i))"
      using in_page_apart [OF page_addr_distinct [OF old(1) i(1)]] io ret by blast
    then show ?thesis using False
      by (simp add: st_def invalidate_def copy_page_def put_fs_long_other movsl_byte [OF _ ap])
  qed
  moreover have "mem_map ?m' = (mem_map m)[i := 1, old := mem_map m ! old - 1]"
    by (simp add: st_def invalidate_def copy_page_def)
  ultimately show ?thesis using that i(1,2) by blast
qed

lemma pte_read:
  assumes "\<And>b. unat (b - x) < 4 \<Longrightarrow> p b = put_fs_long v x q b"
  shows "get_fs_long x p = v"
proof -
  have "get_fs_long x p = get_fs_long x (put_fs_long v x q)"
    using assms by (intro ld_cong) (simp add: unat_of_nat_small)
  then show ?thesis by simp
qed

text \<open>C8: Copy on write. When the page at a user address is present but write-protected, \<open>write_verify\<close>
  makes it writable without changing what is read there: afterwards the entry maps a page (the same
  one if nobody else used it, otherwise a fresh one, and then the old page has one user less) with
  reference count 1 and with the contents of the old page; the directory entry, and every byte outside
  the table entry and that page, are as before.\<close>

theorem write_verify_copies:
  assumes m: "mem_ok m" and free: "\<exists>i<PAGING_PAGES. mem_map m ! i = 0"
    and dir: "ld (dir_entry a) m AND 1 \<noteq> 0" "frame (ld (dir_entry a) m) = page_addr t"
      "t < PAGING_PAGES" "mem_map m ! t \<noteq> 0"
    and pte: "3 AND ld (pte_addr a m) m = 1" "frame (ld (pte_addr a m) m) = page_addr old"
      "old < PAGING_PAGES" "old \<noteq> t" "mem_map m ! old \<noteq> 0"
  shows "\<exists>m' n. write_verify a m = Inr m' \<and> n < PAGING_PAGES \<and>
    frame (ld (pte_addr a m) m') = page_addr n \<and> 3 AND ld (pte_addr a m) m' = 3 \<and>
    (n = old \<longleftrightarrow> mem_map m ! old = 1) \<and> mem_map m' ! n = 1 \<and>
    (n \<noteq> old \<longrightarrow> mem_map m ! n = 0 \<and> mem_map m' ! old = mem_map m ! old - 1) \<and>
    (\<forall>k<4096. phys m' (page_addr n + of_nat k) = phys m (page_addr old + of_nat k)) \<and>
    ld (dir_entry a) m' = ld (dir_entry a) m \<and>
    (\<forall>b. 4 \<le> unat (b - pte_addr a m) \<and> \<not> in_page (page_addr n) b \<longrightarrow> phys m' b = phys m b)"
proof -
  let ?x = "pte_addr a m"
  have x: "?x = page_addr t + table_offset a" by (simp add: pte_addr_def dir(2))
  have len: "length (mem_map m) = PAGING_PAGES" using m by (simp add: mem_ok_def)
  have wv: "write_verify a m = un_wp_page ?x m"
    using dir(1) pte(1) by (simp add: write_verify_def Let_def pte_addr_def)
  have xin: "unat (b - ?x) < 4 \<Longrightarrow> in_page (page_addr t) b" for b unfolding x by (rule in_entry)
  have low: "unat b < 2 ^ 20 \<Longrightarrow> \<not> in_page (page_addr k) b" if "k < PAGING_PAGES" for b k
    using low_not_above [of b "page_addr k"] page_addr_range [OF that] by fastforce
  have dirs: "ld (dir_entry a) m' = ld (dir_entry a) m"
    if "\<And>b. 4 \<le> unat (b - ?x) \<Longrightarrow> \<not> in_page (page_addr k) b \<Longrightarrow> phys m' b = phys m b" "k < PAGING_PAGES" for m' k
  proof (rule dir_entry_untouched)
    fix b :: u32 assume b: "unat b < 2 ^ 20"
    then have "4 \<le> unat (b - ?x)" using xin low [OF dir(3)] by force
    with that b low show "phys m' b = phys m b" by blast
  qed
  have other_page: "unat (page_addr k + of_nat j - ?x) < 4 \<Longrightarrow> k \<noteq> t \<Longrightarrow> k < PAGING_PAGES \<Longrightarrow> j < 4096 \<Longrightarrow> False" for k j
    using xin in_page_apart [OF page_addr_distinct [of k t]] dir(3) page_offset by blast
  show ?thesis
  proof (cases "mem_map m ! old = 1")
    case True
    let ?m' = "invalidate (st (ld ?x m OR 2) ?x m)"
    have run: "write_verify a m = Inr ?m'"
      using True pte(2,3) len page_addr_ge [OF pte(3)]
      by (simp add: wv un_wp_page_def Let_def map_count_def MAP_NR_page_addr)
    have same: "phys ?m' b = phys m b" if "4 \<le> unat (b - ?x)" for b
      using that by (simp add: st_def invalidate_def put_fs_long_other)
    have new: "ld ?x ?m' = ld ?x m OR 2" by (simp add: st_def invalidate_def)
    have "frame (ld ?x m OR 2) = frame (ld ?x m)" "3 AND (ld ?x m OR 2) = 3"
      using pte(1) by (simp_all add: bit.conj_disj_distrib)
    moreover have "phys ?m' (page_addr old + of_nat k) = phys m (page_addr old + of_nat k)" if "k < 4096" for k
      using that other_page [of old k] pte(3,4) same by force
    moreover have "mem_map ?m' = mem_map m" by (simp add: st_def invalidate_def)
    ultimately show ?thesis
      using run True pte new same dirs [of old ?m']
      by (intro exI [of _ ?m'] exI [of _ old]) auto
  next
    case False
    then obtain i m' where i: "i < PAGING_PAGES" "mem_map m ! i = 0" "un_wp_page ?x m = Inr m'"
      and ph: "\<And>b. phys m' b = (if unat (b - ?x) < 4 then put_fs_long (page_addr i OR 7) ?x (phys m) b
         else if in_page (page_addr i) b then phys m (page_addr old + (b - page_addr i)) else phys m b)"
      and mm: "mem_map m' = (mem_map m)[i := 1, old := mem_map m ! old - 1]"
      using un_wp_shared [OF m free dir(3,4) pte(3,2,4) x pte(5)] by blast
    have io: "i \<noteq> old" "i \<noteq> t" using i(2) pte(5) dir(4) by auto
    have new: "ld ?x m' = page_addr i OR 7" by (rule pte_read) (simp add: ph)
    have "3 AND (page_addr i OR 7) = (3 AND page_addr i) OR 3" by (simp add: bit.conj_disj_distrib)
    also have "\<dots> = 3" by (rule bit_word_eqI) (auto simp: bit_simps)
    finally have "3 AND (page_addr i OR 7) = 3" .
    moreover have "phys m' (page_addr i + of_nat k) = phys m (page_addr old + of_nat k)" if "k < 4096" for k
      using that other_page [of i k] i(1) io page_offset [OF that] by (simp only: ph) force
    moreover have "phys m' b = phys m b" if "4 \<le> unat (b - ?x)" "\<not> in_page (page_addr i) b" for b
      using that by (simp add: ph)
    ultimately show ?thesis
      using i io wv new mm False len pte(3) dirs [of i m']
      by (intro exI [of _ m'] exI [of _ i]) (auto simp: nth_list_update)
  qed
qed

definition mem1 :: mem where
  "mem1 = mem0\<lparr>mem_map := (mem_map mem0)[0 := 1, 1 := 2],
     phys := put_fs_long 0x101005 0x100000 (put_fs_long 0x100007 64 (\<lambda>_. 0))\<rparr>"

theorem write_verify_copies_witness:
  "\<exists>m' n. write_verify 0x4000000 mem1 = Inr m' \<and> frame (ld 0x100000 m') = page_addr n \<and> n \<noteq> 1 \<and>
    3 AND ld 0x100000 m' = 3"
proof -
  have l: "ld 64 mem1 = 0x100007" "ld 0x100000 mem1 = 0x101005"
    by (simp_all add: mem1_def get_put_far far_def)
  have d: "dir_entry 0x4000000 = 64" "table_offset 0x4000000 = 0"
    by (simp_all add: dir_entry_def table_offset_def)
  have p: "pte_addr 0x4000000 mem1 = 0x100000" by (simp add: pte_addr_def d l)
  have a: "page_addr 0 = 0x100000" "page_addr 1 = 0x101000" by (simp_all add: page_addr_def LOW_MEM_def)
  have ok: "mem_ok mem1"
    using mem0_ok by (auto simp: mem_ok_def mem1_def nth_list_update PAGING_PAGES_def)
  have free: "\<exists>i<PAGING_PAGES. mem_map mem1 ! i = 0"
    by (rule exI [of _ 2]) (simp add: mem1_def mem0_def PAGING_PAGES_def)
  have mm: "mem_map mem1 ! 0 \<noteq> 0" "mem_map mem1 ! 1 = 2" "(0 :: nat) < PAGING_PAGES" "(1 :: nat) < PAGING_PAGES"
    by (simp_all add: mem1_def mem0_def PAGING_PAGES_def)
  have "ld (dir_entry 0x4000000) mem1 AND 1 \<noteq> 0" "frame (ld (dir_entry 0x4000000) mem1) = page_addr 0"
    "3 AND ld (pte_addr 0x4000000 mem1) mem1 = 1" "frame (ld (pte_addr 0x4000000 mem1) mem1) = page_addr 1"
    by (simp_all add: d p l a del: One_nat_def)
  from write_verify_copies [OF ok free this(1,2) mm(3,1) this(3,4) mm(4)] mm(2)
  obtain m' n where "write_verify 0x4000000 mem1 = Inr m'" "frame (ld (pte_addr 0x4000000 mem1) m') = page_addr n"
    "3 AND ld (pte_addr 0x4000000 mem1) m' = 3" "n = 1 \<longleftrightarrow> (2 :: u8) = 1" by auto
  then show ?thesis unfolding p by auto
qed

lemma table_index: "4 * (drop_bit 12 a AND 0x3ff) = table_offset a"
proof -
  have c: "(0xffc :: u32) = push_bit 2 (mask 10)" "(0x3ff :: u32) = mask 10" by (simp_all add: mask_numeral)
  have "4 * w = push_bit 2 w" for w :: u32 by (simp add: push_bit_eq_mult)
  then show ?thesis unfolding table_offset_def c
    by simp (rule bit_word_eqI, auto simp: bit_simps le_iff_add)
qed

lemma put_checks_phys:
  assumes "mem_ok m" "i < PAGING_PAGES"
  obtains l where "put_checks (page_addr i) m = Inr (m\<lparr>mlog := l\<rparr>)"
proof -
  have "MAP_NR (page_addr i) < length (mem_map m)" using assms by (simp add: MAP_NR_page_addr mem_ok_def)
  then have "\<exists>l. put_checks (page_addr i) m = Inr (m\<lparr>mlog := l\<rparr>)"
    by (auto simp: put_checks_def map_count_def Let_def intro: exI [of _ "mlog m"])
  then show ?thesis using that by blast
qed

lemma get_free_page_mlog:
  assumes "mem_ok m"
  shows "mem_ok (m\<lparr>mlog := l\<rparr>)"
  using assms by (simp add: mem_ok_def)

lemma entry_high:
  assumes "t < PAGING_PAGES" "unat b < 2 ^ 20"
  shows "put_fs_long v (page_addr t + table_offset a) p b = p b"
proof (rule put_fs_long_other)
  show "4 \<le> unat (b - (page_addr t + table_offset a))"
    using in_entry [of b "page_addr t" a] low_not_above [OF assms(2), of "page_addr t"] page_addr_range [OF assms(1)]
    by force
qed

text \<open>\<open>put_page\<close> maps what it is told to: unless a page table is missing and no page is left for it
  (then it returns 0), the directory entry of the address is present afterwards and the table entry
  it leads to holds the page, present, writable and accessible to the user.\<close>

theorem put_page_maps:
  assumes m: "mem_ok m" and i: "i < PAGING_PAGES"
    and dir: "ld (dir_entry a) m AND 1 = 0 \<or> (\<exists>t<PAGING_PAGES. frame (ld (dir_entry a) m) = page_addr t)"
  shows "\<exists>r m'. put_page (page_addr i) a m = Inr (r, m') \<and>
    (if ld (dir_entry a) m AND 1 = 0 \<and> (\<forall>j<PAGING_PAGES. mem_map m ! j \<noteq> 0) then r = 0
     else r = page_addr i \<and> ld (dir_entry a) m' AND 1 \<noteq> 0 \<and> ld (pte_addr a m') m' = page_addr i OR 7)"
proof -
  obtain l where l: "put_checks (page_addr i) m = Inr (m\<lparr>mlog := l\<rparr>)"
    using put_checks_phys [OF m i] by blast
  let ?m = "m\<lparr>mlog := l\<rparr>"
  have okm: "mem_ok ?m" using m by (rule get_free_page_mlog)
  have put: "\<exists>m'. Inr (page_addr i, st (page_addr i OR 7) (pt + table_offset a) n) = Inr (page_addr i, m') \<and>
      ld (dir_entry a) m' = ld (dir_entry a) n \<and> ld (pte_addr a m') m' = page_addr i OR 7"
    if "frame (ld (dir_entry a) n) = pt" "pt = page_addr t" "t < PAGING_PAGES" for pt n t
  proof -
    let ?m' = "st (page_addr i OR 7) (pt + table_offset a) n"
    have d: "ld (dir_entry a) ?m' = ld (dir_entry a) n"
      using entry_high [OF that(3)] by (intro dir_entry_untouched) (simp add: st_def that(2))
    then have "pte_addr a ?m' = pt + table_offset a" using that by (simp add: pte_addr_def)
    then show ?thesis using d by (simp add: st_def)
  qed
  show ?thesis
  proof (cases "ld (dir_entry a) m AND 1 = 0")
    case False
    then obtain t where t: "t < PAGING_PAGES" "frame (ld (dir_entry a) m) = page_addr t" using dir by blast
    have "put_page (page_addr i) a m =
        Inr (page_addr i, st (page_addr i OR 7) (page_addr t + table_offset a) ?m)"
      using False t by (simp add: put_page_def put_page_flags_def l table_index Let_def)
    then show ?thesis using put [of ?m "page_addr t" t] t False by auto
  next
    case True
    show ?thesis
    proof (cases "\<forall>j<PAGING_PAGES. mem_map m ! j \<noteq> 0")
      case full: True
      then have "get_free_page ?m = Inr (0, ?m)" using get_free_page_spec [OF okm] by auto
      then show ?thesis using True full by (simp add: put_page_def put_page_flags_def l Let_def)
    next
      case False
      then have "\<exists>j<PAGING_PAGES. mem_map ?m ! j = 0" by simp
      then obtain j where j: "j < PAGING_PAGES" "mem_map ?m ! j = 0"
        "get_free_page ?m = Inr (page_addr j, ?m\<lparr>mem_map := (mem_map ?m)[j := 1],
          phys := (\<lambda>b. if in_page (page_addr j) b then 0 else phys ?m b)\<rparr>)"
        by (rule get_free_page_some [OF okm])
      let ?n = "st (page_addr j OR 7) (dir_entry a) (?m\<lparr>mem_map := (mem_map ?m)[j := 1],
          phys := (\<lambda>b. if in_page (page_addr j) b then 0 else phys ?m b)\<rparr>)"
      have nz: "page_addr j \<noteq> 0" using page_addr_range [OF j(1)] by auto
      have d: "ld (dir_entry a) ?n = page_addr j OR 7" by (simp add: st_def)
      have "(page_addr j OR 7) AND 1 = (page_addr j AND 1) OR 1" by (simp add: bit.conj_disj_distrib2)
      also have "\<dots> = 1" by (rule bit_word_eqI) (auto simp: bit_simps)
      finally have one: "(page_addr j OR 7) AND 1 = 1" .
      have "put_page (page_addr i) a m =
          Inr (page_addr i, st (page_addr i OR 7) (page_addr j + table_offset a) ?n)"
        using True j nz by (simp add: put_page_def put_page_flags_def l table_index Let_def)
      then show ?thesis using put [of ?n "page_addr j" j] j(1) d one False by auto
    qed
  qed
qed

theorem put_page_maps_witness:
  "\<exists>r m'. put_page (page_addr 5) 0x4000000 mem0 = Inr (r, m') \<and> r = page_addr 5"
proof -
  have "ld (dir_entry 0x4000000) mem0 AND 1 = 0" by (simp add: mem0_def get_fs_long_def)
  have no: "\<not> (ld (dir_entry 0x4000000) mem0 AND 1 = 0 \<and> (\<forall>j<PAGING_PAGES. mem_map mem0 ! j \<noteq> 0))"
    by (auto simp: mem0_def PAGING_PAGES_def intro: exI [of _ 0])
  have "5 < PAGING_PAGES" by (simp add: PAGING_PAGES_def)
  from put_page_maps [OF mem0_ok this, of "0x4000000", unfolded if_not_P [OF no]] show ?thesis
    using \<open>ld (dir_entry 0x4000000) mem0 AND 1 = 0\<close> by blast
qed

section \<open>Sharing a page table at fork\<close>

definition entry :: "u32 \<Rightarrow> nat \<Rightarrow> mem \<Rightarrow> u32" where
  "entry tab k m = ld (tab + 4 * of_nat k) m"

definition e_present :: "u32 \<Rightarrow> bool" where
  "e_present e \<longleftrightarrow> e \<noteq> 0 \<and> 1 AND e \<noteq> 0"

definition e_counted :: "u32 \<Rightarrow> bool" where
  "e_counted e \<longleftrightarrow> e_present e \<and> LOW_MEM < e AND NOT 2"

lemma entry_shift: "entry (tab + 4) k m = entry tab (Suc k) m"
  by (simp add: entry_def distrib_left add.assoc)

lemma entry_st: "far a (tab + 4 * of_nat k) \<Longrightarrow> entry tab k (st v a m) = entry tab k m"
  by (simp add: entry_def st_def get_put_far)

lemma entry_map [simp]: "entry tab k (m\<lparr>mem_map := x\<rparr>) = entry tab k m"
  by (simp add: entry_def)

text \<open>The two tables do not overlap, and neither wraps round.\<close>

definition tables_apart :: "nat \<Rightarrow> u32 \<Rightarrow> u32 \<Rightarrow> bool" where
  "tables_apart n from to \<longleftrightarrow> n \<le> 1024 \<and>
     (\<forall>i<n. \<forall>j<n. far (from + 4 * of_nat i) (to + 4 * of_nat j))"

lemma tables_apartD:
  "tables_apart n from to \<Longrightarrow> i < n \<Longrightarrow> j < n \<Longrightarrow> far (from + 4 * of_nat i) (to + 4 * of_nat j)"
  by (simp add: tables_apart_def)

lemma far_within: "i < 1024 \<Longrightarrow> j < 1024 \<Longrightarrow> i \<noteq> j \<Longrightarrow> far (tab + 4 * of_nat i) (tab + 4 * of_nat j)"
proof -
  assume ij: "i < 1024" "j < 1024" "i \<noteq> j"
  have u: "unat (4 * of_nat k :: u32) = 4 * k" if "k < 1024" for k
    using that by (simp add: unat_word_ariths unat_of_nat_small)
  have "tab + 4 * of_nat i - (tab + 4 * of_nat j) = (4 * of_nat i - 4 * of_nat j :: u32)"
    "tab + 4 * of_nat j - (tab + 4 * of_nat i) = (4 * of_nat j - 4 * of_nat i :: u32)" by simp_all
  then show ?thesis unfolding far_def using ij
    by (auto simp: unat_sub_if' u)
qed

lemma tables_apart_Suc: "tables_apart (Suc n) from to \<Longrightarrow> tables_apart n (from + 4) (to + 4)"
  unfolding tables_apart_def
proof (intro conjI allI impI)
  fix i j assume a: "Suc n \<le> 1024 \<and> (\<forall>i<Suc n. \<forall>j<Suc n. far (from + 4 * of_nat i) (to + 4 * of_nat j))" "i < n" "j < n"
  then have "far (from + 4 * of_nat (Suc i)) (to + 4 * of_nat (Suc j))" by blast
  then show "far (from + 4 + 4 * of_nat i) (to + 4 + 4 * of_nat j)" by (simp add: distrib_left add.assoc)
qed simp

text \<open>One step of \<open>copy_entries\<close>: what it does to the first pair of entries.\<close>

definition copy_one :: "u32 \<Rightarrow> u32 \<Rightarrow> mem \<Rightarrow> mem" where
  "copy_one from to m =
     (let e = ld from m; e' = e AND NOT 2 in
      if \<not> e_present e then m
      else if e_counted e then (st e' from (st e' to m))\<lparr>mem_map := (mem_map m)[MAP_NR e' := mem_map m ! MAP_NR e' + 1]\<rparr>
      else st e' to m)"

lemma copy_entries_Suc:
  assumes "e_counted (ld from m) \<Longrightarrow> MAP_NR (ld from m AND NOT 2) < length (mem_map m)"
  shows "copy_entries (Suc n) from to m = copy_entries n (from + 4) (to + 4) (copy_one from to m)"
  using assms
  by (auto simp: copy_one_def e_present_def e_counted_def Let_def map_count_def map_set_def st_def)

lemma copy_one_entries:
  assumes "far from to"
  shows "ld to (copy_one from to m) = (if e_present (ld from m) then ld from m AND NOT 2 else ld to m)"
    "ld from (copy_one from to m) = (if e_counted (ld from m) then ld from m AND NOT 2 else ld from m)"
  using assms far_sym [OF assms]
  by (auto simp: copy_one_def Let_def st_def get_put_far e_counted_def)

lemma copy_one_other:
  "far from a \<Longrightarrow> far to a \<Longrightarrow> ld a (copy_one from to m) = ld a m"
  by (auto simp: copy_one_def Let_def st_def get_put_far)

lemma copy_one_map:
  "length (mem_map (copy_one from to m)) = length (mem_map m)"
  "j < length (mem_map m) \<Longrightarrow> mem_map (copy_one from to m) ! j =
     mem_map m ! j + (if e_counted (ld from m) \<and> MAP_NR (ld from m AND NOT 2) = j then 1 else 0)"
  by (auto simp: copy_one_def Let_def st_def e_counted_def)

lemma copy_entries_spec:
  "tables_apart n from to \<Longrightarrow>
   (\<And>k. k < n \<Longrightarrow> e_counted (entry from k m) \<Longrightarrow> MAP_NR (entry from k m AND NOT 2) < length (mem_map m)) \<Longrightarrow>
   \<exists>m'. copy_entries n from to m = Inr m' \<and>
     (\<forall>k<n. entry to k m' = (if e_present (entry from k m) then entry from k m AND NOT 2 else entry to k m)) \<and>
     (\<forall>k<n. entry from k m' = (if e_counted (entry from k m) then entry from k m AND NOT 2 else entry from k m)) \<and>
     length (mem_map m') = length (mem_map m) \<and>
     (\<forall>j<length (mem_map m). mem_map m' ! j = mem_map m ! j +
       (\<Sum>k<n. if e_counted (entry from k m) \<and> MAP_NR (entry from k m AND NOT 2) = j then 1 else 0)) \<and>
     (\<forall>a. (\<forall>k<n. far (from + 4 * of_nat k) a \<and> far (to + 4 * of_nat k) a) \<longrightarrow> ld a m' = ld a m)"
proof (induction n arbitrary: "from" to m)
  case (Suc n)
  let ?m1 = "copy_one from to m"
  note tD = tables_apartD [OF Suc.prems(1)]
  have ft: "far from to" using tD [of 0 0] by simp
  have n: "n < 1024" using Suc.prems(1) by (simp add: tables_apart_def)
  have e0: "entry tab 0 m = ld tab m" for tab m by (simp add: entry_def)
  have later: "entry from (Suc k) ?m1 = entry from (Suc k) m" "entry to (Suc k) ?m1 = entry to (Suc k) m" if "k < n" for k
  proof -
    have "far from (from + 4 * of_nat (Suc k))" "far to (to + 4 * of_nat (Suc k))"
      using far_within [of 0 "Suc k"] that n by (simp_all del: of_nat_Suc)
    moreover have "far to (from + 4 * of_nat (Suc k))" "far from (to + 4 * of_nat (Suc k))"
      using far_sym [OF tD [of "Suc k" 0]] tD [of 0 "Suc k"] that by (simp_all del: of_nat_Suc)
    ultimately show "entry from (Suc k) ?m1 = entry from (Suc k) m" "entry to (Suc k) ?m1 = entry to (Suc k) m"
      unfolding entry_def by (simp_all add: copy_one_other del: of_nat_Suc)
  qed
  have "\<exists>m'. copy_entries n (from + 4) (to + 4) ?m1 = Inr m' \<and>
     (\<forall>k<n. entry (to + 4) k m' = (if e_present (entry (from + 4) k ?m1) then entry (from + 4) k ?m1 AND NOT 2 else entry (to + 4) k ?m1)) \<and>
     (\<forall>k<n. entry (from + 4) k m' = (if e_counted (entry (from + 4) k ?m1) then entry (from + 4) k ?m1 AND NOT 2 else entry (from + 4) k ?m1)) \<and>
     length (mem_map m') = length (mem_map ?m1) \<and>
     (\<forall>j<length (mem_map ?m1). mem_map m' ! j = mem_map ?m1 ! j +
       (\<Sum>k<n. if e_counted (entry (from + 4) k ?m1) \<and> MAP_NR (entry (from + 4) k ?m1 AND NOT 2) = j then 1 else 0)) \<and>
     (\<forall>a. (\<forall>k<n. far (from + 4 + 4 * of_nat k) a \<and> far (to + 4 + 4 * of_nat k) a) \<longrightarrow> ld a m' = ld a ?m1)"
    using Suc.prems later by (intro Suc.IH tables_apart_Suc) (auto simp: entry_shift copy_one_map)
  then obtain m' where raw: "copy_entries n (from + 4) (to + 4) ?m1 = Inr m'"
    "\<forall>k<n. entry (to + 4) k m' = (if e_present (entry (from + 4) k ?m1) then entry (from + 4) k ?m1 AND NOT 2 else entry (to + 4) k ?m1)"
    "\<forall>k<n. entry (from + 4) k m' = (if e_counted (entry (from + 4) k ?m1) then entry (from + 4) k ?m1 AND NOT 2 else entry (from + 4) k ?m1)"
    "length (mem_map m') = length (mem_map ?m1)"
    "\<forall>j<length (mem_map ?m1). mem_map m' ! j = mem_map ?m1 ! j +
       (\<Sum>k<n. if e_counted (entry (from + 4) k ?m1) \<and> MAP_NR (entry (from + 4) k ?m1 AND NOT 2) = j then 1 else 0)"
    "\<forall>a. (\<forall>k<n. far (from + 4 + 4 * of_nat k) a \<and> far (to + 4 + 4 * of_nat k) a) \<longrightarrow> ld a m' = ld a ?m1"
    by blast
  have m'1: "copy_entries n (from + 4) (to + 4) ?m1 = Inr m'" by (rule raw(1))
  have m'2: "entry to (Suc k) m' = (if e_present (entry from (Suc k) m) then entry from (Suc k) m AND NOT 2 else entry to (Suc k) m)" if "k < n" for k
    using raw(2) [rule_format, OF that] unfolding entry_shift later [OF that] .
  have m'3: "entry from (Suc k) m' = (if e_counted (entry from (Suc k) m) then entry from (Suc k) m AND NOT 2 else entry from (Suc k) m)" if "k < n" for k
    using raw(3) [rule_format, OF that] unfolding entry_shift later [OF that] .
  have m'5: "mem_map m' ! j = mem_map ?m1 ! j +
       (\<Sum>k<n. if e_counted (entry from (Suc k) m) \<and> MAP_NR (entry from (Suc k) m AND NOT 2) = j then 1 else 0)"
    if "j < length (mem_map m)" for j
  proof -
    have "(\<Sum>k<n. if e_counted (entry (from + 4) k ?m1) \<and> MAP_NR (entry (from + 4) k ?m1 AND NOT 2) = j then 1 else 0 :: u8) =
        (\<Sum>k<n. if e_counted (entry from (Suc k) m) \<and> MAP_NR (entry from (Suc k) m AND NOT 2) = j then 1 else 0)"
      unfolding entry_shift by (rule sum.cong [OF refl]) (simp only: later lessThan_iff)
    then show ?thesis using raw(5) that by (simp only: copy_one_map(1))
  qed
  note m' = m'1 m'2 m'3 raw(4) [unfolded copy_one_map(1)] m'5 raw(6) [rule_format]
  have run: "copy_entries (Suc n) from to m = Inr m'"
    using m'(1) Suc.prems(2) [of 0] by (subst copy_entries_Suc) (auto simp: e0)
  have keep: "ld from m' = ld from ?m1" "ld to m' = ld to ?m1"
  proof -
    have "far (tab + 4 + 4 * of_nat k) tab" if "k < n" for tab k
      using far_within [of "Suc k" 0 tab] that n by (simp add: distrib_left add.assoc)
    moreover have "far (from + 4 + 4 * of_nat k) to" "far (to + 4 + 4 * of_nat k) from" if "k < n" for k
      using far_sym [OF tD [of 0 "Suc k"]] tD [of "Suc k" 0] that by (simp_all add: distrib_left add.assoc)
    ultimately show "ld from m' = ld from ?m1" "ld to m' = ld to ?m1" by (simp_all add: m'(6))
  qed
  have sum: "(\<Sum>k<Suc n. f k) = f 0 + (\<Sum>k<n. f (Suc k))" for f :: "nat \<Rightarrow> u8" by (rule sum.lessThan_Suc_shift)
  show ?case
  proof (intro exI [of _ m'] conjI allI impI)
    fix k assume k: "k < Suc n"
    show "entry to k m' = (if e_present (entry from k m) then entry from k m AND NOT 2 else entry to k m)"
      using k m'(2) keep copy_one_entries(1) [OF ft] by (cases k) (auto simp: e0)
    show "entry from k m' = (if e_counted (entry from k m) then entry from k m AND NOT 2 else entry from k m)"
      using k m'(3) keep copy_one_entries(2) [OF ft] by (cases k) (auto simp: e0)
  next
    fix j assume j: "j < length (mem_map m)"
    show "mem_map m' ! j = mem_map m ! j +
       (\<Sum>k<Suc n. if e_counted (entry from k m) \<and> MAP_NR (entry from k m AND NOT 2) = j then 1 else 0)"
      unfolding sum using m'(5) [OF j] copy_one_map(2) [OF j] by (simp add: e0)
  next
    fix a assume a: "\<forall>k<Suc n. far (from + 4 * of_nat k) a \<and> far (to + 4 * of_nat k) a"
    have "far from a" "far to a" using a [rule_format, of 0] by simp_all
    moreover have "far (from + 4 + 4 * of_nat k) a \<and> far (to + 4 + 4 * of_nat k) a" if "k < n" for k
      using a [rule_format, of "Suc k"] that by (simp add: distrib_left add.assoc)
    ultimately show "ld a m' = ld a m" by (simp add: m'(6) copy_one_other)
  qed (use run m'(4) in simp_all)
qed (simp add: tables_apart_def)

text \<open>C12: What \<open>fork\<close> does to one page table: every present entry of the parent appears in the child's
  table without the write bit; the parent's own entry loses the write bit too when the page is
  counted (above \<open>LOW_MEM\<close>), so that the next write of either copies the page; and the reference
  count of every page grows by exactly the number of entries that map it.\<close>

theorem copy_entries_shares:
  assumes "tables_apart n from to"
    "\<forall>k<n. e_counted (entry from k m) \<longrightarrow> MAP_NR (entry from k m AND NOT 2) < length (mem_map m)"
  shows "\<exists>m'. copy_entries n from to m = Inr m' \<and>
     (\<forall>k<n. entry to k m' = (if e_present (entry from k m) then entry from k m AND NOT 2 else entry to k m) \<and>
            entry from k m' = (if e_counted (entry from k m) then entry from k m AND NOT 2 else entry from k m)) \<and>
     (\<forall>j<length (mem_map m). mem_map m' ! j = mem_map m ! j +
       (\<Sum>k<n. if e_counted (entry from k m) \<and> MAP_NR (entry from k m AND NOT 2) = j then 1 else 0))"
  using copy_entries_spec [OF assms(1), of m] assms(2) by blast

theorem copy_entries_shares_witness:
  "\<exists>m'. copy_entries 1 0x100000 0x200000 mem1 = Inr m' \<and> entry 0x200000 0 m' = 0x101005 \<and>
    mem_map m' ! 1 = 3"
proof -
  have e: "entry 0x100000 0 mem1 = 0x101005" by (simp add: entry_def mem1_def)
  have t: "tables_apart 1 0x100000 0x200000" by (simp add: tables_apart_def far_def)
  have c: "e_counted 0x101005" by (simp add: e_counted_def e_present_def LOW_MEM_def)
  have n: "MAP_NR (0x101005 AND NOT 2) = 1" by (simp add: MAP_NR_def LOW_MEM_def)
  have l: "length (mem_map mem1) = 3840" "mem_map mem1 ! 1 = 2" by (simp_all add: mem1_def mem0_def PAGING_PAGES_def)
  show ?thesis
    using copy_entries_shares [OF t, of mem1] c n l e by (auto simp: e_counted_def)
qed

end
