(* ===== verification/Exit.thy ===== *)
theory Exit
  imports Signal Memory
begin

text \<open>
  \<open>kernel/exit.c\<close>: sending signals (\<open>send_sig\<close>, \<open>kill_pg\<close>, \<open>kill_proc\<close>, \<open>sys_kill\<close>), the questions about
  process groups, giving back a task slot (\<open>release\<close>) and waiting for children (\<open>sys_waitpid\<close>).
  \<open>do_exit\<close> itself closes files and i-nodes and is not part of this theory.

  Reading a field through a null pointer is the error \<open>NullDeref\<close>. Where the code calls \<open>schedule\<close>
  and goes on afterwards, everything that happens in between (other tasks running, interrupts) is a
  function \<open>env\<close> on the state.
\<close>

record proc =
  pu :: usys
  pm :: mem

abbreviation pk :: "'a proc_scheme \<Rightarrow> kern" where
  "pk s \<equiv> uk (pu s)"

definition set_pk :: "kern \<Rightarrow> 'a proc_scheme \<Rightarrow> 'a proc_scheme" where
  "set_pk k s = s\<lparr>pu := (pu s)\<lparr>uk := k\<rparr>\<rparr>"

lemma set_pk_simps [simp]:
  "pk (set_pk k s) = k" "pm (set_pk k s) = pm s" "um (pu (set_pk k s)) = um (pu s)"
  "uv (pu (set_pk k s)) = uv (pu s)"
  by (simp_all add: set_pk_def)

section \<open>Sending signals\<close>

definition STOP_SIGNALS :: u32 where
  "STOP_SIGNALS = sigbit (signo SIGSTOP) OR sigbit (signo SIGTSTP) OR sigbit (signo SIGTTIN) OR sigbit (signo SIGTTOU)"

definition post_sig :: "u32 \<Rightarrow> task_struct \<Rightarrow> task_struct" where
  "post_sig sig t =
     (let t1 = (if sig = signo SIGKILL \<or> sig = signo SIGCONT then
                  t\<lparr>t_state := (if t_state t = TASK_STOPPED then TASK_RUNNING else t_state t),
                    t_exit_code := 0, t_signal := t_signal t AND NOT STOP_SIGNALS\<rparr>
                else t)
      in if sa_handler (t_sigaction t1 ! unat (sig - 1)) = 1 then t1
         else
           let t2 = (if signo SIGSTOP \<le>s sig \<and> sig \<le>s signo SIGTTOU
                     then t1\<lparr>t_signal := t_signal t1 AND NOT (sigbit (signo SIGCONT))\<rparr> else t1)
           in t2\<lparr>t_signal := t_signal t2 OR sigbit sig\<rparr>)"

text \<open>The caller must have checked \<open>sig\<close>: outside 1..32 the code reads before or behind the table of
  actions.\<close>

definition send_sig :: "u32 \<Rightarrow> tptr \<Rightarrow> bool \<Rightarrow> kern \<Rightarrow> (u32 \<times> kern) kres" where
  "send_sig sig p priv k =
     (if p = 0 then Inr (neg_errno EINVAL, k)
      else if \<not> priv \<and> t_euid (cur k) \<noteq> t_euid (tcb k p) \<and> \<not> suser k then Inr (neg_errno EPERM, k)
      else if 32 \<le> unat (sig - 1) then Inl OutOfBounds
      else Inr (0, upd p (post_sig sig) k))"

fun kill_pg_loop :: "tptr list \<Rightarrow> u32 \<Rightarrow> u32 \<Rightarrow> bool \<Rightarrow> nat \<Rightarrow> u32 \<Rightarrow> kern \<Rightarrow> (u32 \<times> kern) kres" where
  "kill_pg_loop [] pgrp sig priv found retval k = Inr (if found \<noteq> 0 then 0 else retval, k)"
| "kill_pg_loop (p # ps) pgrp sig priv found retval k =
     (if p = 0 then Inl NullDeref
      else if t_pgrp (tcb k p) = pgrp then
        (if sig \<noteq> 0 then
           kbind (send_sig sig p priv k) (\<lambda>(err, k').
             if err \<noteq> 0 then kill_pg_loop ps pgrp sig priv found err k'
             else kill_pg_loop ps pgrp sig priv (found + 1) retval k')
         else kill_pg_loop ps pgrp sig priv (found + 1) retval k)
      else kill_pg_loop ps pgrp sig priv found retval k)"

definition kill_pg :: "u32 \<Rightarrow> u32 \<Rightarrow> bool \<Rightarrow> kern \<Rightarrow> (u32 \<times> kern) kres" where
  "kill_pg pgrp sig priv k =
     (if sig <s 1 \<or> 32 <s sig \<or> pgrp \<le>s 0 then Inr (neg_errno EINVAL, k)
      else kill_pg_loop (tasks_down k) pgrp sig priv 0 (neg_errno ESRCH) k)"

fun kill_proc_loop :: "tptr list \<Rightarrow> u32 \<Rightarrow> u32 \<Rightarrow> bool \<Rightarrow> kern \<Rightarrow> (u32 \<times> kern) kres" where
  "kill_proc_loop [] pid sig priv k = Inr (neg_errno ESRCH, k)"
| "kill_proc_loop (p # ps) pid sig priv k =
     (if p = 0 then Inl NullDeref
      else if t_pid (tcb k p) = pid then (if sig \<noteq> 0 then send_sig sig p priv k else Inr (0, k))
      else kill_proc_loop ps pid sig priv k)"

definition kill_proc :: "u32 \<Rightarrow> u32 \<Rightarrow> bool \<Rightarrow> kern \<Rightarrow> (u32 \<times> kern) kres" where
  "kill_proc pid sig priv k =
     (if sig <s 1 \<or> 32 <s sig then Inr (neg_errno EINVAL, k)
      else kill_proc_loop (tasks_down k) pid sig priv k)"

text \<open>\<open>kill(-1, sig)\<close>: \<open>sig\<close> is not checked; \<open>send_sig\<close> does check for empty slots.\<close>

fun kill_all_loop :: "tptr list \<Rightarrow> u32 \<Rightarrow> u32 \<Rightarrow> kern \<Rightarrow> (u32 \<times> kern) kres" where
  "kill_all_loop [] sig retval k = Inr (retval, k)"
| "kill_all_loop (p # ps) sig retval k =
     kbind (send_sig sig p False k) (\<lambda>(err, k').
       kill_all_loop ps sig (if err \<noteq> 0 then err else retval) k')"

definition sys_kill :: "u32 \<Rightarrow> u32 \<Rightarrow> kern \<Rightarrow> (u32 \<times> kern) kres" where
  "sys_kill pid sig k =
     (if pid = 0 then kill_pg (t_pid (cur k)) sig False k
      else if pid = - 1 then kill_all_loop (tasks_down k) sig 0 k
      else if pid <s 0 then kill_pg (- pid) sig False k
      else kill_proc pid sig False k)"

section \<open>Process groups\<close>

fun orphaned_loop :: "tptr list \<Rightarrow> u32 \<Rightarrow> kern \<Rightarrow> u32 kres" where
  "orphaned_loop [] pgrp k = Inr 1"
| "orphaned_loop (p # ps) pgrp k =
     (let t = tcb k p; pp = tcb k (t_p_pptr t) in
      if p = 0 \<or> t_pgrp t \<noteq> pgrp \<or> t_state t = TASK_ZOMBIE then orphaned_loop ps pgrp k
      else if t_p_pptr t = 0 then Inl NullDeref
      else if t_pid pp = 1 then orphaned_loop ps pgrp k
      else if t_pgrp pp \<noteq> pgrp \<and> t_session pp = t_session t then Inr 0
      else orphaned_loop ps pgrp k)"

definition is_orphaned_pgrp :: "u32 \<Rightarrow> kern \<Rightarrow> u32 kres" where
  "is_orphaned_pgrp pgrp k = orphaned_loop (tasks_down k) pgrp k"

fun stopped_loop :: "tptr list \<Rightarrow> u32 \<Rightarrow> kern \<Rightarrow> u32 kres" where
  "stopped_loop [] pgrp k = Inr 0"
| "stopped_loop (p # ps) pgrp k =
     (if p = 0 then Inl NullDeref
      else if t_pgrp (tcb k p) \<noteq> pgrp then stopped_loop ps pgrp k
      else if t_state (tcb k p) = TASK_STOPPED then Inr 1
      else stopped_loop ps pgrp k)"

definition has_stopped_jobs :: "u32 \<Rightarrow> kern \<Rightarrow> u32 kres" where
  "has_stopped_jobs pgrp k = stopped_loop (tasks_down k) pgrp k"

section \<open>Releasing a task\<close>

text \<open>Taking \<open>p\<close> out of the list of its siblings; the pointers are written through as they are.\<close>

definition unlink_task :: "tptr \<Rightarrow> kern \<Rightarrow> kern kres" where
  "unlink_task p k =
     (let os = t_p_osptr (tcb k p); ys = t_p_ysptr (tcb k p);
          k1 = (if os \<noteq> 0 then upd os (\<lambda>t. t\<lparr>t_p_ysptr := ys\<rparr>) k else k)
      in if t_p_ysptr (tcb k1 p) \<noteq> 0
         then Inr (upd (t_p_ysptr (tcb k1 p)) (\<lambda>t. t\<lparr>t_p_osptr := t_p_osptr (tcb k1 p)\<rparr>) k1)
         else if t_p_pptr (tcb k1 p) = 0 then Inl NullDeref
         else Inr (upd (t_p_pptr (tcb k1 p)) (\<lambda>t. t\<lparr>t_p_cptr := t_p_osptr (tcb k1 p)\<rparr>) k1))"

fun slot_of :: "tptr \<Rightarrow> tptr list \<Rightarrow> nat \<Rightarrow> nat option" where
  "slot_of p [] i = None"
| "slot_of p (q # qs) i = (if q = p then Some i else slot_of p qs (i + 1))"

text \<open>\<open>env\<close> is what happens from the call of \<open>schedule\<close> until it comes back to the caller.\<close>

definition release ::
    "('a proc_scheme \<Rightarrow> 'a proc_scheme) \<Rightarrow> tptr \<Rightarrow> 'a proc_scheme \<Rightarrow> 'a proc_scheme kres" where
  "release env p s =
     (let k = pk s in
      if p = 0 then Inr s
      else if p = current k then Inr (set_pk (k\<lparr>klog := klog k @ [''task releasing itself'']\<rparr>) s)
      else case slot_of p (tl (task k)) 1 of
        None \<Rightarrow> Inl (Panic ''trying to release non-existent task'')
      | Some i \<Rightarrow>
          kbind (unlink_task p (k\<lparr>task := (task k)[i := 0]\<rparr>)) (\<lambda>k.
          kbind (free_page p (pm s)) (\<lambda>m. Inr (env (set_pk k (s\<lparr>pm := m\<rparr>))))))"

section \<open>Waiting for children\<close>

definition WNOHANG :: u32 where "WNOHANG = 1"
definition WUNTRACED :: u32 where "WUNTRACED = 2"

definition wait_matches :: "u32 \<Rightarrow> kern \<Rightarrow> task_struct \<Rightarrow> bool" where
  "wait_matches pid k t =
     (if 0 <s pid then t_pid t = pid
      else if pid = 0 then t_pgrp t = t_pgrp (cur k)
      else if pid \<noteq> - 1 then t_pgrp t = - pid
      else True)"

abbreviation put_stat :: "u32 \<Rightarrow> u32 \<Rightarrow> 'a proc_scheme \<Rightarrow> 'a proc_scheme" where
  "put_stat v addr s \<equiv> s\<lparr>pu := put_long v addr (pu s)\<rparr>"

text \<open>The loop over the children: \<open>Inl flag\<close> when it runs to the end, \<open>Inr\<close> with the value
  returned out of the middle.\<close>

partial_function (option) wait_loop ::
  "('a proc_scheme \<Rightarrow> 'a proc_scheme) \<Rightarrow> u32 \<Rightarrow> u32 \<Rightarrow> u32 \<Rightarrow> u32 \<Rightarrow> tptr \<Rightarrow>
    'a proc_scheme \<Rightarrow> (kerr + (u32 + u32) \<times> 'a proc_scheme) option" where
  "wait_loop env pid stat_addr options flag p s =
     (if p = 0 then Some (Inr (Inl flag, s))
      else
        let t = tcb (pk s) p in
        if \<not> wait_matches pid (pk s) t then wait_loop env pid stat_addr options flag (t_p_osptr t) s
        else if t_state t = TASK_STOPPED then
          (if options AND WUNTRACED = 0 \<or> t_exit_code t = 0
           then wait_loop env pid stat_addr options flag (t_p_osptr t) s
           else let s1 = put_stat (push_bit 8 (t_exit_code t) OR 0x7f) stat_addr s in
             Some (Inr (Inr (t_pid t), set_pk (upd p (\<lambda>t. t\<lparr>t_exit_code := 0\<rparr>) (pk s1)) s1)))
        else if t_state t = TASK_ZOMBIE then
          let k = upd (current (pk s)) (\<lambda>c. c\<lparr>t_cutime := t_cutime c + t_utime t\<rparr>) (pk s);
              k = upd (current k) (\<lambda>c. c\<lparr>t_cstime := t_cstime c + t_stime (tcb k p)\<rparr>) k;
              flag' = t_pid (tcb k p);
              s1 = put_stat (t_exit_code (tcb k p)) stat_addr (set_pk k s)
          in Some (kbind (release env p s1) (\<lambda>s2. Inr (Inr flag', s2)))
        else wait_loop env pid stat_addr options 1 (t_p_osptr t) s)"

text \<open>
  The whole call. While the caller sleeps in \<open>schedule\<close> other tasks run: \<open>env n\<close> is what has changed
  when \<open>schedule\<close> comes back for the \<open>n\<close>-th time, with the caller current again.
\<close>

partial_function (option) waitpid_loop ::
  "(nat \<Rightarrow> 'a proc_scheme \<Rightarrow> 'a proc_scheme) \<Rightarrow> nat \<Rightarrow> u32 \<Rightarrow> u32 \<Rightarrow> u32 \<Rightarrow>
    'a proc_scheme \<Rightarrow> (kerr + u32 \<times> 'a proc_scheme) option" where
  "waitpid_loop env n pid stat_addr options s =
     Option.bind (wait_loop (env n) pid stat_addr options 0 (t_p_cptr (cur (pk s))) s) (\<lambda>r.
       case r of
         Inl e \<Rightarrow> Some (Inl e)
       | Inr (Inr v, s) \<Rightarrow> Some (Inr (v, s))
       | Inr (Inl flag, s) \<Rightarrow>
           if flag = 0 then Some (Inr (neg_errno ECHILD, s))
           else if options AND WNOHANG \<noteq> 0 then Some (Inr (0, s))
           else
             let oldblocked = t_blocked (cur (pk s));
                 s1 = set_pk (upd (current (pk s)) (\<lambda>t. t\<lparr>t_state := TASK_INTERRUPTIBLE,
                        t_blocked := oldblocked AND NOT (sigbit (signo SIGCHLD))\<rparr>) (pk s)) s;
                 s2 = env n s1;
                 s3 = set_pk (upd (current (pk s2)) (\<lambda>t. t\<lparr>t_blocked := oldblocked\<rparr>) (pk s2)) s2
             in if t_signal (cur (pk s3)) AND NOT (t_blocked (cur (pk s3)) OR sigbit (signo SIGCHLD)) \<noteq> 0
                then Some (Inr (neg_errno ERESTARTSYS, s3))
                else waitpid_loop env (n + 1) pid stat_addr options s3)"

definition sys_waitpid ::
  "(nat \<Rightarrow> 'a proc_scheme \<Rightarrow> 'a proc_scheme) \<Rightarrow> u32 \<Rightarrow> u32 \<Rightarrow> u32 \<Rightarrow>
    'a proc_scheme \<Rightarrow> (kerr + u32 \<times> 'a proc_scheme) option" where
  "sys_waitpid env pid stat_addr options s =
     waitpid_loop env 0 pid stat_addr options (s\<lparr>pu := verify_area stat_addr 4 (pu s)\<rparr>)"

section \<open>Properties\<close>

lemma sigbit_simps [simp]:
  "sigbit 9 = 0x100" "sigbit 14 = 0x2000" "sigbit 17 = 0x10000" "sigbit 18 = 0x20000" "sigbit 19 = 0x40000"
  "sigbit 20 = 0x80000" "sigbit 21 = 0x100000" "sigbit 22 = 0x200000"
  by (simp_all add: sigbit_def)

lemma bit_sigbit: "1 \<le> unat s \<Longrightarrow> unat s \<le> 32 \<Longrightarrow> bit (sigbit s) n \<longleftrightarrow> n = unat s - 1 \<and> n < 32"
proof -
  assume s: "1 \<le> unat s" "unat s \<le> 32"
  then have "unat (s - 1) = unat s - 1" by (simp add: unat_sub_if')
  with s show ?thesis by (auto simp: sigbit_def bit_simps)
qed

text \<open>C5: Sending a signal. Without the right to it (neither privileged, nor super-user, nor the same
  effective user) nothing changes. Otherwise a signal the task ignores is dropped, except that
  \<open>SIGKILL\<close> and \<open>SIGCONT\<close> restart a stopped task and clear its pending stop signals, and any
  other signal becomes pending; a stop signal removes a pending \<open>SIGCONT\<close>. No other task is touched.\<close>

theorem send_sig_effect:
  assumes "p \<noteq> 0" "1 \<le> unat sig" "unat sig \<le> 32" "send_sig sig p priv k = Inr (r, k')"
  shows "(if priv \<or> t_euid (cur k) = t_euid (tcb k p) \<or> suser k
      then r = 0 \<and>
        (let t = tcb k p; t' = tcb k' p; ign = sa_handler (t_sigaction t ! (unat sig - 1)) = 1;
             wakes = sig \<in> {signo SIGKILL, signo SIGCONT} in
         t_state t' = (if wakes \<and> t_state t = TASK_STOPPED then TASK_RUNNING else t_state t) \<and>
         (\<forall>n<32. bit (t_signal t') n \<longleftrightarrow>
            \<not> ign \<and> n = unat sig - 1 \<or>
            bit (t_signal t) n \<and> \<not> (wakes \<and> n \<in> {18, 19, 20, 21}) \<and>
              \<not> (\<not> ign \<and> sig \<in> {signo SIGSTOP, signo SIGTSTP, signo SIGTTIN, signo SIGTTOU} \<and> n = 17)))
      else r = neg_errno EPERM \<and> k' = k) \<and> (\<forall>q. q \<noteq> p \<longrightarrow> tcb k' q = tcb k q)"
proof (cases "priv \<or> t_euid (cur k) = t_euid (tcb k p) \<or> suser k")
  case False
  with assms show ?thesis by (auto simp: send_sig_def)
next
  case True
  have idx: "unat (sig - 1) = unat sig - 1" using assms(2,3) by (simp add: unat_sub_if')
  then have ok: "\<not> 32 \<le> unat (sig - 1)" using assms(2,3) by linarith
  have r: "r = 0" "k' = upd p (post_sig sig) k"
    using assms(1,4) True ok by (auto simp: send_sig_def)
  have sint: "sint sig = int (unat sig)"
    using sint_of_nat_small [of "unat sig", where ?'a = 32] assms(3) by simp
  have range: "signo SIGSTOP \<le>s sig \<and> sig \<le>s signo SIGTTOU \<longleftrightarrow>
      sig \<in> {signo SIGSTOP, signo SIGTSTP, signo SIGTTIN, signo SIGTTOU}"
  proof -
    have "signo SIGSTOP \<le>s sig \<and> sig \<le>s signo SIGTTOU \<longleftrightarrow> 19 \<le> sint sig \<and> sint sig \<le> 22"
      by (simp add: word_sle_eq)
    also have "\<dots> \<longleftrightarrow> 19 \<le> unat sig \<and> unat sig \<le> 22" unfolding sint by linarith
    also have "\<dots> \<longleftrightarrow> unat sig \<in> {19, 20, 21, 22}" by auto
    also have "\<dots> \<longleftrightarrow> sig \<in> {19, 20, 21, 22}" by (auto simp: word_eq_iff_unsigned [where ?'a = nat])
    finally show ?thesis by simp
  qed
  have masks: "bit (STOP_SIGNALS :: u32) n \<longleftrightarrow> n \<in> {18, 19, 20, 21}" "bit (sigbit 18) n \<longleftrightarrow> n = 17" for n
    using bit_sigbit [of 19 n] bit_sigbit [of 20 n] bit_sigbit [of 21 n] bit_sigbit [of 22 n] bit_sigbit [of 18 n]
    by (auto simp: STOP_SIGNALS_def bit_or_iff simp del: sigbit_simps)
  define stops where "stops \<longleftrightarrow> sig \<in> {signo SIGSTOP, signo SIGTSTP, signo SIGTTIN, signo SIGTTOU}"
  define wakes where "wakes \<longleftrightarrow> sig \<in> {signo SIGKILL, signo SIGCONT}"
  define ign where "ign \<longleftrightarrow> sa_handler (t_sigaction (tcb k p) ! (unat sig - 1)) = 1"
  have w: "sig = signo SIGKILL \<or> sig = signo SIGCONT \<longleftrightarrow> wakes" by (simp add: wakes_def)
  have sg: "t_signal (post_sig sig t) = (let s1 = (if wakes then t_signal t AND NOT STOP_SIGNALS else t_signal t) in
      if sa_handler (t_sigaction t ! (unat sig - 1)) = 1 then s1
      else (if stops then s1 AND NOT (sigbit (signo SIGCONT)) else s1) OR sigbit sig)"
    "t_state (post_sig sig t) = (if wakes \<and> t_state t = TASK_STOPPED then TASK_RUNNING else t_state t)" for t
    unfolding post_sig_def w range idx stops_def [symmetric] by (simp_all add: Let_def)
  have bits: "bit (t_signal (post_sig sig (tcb k p))) n \<longleftrightarrow> \<not> ign \<and> n = unat sig - 1 \<or>
      bit (t_signal (tcb k p)) n \<and> \<not> (wakes \<and> n \<in> {18, 19, 20, 21}) \<and> \<not> (\<not> ign \<and> stops \<and> n = 17)" if "n < 32" for n
    using that bit_sigbit [OF assms(2,3), of n] masks [of n]
    by (cases ign; cases wakes; cases stops)
      (auto simp: sg(1) ign_def Let_def bit_or_iff bit_and_iff bit_not_iff simp del: sigbit_simps)
  have t': "tcb (upd p (post_sig sig) k) p = post_sig sig (tcb k p)" by simp
  show ?thesis
    unfolding r(2) Let_def t' stops_def [symmetric] wakes_def [symmetric] ign_def [symmetric]
    using True r(1) sg(2) [of "tcb k p"] bits by simp
qed

theorem send_sig_effect_witness:
  "\<exists>k'. send_sig 20 0x3000 True kern0 = Inr (0, k') \<and> bit (t_signal (tcb k' 0x3000)) 19"
proof -
  obtain r k' where s: "send_sig 20 0x3000 True kern0 = Inr (r, k')"
    by (simp add: send_sig_def)
  have "sa_handler (t_sigaction (tcb kern0 0x3000) ! 19) = 0" by (simp add: kern0_def task0_def)
  then show ?thesis using s send_sig_effect [OF _ _ _ s] by (auto simp: Let_def)
qed

text \<open>
  \<open>kill_pg\<close> and \<open>kill_proc\<close> do not look whether a slot is empty: the scan starts at the last slot and
  reads through its null pointer.
\<close>

lemma kill_pg_reads_null:
  assumes "length (task k) = NR_TASKS" "task k ! 63 = 0" "1 \<le>s sig" "sig \<le>s 32" "0 <s pgrp"
  shows "kill_pg pgrp sig priv k = Inl NullDeref"
proof -
  obtain x xs where t: "task k = x # xs" "length xs = 63" using assms(1) by (cases "task k") (auto simp: NR_TASKS_def)
  then have ne: "xs \<noteq> []" by auto
  then have "last xs = 0" using assms(2) t by (simp add: last_conv_nth)
  then have "tasks_down k = 0 # rev (butlast xs)"
    using t append_butlast_last_id [OF ne] by (metis list.sel(3) rev_eq_Cons_iff rev_rev_ident tasks_down_def)
  then show ?thesis using assms by (simp add: kill_pg_def word_sless_alt word_sle_eq)
qed

text \<open>The specification of an orphaned process group (POSIX 2.2.2.52): no member has a parent outside
  the group but in the session; parents with pid 1 and zombies do not count.\<close>

definition anchors :: "kern \<Rightarrow> u32 \<Rightarrow> tptr \<Rightarrow> bool" where
  "anchors k pgrp p \<longleftrightarrow> p \<noteq> 0 \<and> t_pgrp (tcb k p) = pgrp \<and> t_state (tcb k p) \<noteq> TASK_ZOMBIE \<and>
     t_pid (tcb k (t_p_pptr (tcb k p))) \<noteq> 1 \<and> t_pgrp (tcb k (t_p_pptr (tcb k p))) \<noteq> pgrp \<and>
     t_session (tcb k (t_p_pptr (tcb k p))) = t_session (tcb k p)"

lemma orphaned_loop_spec:
  "\<forall>p\<in>set ps. p \<noteq> 0 \<longrightarrow> t_p_pptr (tcb k p) \<noteq> 0 \<Longrightarrow>
    orphaned_loop ps pgrp k = Inr (if \<exists>p\<in>set ps. anchors k pgrp p then 0 else 1)"
  by (induction ps) (auto simp: anchors_def Let_def)

lemma is_orphaned_pgrp_spec:
  "\<forall>p\<in>others k. t_p_pptr (tcb k p) \<noteq> 0 \<Longrightarrow>
    is_orphaned_pgrp pgrp k = Inr (if \<exists>p\<in>others k. anchors k pgrp p then 0 else 1)"
  unfolding is_orphaned_pgrp_def
  by (subst orphaned_loop_spec) (auto simp: set_tasks_down others_def anchors_def)

section \<open>The list of children\<close>

text \<open>The children of a task: a list linked forwards by \<open>p_osptr\<close> and backwards by \<open>p_ysptr\<close>.\<close>

primrec kids :: "(tptr \<Rightarrow> task_struct) \<Rightarrow> tptr \<Rightarrow> tptr \<Rightarrow> tptr \<Rightarrow> tptr list \<Rightarrow> bool" where
  "kids T pp younger c [] \<longleftrightarrow> c = 0"
| "kids T pp younger c (p # ps) \<longleftrightarrow> c = p \<and> p \<noteq> 0 \<and> t_p_pptr (T p) = pp \<and> t_p_ysptr (T p) = younger \<and>
     kids T pp p (t_p_osptr (T p)) ps"

definition children :: "kern \<Rightarrow> tptr \<Rightarrow> tptr list \<Rightarrow> bool" where
  "children k pp ps \<longleftrightarrow> kids (tcb k) pp 0 (t_p_cptr (tcb k pp)) ps \<and> distinct ps \<and> pp \<notin> set ps \<and> pp \<noteq> 0"

lemma kids_cong:
  "kids T pp y c ps \<Longrightarrow> (\<And>q. q \<in> set ps \<Longrightarrow> t_p_pptr (T2 q) = t_p_pptr (T q) \<and>
      t_p_ysptr (T2 q) = t_p_ysptr (T q) \<and> t_p_osptr (T2 q) = t_p_osptr (T q)) \<Longrightarrow> kids T2 pp y c ps"
  by (induction ps arbitrary: y c) auto

text \<open>Taking \<open>p\<close> out of the middle: its neighbours are linked to each other.\<close>

lemma kids_remove:
  "kids T pp y c (xs @ p # ys) \<Longrightarrow> distinct (xs @ p # ys) \<Longrightarrow>
   (\<And>q. q \<in> set xs \<union> set ys \<Longrightarrow> t_p_pptr (T2 q) = t_p_pptr (T q) \<and>
      t_p_ysptr (T2 q) = (if ys \<noteq> [] \<and> q = hd ys then (if xs = [] then y else last xs) else t_p_ysptr (T q)) \<and>
      t_p_osptr (T2 q) = (if xs \<noteq> [] \<and> q = last xs then t_p_osptr (T p) else t_p_osptr (T q))) \<Longrightarrow>
   kids T2 pp y (if xs = [] then t_p_osptr (T p) else c) (xs @ ys)"
proof (induction xs arbitrary: y c)
  case Nil
  show ?case
  proof (cases ys)
    case Nil
    with Nil.prems(1) show ?thesis by simp
  next
    case (Cons q r)
    have rest: "t_p_pptr (T2 z) = t_p_pptr (T z) \<and> t_p_ysptr (T2 z) = t_p_ysptr (T z) \<and> t_p_osptr (T2 z) = t_p_osptr (T z)"
      if "z \<in> set r" for z
    proof -
      have "z \<noteq> q" using Nil.prems(2) that Cons by auto
      then show ?thesis using Nil.prems(3) [of z] that Cons by simp
    qed
    have q: "t_p_pptr (T2 q) = t_p_pptr (T q)" "t_p_ysptr (T2 q) = y" "t_p_osptr (T2 q) = t_p_osptr (T q)"
      using Nil.prems(3) [of q] Cons by simp_all
    have k: "kids T pp p (t_p_osptr (T p)) (q # r)" using Nil.prems(1) Cons by simp
    then have "kids T pp q (t_p_osptr (T q)) r" by simp
    then have "kids T2 pp q (t_p_osptr (T q)) r" by (rule kids_cong) (rule rest)
    then show ?thesis using k q Cons by simp
  qed
next
  case (Cons x xs)
  have notin: "x \<notin> set ys" "x \<notin> set xs" "x \<noteq> p" using Cons.prems(2) by auto
  then have hd: "ys \<noteq> [] \<Longrightarrow> x \<noteq> hd ys" and last: "xs \<noteq> [] \<Longrightarrow> x \<noteq> last xs" by auto
  have x: "t_p_pptr (T2 x) = t_p_pptr (T x)" "t_p_ysptr (T2 x) = t_p_ysptr (T x)"
    "t_p_osptr (T2 x) = (if xs = [] then t_p_osptr (T p) else t_p_osptr (T x))"
    using Cons.prems(3) [of x] hd last by auto
  have "kids T2 pp x (if xs = [] then t_p_osptr (T p) else t_p_osptr (T x)) (xs @ ys)"
  proof (rule Cons.IH)
    show "kids T pp x (t_p_osptr (T x)) (xs @ p # ys)" "distinct (xs @ p # ys)"
      using Cons.prems(1,2) by auto
    fix q assume q: "q \<in> set xs \<union> set ys"
    then have "q \<noteq> x" using notin by auto
    then show "t_p_pptr (T2 q) = t_p_pptr (T q) \<and>
      t_p_ysptr (T2 q) = (if ys \<noteq> [] \<and> q = hd ys then (if xs = [] then x else last xs) else t_p_ysptr (T q)) \<and>
      t_p_osptr (T2 q) = (if xs \<noteq> [] \<and> q = last xs then t_p_osptr (T p) else t_p_osptr (T q))"
      using Cons.prems(3) [of q] q by auto
  qed
  then show ?case using x Cons.prems(1) by simp
qed

lemma kids_nonzero: "kids T pp y c ps \<Longrightarrow> \<forall>q\<in>set ps. q \<noteq> 0"
  by (induction ps arbitrary: y c) auto

lemma kids_at:
  "kids T pp y c (xs @ p # ys) \<Longrightarrow> p \<noteq> 0 \<and> t_p_pptr (T p) = pp \<and>
     t_p_ysptr (T p) = (if xs = [] then y else last xs) \<and> t_p_osptr (T p) = (if ys = [] then 0 else hd ys) \<and>
     (\<forall>q\<in>set xs \<union> set ys. q \<noteq> 0)"
proof (induction xs arbitrary: y c)
  case Nil
  have k: "p \<noteq> 0 \<and> t_p_pptr (T p) = pp \<and> t_p_ysptr (T p) = y" "kids T pp p (t_p_osptr (T p)) ys"
    using Nil by simp_all
  then have "t_p_osptr (T p) = (if ys = [] then 0 else hd ys)" by (cases ys) simp_all
  with k kids_nonzero [OF k(2)] show ?case by simp
next
  case (Cons x xs)
  then have "kids T pp x (t_p_osptr (T x)) (xs @ p # ys)" "x \<noteq> 0" by simp_all
  from Cons.IH [OF this(1)] this(2) show ?case by simp
qed

lemma unlink_task_removes:
  assumes "children k pp (xs @ p # ys)"
  shows "\<exists>k'. unlink_task p k = Inr k' \<and> children k' pp (xs @ ys) \<and> task k' = task k \<and> current k' = current k \<and>
    (\<forall>q. \<exists>ys' os' c'. tcb k' q = (tcb k q)\<lparr>t_p_ysptr := ys', t_p_osptr := os', t_p_cptr := c'\<rparr>)"
proof -
  let ?T = "tcb k"
  have kids: "kids ?T pp 0 (t_p_cptr (?T pp)) (xs @ p # ys)" and dist: "distinct (xs @ p # ys)"
    and pp: "pp \<notin> set (xs @ p # ys)" "pp \<noteq> 0"
    using assms by (auto simp: children_def)
  note at = kids_at [OF kids]
  have nz: "ys \<noteq> [] \<Longrightarrow> hd ys \<noteq> 0" "xs \<noteq> [] \<Longrightarrow> last xs \<noteq> 0" using at by auto
  have ph: "p \<notin> set xs" "p \<notin> set ys" "set xs \<inter> set ys = {}" "pp \<notin> set xs" "pp \<notin> set ys" "pp \<noteq> p"
    using dist pp by auto
  note hl = hd_in_set [of ys] last_in_set [of xs]
  have dis: "hd ys \<noteq> p \<or> ys = []" "last xs \<noteq> p \<or> xs = []" "xs = [] \<or> ys = [] \<or> hd ys \<noteq> last xs"
    "xs = [] \<or> pp \<noteq> last xs" "ys = [] \<or> pp \<noteq> hd ys"
    using ph hl by (metis disjoint_iff)+
  define k1 where "k1 = (if ys \<noteq> [] then upd (hd ys) (\<lambda>t. t\<lparr>t_p_ysptr := if xs = [] then 0 else last xs\<rparr>) k else k)"
  define k2 where "k2 = (if xs \<noteq> [] then upd (last xs) (\<lambda>t. t\<lparr>t_p_osptr := t_p_osptr (?T p)\<rparr>) k1
    else upd pp (\<lambda>t. t\<lparr>t_p_cptr := t_p_osptr (?T p)\<rparr>) k1)"
  have p1: "tcb k1 p = ?T p" using dis(1) by (auto simp: k1_def)
  have "unlink_task p k = Inr k2"
    using at nz pp(2) dis(1,2) by (cases "xs = []"; cases "ys = []") (simp_all add: unlink_task_def Let_def k2_def k1_def)
  moreover have T2: "t_p_pptr (tcb k2 q) = t_p_pptr (?T q) \<and>
      t_p_ysptr (tcb k2 q) = (if ys \<noteq> [] \<and> q = hd ys then (if xs = [] then 0 else last xs) else t_p_ysptr (?T q)) \<and>
      t_p_osptr (tcb k2 q) = (if xs \<noteq> [] \<and> q = last xs then t_p_osptr (?T p) else t_p_osptr (?T q))" for q
    by (simp add: k2_def k1_def)
  have "kids (tcb k2) pp 0 (if xs = [] then t_p_osptr (?T p) else t_p_cptr (?T pp)) (xs @ ys)"
    by (rule kids_remove [OF kids dist T2])
  moreover have "t_p_cptr (tcb k2 pp) = (if xs = [] then t_p_osptr (?T p) else t_p_cptr (?T pp))"
    using dis(4,5) by (auto simp: k2_def k1_def)
  ultimately have "children k2 pp (xs @ ys)" using dist pp by (auto simp: children_def)
  moreover have "\<exists>ys' os' c'. tcb k2 q = (?T q)\<lparr>t_p_ysptr := ys', t_p_osptr := os', t_p_cptr := c'\<rparr>" for q
    by (rule exI [of _ "t_p_ysptr (tcb k2 q)"], rule exI [of _ "t_p_osptr (tcb k2 q)"], rule exI [of _ "t_p_cptr (tcb k2 q)"])
      (simp add: k2_def k1_def)
  moreover have "task k2 = task k" "current k2 = current k" by (simp_all add: k2_def k1_def)
  ultimately show ?thesis using \<open>unlink_task p k = Inr k2\<close> by blast
qed

lemma slot_of_nth: "distinct (filter (\<lambda>q. q \<noteq> 0) qs) \<Longrightarrow> j < length qs \<Longrightarrow> qs ! j = p \<Longrightarrow> p \<noteq> 0 \<Longrightarrow> slot_of p qs i = Some (i + j)"
proof (induction qs arbitrary: i j)
  case (Cons q qs)
  show ?case
  proof (cases j)
    case (Suc l)
    then have "p \<in> set (filter (\<lambda>q. q \<noteq> 0) qs)" using Cons.prems by auto
    then have "q \<noteq> p" using Cons.prems by auto
    moreover have "slot_of p qs (i + 1) = Some (i + 1 + l)"
      using Cons.prems Suc by (intro Cons.IH) (auto split: if_splits)
    ultimately show ?thesis using Suc by simp
  qed (use Cons.prems in simp)
qed simp

lemma release_child:
  assumes "table_ok (pk s)" "0 < i" "i < NR_TASKS" "task (pk s) ! i = p" "p \<noteq> 0" "p \<noteq> current (pk s)"
    "children (pk s) pp (xs @ p # ys)"
    "mem_ok (pm s)" "p = page_addr n" "n < PAGING_PAGES" "p < HIGH_MEMORY (pm s)" "mem_map (pm s) ! n \<noteq> 0"
  shows "\<exists>s'. release env p s = Inr (env s') \<and> task (pk s') = (task (pk s))[i := 0] \<and>
    children (pk s') pp (xs @ ys) \<and> mem_map (pm s') = (mem_map (pm s))[n := mem_map (pm s) ! n - 1] \<and>
    um (pu s') = um (pu s)"
proof -
  let ?k = "(pk s)\<lparr>task := (task (pk s))[i := 0]\<rparr>"
  obtain x where t: "task (pk s) = x # tl (task (pk s))" "distinct (filter (\<lambda>p. p \<noteq> 0) (tl (task (pk s))))"
    "length (tl (task (pk s))) = 63"
    using table_tl [OF assms(1)] by metis
  have "tl (task (pk s)) ! (i - 1) = p" "i - 1 < length (tl (task (pk s)))"
    using assms(2,3,4) t by (auto simp: NR_TASKS_def nth_tl)
  then have slot: "slot_of p (tl (task (pk s))) 1 = Some i"
    using slot_of_nth [OF t(2), of "i - 1" p 1] assms(2,5) by simp
  have "children ?k pp (xs @ p # ys)" using assms(7) by (simp add: children_def)
  then obtain k' where k': "unlink_task p ?k = Inr k'" "children k' pp (xs @ ys)" "task k' = (task (pk s))[i := 0]"
    using unlink_task_removes by fastforce
  have free: "free_page p (pm s) = Inr ((pm s)\<lparr>mem_map := (mem_map (pm s))[n := mem_map (pm s) ! n - 1]\<rparr>)"
    using assms(8-12) page_addr_ge [of n]
    by (simp add: free_page_def map_count_def map_set_def MAP_NR_page_addr leD mem_ok_def)
  show ?thesis
    by (rule exI [of _ "set_pk k' (s\<lparr>pm := (pm s)\<lparr>mem_map := (mem_map (pm s))[n := mem_map (pm s) ! n - 1]\<rparr>\<rparr>)"])
      (use assms(5,6) slot k' free in \<open>simp add: release_def Let_def\<close>)
qed

text \<open>Releasing a dead child gives everything back: its slot in the task table is empty, the page
  of its task structure has one user less, and its parent's doubly linked list of children is the old
  list without it; \<open>schedule\<close> is called last.\<close>

theorem release_unlinks:
  assumes "table_ok (pk s)" "0 < i" "i < NR_TASKS" "task (pk s) ! i = p" "p \<noteq> 0" "p \<noteq> current (pk s)"
    "children (pk s) pp (xs @ p # ys)"
    "mem_ok (pm s)" "p = page_addr n" "n < PAGING_PAGES" "p < HIGH_MEMORY (pm s)" "mem_map (pm s) ! n \<noteq> 0"
  shows "\<exists>s'. release env p s = Inr (env s') \<and> task (pk s') = (task (pk s))[i := 0] \<and>
    children (pk s') pp (xs @ ys) \<and> mem_map (pm s') = (mem_map (pm s))[n := mem_map (pm s) ! n - 1]"
  using release_child [OF assms] by blast

definition kern1 :: kern where
  "kern1 = kern0\<lparr>task := (task kern0)[2 := 0x100000],
     tcb := (tcb kern0)(0x2000 := (tcb kern0 0x2000)\<lparr>t_p_cptr := 0x100000\<rparr>,
       0x100000 := task0\<lparr>t_pid := 2, t_state := TASK_ZOMBIE, t_exit_code := 0x300, t_p_pptr := 0x2000\<rparr>)\<rparr>"

definition proc1 :: proc where
  "proc1 = \<lparr>pu = \<lparr>uk = kern1, um = (\<lambda>_. 0), uv = []\<rparr>, pm = mem1\<rparr>"

lemma proc1_facts:
  "table_ok kern1" "children kern1 0x2000 [0x100000]" "task kern1 ! 2 = page_addr 0" "current kern1 = 0x2000"
  by (auto simp: table_ok_def kern1_def kern0_def slots_def NR_TASKS_def children_def task0_def
      page_addr_def filter_replicate LOW_MEM_def)

lemma mem1_ok: "mem_ok mem1"
  using mem0_ok by (auto simp: mem_ok_def mem1_def nth_list_update PAGING_PAGES_def)

theorem release_unlinks_witness:
  "\<exists>s'. release id (page_addr 0) proc1 = Inr s' \<and> task (pk s') ! 2 = 0 \<and> children (pk s') 0x2000 []"
proof -
  have a: "page_addr 0 = 0x100000" by (simp add: page_addr_def LOW_MEM_def)
  have s: "pk proc1 = kern1" "pm proc1 = mem1" by (simp_all add: proc1_def)
  have "mem_map mem1 ! 0 \<noteq> 0" "(0x100000 :: u32) < HIGH_MEMORY mem1" "0 < PAGING_PAGES" "2 < length (task kern1)"
    by (simp_all add: mem1_def mem0_def PAGING_PAGES_def kern1_def kern0_def)
  then show ?thesis
    using release_unlinks [of proc1 2 "page_addr 0" "0x2000" "[]" "[]" 0 id] proc1_facts mem1_ok
    unfolding s a by (auto simp: NR_TASKS_def)
qed

section \<open>Reaping a child\<close>

text \<open>Children the loop of \<open>sys_waitpid\<close> passes by: not asked for, or neither dead nor newly stopped.\<close>

definition skipped :: "u32 \<Rightarrow> u32 \<Rightarrow> kern \<Rightarrow> tptr \<Rightarrow> bool" where
  "skipped pid options k q \<longleftrightarrow> \<not> wait_matches pid k (tcb k q) \<or>
     t_state (tcb k q) \<noteq> TASK_ZOMBIE \<and>
     (t_state (tcb k q) = TASK_STOPPED \<longrightarrow> options AND WUNTRACED = 0 \<or> t_exit_code (tcb k q) = 0)"

lemma wait_loop_skips:
  "kids (tcb (pk s)) pp y c (xs @ ys) \<Longrightarrow> \<forall>q\<in>set xs. skipped pid options (pk s) q \<Longrightarrow>
    \<exists>flag'. wait_loop env pid a options flag c s =
      wait_loop env pid a options flag' (if xs = [] then c else t_p_osptr (tcb (pk s) (last xs))) s"
proof (induction xs arbitrary: y c flag)
  case (Cons x xs)
  then have c: "c = x" "x \<noteq> 0" and rest: "kids (tcb (pk s)) pp x (t_p_osptr (tcb (pk s) x)) (xs @ ys)"
    and sk: "skipped pid options (pk s) x" "\<forall>q\<in>set xs. skipped pid options (pk s) q" by simp_all
  have "\<exists>f. wait_loop env pid a options flag c s = wait_loop env pid a options f (t_p_osptr (tcb (pk s) x)) s"
    using c sk(1) by (subst wait_loop.simps) (auto simp: Let_def skipped_def)
  then obtain f where f: "wait_loop env pid a options flag c s = wait_loop env pid a options f (t_p_osptr (tcb (pk s) x)) s"
    by blast
  from Cons.IH [OF rest sk(2), of f] show ?case unfolding f by (cases "xs = []") simp_all
qed auto

lemma kids_first: "kids T pp y c (xs @ p # ys) \<Longrightarrow> (if xs = [] then c else t_p_osptr (T (last xs))) = p"
  by (induction xs arbitrary: y c) auto

text \<open>The times of a dead child go to the caller.\<close>

definition add_times :: "tptr \<Rightarrow> kern \<Rightarrow> kern" where
  "add_times p k = upd (current k) (\<lambda>c. c\<lparr>t_cutime := t_cutime c + t_utime (tcb k p),
     t_cstime := t_cstime c + t_stime (tcb k p)\<rparr>) k"

lemma wait_loop_zombie:
  assumes "p \<noteq> 0" "p \<noteq> current (pk s)" "wait_matches pid (pk s) (tcb (pk s) p)" "t_state (tcb (pk s) p) = TASK_ZOMBIE"
  shows "wait_loop env pid a options flag p s =
    Some (kbind (release env p (put_stat (t_exit_code (tcb (pk s) p)) a (set_pk (add_times p (pk s)) s)))
      (\<lambda>s2. Inr (Inr (t_pid (tcb (pk s) p)), s2)))"
proof -
  have e: "upd (current (pk s)) (\<lambda>c. c\<lparr>t_cstime := t_cstime c + t_stime (tcb (pk s) p)\<rparr>)
      (upd (current (pk s)) (\<lambda>c. c\<lparr>t_cutime := t_cutime c + t_utime (tcb (pk s) p)\<rparr>) (pk s)) = add_times p (pk s)"
    by (simp add: add_times_def upd_def)
  show ?thesis
    using assms by (subst wait_loop.simps) (simp add: Let_def task_state_defs e)
qed

lemma children_cong:
  "children k pp ps \<Longrightarrow> (\<And>q. t_p_pptr (tcb k' q) = t_p_pptr (tcb k q) \<and> t_p_cptr (tcb k' q) = t_p_cptr (tcb k q) \<and>
     t_p_ysptr (tcb k' q) = t_p_ysptr (tcb k q) \<and> t_p_osptr (tcb k' q) = t_p_osptr (tcb k q)) \<Longrightarrow> children k' pp ps"
  unfolding children_def using kids_cong by metis

lemma put_stat_simps [simp]:
  "pk (put_stat v a s) = pk s" "pm (put_stat v a s) = pm s" "um (pu (put_stat v a s)) = put_fs_long v a (um (pu s))"
  by simp_all

text \<open>C9: Waiting for a dead child. When the children before it are not asked for or still alive,
  \<open>sys_waitpid\<close> returns the pid of the dead one without sleeping, stores its exit code where the caller
  asked, and releases it: slot empty, page given back, list of children without it.\<close>

theorem waitpid_reaps:
  assumes "table_ok (pk s)" "0 < i" "i < NR_TASKS" "task (pk s) ! i = p"
    "children (pk s) (current (pk s)) (xs @ p # ys)" "\<forall>q\<in>set xs. skipped pid options (pk s) q"
    "wait_matches pid (pk s) (tcb (pk s) p)" "t_state (tcb (pk s) p) = TASK_ZOMBIE"
    "mem_ok (pm s)" "p = page_addr n" "n < PAGING_PAGES" "p < HIGH_MEMORY (pm s)" "mem_map (pm s) ! n \<noteq> 0"
  shows "\<exists>s'. sys_waitpid env pid addr options s = Some (Inr (t_pid (tcb (pk s) p), env 0 s')) \<and>
    task (pk s') = (task (pk s))[i := 0] \<and> children (pk s') (current (pk s)) (xs @ ys) \<and>
    mem_map (pm s') = (mem_map (pm s))[n := mem_map (pm s) ! n - 1] \<and>
    get_fs_long addr (um (pu s')) = t_exit_code (tcb (pk s) p)"
proof -
  define s0 where "s0 = s\<lparr>pu := verify_area addr 4 (pu s)\<rparr>"
  let ?s = s0
  let ?s1 = "put_stat (t_exit_code (tcb (pk s) p)) addr (set_pk (add_times p (pk s)) ?s)"
  have pks: "pk ?s = pk s" "pm ?s = pm s" by (simp_all add: s0_def verify_area_def)
  have ch: "kids (tcb (pk ?s)) (current (pk s)) 0 (t_p_cptr (cur (pk s))) (xs @ p # ys)" and pc: "p \<noteq> current (pk s)"
    using assms(5) by (auto simp: children_def pks)
  have p0: "p \<noteq> 0" using kids_at [OF ch] by simp
  have sk: "\<forall>q\<in>set xs. skipped pid options (pk s0) q" unfolding pks using assms(6) .
  from wait_loop_skips [OF ch sk, of "env 0" addr 0]
  obtain f where "wait_loop (env 0) pid addr options 0 (t_p_cptr (cur (pk s))) ?s = wait_loop (env 0) pid addr options f p ?s"
    unfolding kids_first [OF ch] by (elim exE)
  also have "\<dots> = Some (kbind (release (env 0) p ?s1) (\<lambda>s2. Inr (Inr (t_pid (tcb (pk s) p)), s2)))"
    using wait_loop_zombie [of p s0 pid "env 0" addr options f] p0 pc assms(7,8) unfolding pks by blast
  finally have w: "wait_loop (env 0) pid addr options 0 (t_p_cptr (cur (pk s))) ?s = \<dots>" .
  have k1: "pk ?s1 = add_times p (pk s)" and m1: "pm ?s1 = pm s" by (simp_all add: pks)
  have t1: "task (add_times p (pk s)) = task (pk s)" "current (add_times p (pk s)) = current (pk s)"
    by (simp_all add: add_times_def)
  have "table_ok (add_times p (pk s))" using assms(1) by (simp add: table_ok_def slots_def t1)
  moreover have "children (add_times p (pk s)) (current (pk s)) (xs @ p # ys)"
    using assms(5) by (rule children_cong) (simp add: add_times_def)
  ultimately obtain s' where s': "release (env 0) p ?s1 = Inr (env 0 s')" "task (pk s') = (task (pk s))[i := 0]"
    "children (pk s') (current (pk s)) (xs @ ys)" "mem_map (pm s') = (mem_map (pm s))[n := mem_map (pm s) ! n - 1]"
    "um (pu s') = um (pu ?s1)"
    using release_child [of ?s1 i p "current (pk s)" xs ys n "env 0"] assms p0 pc unfolding k1 m1 t1 by blast
  have "sys_waitpid env pid addr options s = Some (Inr (t_pid (tcb (pk s) p), env 0 s'))"
    unfolding sys_waitpid_def s0_def [symmetric] by (subst waitpid_loop.simps) (simp only: pks w s'(1) kbind_simps Option.bind.simps sum.case prod.case)
  moreover have "get_fs_long addr (um (pu s')) = t_exit_code (tcb (pk s) p)" unfolding s'(5) put_stat_simps by (rule get_put_same)
  ultimately show ?thesis using s'(2-4) by blast
qed

theorem waitpid_reaps_witness:
  "\<exists>s'. sys_waitpid (\<lambda>_. id) (- 1) 0x5000 0 proc1 = Some (Inr (2, s')) \<and> task (pk s') ! 2 = 0"
proof -
  have a: "page_addr 0 = 0x100000" by (simp add: page_addr_def LOW_MEM_def)
  have s: "pk proc1 = kern1" "pm proc1 = mem1" by (simp_all add: proc1_def)
  have t: "t_state (tcb kern1 0x100000) = TASK_ZOMBIE" "t_pid (tcb kern1 0x100000) = 2" by (simp_all add: kern1_def)
  have "mem_map mem1 ! 0 \<noteq> 0" "(0x100000 :: u32) < HIGH_MEMORY mem1" "0 < PAGING_PAGES" "2 < length (task kern1)"
    by (simp_all add: mem1_def mem0_def PAGING_PAGES_def kern1_def kern0_def)
  then show ?thesis
    using waitpid_reaps [of proc1 2 "page_addr 0" "[]" "[]" "- 1" 0 0 "\<lambda>_. id" "0x5000"] proc1_facts mem1_ok t
    unfolding s a by (auto simp: NR_TASKS_def wait_matches_def)
qed

end
