(* ===== verification/Fork.thy ===== *)
theory Fork
  imports Exit
begin

text \<open>
  \<open>kernel/fork.c\<close>: un-sharing user pages before the kernel writes them (\<open>verify_area\<close>), the address
  space and the task structure of a child (\<open>copy_mem\<close>, \<open>copy_process\<close>), and the search for a process
  number and a free slot (\<open>find_empty_process\<close>).

  The state is the process state with the use counts of open files and i-nodes (\<open>f_count\<close>, \<open>i_count\<close>,
  by address) and the global descriptor table. The page a task structure lives in is counted in the
  memory map; its contents are the entry of \<open>tcb\<close>.
\<close>

record fproc =
  fp :: proc
  f_counts :: "u32 \<Rightarrow> u16"
  i_counts :: "u32 \<Rightarrow> u16"
  gdt :: "nat \<Rightarrow> desc"

section \<open>Un-sharing user pages\<close>

text \<open>A positive size goes down and stays above the smallest number.\<close>

lemma sint_minus_page: "0 <s sz \<Longrightarrow> sint (sz - 4096 :: u32) = sint sz - 4096"
proof -
  assume "0 <s sz"
  then have "0 < sint sz" by (simp add: word_sless_alt)
  moreover have "sint sz < 2 ^ 31" using sint_lt [of sz] by simp
  ultimately have "signed_take_bit 31 (sint sz - 4096) = sint sz - 4096"
    by (intro signed_take_bit_int_eq_self) simp_all
  then show ?thesis by (simp add: sint_word_ariths)
qed

text \<open>The loop of \<open>verify_area\<close>: \<open>size\<close> is signed.\<close>

function verify_loop :: "u32 \<Rightarrow> u32 \<Rightarrow> mem \<Rightarrow> mem kres" where
  "verify_loop start sz m =
     (if sz \<le>s 0 then Inr m
      else kbind (write_verify start m) (verify_loop (start + 4096) (sz - 4096)))"
  by pat_completeness auto

termination
proof (relation "measure (\<lambda>(start, sz, m). nat (sint sz + 4096))")
  fix start sz :: u32 and m x :: mem
  assume "\<not> sz \<le>s 0"
  then have "0 <s sz" "0 < sint sz" by (simp_all add: word_sle_eq word_sless_alt)
  then show "((start + 4096, sz - 4096, x), start, sz, m) \<in> measure (\<lambda>(start, sz, m). nat (sint sz + 4096))"
    by (simp add: sint_minus_page)
qed simp

declare verify_loop.simps [simp del]

text \<open>\<open>ldt2\<close> is the data segment descriptor of the current task.\<close>

definition verify_area_mem :: "desc \<Rightarrow> u32 \<Rightarrow> u32 \<Rightarrow> mem \<Rightarrow> mem kres" where
  "verify_area_mem ldt2 addr sz m =
     verify_loop ((addr AND 0xfffff000) + get_base ldt2) (sz + (addr AND 0xfff)) m"

section \<open>The address space of a child\<close>

text \<open>\<open>get_limit(0x0f)\<close> and \<open>get_limit(0x17)\<close> are the code and data descriptors of the current task:
  entries 1 and 2 of its local table.\<close>

definition copy_mem :: "nat \<Rightarrow> tptr \<Rightarrow> fproc \<Rightarrow> (u32 \<times> fproc) kres" where
  "copy_mem nr p s =
     (let k = pk (fp s); ldt = t_ldt (cur k);
          code_limit = get_limit (ldt ! 1); data_limit = get_limit (ldt ! 2);
          old_code_base = get_base (ldt ! 1); old_data_base = get_base (ldt ! 2)
      in if old_data_base \<noteq> old_code_base then Inl (Panic ''We don't support separate I&D'')
         else if data_limit < code_limit then Inl (Panic ''Bad data_limit'')
         else
           let new_base = of_nat nr * TASK_SIZE;
               k' = upd p (\<lambda>t. t\<lparr>t_start_code := new_base,
                      t_ldt := (t_ldt t)[1 := set_base (t_ldt t ! 1) new_base,
                                         2 := set_base (t_ldt t ! 2) new_base]\<rparr>) k;
               s1 = s\<lparr>fp := set_pk k' (fp s)\<rparr>
           in kbind (copy_page_tables old_data_base new_base data_limit (pm (fp s))) (\<lambda>(r, m).
                if r \<noteq> 0 then
                  kbind (free_page_tables new_base data_limit m) (\<lambda>(_, m).
                    Inr (neg_errno ENOMEM, s1\<lparr>fp := (fp s1)\<lparr>pm := m\<rparr>\<rparr>))
                else Inr (0, s1\<lparr>fp := (fp s1)\<lparr>pm := m\<rparr>\<rparr>)))"

section \<open>The child\<close>

text \<open>Where the local descriptor table and the task state segment lie inside a task structure.\<close>

definition ldt_offset :: u32 where "ldt_offset = 872"
definition tss_offset :: u32 where "tss_offset = 896"

definition FIRST_TSS_ENTRY :: nat where "FIRST_TSS_ENTRY = 5"
definition FIRST_LDT_ENTRY :: nat where "FIRST_LDT_ENTRY = FIRST_TSS_ENTRY + 1"

definition LDT_sel :: "nat \<Rightarrow> u32" where
  "LDT_sel n = push_bit 4 (of_nat n) + push_bit 3 (of_nat FIRST_LDT_ENTRY)"

text \<open>The registers on the kernel stack of the system call, which are the arguments of \<open>copy_process\<close>.\<close>

record frame_regs =
  fr_ebp :: u32
  fr_edi :: u32
  fr_esi :: u32
  fr_gs :: u32
  fr_ebx :: u32
  fr_ecx :: u32
  fr_edx :: u32
  fr_fs :: u32
  fr_es :: u32
  fr_ds :: u32
  fr_eip :: u32
  fr_cs :: u32
  fr_eflags :: u32
  fr_esp :: u32
  fr_ss :: u32

definition child_tss :: "nat \<Rightarrow> frame_regs \<Rightarrow> tptr \<Rightarrow> kern \<Rightarrow> tss_struct \<Rightarrow> tss_struct" where
  "child_tss nr r p k t = t\<lparr>
     tss_back_link := 0, tss_esp0 := 4096 + p, tss_ss0 := 0x10,
     tss_cr3 := tss_cr3 (t_tss (cur k)),
     tss_eip := fr_eip r, tss_eflags := fr_eflags r, tss_eax := 0, tss_ecx := fr_ecx r,
     tss_edx := fr_edx r, tss_ebx := fr_ebx r, tss_esp := fr_esp r, tss_ebp := fr_ebp r,
     tss_esi := fr_esi r, tss_edi := fr_edi r,
     tss_es := fr_es r AND 0xffff, tss_cs := fr_cs r AND 0xffff, tss_ss := fr_ss r AND 0xffff,
     tss_ds := fr_ds r AND 0xffff, tss_fs := fr_fs r AND 0xffff, tss_gs := fr_gs r AND 0xffff,
     tss_ldt := LDT_sel nr, tss_trace_bitmap := 0x80000000\<rparr>"

definition child_init :: "nat \<Rightarrow> frame_regs \<Rightarrow> tptr \<Rightarrow> kern \<Rightarrow> task_struct" where
  "child_init nr r p k = (cur k)\<lparr>
     t_pid := last_pid k, t_p_pptr := current k, t_alarm := 0, t_utime := 0, t_stime := 0,
     t_cutime := 0, t_cstime := 0, t_start_time := jiffies k,
     t_tss := child_tss nr r p k (t_tss (cur k))\<rparr>"

text \<open>The links into the parent's list of children; \<open>k\<close> is the state they are read in.\<close>

definition link_child :: "tptr \<Rightarrow> kern \<Rightarrow> kern" where
  "link_child p k =
     (let k1 = upd p (\<lambda>t. t\<lparr>t_p_pptr := current k, t_p_cptr := 0, t_p_ysptr := 0,
                          t_p_osptr := t_p_cptr (cur k)\<rparr>) k;
          os = t_p_osptr (tcb k1 p);
          k2 = (if os \<noteq> 0 then upd os (\<lambda>t. t\<lparr>t_p_ysptr := p\<rparr>) k1 else k1)
      in upd (current k2) (\<lambda>t. t\<lparr>t_p_cptr := p\<rparr>) k2)"

definition count_up :: "u32 \<Rightarrow> (u32 \<Rightarrow> u16) \<Rightarrow> u32 \<Rightarrow> u16" where
  "count_up a c = (if a = 0 then c else c(a := c a + 1))"

definition copy_process :: "nat \<Rightarrow> frame_regs \<Rightarrow> fproc \<Rightarrow> (u32 \<times> fproc) kres" where
  "copy_process nr r s =
     kbind (get_free_page (pm (fp s))) (\<lambda>(p, m).
     if p = 0 then Inr (neg_errno EAGAIN, s\<lparr>fp := (fp s)\<lparr>pm := m\<rparr>\<rparr>)
     else
       let k = (pk (fp s))\<lparr>task := (task (pk (fp s)))[nr := p]\<rparr>;
           k = upd p (\<lambda>_. child_init nr r p k) k
       in kbind (copy_mem nr p (s\<lparr>fp := (set_pk k (fp s))\<lparr>pm := m\<rparr>\<rparr>)) (\<lambda>(err, s).
          let k = pk (fp s) in
          if err \<noteq> 0 then
            kbind (free_page p (pm (fp s))) (\<lambda>m.
              Inr (neg_errno EAGAIN, s\<lparr>fp := (set_pk (k\<lparr>task := (task k)[nr := 0]\<rparr>) (fp s))\<lparr>pm := m\<rparr>\<rparr>))
          else
            let c = cur k;
                fc = fold count_up (t_filp c) (f_counts s);
                ic = fold count_up [t_pwd c, t_root c, t_executable c, t_library c] (i_counts s);
                k = upd p (\<lambda>t. t\<lparr>t_filp := t_filp c, t_tty := t_tty c, t_umask := t_umask c, t_pwd := t_pwd c,
                      t_root := t_root c, t_executable := t_executable c, t_library := t_library c,
                      t_close_on_exec := t_close_on_exec c\<rparr>) k;
                g = (gdt s)(2 * nr + FIRST_TSS_ENTRY := set_tss_desc (p + tss_offset),
                            2 * nr + FIRST_LDT_ENTRY := set_ldt_desc (p + ldt_offset));
                k = upd p (\<lambda>t. t\<lparr>t_state := TASK_RUNNING\<rparr>) (link_child p k)
            in Inr (last_pid k, s\<lparr>fp := set_pk k (fp s), f_counts := fc, i_counts := ic, gdt := g\<rparr>)))"

section \<open>Process numbers and slots\<close>

text \<open>\<open>(++last_pid) < 0\<close> starts again at 1; the scan goes round while a task has the number.\<close>

definition next_pid :: "u32 \<Rightarrow> u32" where
  "next_pid pid = (if pid + 1 <s 0 then 1 else pid + 1)"

definition pid_used :: "kern \<Rightarrow> u32 \<Rightarrow> bool" where
  "pid_used k pid \<longleftrightarrow> list_ex (\<lambda>p. p \<noteq> 0 \<and> t_pid (tcb k p) = pid) (task k)"

partial_function (option) pid_loop :: "kern \<Rightarrow> kern option" where
  "pid_loop k =
     (let k' = k\<lparr>last_pid := next_pid (last_pid k)\<rparr> in
      if pid_used k' (last_pid k') then pid_loop k' else Some k')"

fun free_slot :: "tptr list \<Rightarrow> nat \<Rightarrow> nat option" where
  "free_slot [] i = None"
| "free_slot (p # ps) i = (if p = 0 then Some i else free_slot ps (i + 1))"

definition find_empty_process :: "kern \<Rightarrow> (u32 \<times> kern) option" where
  "find_empty_process k =
     map_option (\<lambda>k'. (case free_slot (tl (task k')) 1 of Some i \<Rightarrow> of_nat i | None \<Rightarrow> neg_errno EAGAIN, k'))
       (pid_loop k)"

section \<open>The number found is new\<close>

lemma next_pid_nat:
  assumes "unat p < 2 ^ 31"
  shows "unat (next_pid p) = (if unat p + 1 < 2 ^ 31 then unat p + 1 else 1)"
proof -
  have u: "unat (p + 1) = unat p + 1"
    using assms unat_add_small [of p 1] by simp
  show ?thesis
  proof (cases "unat p + 1 < 2 ^ 31")
    case True
    then have "sint (of_nat (unat p + 1) :: u32) = int (unat p + 1)" by (intro sint_of_nat_small) simp
    moreover have "of_nat (unat p + 1) = p + 1" by simp
    ultimately have "0 \<le> sint (p + 1)" by (simp only:)
    then have "\<not> p + 1 <s 0" by (simp add: word_sless_alt)
    then show ?thesis using True u by (simp add: next_pid_def)
  next
    case False
    then have e: "unat p + 1 = 2 ^ 31" using assms by linarith
    have "p + 1 = 0x80000000" using u unfolding e by (simp add: word_eq_iff_unsigned [where ?'a = nat])
    then have "p + 1 <s 0" by (simp add: word_sless_alt)
    then show ?thesis using False by (simp add: next_pid_def)
  qed
qed

lemma next_pid_iter:
  assumes "unat p < 2 ^ 31" "i < 2 ^ 31 - 1"
  shows "unat ((next_pid ^^ i) p) = (if unat p + i < 2 ^ 31 then unat p + i else unat p + i - (2 ^ 31 - 1))"
  using assms(2)
proof (induction i)
  case (Suc i)
  define q where "q = (next_pid ^^ i) p"
  have u: "unat q = (if unat p + i < 2 ^ 31 then unat p + i else unat p + i - (2 ^ 31 - 1))"
    using Suc by (simp add: q_def)
  then have "unat q < 2 ^ 31" using Suc.prems assms(1) by (auto split: if_splits)
  from next_pid_nat [OF this] u Suc.prems assms(1) show ?case
    by (simp add: q_def) linarith
qed (use assms in simp)

lemma next_pid_distinct:
  assumes "unat p < 2 ^ 31" "n < 2 ^ 31 - 1"
  shows "inj_on (\<lambda>i. (next_pid ^^ i) p) {1..n}"
proof (rule inj_onI)
  fix i j assume "i \<in> {1..n}" "j \<in> {1..n}" and e: "(next_pid ^^ i) p = (next_pid ^^ j) p"
  then have "i < 2 ^ 31 - 1" "j < 2 ^ 31 - 1" "1 \<le> i" "1 \<le> j" using assms(2) by auto
  then show "i = j"
    using arg_cong [OF e, of unat] assms(1) next_pid_iter [OF assms(1)] by (auto split: if_splits)
qed

lemma pid_loop_iter:
  "pid_used k ((next_pid ^^ Suc n) (last_pid k)) = False \<Longrightarrow>
   (\<And>i. 1 \<le> i \<Longrightarrow> i \<le> n \<Longrightarrow> pid_used k ((next_pid ^^ i) (last_pid k))) \<Longrightarrow>
   pid_loop k = Some (k\<lparr>last_pid := (next_pid ^^ Suc n) (last_pid k)\<rparr>)"
proof (induction n arbitrary: k)
  case 0
  then show ?case by (subst pid_loop.simps) (simp add: Let_def pid_used_def)
next
  case (Suc n)
  let ?k = "k\<lparr>last_pid := next_pid (last_pid k)\<rparr>"
  have same: "pid_used ?k = pid_used k" by (simp add: pid_used_def fun_eq_iff)
  have "pid_used ?k (last_pid ?k)" using Suc.prems(2) [of 1] unfolding same by simp
  then have "pid_loop k = pid_loop ?k" by (subst pid_loop.simps) (simp add: Let_def)
  also have "\<dots> = Some (?k\<lparr>last_pid := (next_pid ^^ Suc n) (last_pid ?k)\<rparr>)"
  proof (rule Suc.IH)
    show "pid_used ?k ((next_pid ^^ Suc n) (last_pid ?k)) = False"
      using Suc.prems(1) unfolding same by (simp add: funpow_swap1)
    fix i assume "1 \<le> i" "i \<le> n"
    then show "pid_used ?k ((next_pid ^^ i) (last_pid ?k))"
      using Suc.prems(2) [of "Suc i"] unfolding same by (simp add: funpow_swap1)
  qed
  finally show ?case by (simp add: funpow_swap1)
qed

text \<open>Among 65 numbers in a row one is not in use, since there are 64 tasks.\<close>

lemma some_pid_free:
  assumes "unat (last_pid k) < 2 ^ 31" "length (task k) = NR_TASKS"
  shows "\<exists>n<65. \<not> pid_used k ((next_pid ^^ Suc n) (last_pid k))"
proof (rule ccontr)
  assume "\<not> ?thesis"
  then have "\<forall>i\<in>{1..65}. pid_used k ((next_pid ^^ i) (last_pid k))"
    by (metis Suc_le_eq Suc_pred atLeastAtMost_iff less_Suc_eq_le numeral_nat(7) One_nat_def)
  moreover have "pid_used k p \<Longrightarrow> p \<in> (\<lambda>p. t_pid (tcb k p)) ` set (task k)" for p
    by (auto simp: pid_used_def list_ex_iff)
  ultimately have "(\<lambda>i. (next_pid ^^ i) (last_pid k)) ` {1..65} \<subseteq> (\<lambda>p. t_pid (tcb k p)) ` set (task k)"
    by blast
  then have "card ((\<lambda>i. (next_pid ^^ i) (last_pid k)) ` {1..65}) \<le> card (set (task k))"
    by (rule surj_card_le [OF finite_set])
  moreover have "card ((\<lambda>i. (next_pid ^^ i) (last_pid k)) ` {1..65}) = 65"
    using card_image [OF next_pid_distinct [OF assms(1), of 65]] by simp
  moreover have "card (set (task k)) \<le> 64" using card_length [of "task k"] assms(2) by (simp add: NR_TASKS_def)
  ultimately show False by simp
qed

lemma free_slot_Some: "free_slot ps i = Some j \<Longrightarrow> i \<le> j \<and> j - i < length ps \<and> ps ! (j - i) = 0"
proof (induction ps arbitrary: i)
  case (Cons p ps)
  show ?case
  proof (cases "p = 0")
    case False
    with Cons.prems have "free_slot ps (i + 1) = Some j" by simp
    from Cons.IH [OF this] have "i + 1 \<le> j" "j - (i + 1) < length ps" "ps ! (j - (i + 1)) = 0" by auto
    moreover from this have "j - i = Suc (j - (i + 1))" by linarith
    ultimately show ?thesis by simp
  qed (use Cons.prems in simp)
qed simp

lemma free_slot_None: "free_slot ps i = None \<longleftrightarrow> 0 \<notin> set ps"
  by (induction ps arbitrary: i) auto

text \<open>C29: \<open>find_empty_process\<close> always returns. The number it leaves in \<open>last_pid\<close> is positive and no
  task has it; the value is a slot other than 0 that is empty, or \<open>-EAGAIN\<close> exactly when there is none;
  nothing but \<open>last_pid\<close> changes.\<close>

theorem find_empty_process_fresh:
  assumes "0 \<le>s last_pid k" "length (task k) = NR_TASKS"
  shows "\<exists>r k'. find_empty_process k = Some (r, k') \<and> k' = k\<lparr>last_pid := last_pid k'\<rparr> \<and>
    0 <s last_pid k' \<and> (\<forall>p\<in>slots k. t_pid (tcb k p) \<noteq> last_pid k') \<and>
    (if 0 \<in> set (tl (task k)) then 0 < unat r \<and> unat r < NR_TASKS \<and> task k ! unat r = 0
     else r = neg_errno EAGAIN)"
proof -
  have nn: "0 \<le> sint (last_pid k)" using assms(1) by (simp add: word_sle_eq)
  have "int (unat (last_pid k)) < 2147483648" using sint_lt [of "last_pid k"] sint_nonneg [OF nn] by simp
  then have "unat (last_pid k) < 2147483648" by linarith
  then have small: "unat (last_pid k) < 2 ^ 31" by simp
  let ?free = "\<lambda>n. \<not> pid_used k ((next_pid ^^ Suc n) (last_pid k))"
  define n where "n = (LEAST n. ?free n)"
  obtain n0 where n0: "n0 < 65" "?free n0" using some_pid_free [OF small assms(2)] by blast
  have free: "?free n" unfolding n_def by (rule LeastI [of ?free, OF n0(2)])
  have n65: "n < 65" unfolding n_def using Least_le [of ?free, OF n0(2)] n0(1) by linarith
  have "pid_used k ((next_pid ^^ i) (last_pid k))" if "1 \<le> i" "i \<le> n" for i
    using not_less_Least [of "i - 1" ?free] that unfolding n_def by (cases i) auto
  then have loop: "pid_loop k = Some (k\<lparr>last_pid := (next_pid ^^ Suc n) (last_pid k)\<rparr>)"
    using free by (intro pid_loop_iter) auto
  let ?p = "(next_pid ^^ Suc n) (last_pid k)"
  have pos: "0 < unat ?p" "unat ?p < 2 ^ 31"
    using next_pid_iter [OF small, of "Suc n"] small n65 by (auto simp del: funpow.simps)
  have "sint ?p = int (unat ?p)" using sint_of_nat_small [of "unat ?p", where ?'a = 32] pos(2) by (simp del: funpow.simps)
  then have "0 < sint ?p" using pos(1) by linarith
  then have "0 <s ?p" by (simp only: word_sless_alt) simp
  moreover have "\<forall>p\<in>slots k. t_pid (tcb k p) \<noteq> ?p"
    using free by (auto simp: slots_def pid_used_def list_ex_iff)
  moreover have "(case free_slot (tl (task k)) 1 of Some i \<Rightarrow> 0 < i \<and> i < NR_TASKS \<and> task k ! i = 0 | None \<Rightarrow> True)"
    using free_slot_Some [of "tl (task k)" 1] assms(2) by (auto split: option.splits simp: NR_TASKS_def nth_tl)
  ultimately show ?thesis
    unfolding find_empty_process_def loop using free_slot_None [of "tl (task k)" 1]
    by (auto split: option.splits simp: NR_TASKS_def unat_of_nat_small simp del: funpow.simps)
qed

theorem find_empty_process_fresh_witness:
  "\<exists>r k'. find_empty_process kern0 = Some (r, k') \<and> 0 <s last_pid k' \<and> task kern0 ! unat r = 0"
proof -
  have "0 \<le>s last_pid kern0" "length (task kern0) = NR_TASKS" by (simp_all add: kern0_def NR_TASKS_def word_sle_eq)
  from find_empty_process_fresh [OF this] show ?thesis by (auto simp: kern0_def)
qed

section \<open>The child of a fork\<close>

lemma count_up_fold: "a \<noteq> 0 \<Longrightarrow> fold count_up xs c a = c a + of_nat (count_list xs a)"
  by (induction xs arbitrary: c) (auto simp: count_up_def)

lemma copy_mem_frame:
  assumes "copy_mem nr p s = Inr (v, s')"
  shows "pk (fp s') = upd p (\<lambda>t. t\<lparr>t_start_code := of_nat nr * TASK_SIZE,
      t_ldt := (t_ldt t)[1 := set_base (t_ldt t ! 1) (of_nat nr * TASK_SIZE),
                         2 := set_base (t_ldt t ! 2) (of_nat nr * TASK_SIZE)]\<rparr>) (pk (fp s))"
    "f_counts s' = f_counts s" "i_counts s' = i_counts s" "gdt s' = gdt s"
    "v = 0 \<Longrightarrow> copy_page_tables (get_base (t_ldt (cur (pk (fp s))) ! 2)) (of_nat nr * TASK_SIZE)
       (get_limit (t_ldt (cur (pk (fp s))) ! 2)) (pm (fp s)) = Inr (0, pm (fp s'))"
  using assms by (auto simp: copy_mem_def Let_def kbind_eq_Inr split: if_splits prod.splits)

lemma kids_younger:
  assumes "kids T pp y c cs" "distinct cs"
    "\<And>q. q \<in> set cs \<Longrightarrow> t_p_pptr (T2 q) = t_p_pptr (T q) \<and> t_p_osptr (T2 q) = t_p_osptr (T q) \<and>
      t_p_ysptr (T2 q) = (if q = c then y2 else t_p_ysptr (T q))"
  shows "kids T2 pp y2 c cs"
proof (cases cs)
  case (Cons q r)
  with assms(1) have c: "c = q" "q \<noteq> 0" "t_p_pptr (T q) = pp" and k: "kids T pp q (t_p_osptr (T q)) r" by auto
  have q: "t_p_pptr (T2 q) = pp" "t_p_osptr (T2 q) = t_p_osptr (T q)" "t_p_ysptr (T2 q) = y2"
    using assms(3) [of q] c Cons by auto
  have "kids T2 pp q (t_p_osptr (T q)) r"
  proof (rule kids_cong [OF k])
    fix z assume "z \<in> set r"
    then have "z \<noteq> c" "z \<in> set cs" using assms(2) Cons c by auto
    then show "t_p_pptr (T2 z) = t_p_pptr (T z) \<and> t_p_ysptr (T2 z) = t_p_ysptr (T z) \<and> t_p_osptr (T2 z) = t_p_osptr (T z)"
      using assms(3) [of z] by simp
  qed
  then show ?thesis using Cons c(1,2) q by simp
qed (use assms(1) in simp)

lemma kids_head: "kids T pp y c cs \<Longrightarrow> c = (if cs = [] then 0 else hd cs)"
  by (cases cs) auto

lemma link_child_children:
  assumes ch: "children k (current k) cs" and p: "p \<noteq> 0" "p \<noteq> current k" "p \<notin> set cs"
  shows "children (link_child p k) (current k) (p # cs)"
proof -
  let ?c = "t_p_cptr (cur k)" and ?T = "tcb (link_child p k)"
  have kids: "kids (tcb k) (current k) 0 ?c cs" "distinct cs" "current k \<notin> set cs" "current k \<noteq> 0"
    using ch by (auto simp: children_def)
  have hd: "?c \<noteq> 0 \<Longrightarrow> ?c \<in> set cs" using kids_head [OF kids(1)] hd_in_set [of cs] by (auto split: if_splits)
  have ne: "?c \<noteq> 0 \<Longrightarrow> ?c \<noteq> p \<and> ?c \<noteq> current k" using hd p(3) kids(3) by metis
  define k1 where "k1 = upd p (\<lambda>t. t\<lparr>t_p_pptr := current k, t_p_cptr := 0, t_p_ysptr := 0, t_p_osptr := ?c\<rparr>) k"
  define k2 where "k2 = (if ?c \<noteq> 0 then upd ?c (\<lambda>t. t\<lparr>t_p_ysptr := p\<rparr>) k1 else k1)"
  have os: "t_p_osptr (tcb k1 p) = ?c" by (simp add: k1_def)
  have cu: "current k2 = current k" by (simp add: k2_def k1_def)
  have link: "link_child p k = upd (current k) (\<lambda>t. t\<lparr>t_p_cptr := p\<rparr>) k2"
    unfolding link_child_def k1_def [symmetric] Let_def os k2_def [symmetric] cu ..
  have T2: "t_p_pptr (tcb k2 q) = (if q = p then current k else t_p_pptr (tcb k q))"
    "t_p_osptr (tcb k2 q) = (if q = p then ?c else t_p_osptr (tcb k q))"
    "t_p_ysptr (tcb k2 q) = (if q = p then 0 else if q = ?c \<and> ?c \<noteq> 0 then p else t_p_ysptr (tcb k q))"
    "t_p_cptr (tcb k2 q) = (if q = p then 0 else t_p_cptr (tcb k q))" for q
    using ne by (cases "?c = 0"; cases "q = p"; cases "q = ?c"; simp add: k2_def k1_def)+
  have T: "t_p_pptr (?T q) = (if q = p then current k else t_p_pptr (tcb k q))"
    "t_p_osptr (?T q) = (if q = p then ?c else t_p_osptr (tcb k q))"
    "t_p_ysptr (?T q) = (if q = p then 0 else if q = ?c \<and> ?c \<noteq> 0 then p else t_p_ysptr (tcb k q))"
    "t_p_cptr (?T q) = (if q = p then 0 else if q = current k then p else t_p_cptr (tcb k q))" for q
    using p(2) ne unfolding link by (cases "q = current k"; cases "?c = 0"; simp add: T2)+
  have nz: "\<forall>q\<in>set cs. q \<noteq> 0" using kids(1) by (rule kids_nonzero)
  have "kids ?T (current k) p ?c cs"
  proof (rule kids_younger [OF kids(1,2)])
    fix q assume "q \<in> set cs"
    then have "q \<noteq> p" "q \<noteq> current k" "q \<noteq> 0" using p(3) kids(3) nz by auto
    then show "t_p_pptr (?T q) = t_p_pptr (tcb k q) \<and> t_p_osptr (?T q) = t_p_osptr (tcb k q) \<and>
      t_p_ysptr (?T q) = (if q = ?c then p else t_p_ysptr (tcb k q))" by (simp add: T)
  qed
  then show ?thesis using p kids(2-4) by (simp add: children_def T)
qed

lemma last_pid_link_child [simp]: "last_pid (link_child p k) = last_pid k"
  by (simp add: link_child_def Let_def)

lemma link_child_tcb:
  assumes "p \<noteq> 0" "p \<noteq> current k" "t_p_cptr (cur k) \<noteq> p"
  shows "tcb (link_child p k) p = (tcb k p)\<lparr>t_p_pptr := current k, t_p_cptr := 0, t_p_ysptr := 0,
      t_p_osptr := t_p_cptr (cur k)\<rparr>"
    "task (link_child p k) = task k" "last_pid (link_child p k) = last_pid k" "current (link_child p k) = current k"
  using assms by (cases "t_p_cptr (cur k) = 0"; simp add: link_child_def Let_def)+

text \<open>What a child keeps of its parent.\<close>

definition inherits :: "task_struct \<Rightarrow> task_struct \<Rightarrow> bool" where
  "inherits c t \<longleftrightarrow> t_uid t = t_uid c \<and> t_euid t = t_euid c \<and> t_suid t = t_suid c \<and> t_gid t = t_gid c \<and>
     t_pgrp t = t_pgrp c \<and> t_session t = t_session c \<and> t_sigaction t = t_sigaction c \<and> t_blocked t = t_blocked c \<and>
     t_filp t = t_filp c \<and> t_close_on_exec t = t_close_on_exec c \<and> t_tty t = t_tty c \<and> t_umask t = t_umask c \<and>
     t_pwd t = t_pwd c \<and> t_root t = t_root c \<and> t_executable t = t_executable c \<and> t_library t = t_library c"

text \<open>C28: A successful fork. The child has a new page, sits in the slot asked for, is the youngest child of
  the caller, starts with 0 in \<open>eax\<close> at the instruction after the call, has its data and code segments
  at \<open>nr * TASK_SIZE\<close>, and inherits identity, signal actions and files; every open file and i-node it
  holds is counted once more for every reference. The memory is the one in which the child's page was
  taken and then \<open>copy_page_tables\<close> gave the child, from \<open>nr * TASK_SIZE\<close> on, the pages of the whole
  data segment of the caller. The two descriptors of slot \<open>nr\<close> in the global table are those of the
  child's task state segment and local table, and no other descriptor changed. The caller gets the
  new process number.\<close>

theorem fork_child:
  assumes "mem_ok (pm (fp s))" "children (pk (fp s)) (current (pk (fp s))) cs" "length (t_ldt (cur (pk (fp s)))) = 3"
    "\<forall>i<PAGING_PAGES. mem_map (pm (fp s)) ! i = 0 \<longrightarrow> page_addr i \<noteq> current (pk (fp s)) \<and> page_addr i \<notin> set cs"
    "copy_process nr r s = Inr (v, s')" "v \<noteq> neg_errno EAGAIN"
  shows "\<exists>p m. v = last_pid (pk (fp s)) \<and> task (pk (fp s')) = (task (pk (fp s)))[nr := p] \<and>
    children (pk (fp s')) (current (pk (fp s))) (p # cs) \<and>
    (let t = tcb (pk (fp s')) p in inherits (cur (pk (fp s))) t \<and>
      t_pid t = last_pid (pk (fp s)) \<and> t_state t = TASK_RUNNING \<and>
      tss_eax (t_tss t) = 0 \<and> tss_eip (t_tss t) = fr_eip r \<and> tss_esp (t_tss t) = fr_esp r \<and>
      get_base (t_ldt t ! 1) = of_nat nr * TASK_SIZE \<and> get_base (t_ldt t ! 2) = of_nat nr * TASK_SIZE) \<and>
    (\<forall>a. a \<noteq> 0 \<longrightarrow> f_counts s' a = f_counts s a + of_nat (count_list (t_filp (cur (pk (fp s)))) a) \<and>
      i_counts s' a = i_counts s a + of_nat (count_list (let c = cur (pk (fp s)) in
        [t_pwd c, t_root c, t_executable c, t_library c]) a)) \<and>
    p \<noteq> 0 \<and> get_free_page (pm (fp s)) = Inr (p, m) \<and>
    copy_page_tables (get_base (t_ldt (cur (pk (fp s))) ! 2)) (of_nat nr * TASK_SIZE)
      (get_limit (t_ldt (cur (pk (fp s))) ! 2)) m = Inr (0, pm (fp s')) \<and>
    gdt s' (2 * nr + FIRST_TSS_ENTRY) = set_tss_desc (p + tss_offset) \<and>
    gdt s' (2 * nr + FIRST_LDT_ENTRY) = set_ldt_desc (p + ldt_offset) \<and>
    (\<forall>j. j \<noteq> 2 * nr + FIRST_TSS_ENTRY \<and> j \<noteq> 2 * nr + FIRST_LDT_ENTRY \<longrightarrow> gdt s' j = gdt s j)"
proof -
  define k where "k = pk (fp s)"
  obtain p m where g: "get_free_page (pm (fp s)) = Inr (p, m)" and p: "p \<noteq> 0"
    using assms(5,6) by (auto simp: copy_process_def kbind_eq_Inr split: if_splits)
  obtain i where i: "i < PAGING_PAGES" "mem_map (pm (fp s)) ! i = 0" "p = page_addr i"
    using get_free_page_spec [OF assms(1)] g p by auto
  then have pc: "p \<noteq> current k" "p \<notin> set cs" using assms(4) by (auto simp: k_def)
  define k1 where "k1 = upd p (\<lambda>_. child_init nr r p (k\<lparr>task := (task k)[nr := p]\<rparr>)) (k\<lparr>task := (task k)[nr := p]\<rparr>)"
  define s1 where "s1 = s\<lparr>fp := (set_pk k1 (fp s))\<lparr>pm := m\<rparr>\<rparr>"
  have cp: "copy_process nr r s = kbind (copy_mem nr p s1) (\<lambda>(err, s).
          let k = pk (fp s) in
          if err \<noteq> 0 then
            kbind (free_page p (pm (fp s))) (\<lambda>m.
              Inr (neg_errno EAGAIN, s\<lparr>fp := (set_pk (k\<lparr>task := (task k)[nr := 0]\<rparr>) (fp s))\<lparr>pm := m\<rparr>\<rparr>))
          else
            let c = cur k;
                fc = fold count_up (t_filp c) (f_counts s);
                ic = fold count_up [t_pwd c, t_root c, t_executable c, t_library c] (i_counts s);
                k = upd p (\<lambda>t. t\<lparr>t_filp := t_filp c, t_tty := t_tty c, t_umask := t_umask c, t_pwd := t_pwd c,
                      t_root := t_root c, t_executable := t_executable c, t_library := t_library c,
                      t_close_on_exec := t_close_on_exec c\<rparr>) k;
                g = (gdt s)(2 * nr + FIRST_TSS_ENTRY := set_tss_desc (p + tss_offset),
                            2 * nr + FIRST_LDT_ENTRY := set_ldt_desc (p + ldt_offset));
                k = upd p (\<lambda>t. t\<lparr>t_state := TASK_RUNNING\<rparr>) (link_child p k)
            in Inr (last_pid k, s\<lparr>fp := set_pk k (fp s), f_counts := fc, i_counts := ic, gdt := g\<rparr>))"
    unfolding copy_process_def g kbind_simps prod.case Let_def s1_def k1_def k_def using p by simp
  obtain s2 where s2: "copy_mem nr p s1 = Inr (0, s2)"
    using assms(5,6) unfolding cp by (auto simp: kbind_eq_Inr Let_def split: if_splits)
  note fr = copy_mem_frame [OF s2]
  have cnt: "f_counts s2 = f_counts s" "i_counts s2 = i_counts s" and gd: "gdt s2 = gdt s"
    using fr by (simp_all add: s1_def)
  define k2 where "k2 = pk (fp s2)"
  define c where "c = cur k"
  have k2: "task k2 = (task k)[nr := p]" "current k2 = current k" "last_pid k2 = last_pid k"
    "\<And>q. q \<noteq> p \<Longrightarrow> tcb k2 q = tcb k q" "cur k2 = c"
    using pc by (simp_all add: k2_def fr(1) s1_def k1_def c_def)
  define k3 where "k3 = upd p (\<lambda>t. t\<lparr>t_filp := t_filp c, t_tty := t_tty c, t_umask := t_umask c, t_pwd := t_pwd c,
      t_root := t_root c, t_executable := t_executable c, t_library := t_library c,
      t_close_on_exec := t_close_on_exec c\<rparr>) k2"
  define k4 where "k4 = upd p (\<lambda>t. t\<lparr>t_state := TASK_RUNNING\<rparr>) (link_child p k3)"
  have res: "v = last_pid k4" "pk (fp s') = k4" "f_counts s' = fold count_up (t_filp c) (f_counts s)"
    "i_counts s' = fold count_up [t_pwd c, t_root c, t_executable c, t_library c] (i_counts s)"
    "pm (fp s') = pm (fp s2)"
    "gdt s' = (gdt s)(2 * nr + FIRST_TSS_ENTRY := set_tss_desc (p + tss_offset),
       2 * nr + FIRST_LDT_ENTRY := set_ldt_desc (p + ldt_offset))"
    using assms(5) unfolding cp s2 kbind_simps prod.case Let_def k2_def [symmetric] k2(5) k3_def [symmetric] k4_def [symmetric] cnt gd
    by auto
  have k3: "current k3 = current k" "cur k3 = c" "\<And>q. q \<noteq> p \<Longrightarrow> tcb k3 q = tcb k q" "task k3 = (task k)[nr := p]"
    "last_pid k3 = last_pid k"
    using k2 pc by (simp_all add: k3_def)
  have ch: "children k (current k) cs" using assms(2) by (simp add: k_def)
  have "children k3 (current k3) cs"
    unfolding k3(1)
  proof -
    have a: "kids (tcb k) (current k) 0 (t_p_cptr (cur k)) cs" "distinct cs" "current k \<notin> set cs" "current k \<noteq> 0"
      using ch by (auto simp: children_def)
    have "kids (tcb k3) (current k) 0 (t_p_cptr (cur k)) cs"
    proof (rule kids_cong [OF a(1)])
      fix q assume "q \<in> set cs"
      then have "q \<noteq> p" using pc(2) by auto
      then show "t_p_pptr (tcb k3 q) = t_p_pptr (tcb k q) \<and> t_p_ysptr (tcb k3 q) = t_p_ysptr (tcb k q) \<and>
        t_p_osptr (tcb k3 q) = t_p_osptr (tcb k q)" by (simp add: k3(3))
    qed
    moreover have "tcb k3 (current k) = tcb k (current k)" using k3(3) [of "current k"] pc(1) by auto
    ultimately show "children k3 (current k) cs" using a by (simp add: children_def)
  qed
  then have c4: "children (link_child p k3) (current k) (p # cs)"
    using link_child_children [of k3 cs p] p pc k3(1) by simp
  have "children k4 (current k) (p # cs)"
    using c4 by (rule children_cong) (simp add: k4_def)
  moreover have np: "t_p_cptr (cur k3) \<noteq> p"
    using ch kids_head [of "tcb k" "current k" 0 "t_p_cptr (cur k)" cs] hd_in_set [of cs] pc(2) p k3(2)
    unfolding children_def c_def by metis
  note lt = link_child_tcb [OF p _ np, unfolded k3(1), OF pc(1)]
  have t2: "tcb k2 p = (let b = child_init nr r p (k\<lparr>task := (task k)[nr := p]\<rparr>) in
     b\<lparr>t_start_code := of_nat nr * TASK_SIZE,
      t_ldt := (t_ldt b)[1 := set_base (t_ldt b ! 1) (of_nat nr * TASK_SIZE),
                         2 := set_base (t_ldt b ! 2) (of_nat nr * TASK_SIZE)]\<rparr>)"
    by (simp add: k2_def fr(1) s1_def k1_def Let_def)
  have t3: "tcb k3 p = (tcb k2 p)\<lparr>t_filp := t_filp c, t_tty := t_tty c, t_umask := t_umask c, t_pwd := t_pwd c,
      t_root := t_root c, t_executable := t_executable c, t_library := t_library c,
      t_close_on_exec := t_close_on_exec c\<rparr>" by (simp add: k3_def)
  have t4: "tcb k4 p = (tcb (link_child p k3) p)\<lparr>t_state := TASK_RUNNING\<rparr>" by (simp add: k4_def)
  have len: "length (t_ldt (cur k)) = 3" using assms(3) by (simp add: k_def)
  have "inherits c (tcb k4 p) \<and> t_pid (tcb k4 p) = last_pid k \<and> t_state (tcb k4 p) = TASK_RUNNING \<and>
      tss_eax (t_tss (tcb k4 p)) = 0 \<and> tss_eip (t_tss (tcb k4 p)) = fr_eip r \<and> tss_esp (t_tss (tcb k4 p)) = fr_esp r \<and>
      get_base (t_ldt (tcb k4 p) ! 1) = of_nat nr * TASK_SIZE \<and> get_base (t_ldt (tcb k4 p) ! 2) = of_nat nr * TASK_SIZE"
    using len pc(1)
    by (simp add: t4 lt(1) t3 t2 Let_def child_init_def child_tss_def inherits_def c_def get_set_base del: One_nat_def)
  moreover have "v = last_pid k" "task k4 = (task k)[nr := p]"
    by (simp_all add: res(1) k4_def lt k3)
  moreover have "f_counts s' a = f_counts s a + of_nat (count_list (t_filp c) a) \<and>
      i_counts s' a = i_counts s a + of_nat (count_list [t_pwd c, t_root c, t_executable c, t_library c] a)"
    if "a \<noteq> 0" for a
    unfolding res(3,4) using count_up_fold [OF that] by blast
  moreover have "cur k1 = cur k" using pc(1) by (simp add: k1_def)
  then have "copy_page_tables (get_base (t_ldt c ! 2)) (of_nat nr * TASK_SIZE) (get_limit (t_ldt c ! 2)) m =
      Inr (0, pm (fp s'))"
    using fr(5) by (simp add: s1_def c_def res(5))
  moreover have "gdt s' (2 * nr + FIRST_TSS_ENTRY) = set_tss_desc (p + tss_offset)"
    "gdt s' (2 * nr + FIRST_LDT_ENTRY) = set_ldt_desc (p + ldt_offset)"
    "\<forall>j. j \<noteq> 2 * nr + FIRST_TSS_ENTRY \<and> j \<noteq> 2 * nr + FIRST_LDT_ENTRY \<longrightarrow> gdt s' j = gdt s j"
    by (simp_all add: res(6) FIRST_LDT_ENTRY_def)
  ultimately show ?thesis
    using p g unfolding res(2) k_def [symmetric] c_def [symmetric] Let_def
    by (intro exI [of _ p] exI [of _ m]) blast
qed

definition fproc0 :: fproc where
  "fproc0 = \<lparr>fp = \<lparr>pu = \<lparr>uk = kern0, um = (\<lambda>_. 0), uv = []\<rparr>, pm = mem0\<rparr>,
     f_counts = (\<lambda>_. 0), i_counts = (\<lambda>_. 0), gdt = (\<lambda>_. (0, 0))\<rparr>"

definition fregs0 :: frame_regs where
  "fregs0 = \<lparr>fr_ebp = 0, fr_edi = 0, fr_esi = 0, fr_gs = 0, fr_ebx = 0, fr_ecx = 0, fr_edx = 0, fr_fs = 0x17,
     fr_es = 0x17, fr_ds = 0x17, fr_eip = 0x1234, fr_cs = 0x0f, fr_eflags = 0x202, fr_esp = 0x8000, fr_ss = 0x17\<rparr>"

lemma copy_process0: "\<exists>s'. copy_process 3 fregs0 fproc0 = Inr (2, s')"
proof -
  have "\<exists>i<PAGING_PAGES. mem_map mem0 ! i = 0" by (rule exI [of _ 0]) (simp add: mem0_def PAGING_PAGES_def)
  then obtain i where i: "i < PAGING_PAGES"
    "get_free_page mem0 = Inr (page_addr i, mem0\<lparr>mem_map := (mem_map mem0)[i := 1],
        phys := (\<lambda>b. if in_page (page_addr i) b then 0 else phys mem0 b)\<rparr>)"
    by (rule get_free_page_some [OF mem0_ok])
  define m where "m = mem0\<lparr>mem_map := (mem_map mem0)[i := 1], phys := (\<lambda>b. if in_page (page_addr i) b then 0 else phys mem0 b)\<rparr>"
  have ph: "phys m = (\<lambda>_. 0)" by (auto simp: m_def mem0_def)
  have ld: "ld a m = 0" for a by (simp add: ph get_fs_long_def)
  have p: "page_addr i \<noteq> 0" "page_addr i \<noteq> 0x2000" "page_addr i \<noteq> 0x1000" "page_addr i \<noteq> 0x3000"
    using page_addr_ge [OF i(1)] by (auto simp: LOW_MEM_def)
  have cpt: "copy_page_tables 0 0xC000000 0xA0000 m = Inr (0, invalidate m)"
  proof -
    have n: "unat (drop_bit 22 (0xA0000 + 0x3fffff :: u32)) = Suc 0" by simp
    show ?thesis unfolding copy_page_tables_def n by (simp add: ld)
  qed
  define k where "k = upd (page_addr i) (\<lambda>_. child_init 3 fregs0 (page_addr i) (kern0\<lparr>task := (task kern0)[3 := page_addr i]\<rparr>))
      (kern0\<lparr>task := (task kern0)[3 := page_addr i]\<rparr>)"
  have k: "t_ldt (cur k) = [(0, 0), (0x9f, 0xc0fa00), (0x9f, 0xc0f200)]" "last_pid k = 2"
    using p by (simp_all add: k_def kern0_def task0_def)
  have lb: "get_limit (0x9f, 0xc0fa00) = 0xA0000" "get_limit (0x9f, 0xc0f200) = 0xA0000" "get_base (0x9f, 0xc0fa00) = 0"
    "get_base (0x9f, 0xc0f200) = 0" by (simp_all add: get_limit_def get_base_def)
  have "\<exists>s2. copy_mem 3 (page_addr i) (fproc0\<lparr>fp := (set_pk k (fp fproc0))\<lparr>pm := m\<rparr>\<rparr>) = Inr (0, s2)"
    using cpt by (simp add: copy_mem_def k Let_def lb TASK_SIZE_def)
  then obtain s2 where s2: "copy_mem 3 (page_addr i) (fproc0\<lparr>fp := (set_pk k (fp fproc0))\<lparr>pm := m\<rparr>\<rparr>) = Inr (0, s2)" by blast
  have lp: "last_pid (pk (fp s2)) = 2" using copy_mem_frame(1) [OF s2] k(2) by simp
  have f: "pk (fp fproc0) = kern0" "pm (fp fproc0) = mem0" by (simp_all add: fproc0_def)
  show ?thesis
    unfolding copy_process_def f i(2) kbind_simps prod.case Let_def k_def [symmetric] m_def [symmetric]
    using p(1) s2 lp by simp
qed

theorem fork_child_witness:
  "\<exists>p s'. copy_process 3 fregs0 fproc0 = Inr (2, s') \<and> children (pk (fp s')) 0x2000 [p] \<and>
    tss_eax (t_tss (tcb (pk (fp s')) p)) = 0"
proof -
  obtain s' where s': "copy_process 3 fregs0 fproc0 = Inr (2, s')" using copy_process0 by blast
  have k: "pk (fp fproc0) = kern0" "pm (fp fproc0) = mem0" "current kern0 = 0x2000" by (simp_all add: fproc0_def kern0_def)
  have c: "children kern0 0x2000 []" "length (t_ldt (tcb kern0 0x2000)) = 3"
    by (simp_all add: children_def kern0_def task0_def)
  have n: "\<forall>i<PAGING_PAGES. mem_map mem0 ! i = 0 \<longrightarrow> page_addr i \<noteq> 0x2000 \<and> page_addr i \<notin> set []"
    using page_addr_ge by (fastforce simp: LOW_MEM_def)
  show ?thesis
    using fork_child [of fproc0 "[]", unfolded k, OF mem0_ok c n s'] s' by (auto simp: Let_def)
qed

section \<open>The pages \<open>verify_area\<close> visits\<close>

abbreviation write_verify_all :: "u32 list \<Rightarrow> mem kres \<Rightarrow> mem kres" where
  "write_verify_all ps r \<equiv> foldl (\<lambda>r p. kbind r (write_verify p)) r ps"

lemma write_verify_all_Inl: "write_verify_all ps (Inl e) = Inl e"
  by (induction ps) simp_all

lemma upt_Suc_map: "[0..<Suc n] = 0 # map Suc [0..<n]"
  by (simp add: map_Suc_upt upt_conv_Cons del: upt_Suc)

lemma verify_loop_pages:
  "sint sz \<le> 4096 * int n \<Longrightarrow> n = 0 \<or> 4096 * (int n - 1) < sint sz \<Longrightarrow>
   verify_loop start sz m = write_verify_all (map (\<lambda>i. start + 4096 * of_nat i) [0..<n]) (Inr m)"
proof (induction n arbitrary: start sz m)
  case 0
  then show ?case by (subst verify_loop.simps) (simp add: word_sle_eq)
next
  case (Suc n)
  then have pos: "0 < sint sz" by auto
  then have s: "0 <s sz" "\<not> sz \<le>s 0" by (auto simp: word_sless_alt word_sle_eq)
  have IH: "verify_loop (start + 4096) (sz - 4096) m' =
      write_verify_all (map (\<lambda>i. start + 4096 + 4096 * of_nat i) [0..<n]) (Inr m')" for m'
    by (rule Suc.IH) (use Suc.prems sint_minus_page [OF s(1)] in auto)
  have l: "map (\<lambda>i. start + 4096 * of_nat i) [0..<Suc n] = start # map (\<lambda>i. start + 4096 + 4096 * of_nat i) [0..<n]"
    unfolding upt_Suc_map by (simp add: algebra_simps)
  show ?case
    unfolding l using s(2) by (subst verify_loop.simps) (cases "write_verify start m"; simp add: IH write_verify_all_Inl)
qed

text \<open>C30: \<open>verify_area\<close> visits the pages of its area in order and no other page: \<open>write_verify\<close> runs once
  for every 4096 bytes from the page of the first byte on, and every byte of the area lies in a
  page that was visited.\<close>

theorem verify_area_pages:
  assumes "0 < n" "n < 2 ^ 30"
  shows "let P = (addr AND 0xfffff000) + get_base d; k = (unat addr mod 4096 + n + 4095) div 4096 in
    verify_area_mem d addr (of_nat n) m = write_verify_all (map (\<lambda>i. P + 4096 * of_nat i) [0..<k]) (Inr m) \<and>
    (\<forall>j<n. \<exists>i<k. in_page (P + 4096 * of_nat i) (get_base d + addr + of_nat j))"
proof -
  let ?o = "unat addr mod 4096"
  define k where "k = (?o + n + 4095) div 4096"
  have "(0xfff :: u32) = mask 12" by (simp add: mask_numeral)
  then have u: "unat (addr AND 0xfff) = ?o" using unat_and_mask [of addr 12] by simp
  have "of_nat (unat (addr AND 0xfff)) = addr AND 0xfff" by simp
  then have off: "addr AND 0xfff = of_nat ?o" unfolding u by simp
  have sz: "sint (of_nat n + (addr AND 0xfff) :: u32) = int (n + ?o)"
  proof -
    have "sint (of_nat (n + ?o) :: u32) = int (n + ?o)"
    proof (rule sint_of_nat_small)
      have "?o < 4096" by simp
      then show "n + ?o < 2 ^ (LENGTH(32) - 1)" using assms(2) by simp
    qed
    then show ?thesis by (simp add: off)
  qed
  have k: "n + ?o \<le> 4096 * k" "4096 * (k - 1) < n + ?o" "0 < k" using assms(1) unfolding k_def by linarith+
  have "verify_area_mem d addr (of_nat n) m =
    write_verify_all (map (\<lambda>i. (addr AND 0xfffff000) + get_base d + 4096 * of_nat i) [0..<k]) (Inr m)"
    unfolding verify_area_mem_def
  proof (rule verify_loop_pages)
    obtain l where l: "k = Suc l" using k(3) by (cases k) auto
    have "int (n + ?o) \<le> 4096 * int k" "4096 * int l < int (n + ?o)" using k(1,2) unfolding l by simp_all
    moreover have "int l = int k - 1" unfolding l by simp
    ultimately show "sint (of_nat n + (addr AND 0xfff) :: u32) \<le> 4096 * int k"
      "k = 0 \<or> 4096 * (int k - 1) < sint (of_nat n + (addr AND 0xfff) :: u32)" unfolding sz by (simp_all only: simp_thms)
  qed
  moreover have "\<exists>i<k. in_page ((addr AND 0xfffff000) + get_base d + 4096 * of_nat i) (get_base d + addr + of_nat j)"
    if j: "j < n" for j
  proof (intro exI conjI)
    let ?i = "(?o + j) div 4096"
    show "?i < k" using j unfolding k_def by (intro less_mult_imp_div_less) linarith
    have split: "addr = (addr AND 0xfffff000) + of_nat ?o"
    proof -
      have m: "(0xfff :: u32) = mask 12" "(0xfffff000 :: u32) = NOT (mask 12)" by (simp_all add: mask_numeral)
      have "(addr AND 0xfffff000) + (addr AND 0xfff) = (addr AND 0xfffff000) OR (addr AND 0xfff)"
        unfolding m by (rule disjunctive_add) (simp add: bit_simps)
      also have "\<dots> = addr" unfolding m by (rule bit_word_eqI) (auto simp: bit_simps)
      finally have "addr = (addr AND 0xfffff000) + (addr AND 0xfff)" ..
      then show ?thesis unfolding off .
    qed
    have gen: "B + (A + Z) + J - (A + B + I) = Z + J - I" for A B Z J I :: u32 by (simp add: algebra_simps)
    have q: "?o + j = 4096 * ?i + (?o + j) mod 4096" by simp
    have e: "of_nat ?o + of_nat j = (4096 * of_nat ?i + of_nat ((?o + j) mod 4096) :: u32)"
      using arg_cong [OF q, of "of_nat :: nat \<Rightarrow> u32"] by (simp only: of_nat_add of_nat_mult of_nat_numeral)
    have "get_base d + addr + of_nat j - ((addr AND 0xfffff000) + get_base d + 4096 * of_nat ?i) =
        (of_nat ?o + of_nat j - 4096 * of_nat ?i :: u32)"
      using gen [of "get_base d" "addr AND 0xfffff000" "of_nat ?o" "of_nat j" "4096 * of_nat ?i"]
      unfolding split [symmetric] .
    also have "\<dots> = of_nat ((?o + j) mod 4096)" unfolding e by simp
    finally show "in_page ((addr AND 0xfffff000) + get_base d + 4096 * of_nat ?i) (get_base d + addr + of_nat j)"
      by (simp add: unat_of_nat_small)
  qed
  ultimately show ?thesis unfolding Let_def k_def by blast
qed

theorem verify_area_pages_witness:
  "verify_area_mem (0x9f, 0xc0f200) 0x1ffe 4 mem0 = write_verify_all [0x1000, 0x2000] (Inr mem0)"
proof -
  have "get_base (0x9f, 0xc0f200) = 0" "[0..<2] = [0, 1 :: nat]" by (simp_all add: get_base_def upt_rec)
  then show ?thesis using verify_area_pages [of 4 "0x1ffe" "(0x9f, 0xc0f200)" mem0] by (simp add: Let_def)
qed

end
