(* ===== verification/Console.thy ===== *)
theory Console
  imports Memory
begin

text \<open>
  The text console, \<open>kernel/chr_drv/console.c\<close>: cursor, scrolling, the escape sequences of a VT100 and
  the output of single characters. The static variables of the file are the fields of \<open>console\<close>; the
  video memory is the byte memory \<open>c_vmem\<close>, and the registers of the display controller that
  \<open>set_origin\<close> and \<open>set_cursor\<close> write are \<open>c_crtc\<close>.

  \<open>con_char\<close> is one round of the loop of \<open>con_write\<close>. The one thing it does not do itself is the call
  \<open>respond(tty)\<close>, which types an answer on the terminal: it is the last statement of its case, and
  \<open>con_char\<close> returns \<open>True\<close> when it is due. The loop around it belongs to the terminal.
\<close>

record console =
  c_vmem :: bmem
  c_crtc :: "u8 \<Rightarrow> u8"
  c_cols :: u32
  c_lines :: u32
  c_base :: u32
  c_term :: u32
  c_row :: u32
  c_erase :: u16
  c_origin :: u32
  c_scr_end :: u32
  c_pos :: u32
  c_x :: u32
  c_y :: u32
  c_top :: u32
  c_bottom :: u32
  c_state :: u32
  c_npar :: u32
  c_par :: "u32 list"
  c_ques :: bool
  c_attr :: u32
  c_def_attr :: u32
  c_saved_x :: u32
  c_saved_y :: u32

abbreviation ch :: "char \<Rightarrow> u8" where "ch c \<equiv> of_char c"

section \<open>String instructions on the screen\<close>

definition put_short :: "u16 \<Rightarrow> u32 \<Rightarrow> bmem \<Rightarrow> bmem" where
  "put_short v a m = m(a := ucast v, a + 1 := ucast (drop_bit 8 v))"

definition get_short :: "u32 \<Rightarrow> bmem \<Rightarrow> u16" where
  "get_short a m = ucast (m a) OR push_bit 8 (ucast (m (a + 1)))"

text \<open>\<open>rep stosw\<close> after \<open>cld\<close>, and \<open>rep stosw\<close> and \<open>rep movsl\<close> after \<open>std\<close>.\<close>

fun stosw_up :: "nat \<Rightarrow> u16 \<Rightarrow> u32 \<Rightarrow> bmem \<Rightarrow> bmem" where
  "stosw_up 0 v a m = m"
| "stosw_up (Suc n) v a m = stosw_up n v (a + 2) (put_short v a m)"

fun stosw_down :: "nat \<Rightarrow> u16 \<Rightarrow> u32 \<Rightarrow> bmem \<Rightarrow> bmem" where
  "stosw_down 0 v a m = m"
| "stosw_down (Suc n) v a m = stosw_down n v (a - 2) (put_short v a m)"

fun movsl_down :: "nat \<Rightarrow> u32 \<Rightarrow> u32 \<Rightarrow> bmem \<Rightarrow> bmem" where
  "movsl_down 0 from to m = m"
| "movsl_down (Suc n) from to m = movsl_down n (from - 4) (to - 4) (put_fs_long (get_fs_long from m) to m)"

section \<open>Cursor and scrolling\<close>

definition gotoxy :: "u32 \<Rightarrow> u32 \<Rightarrow> console \<Rightarrow> console" where
  "gotoxy new_x new_y k =
     (if c_cols k < new_x \<or> c_lines k \<le> new_y then k
      else k\<lparr>c_x := new_x, c_y := new_y, c_pos := c_origin k + new_y * c_row k + push_bit 1 new_x\<rparr>)"

definition set_origin :: "console \<Rightarrow> console" where
  "set_origin k = k\<lparr>c_crtc := (c_crtc k)(12 := ucast (0xff AND drop_bit 9 (c_origin k - c_base k)),
                                       13 := ucast (0xff AND drop_bit 1 (c_origin k - c_base k)))\<rparr>"

definition set_cursor :: "console \<Rightarrow> console" where
  "set_cursor k = k\<lparr>c_crtc := (c_crtc k)(14 := ucast (0xff AND drop_bit 9 (c_pos k - c_base k)),
                                       15 := ucast (0xff AND drop_bit 1 (c_pos k - c_base k)))\<rparr>"

definition scrup :: "console \<Rightarrow> console" where
  "scrup k =
     (if c_top k = 0 \<and> c_bottom k = c_lines k then
        let k = k\<lparr>c_origin := c_origin k + c_row k, c_pos := c_pos k + c_row k, c_scr_end := c_scr_end k + c_row k\<rparr>
        in set_origin
          (if c_term k < c_scr_end k then
             let n = unat (drop_bit 1 ((c_lines k - 1) * c_cols k));
                 m = stosw_up (unat (c_cols k)) (c_erase k) (c_base k + 4 * of_nat n)
                       (movsl n (c_origin k) (c_base k) (c_vmem k))
             in k\<lparr>c_vmem := m, c_scr_end := c_scr_end k - (c_origin k - c_base k),
                  c_pos := c_pos k - (c_origin k - c_base k), c_origin := c_base k\<rparr>
           else k\<lparr>c_vmem := stosw_up (unat (c_cols k)) (c_erase k) (c_scr_end k - c_row k) (c_vmem k)\<rparr>)
      else
        let n = unat (drop_bit 1 ((c_bottom k - c_top k - 1) * c_cols k));
            to = c_origin k + c_row k * c_top k
        in k\<lparr>c_vmem := stosw_up (unat (c_cols k)) (c_erase k) (to + 4 * of_nat n)
                        (movsl n (c_origin k + c_row k * (c_top k + 1)) to (c_vmem k))\<rparr>)"

definition scrdown :: "console \<Rightarrow> console" where
  "scrdown k =
     (if c_bottom k \<le> c_top k then k
      else
        let n = unat (drop_bit 1 ((c_bottom k - c_top k - 1) * c_cols k));
            to = c_origin k + c_row k * c_bottom k - 4
        in k\<lparr>c_vmem := stosw_down (unat (c_cols k)) (c_erase k) (to - 4 * of_nat n + 2)
                        (movsl_down n (c_origin k + c_row k * (c_bottom k - 1) - 4) to (c_vmem k))\<rparr>)"

definition ri :: "console \<Rightarrow> console" where
  "ri k = (if c_top k < c_y k then k\<lparr>c_y := c_y k - 1, c_pos := c_pos k - c_row k\<rparr> else scrdown k)"

definition lf :: "console \<Rightarrow> console" where
  "lf k = (if c_y k + 1 < c_bottom k then k\<lparr>c_y := c_y k + 1, c_pos := c_pos k + c_row k\<rparr> else scrup k)"

definition cr :: "console \<Rightarrow> console" where
  "cr k = k\<lparr>c_pos := c_pos k - push_bit 1 (c_x k), c_x := 0\<rparr>"

definition del :: "console \<Rightarrow> console" where
  "del k = (if c_x k \<noteq> 0 then k\<lparr>c_pos := c_pos k - 2, c_x := c_x k - 1,
                               c_vmem := put_short (c_erase k) (c_pos k - 2) (c_vmem k)\<rparr> else k)"

section \<open>Control sequences\<close>

definition csi_J :: "u32 \<Rightarrow> console \<Rightarrow> console" where
  "csi_J vpar k =
     (let fill = (\<lambda>count start. k\<lparr>c_vmem := stosw_up (unat count) (c_erase k) start (c_vmem k)\<rparr>) in
      if vpar = 0 then fill (drop_bit 1 (c_scr_end k - c_pos k)) (c_pos k)
      else if vpar = 1 then fill (drop_bit 1 (c_pos k - c_origin k)) (c_origin k)
      else if vpar = 2 then fill (c_cols k * c_lines k) (c_origin k)
      else k)"

definition csi_K :: "u32 \<Rightarrow> console \<Rightarrow> console" where
  "csi_K vpar k =
     (let fill = (\<lambda>count start. k\<lparr>c_vmem := stosw_up (unat count) (c_erase k) start (c_vmem k)\<rparr>) in
      if vpar = 0 then (if c_cols k \<le> c_x k then k else fill (c_cols k - c_x k) (c_pos k))
      else if vpar = 1 then fill (if c_x k < c_cols k then c_x k else c_cols k) (c_pos k - push_bit 1 (c_x k))
      else if vpar = 2 then fill (c_cols k) (c_pos k - push_bit 1 (c_x k))
      else k)"

definition sgr :: "u32 \<Rightarrow> u32 \<Rightarrow> u32 \<Rightarrow> u32" where
  "sgr def_attr p attr =
     (if p = 0 then 0x07
      else if p = 1 \<or> p = 4 then 0x0f
      else if p = 5 then attr OR 0x80
      else if p = 7 then push_bit 4 attr OR drop_bit 4 attr
      else if p = 22 then attr AND 0xf7
      else if p = 24 then attr AND 0xfe
      else if p = 25 then attr AND 0x7f
      else if p = 27 then def_attr
      else if p = 39 then (attr AND 0xf0) OR (def_attr AND 0x0f)
      else if p = 49 then (attr AND 0x0f) OR (def_attr AND 0xf0)
      else if 30 \<le> p \<and> p \<le> 38 then (attr AND 0xf0) OR (p - 30)
      else if 40 \<le> p \<and> p \<le> 48 then (attr AND 0x0f) OR push_bit 4 (p - 40)
      else attr)"

definition csi_m :: "console \<Rightarrow> console" where
  "csi_m k = k\<lparr>c_attr := fold (sgr (c_def_attr k)) (take (unat (c_npar k) + 1) (c_par k)) (c_attr k)\<rparr>"

fun shift_left :: "nat \<Rightarrow> u32 \<Rightarrow> u16 \<Rightarrow> bmem \<Rightarrow> bmem" where
  "shift_left 0 p v m = put_short v p m"
| "shift_left (Suc n) p v m = shift_left n (p + 2) v (put_short (get_short (p + 2) m) p m)"

definition delete_char :: "console \<Rightarrow> console" where
  "delete_char k =
     (if c_cols k \<le> c_x k then k
      else k\<lparr>c_vmem := shift_left (unat (c_cols k) - unat (c_x k) - 1) (c_pos k) (c_erase k) (c_vmem k)\<rparr>)"

definition delete_line :: "console \<Rightarrow> console" where
  "delete_line k = (scrup (k\<lparr>c_top := c_y k, c_bottom := c_lines k\<rparr>))\<lparr>c_top := c_top k, c_bottom := c_bottom k\<rparr>"

fun shift_right :: "nat \<Rightarrow> u32 \<Rightarrow> u16 \<Rightarrow> bmem \<Rightarrow> bmem" where
  "shift_right 0 p old m = m"
| "shift_right (Suc n) p old m = shift_right n (p + 2) (get_short p m) (put_short old p m)"

definition insert_char :: "console \<Rightarrow> console" where
  "insert_char k =
     k\<lparr>c_vmem := shift_right (unat (c_cols k) - unat (c_x k)) (c_pos k) (c_erase k) (c_vmem k)\<rparr>"

definition insert_line :: "console \<Rightarrow> console" where
  "insert_line k = (scrdown (k\<lparr>c_top := c_y k, c_bottom := c_lines k\<rparr>))\<lparr>c_top := c_top k, c_bottom := c_bottom k\<rparr>"

text \<open>The repetition count of \<open>csi_at\<close>, \<open>csi_L\<close>, \<open>csi_P\<close> and \<open>csi_M\<close>.\<close>

definition clamp :: "u32 \<Rightarrow> u32 \<Rightarrow> nat" where
  "clamp nr most = unat (if most < nr then most else if nr = 0 then 1 else nr)"

definition csi_at :: "u32 \<Rightarrow> console \<Rightarrow> console" where
  "csi_at nr k = (insert_char ^^ clamp nr (c_cols k)) k"

definition csi_L :: "u32 \<Rightarrow> console \<Rightarrow> console" where
  "csi_L nr k = (insert_line ^^ clamp nr (c_lines k)) k"

definition csi_P :: "u32 \<Rightarrow> console \<Rightarrow> console" where
  "csi_P nr k = (delete_char ^^ clamp nr (c_cols k)) k"

definition csi_M :: "u32 \<Rightarrow> console \<Rightarrow> console" where
  "csi_M nr k = (delete_line ^^ clamp nr (c_lines k)) k"

definition save_cur :: "console \<Rightarrow> console" where
  "save_cur k = k\<lparr>c_saved_x := c_x k, c_saved_y := c_y k\<rparr>"

definition restore_cur :: "console \<Rightarrow> console" where
  "restore_cur k = gotoxy (c_saved_x k) (c_saved_y k) k"

section \<open>Characters\<close>

definition ESnormal :: u32 where "ESnormal = 0"
definition ESesc :: u32 where "ESesc = 1"
definition ESsquare :: u32 where "ESsquare = 2"
definition ESgetpars :: u32 where "ESgetpars = 3"
definition ESgotpars :: u32 where "ESgotpars = 4"
definition ESfunckey :: u32 where "ESfunckey = 5"
definition ESsetterm :: u32 where "ESsetterm = 6"
definition ESsetgraph :: u32 where "ESsetgraph = 7"

lemmas ES_defs = ESnormal_def ESesc_def ESsquare_def ESgetpars_def ESgotpars_def ESfunckey_def
  ESsetterm_def ESsetgraph_def

text \<open>\<open>x >= video_num_columns\<close>: the cursor goes to the next line.\<close>

definition wrap_line :: "console \<Rightarrow> console" where
  "wrap_line k = lf (k\<lparr>c_x := c_x k - c_cols k, c_pos := c_pos k - c_row k\<rparr>)"

definition put_char :: "u8 \<Rightarrow> console \<Rightarrow> console" where
  "put_char c k =
     (let k = (if c_cols k \<le> c_x k then wrap_line k else k)
      in k\<lparr>c_vmem := (c_vmem k)(c_pos k := c, c_pos k + 1 := ucast (c_attr k)),
           c_pos := c_pos k + 2, c_x := c_x k + 1\<rparr>)"

definition backspace :: "console \<Rightarrow> console" where
  "backspace k = (if c_x k \<noteq> 0 then k\<lparr>c_x := c_x k - 1, c_pos := c_pos k - 2\<rparr> else k)"

definition tab :: "console \<Rightarrow> console" where
  "tab k =
     (let c = 8 - (c_x k AND 7);
          k = k\<lparr>c_x := c_x k + c, c_pos := c_pos k + push_bit 1 c\<rparr>
      in if c_cols k < c_x k then wrap_line k else k)"

definition con_normal :: "u8 \<Rightarrow> console \<Rightarrow> console" where
  "con_normal c k =
     (if 31 <s c \<and> c <s 127 then put_char c k
      else if c = 27 then k\<lparr>c_state := ESesc\<rparr>
      else if c = 10 \<or> c = 11 \<or> c = 12 then lf k
      else if c = 13 then cr k
      else if c = 127 then del k
      else if c = 8 then backspace k
      else if c = 9 then tab k
      else k)"

definition con_esc :: "u8 \<Rightarrow> console \<Rightarrow> console \<times> bool" where
  "con_esc c k =
     (let k = k\<lparr>c_state := ESnormal\<rparr> in
      if c = ch CHR ''['' then (k\<lparr>c_state := ESsquare\<rparr>, False)
      else if c = ch CHR ''E'' then (gotoxy 0 (c_y k + 1) k, False)
      else if c = ch CHR ''M'' then (ri k, False)
      else if c = ch CHR ''D'' then (lf k, False)
      else if c = ch CHR ''Z'' then (k, True)
      else if c = ch CHR ''7'' then (save_cur k, False)
      else if c = ch CHR ''8'' then (restore_cur k, False)
      else if c = ch CHR ''('' \<or> c = ch CHR '')'' then (k\<lparr>c_state := ESsetgraph\<rparr>, False)
      else if c = ch CHR ''P'' then (k\<lparr>c_state := ESsetterm\<rparr>, False)
      else if c = ch CHR ''#'' then (k\<lparr>c_state := - 1\<rparr>, False)
      else if c = ch CHR ''c'' then (k\<lparr>c_top := 0, c_bottom := c_lines k\<rparr>, False)
      else (k, False))"

text \<open>\<open>par[i]\<close> with \<open>if (par[i]) par[i]--\<close> and with \<open>if (!par[i]) par[i]++\<close>.\<close>

definition par_dec :: "nat \<Rightarrow> console \<Rightarrow> console" where
  "par_dec i k = (if c_par k ! i \<noteq> 0 then k\<lparr>c_par := (c_par k)[i := c_par k ! i - 1]\<rparr> else k)"

definition par_min1 :: "console \<Rightarrow> console" where
  "par_min1 k = (if c_par k ! 0 = 0 then k\<lparr>c_par := (c_par k)[0 := 1]\<rparr> else k)"

definition set_region :: "console \<Rightarrow> console" where
  "set_region k =
     (let k = par_dec 0 k;
          k = (if c_par k ! 1 = 0 then k\<lparr>c_par := (c_par k)[1 := c_lines k]\<rparr> else k)
      in if c_par k ! 0 < c_par k ! 1 \<and> c_par k ! 1 \<le> c_lines k
         then k\<lparr>c_top := c_par k ! 0, c_bottom := c_par k ! 1\<rparr> else k)"

definition con_csi :: "u8 \<Rightarrow> console \<Rightarrow> console" where
  "con_csi c k =
     (if c = ch CHR ''G'' \<or> c = ch CHR ''`'' then let k = par_dec 0 k in gotoxy (c_par k ! 0) (c_y k) k
      else if c = ch CHR ''A'' then let k = par_min1 k in gotoxy (c_x k) (c_y k - c_par k ! 0) k
      else if c = ch CHR ''B'' \<or> c = ch CHR ''e'' then let k = par_min1 k in gotoxy (c_x k) (c_y k + c_par k ! 0) k
      else if c = ch CHR ''C'' \<or> c = ch CHR ''a'' then let k = par_min1 k in gotoxy (c_x k + c_par k ! 0) (c_y k) k
      else if c = ch CHR ''D'' then let k = par_min1 k in gotoxy (c_x k - c_par k ! 0) (c_y k) k
      else if c = ch CHR ''E'' then let k = par_min1 k in gotoxy 0 (c_y k + c_par k ! 0) k
      else if c = ch CHR ''F'' then let k = par_min1 k in gotoxy 0 (c_y k - c_par k ! 0) k
      else if c = ch CHR ''d'' then
        let k = (if c_par k ! 0 = 0 then k\<lparr>c_par := (c_par k)[0 := c_par k ! 0 - 1]\<rparr> else k)
        in gotoxy (c_x k) (c_par k ! 0) k
      else if c = ch CHR ''H'' \<or> c = ch CHR ''f'' then
        let k = par_dec 1 (par_dec 0 k) in gotoxy (c_par k ! 1) (c_par k ! 0) k
      else if c = ch CHR ''J'' then csi_J (c_par k ! 0) k
      else if c = ch CHR ''K'' then csi_K (c_par k ! 0) k
      else if c = ch CHR ''L'' then csi_L (c_par k ! 0) k
      else if c = ch CHR ''M'' then csi_M (c_par k ! 0) k
      else if c = ch CHR ''P'' then csi_P (c_par k ! 0) k
      else if c = ch CHR ''@'' then csi_at (c_par k ! 0) k
      else if c = ch CHR ''m'' then csi_m k
      else if c = ch CHR ''r'' then set_region k
      else if c = ch CHR ''s'' then save_cur k
      else if c = ch CHR ''u'' then restore_cur k
      else k)"

definition con_gotpars :: "u8 \<Rightarrow> console \<Rightarrow> console" where
  "con_gotpars c k =
     (let k = k\<lparr>c_state := ESnormal\<rparr> in if c_ques k then k\<lparr>c_ques := False\<rparr> else con_csi c k)"

definition con_getpars :: "u8 \<Rightarrow> console \<Rightarrow> console" where
  "con_getpars c k =
     (if c = ch CHR '';'' \<and> c_npar k < 15 then k\<lparr>c_npar := c_npar k + 1\<rparr>
      else if ch CHR ''0'' \<le>s c \<and> c \<le>s ch CHR ''9'' then
        let i = unat (c_npar k) in k\<lparr>c_par := (c_par k)[i := 10 * c_par k ! i + scast c - 48]\<rparr>
      else con_gotpars c (k\<lparr>c_state := ESgotpars\<rparr>))"

definition con_square :: "u8 \<Rightarrow> console \<Rightarrow> console" where
  "con_square c k =
     (let k = k\<lparr>c_par := replicate 16 0, c_npar := 0, c_state := ESgetpars\<rparr> in
      if c = ch CHR ''['' then k\<lparr>c_state := ESfunckey\<rparr>
      else let k = k\<lparr>c_ques := (c = ch CHR ''?'')\<rparr> in if c_ques k then k else con_getpars c k)"

definition con_setterm :: "u8 \<Rightarrow> console \<Rightarrow> console" where
  "con_setterm c k =
     (let k = k\<lparr>c_state := ESnormal\<rparr> in
      if c = ch CHR ''S''
      then k\<lparr>c_def_attr := c_attr k, c_erase := (c_erase k AND 0xff) OR push_bit 8 (ucast (c_attr k))\<rparr>
      else k)"

definition con_char :: "u8 \<Rightarrow> console \<Rightarrow> console \<times> bool" where
  "con_char c k =
     (if c_state k = ESnormal then (con_normal c k, False)
      else if c_state k = ESesc then con_esc c k
      else if c_state k = ESsquare then (con_square c k, False)
      else if c_state k = ESgetpars then (con_getpars c k, False)
      else if c_state k = ESgotpars then (con_gotpars c k, False)
      else if c_state k = ESsetterm then (con_setterm c k, False)
      else (k, False))"

text \<open>The end of \<open>con_write\<close> and of \<open>con_print\<close>.\<close>

definition con_flush :: "console \<Rightarrow> console" where
  "con_flush k = set_cursor (gotoxy (c_x k) (c_y k) k)"

definition con_print_char :: "u8 \<Rightarrow> console \<Rightarrow> console" where
  "con_print_char c k =
     (if 31 <s c \<and> c <s 127 then put_char c k
      else if c = 10 \<or> c = 11 \<or> c = 12 then lf k
      else if c = 13 then cr k
      else if c = 127 then del k
      else if c = 8 then backspace k
      else k)"

definition con_print :: "u8 list \<Rightarrow> console \<Rightarrow> console" where
  "con_print buf k = con_flush (fold con_print_char buf k)"

section \<open>Starting the console\<close>

text \<open>The BIOS data \<open>con_init\<close> reads: cursor, video mode and columns, lines, EGA information. The values a
  static variable starts with are those of the argument.\<close>

definition con_init :: "u8 \<Rightarrow> u8 \<Rightarrow> u16 \<Rightarrow> u16 \<Rightarrow> u16 \<Rightarrow> console \<Rightarrow> console" where
  "con_init orig_x orig_y mode lns ega_bx k =
     (let cols = drop_bit 8 (ucast mode AND 0xff00);
          nlines = ucast lns AND 0xff;
          mono = (ucast mode AND 0xff = (7 :: u32));
          ega = (ega_bx AND 0xff \<noteq> 0x10);
          base = (if mono then 0xb0000 else 0xb8000);
          trm = (if mono then (if ega then 0xb8000 else 0xb2000) else (if ega then 0xc0000 else 0xba000));
          desc = (if mono then (if ega then [ch CHR ''E'', ch CHR ''G'', ch CHR ''A'', ch CHR ''m'']
                                else [ch CHR ''*'', ch CHR ''M'', ch CHR ''D'', ch CHR ''A''])
                  else (if ega then [ch CHR ''E'', ch CHR ''G'', ch CHR ''A'', ch CHR ''c'']
                        else [ch CHR ''*'', ch CHR ''C'', ch CHR ''G'', ch CHR ''A'']));
          ptr = base + cols * 2 - 8;
          m = fold (\<lambda>i m. m(ptr + 2 * of_nat i := desc ! i)) [0..<4] (c_vmem k);
          k = k\<lparr>c_cols := cols, c_row := cols * 2, c_lines := nlines, c_erase := 0x0720, c_base := base, c_term := trm,
                c_vmem := m, c_origin := base, c_scr_end := base + nlines * (cols * 2), c_top := 0, c_bottom := nlines\<rparr>
      in set_cursor (gotoxy (ucast orig_x) (ucast orig_y) k))"

section \<open>The screen stays in the video memory\<close>

text \<open>The geometry of a display, which no operation changes.\<close>

record geom =
  g_cols :: nat
  g_lines :: nat
  g_base :: nat
  g_term :: nat

definition geom_ok :: "geom \<Rightarrow> bool" where
  "geom_ok g \<longleftrightarrow> even (g_cols g) \<and> 8 \<le> g_cols g \<and> g_cols g < 256 \<and> 0 < g_lines g \<and> g_lines g < 256 \<and>
     g_base g + g_lines g * (2 * g_cols g) \<le> g_term g \<and> g_term g \<le> 2 ^ 20 \<and> 8 \<le> g_base g"

text \<open>Memory that agrees with \<open>m0\<close> outside the video memory.\<close>

definition keeps :: "geom \<Rightarrow> bmem \<Rightarrow> bmem \<Rightarrow> bool" where
  "keeps g m0 m \<longleftrightarrow> (\<forall>b. unat b < g_base g \<or> g_term g \<le> unat b \<longrightarrow> m b = m0 b)"

text \<open>The console with the window at \<open>w\<close>, the cursor in column \<open>x\<close> of line \<open>y\<close>, and the scrolling region
  from \<open>t\<close> up to but not including \<open>b\<close>. Column \<open>g_cols\<close> is allowed: the line break comes with the next
  character.\<close>

definition con_at :: "geom \<Rightarrow> bmem \<Rightarrow> nat \<Rightarrow> nat \<Rightarrow> nat \<Rightarrow> nat \<Rightarrow> nat \<Rightarrow> console \<Rightarrow> bool" where
  "con_at g m0 w x y t b k \<longleftrightarrow>
     c_cols k = of_nat (g_cols g) \<and> c_lines k = of_nat (g_lines g) \<and> c_row k = of_nat (2 * g_cols g) \<and>
     c_base k = of_nat (g_base g) \<and> c_term k = of_nat (g_term g) \<and> c_origin k = of_nat w \<and>
     c_scr_end k = of_nat (w + g_lines g * (2 * g_cols g)) \<and> c_pos k = of_nat (w + y * (2 * g_cols g) + 2 * x) \<and>
     c_x k = of_nat x \<and> c_y k = of_nat y \<and> c_top k = of_nat t \<and> c_bottom k = of_nat b \<and>
     g_base g \<le> w \<and> w + g_lines g * (2 * g_cols g) \<le> g_term g \<and>
     x \<le> g_cols g \<and> y < g_lines g \<and> t < b \<and> b \<le> g_lines g \<and>
     length (c_par k) = 16 \<and> c_npar k \<le> 15 \<and> keeps g m0 (c_vmem k)"

definition con_inv :: "geom \<Rightarrow> bmem \<Rightarrow> console \<Rightarrow> bool" where
  "con_inv g m0 k \<longleftrightarrow> geom_ok g \<and> (\<exists>w x y t b. con_at g m0 w x y t b k)"

lemma con_invE:
  assumes "con_inv g m0 k"
  obtains w x y t b where "geom_ok g" "con_at g m0 w x y t b k"
  using assms unfolding con_inv_def by blast

lemma con_invI: "geom_ok g \<Longrightarrow> con_at g m0 w x y t b k \<Longrightarrow> con_inv g m0 k"
  unfolding con_inv_def by blast

subsection \<open>Writes to the video memory\<close>

lemma of_nat_byte:
  assumes "n < 2 ^ 20"
  shows "unat (of_nat n :: u32) = n"
  using assms by (intro unat_of_nat_small) simp

lemma keeps_byte:
  assumes "keeps g m0 m" "g_base g \<le> a" "a < g_term g" "g_term g \<le> 2 ^ 20"
  shows "keeps g m0 (m(of_nat a := v))"
proof -
  have "unat (of_nat a :: u32) = a" using assms(3,4) by (intro of_nat_byte) simp
  then show ?thesis using assms(1-3) by (auto simp: keeps_def)
qed

lemma keeps_put_short:
  assumes "keeps g m0 m" "g_base g \<le> a" "a + 2 \<le> g_term g" "g_term g \<le> 2 ^ 20"
  shows "keeps g m0 (put_short v (of_nat a) m)"
proof -
  have "keeps g m0 ((m(of_nat a := ucast v))(of_nat (a + 1) := ucast (drop_bit 8 v)))"
    using assms by (intro keeps_byte) simp_all
  then show ?thesis by (simp add: put_short_def add.commute)
qed

lemma keeps_put_long:
  assumes "keeps g m0 m" "g_base g \<le> a" "a + 4 \<le> g_term g" "g_term g \<le> 2 ^ 20"
  shows "keeps g m0 (put_fs_long v (of_nat a) m)"
proof -
  have "keeps g m0 ((((m(of_nat a := ucast v))(of_nat (a + 1) := ucast (drop_bit 8 v)))
      (of_nat (a + 2) := ucast (drop_bit 16 v)))(of_nat (a + 3) := ucast (drop_bit 24 v)))"
    using assms by (intro keeps_byte) simp_all
  then show ?thesis by (simp add: put_fs_long_def add.commute)
qed

lemma keeps_stosw_up:
  "keeps g m0 m \<Longrightarrow> g_base g \<le> a \<Longrightarrow> a + 2 * n \<le> g_term g \<Longrightarrow> g_term g \<le> 2 ^ 20 \<Longrightarrow>
    keeps g m0 (stosw_up n v (of_nat a) m)"
proof (induction n arbitrary: a m)
  case (Suc n)
  have "keeps g m0 (stosw_up n v (of_nat (a + 2)) (put_short v (of_nat a) m))"
    using Suc.prems by (intro Suc.IH keeps_put_short) simp_all
  then show ?case by (simp add: add.commute)
qed simp

lemma keeps_movsl:
  "keeps g m0 m \<Longrightarrow> g_base g \<le> a \<Longrightarrow> a + 4 * n \<le> g_term g \<Longrightarrow> g_term g \<le> 2 ^ 20 \<Longrightarrow>
    keeps g m0 (movsl n from (of_nat a) m)"
proof (induction n arbitrary: a m "from")
  case (Suc n)
  have "keeps g m0 (movsl n (from + 4) (of_nat (a + 4)) (put_fs_long (get_fs_long from m) (of_nat a) m))"
    using Suc.prems by (intro Suc.IH keeps_put_long) simp_all
  then show ?case by (simp add: add.commute)
qed simp

text \<open>Downwards, from the end \<open>e\<close> of the area.\<close>

lemma keeps_stosw_down:
  "keeps g m0 m \<Longrightarrow> g_base g + 2 * n \<le> e \<Longrightarrow> e \<le> g_term g \<Longrightarrow> g_term g \<le> 2 ^ 20 \<Longrightarrow>
    keeps g m0 (stosw_down n v (of_nat e - 2) m)"
proof (induction n arbitrary: e m)
  case (Suc n)
  have e: "of_nat e - 2 = (of_nat (e - 2) :: u32)" using Suc.prems(2) by (simp add: of_nat_diff)
  have "keeps g m0 (put_short v (of_nat (e - 2)) m)" using Suc.prems by (intro keeps_put_short) simp_all
  then have "keeps g m0 (stosw_down n v (of_nat (e - 2) - 2) (put_short v (of_nat (e - 2)) m))"
    using Suc.prems by (intro Suc.IH) simp_all
  then show ?case by (simp only: stosw_down.simps e)
qed simp

lemma keeps_movsl_down:
  "keeps g m0 m \<Longrightarrow> g_base g + 4 * n \<le> e \<Longrightarrow> e \<le> g_term g \<Longrightarrow> g_term g \<le> 2 ^ 20 \<Longrightarrow>
    keeps g m0 (movsl_down n from (of_nat e - 4) m)"
proof (induction n arbitrary: e m "from")
  case (Suc n)
  have e: "of_nat e - 4 = (of_nat (e - 4) :: u32)" using Suc.prems(2) by (simp add: of_nat_diff)
  have "keeps g m0 (put_fs_long (get_fs_long from m) (of_nat (e - 4)) m)" using Suc.prems by (intro keeps_put_long) simp_all
  then have "keeps g m0 (movsl_down n (from - 4) (of_nat (e - 4) - 4) (put_fs_long (get_fs_long from m) (of_nat (e - 4)) m))"
    using Suc.prems by (intro Suc.IH) simp_all
  then show ?case by (simp only: movsl_down.simps e)
qed simp

lemma keeps_shift_left:
  "keeps g m0 m \<Longrightarrow> g_base g \<le> a \<Longrightarrow> a + 2 * n + 2 \<le> g_term g \<Longrightarrow> g_term g \<le> 2 ^ 20 \<Longrightarrow>
    keeps g m0 (shift_left n (of_nat a) v m)"
proof (induction n arbitrary: a m)
  case (Suc n)
  have "keeps g m0 (shift_left n (of_nat (a + 2)) v (put_short (get_short (of_nat (a + 2)) m) (of_nat a) m))"
    using Suc.prems by (intro Suc.IH keeps_put_short) simp_all
  then show ?case by (simp add: add.commute)
qed (simp add: keeps_put_short)

lemma keeps_shift_right:
  "keeps g m0 m \<Longrightarrow> g_base g \<le> a \<Longrightarrow> a + 2 * n \<le> g_term g \<Longrightarrow> g_term g \<le> 2 ^ 20 \<Longrightarrow>
    keeps g m0 (shift_right n (of_nat a) v m)"
proof (induction n arbitrary: a m v)
  case (Suc n)
  have "keeps g m0 (shift_right n (of_nat (a + 2)) (get_short (of_nat a) m) (put_short v (of_nat a) m))"
    using Suc.prems by (intro Suc.IH keeps_put_short) simp_all
  then show ?case by (simp add: add.commute)
qed simp

subsection \<open>Every operation keeps the invariant\<close>

lemma small_words:
  "a < 2 ^ 20 \<Longrightarrow> b < 2 ^ 20 \<Longrightarrow> (of_nat a :: u32) < of_nat b \<longleftrightarrow> a < b"
  "a < 2 ^ 20 \<Longrightarrow> b < 2 ^ 20 \<Longrightarrow> (of_nat a :: u32) \<le> of_nat b \<longleftrightarrow> a \<le> b"
  "a < 2 ^ 20 \<Longrightarrow> b < 2 ^ 20 \<Longrightarrow> (of_nat a :: u32) = of_nat b \<longleftrightarrow> a = b"
  by (simp_all add: word_less_nat_alt word_le_nat_alt word_eq_iff_unsigned [where ?'a = nat] of_nat_byte)

lemma push_bit_1: "push_bit 1 (w :: u32) = 2 * w"
  by (simp add: push_bit_eq_mult)

text \<open>The numbers of a geometry are small.\<close>

lemma geom_small:
  assumes "geom_ok g" "i \<le> g_lines g"
  shows "i * (2 * g_cols g) \<le> g_lines g * (2 * g_cols g)" "g_lines g * (2 * g_cols g) < 2 ^ 18"
    "i * g_cols g < 2 ^ 17"
proof -
  have "g_lines g * (2 * g_cols g) \<le> 255 * (2 * 255)" using assms(1) by (intro mult_mono) (auto simp: geom_ok_def)
  then show b: "g_lines g * (2 * g_cols g) < 2 ^ 18" by simp
  show a: "i * (2 * g_cols g) \<le> g_lines g * (2 * g_cols g)" using assms(2) by (intro mult_mono) simp_all
  have "i * (2 * g_cols g) = 2 * (i * g_cols g)" by simp
  moreover have "i * (2 * g_cols g) < 2 ^ 18" using a b by (rule le_less_trans)
  ultimately have "2 * (i * g_cols g) < 2 * 2 ^ 17" by simp
  then show "i * g_cols g < 2 ^ 17" by (simp only: nat_mult_less_cancel1 zero_less_numeral)
qed

lemma inv_gotoxy:
  assumes "con_inv g m0 k"
  shows "con_inv g m0 (gotoxy a c k)"
proof (cases "c_cols k < a \<or> c_lines k \<le> c")
  case True
  then show ?thesis using assms by (simp add: gotoxy_def)
next
  case False
  from assms obtain w x y t b where g: "geom_ok g" and k: "con_at g m0 w x y t b k" by (rule con_invE)
  have "g_cols g < 2 ^ 20" "g_lines g < 2 ^ 20" using g by (auto simp: geom_ok_def)
  then have "unat a \<le> g_cols g" "unat c < g_lines g"
    using False k by (auto simp: con_at_def word_less_nat_alt word_le_nat_alt of_nat_byte)
  then have "con_at g m0 w (unat a) (unat c) t b (gotoxy a c k)"
    using k False by (simp add: con_at_def gotoxy_def push_bit_1)
  with g show ?thesis by (rule con_invI)
qed

lemma unat_half: "z < 2 ^ 20 \<Longrightarrow> unat (drop_bit 1 (of_nat z :: u32)) = z div 2"
  unfolding unat_drop_bit_eq by (simp add: drop_bit_eq_div of_nat_byte)

lemma half_rows:
  assumes "geom_ok g" "t < b" "b \<le> g_lines g"
  shows "4 * unat (drop_bit 1 ((of_nat b - of_nat t - 1) * of_nat (g_cols g) :: u32)) = (b - t - 1) * (2 * g_cols g)"
proof -
  have "(of_nat b - of_nat t - 1 :: u32) = of_nat (b - t - 1)" using assms(2) by (simp add: of_nat_diff)
  then have e: "(of_nat b - of_nat t - 1) * of_nat (g_cols g) = (of_nat ((b - t - 1) * g_cols g) :: u32)" by simp
  have "(b - t - 1) * g_cols g < 2 ^ 17" using geom_small(3) [OF assms(1), of "b - t - 1"] assms(3) by simp
  then have "(b - t - 1) * g_cols g < 2 ^ 20" by simp
  note h = unat_half [OF this]
  have "even ((b - t - 1) * g_cols g)" using assms(1) by (simp add: geom_ok_def)
  then have "2 * ((b - t - 1) * g_cols g div 2) = (b - t - 1) * g_cols g" by simp
  then show ?thesis unfolding e h by linarith
qed

lemma con_at_vmem: "con_at g m0 w x y t b k \<Longrightarrow> keeps g m0 m \<Longrightarrow> con_at g m0 w x y t b (k\<lparr>c_vmem := m\<rparr>)"
  by (simp add: con_at_def)

lemma con_at_fields:
  assumes "con_at g m0 w x y t b k"
  shows "c_cols k = of_nat (g_cols g)" "c_lines k = of_nat (g_lines g)" "c_row k = of_nat (2 * g_cols g)"
    "c_base k = of_nat (g_base g)" "c_term k = of_nat (g_term g)" "c_origin k = of_nat w"
    "c_scr_end k = of_nat (w + g_lines g * (2 * g_cols g))" "c_pos k = of_nat (w + y * (2 * g_cols g) + 2 * x)"
    "c_x k = of_nat x" "c_y k = of_nat y" "c_top k = of_nat t" "c_bottom k = of_nat b"
  using assms unfolding con_at_def by blast+

lemma con_at_bounds:
  assumes "geom_ok g" "con_at g m0 w x y t b k"
  shows "keeps g m0 (c_vmem k)" "g_base g \<le> w" "w + g_lines g * (2 * g_cols g) \<le> g_term g" "x \<le> g_cols g"
    "y < g_lines g" "t < b" "b \<le> g_lines g" "g_term g \<le> 2 ^ 20" "g_cols g < 256" "g_lines g < 256"
    "g_base g + g_lines g * (2 * g_cols g) \<le> g_term g" "2 * g_cols g \<le> g_lines g * (2 * g_cols g)" "8 \<le> g_cols g"
  using assms by (auto simp: con_at_def geom_ok_def)

lemma unat_cols: "geom_ok g \<Longrightarrow> unat (of_nat (g_cols g) :: u32) = g_cols g"
  by (simp add: geom_ok_def of_nat_byte)

text \<open>The rows of the scrolling region, from its first byte on.\<close>

lemma region_rows:
  assumes "geom_ok g" "t < b" "b \<le> g_lines g" "w + g_lines g * (2 * g_cols g) \<le> g_term g"
  shows "w + t * (2 * g_cols g) + (b - t - 1) * (2 * g_cols g) + 2 * g_cols g = w + b * (2 * g_cols g)"
    "w + b * (2 * g_cols g) \<le> g_term g"
proof -
  obtain d where "b = t + 1 + d" using assms(2) less_iff_Suc_add by auto
  then show "w + t * (2 * g_cols g) + (b - t - 1) * (2 * g_cols g) + 2 * g_cols g = w + b * (2 * g_cols g)"
    by (simp add: algebra_simps)
  show "w + b * (2 * g_cols g) \<le> g_term g" using geom_small(1) [OF assms(1,3)] assms(4) by linarith
qed

lemma inv_scrup_region:
  assumes g: "geom_ok g" and k: "con_at g m0 w x y t b k" and part: "\<not> (c_top k = 0 \<and> c_bottom k = c_lines k)"
  shows "con_at g m0 w x y t b (scrup k)"
proof -
  note bd = con_at_bounds [OF g k] and f = con_at_fields [OF k]
  let ?row = "2 * g_cols g"
  define n where "n = unat (drop_bit 1 ((c_bottom k - c_top k - 1) * c_cols k))"
  have n: "4 * n = (b - t - 1) * ?row" using half_rows [OF g bd(6,7)] unfolding n_def f .
  have a: "c_origin k + c_row k * c_top k = of_nat (w + t * ?row)" unfolding f by (simp add: algebra_simps)
  have a2: "of_nat (w + t * ?row) + 4 * of_nat n = (of_nat (w + t * ?row + 4 * n) :: u32)" by simp
  have s: "scrup k = k\<lparr>c_vmem := stosw_up (g_cols g) (c_erase k) (of_nat (w + t * ?row + 4 * n))
      (movsl n (c_origin k + c_row k * (c_top k + 1)) (of_nat (w + t * ?row)) (c_vmem k))\<rparr>"
    unfolding scrup_def Let_def if_not_P [OF part] n_def [symmetric] a a2 by (simp only: f(1) unat_cols [OF g])
  have "w + t * ?row + 4 * n + ?row \<le> g_term g" unfolding n using region_rows [OF g bd(6,7,3)] by linarith
  then show ?thesis unfolding s using bd
    by (intro con_at_vmem [OF k] keeps_stosw_up keeps_movsl) simp_all
qed

lemma inv_scrup_full:
  assumes g: "geom_ok g" and k: "con_at g m0 w x y t b k" and full: "c_top k = 0 \<and> c_bottom k = c_lines k"
  shows "con_inv g m0 (scrup k)"
proof -
  note bd = con_at_bounds [OF g k] and f = con_at_fields [OF k]
  let ?row = "2 * g_cols g"
  define k1 where "k1 = k\<lparr>c_origin := c_origin k + c_row k, c_pos := c_pos k + c_row k, c_scr_end := c_scr_end k + c_row k\<rparr>"
  have f1: "c_origin k1 = of_nat (w + ?row)" "c_pos k1 = of_nat (w + ?row + y * ?row + 2 * x)"
    "c_scr_end k1 = of_nat (w + ?row + g_lines g * ?row)" "c_row k1 = of_nat ?row" "c_term k1 = of_nat (g_term g)"
    "c_lines k1 = of_nat (g_lines g)" "c_cols k1 = of_nat (g_cols g)" "c_base k1 = of_nat (g_base g)"
    "c_vmem k1 = c_vmem k" "c_erase k1 = c_erase k"
    unfolding k1_def by (simp_all add: f)
  have lt: "c_term k1 < c_scr_end k1 \<longleftrightarrow> g_term g < w + ?row + g_lines g * ?row"
  proof -
    have tm: "g_term g \<le> 1048576" using bd(8) by simp
    then have "w + ?row + g_lines g * ?row < 4294967296" using bd(3,12) by linarith
    then have "w + ?row + g_lines g * ?row < 2 ^ LENGTH(32)" "g_term g < 2 ^ LENGTH(32)" using tm by simp_all
    then show ?thesis unfolding f1 word_less_nat_alt by (simp only: unat_of_nat_small)
  qed
  show ?thesis
  proof (cases "g_term g < w + ?row + g_lines g * ?row")
    case wrap: True
    define n where "n = unat (drop_bit 1 ((c_lines k1 - 1) * c_cols k1))"
    have n: "4 * n = (g_lines g - 1) * ?row"
      using half_rows [OF g _ order_refl, of 0] bd(5) unfolding n_def f1 by simp
    have nr: "4 * n + ?row = g_lines g * ?row" unfolding n using bd(5) by (cases "g_lines g") simp_all
    define m where "m = stosw_up (unat (c_cols k1)) (c_erase k1) (c_base k1 + 4 * of_nat n)
                       (movsl n (c_origin k1) (c_base k1) (c_vmem k1))"
    have a2: "of_nat (g_base g) + 4 * of_nat n = (of_nat (g_base g + 4 * n) :: u32)" by simp
    have km: "keeps g m0 m" unfolding m_def f1 unat_cols [OF g] a2
      using bd nr by (intro keeps_stosw_up keeps_movsl) simp_all
    have s: "scrup k = set_origin (k1\<lparr>c_vmem := m, c_scr_end := c_scr_end k1 - (c_origin k1 - c_base k1),
                  c_pos := c_pos k1 - (c_origin k1 - c_base k1), c_origin := c_base k1\<rparr>)"
      unfolding scrup_def Let_def if_P [OF full] k1_def [symmetric] n_def [symmetric] m_def using lt wrap by simp
    have "con_at g m0 (g_base g) x y t b (scrup k)"
      using k km unfolding s con_at_def set_origin_def f1 by (simp add: k1_def bd(11))
    with g show ?thesis by (rule con_invI)
  next
    case stay: False
    define m where "m = stosw_up (unat (c_cols k1)) (c_erase k1) (c_scr_end k1 - c_row k1) (c_vmem k1)"
    have e: "of_nat (w + ?row + g_lines g * ?row) - of_nat ?row = (of_nat (w + g_lines g * ?row) :: u32)" by simp
    have km: "keeps g m0 m" unfolding m_def f1 unat_cols [OF g] e
      using bd stay by (intro keeps_stosw_up) simp_all
    have s: "scrup k = set_origin (k1\<lparr>c_vmem := m\<rparr>)"
      unfolding scrup_def Let_def if_P [OF full] k1_def [symmetric] m_def using lt stay by simp
    have "con_at g m0 (w + ?row) x y t b (scrup k)"
      using k km stay unfolding s con_at_def set_origin_def by (simp add: k1_def)
    with g show ?thesis by (rule con_invI)
  qed
qed

lemma inv_scrup: "con_inv g m0 k \<Longrightarrow> con_inv g m0 (scrup k)"
  by (metis con_invE con_invI inv_scrup_full inv_scrup_region)

lemma inv_scrdown:
  assumes "con_inv g m0 k"
  shows "con_inv g m0 (scrdown k)"
proof -
  from assms obtain w x y t b where g: "geom_ok g" and k: "con_at g m0 w x y t b k" by (rule con_invE)
  note bd = con_at_bounds [OF g k] and f = con_at_fields [OF k]
  let ?row = "2 * g_cols g"
  define n where "n = unat (drop_bit 1 ((c_bottom k - c_top k - 1) * c_cols k))"
  have n: "4 * n = (b - t - 1) * ?row" using half_rows [OF g bd(6,7)] unfolding n_def f .
  define e where "e = w + b * ?row"
  note rr = region_rows [OF g bd(6,7,3)]
  have a: "c_origin k + c_row k * c_bottom k - 4 = of_nat e - 4" unfolding f e_def by (simp add: algebra_simps)
  have e4: "4 * n \<le> e" unfolding n e_def using rr(1) by linarith
  have a2: "of_nat e - 4 - 4 * of_nat n + 2 = (of_nat (e - 4 * n) - 2 :: u32)" using e4 by (simp add: of_nat_diff)
  have lt: "\<not> c_bottom k \<le> c_top k"
    using bd(6,7,10) small_words(2) [of b t] unfolding f by simp
  have s: "scrdown k = k\<lparr>c_vmem := stosw_down (g_cols g) (c_erase k) (of_nat (e - 4 * n) - 2)
      (movsl_down n (c_origin k + c_row k * (c_bottom k - 1) - 4) (of_nat e - 4) (c_vmem k))\<rparr>"
    unfolding scrdown_def Let_def if_not_P [OF lt] n_def [symmetric] a a2 by (simp only: f(1) unat_cols [OF g])
  have "g_base g + 2 * g_cols g \<le> e - 4 * n" "g_base g + 4 * n \<le> e" "e \<le> g_term g"
    using rr bd(2) unfolding n e_def by linarith+
  then have "con_at g m0 w x y t b (scrdown k)" unfolding s using bd(1,8)
    by (intro con_at_vmem [OF k] keeps_stosw_down keeps_movsl_down) simp_all
  with g show ?thesis by (rule con_invI)
qed

text \<open>Fields the invariant does not speak about.\<close>

lemma con_inv_other [simp]:
  "con_inv g m0 (k\<lparr>c_state := s\<rparr>) = con_inv g m0 k" "con_inv g m0 (k\<lparr>c_ques := q\<rparr>) = con_inv g m0 k"
  "con_inv g m0 (k\<lparr>c_attr := a\<rparr>) = con_inv g m0 k" "con_inv g m0 (k\<lparr>c_def_attr := a\<rparr>) = con_inv g m0 k"
  "con_inv g m0 (k\<lparr>c_erase := e\<rparr>) = con_inv g m0 k" "con_inv g m0 (k\<lparr>c_crtc := r\<rparr>) = con_inv g m0 k"
  "con_inv g m0 (k\<lparr>c_saved_x := u\<rparr>) = con_inv g m0 k" "con_inv g m0 (k\<lparr>c_saved_y := u\<rparr>) = con_inv g m0 k"
  "con_inv g m0 (k\<lparr>c_par := (c_par k)[i := v]\<rparr>) = con_inv g m0 k"
  by (simp_all add: con_inv_def con_at_def)

lemma row_bound:
  assumes "geom_ok g" "con_at g m0 w x y t b k"
  shows "w + y * (2 * g_cols g) + 2 * g_cols g \<le> w + g_lines g * (2 * g_cols g)"
proof -
  have "Suc y \<le> g_lines g" using con_at_bounds(5) [OF assms] by simp
  from geom_small(1) [OF assms(1) this] show ?thesis by simp
qed

lemma inv_lf: assumes "con_inv g m0 k" shows "con_inv g m0 (lf k)"
proof (cases "c_y k + 1 < c_bottom k")
  case True
  from assms obtain w x y t b where g: "geom_ok g" and k: "con_at g m0 w x y t b k" by (rule con_invE)
  note bd = con_at_bounds [OF g k] and f = con_at_fields [OF k]
  have "(of_nat (y + 1) :: u32) < of_nat b" using True unfolding f by (simp add: add.commute)
  then have "y + 1 < b" using small_words(1) [of "y + 1" b] bd(5,7,10) by simp
  then have "con_at g m0 w x (y + 1) t b (lf k)"
    using k True by (simp add: con_at_def lf_def algebra_simps)
  with g show ?thesis by (rule con_invI)
next
  case False
  then show ?thesis using inv_scrup [OF assms] by (simp add: lf_def)
qed

lemma inv_ri: assumes "con_inv g m0 k" shows "con_inv g m0 (ri k)"
proof (cases "c_top k < c_y k")
  case True
  from assms obtain w x y t b where g: "geom_ok g" and k: "con_at g m0 w x y t b k" by (rule con_invE)
  note bd = con_at_bounds [OF g k] and f = con_at_fields [OF k]
  have "t < y" using True small_words(1) [of t y] bd(5,6,7,10) unfolding f by simp
  then obtain z where z: "y = Suc z" by (cases y) auto
  then have "con_at g m0 w x z t b (ri k)"
    using k True by (simp add: con_at_def ri_def algebra_simps)
  with g show ?thesis by (rule con_invI)
next
  case False
  then show ?thesis using inv_scrdown [OF assms] by (simp add: ri_def)
qed

lemma inv_cr: assumes "con_inv g m0 k" shows "con_inv g m0 (cr k)"
proof -
  from assms obtain w x y t b where g: "geom_ok g" and k: "con_at g m0 w x y t b k" by (rule con_invE)
  have "con_at g m0 w 0 y t b (cr k)" using k by (simp add: con_at_def cr_def push_bit_1)
  with g show ?thesis by (rule con_invI)
qed

lemma x_zero: "geom_ok g \<Longrightarrow> con_at g m0 w x y t b k \<Longrightarrow> c_x k = 0 \<longleftrightarrow> x = 0"
  using small_words(3) [of x 0] con_at_bounds(4,9) [of g m0 w x y t b k] by (simp add: con_at_def)

lemma inv_backspace: assumes "con_inv g m0 k" shows "con_inv g m0 (backspace k)"
proof (cases "c_x k = 0")
  case True
  then show ?thesis using assms by (simp add: backspace_def)
next
  case False
  from assms obtain w x y t b where g: "geom_ok g" and k: "con_at g m0 w x y t b k" by (rule con_invE)
  then obtain z where z: "x = Suc z" using x_zero [OF g k] False by (cases x) auto
  then have "con_at g m0 w z y t b (backspace k)" using k False by (simp add: con_at_def backspace_def)
  with g show ?thesis by (rule con_invI)
qed

lemma inv_del: assumes "con_inv g m0 k" shows "con_inv g m0 (del k)"
proof (cases "c_x k = 0")
  case True
  then show ?thesis using assms by (simp add: del_def)
next
  case False
  from inv_backspace [OF assms] obtain w x y t b
    where g: "geom_ok g" and k: "con_at g m0 w x y t b (backspace k)" by (rule con_invE)
  note bd = con_at_bounds [OF g k]
  have "x < g_cols g"
  proof -
    from assms obtain w' x' y' t' b' where k': "con_at g m0 w' x' y' t' b' k" by (rule con_invE)
    have "x' \<noteq> 0" using x_zero [OF g k'] False by simp
    moreover have "(of_nat x :: u32) = of_nat (x' - 1)"
      using k k' False \<open>x' \<noteq> 0\<close> by (simp add: con_at_def backspace_def of_nat_diff)
    ultimately show ?thesis using small_words(3) [of x "x' - 1"] con_at_bounds(4,9) [OF g k'] bd(4) by simp
  qed
  then have "keeps g m0 (put_short (c_erase k) (c_pos (backspace k)) (c_vmem (backspace k)))"
    unfolding con_at_fields(8) [OF k] using bd row_bound [OF g k] by (intro keeps_put_short) linarith+
  moreover have "del k = (backspace k)\<lparr>c_vmem := put_short (c_erase k) (c_pos (backspace k)) (c_vmem (backspace k))\<rparr>"
    by (rule console.equality) (simp_all add: del_def backspace_def False)
  ultimately have "con_at g m0 w x y t b (del k)" using con_at_vmem [OF k] by simp
  with g show ?thesis by (rule con_invI)
qed

subsection \<open>Control sequences keep the invariant\<close>

lemma of_nat_diff_word: "j \<le> i \<Longrightarrow> (of_nat i - of_nat j :: u32) = of_nat (i - j)"
  by (simp add: of_nat_diff)

lemma inv_csi_J: assumes "con_inv g m0 k" shows "con_inv g m0 (csi_J v k)"
proof -
  from assms obtain w x y t b where g: "geom_ok g" and k: "con_at g m0 w x y t b k" by (rule con_invE)
  note bd = con_at_bounds [OF g k] and f = con_at_fields [OF k]
  let ?L = "g_lines g * (2 * g_cols g)" and ?p = "y * (2 * g_cols g) + 2 * x"
  have L: "?L < 2 ^ 18" using geom_small(2) [OF g order_refl] .
  have p: "?p \<le> ?L" using row_bound [OF g k] bd(4) by linarith
  have l18: "(2 :: nat) ^ 18 \<le> 2 ^ 20" by simp
  note h = unat_half [OF less_le_trans [OF le_less_trans [OF diff_le_self L] l18]]
    unat_half [OF less_le_trans [OF le_less_trans [OF p L] l18]]
  have d0: "c_scr_end k - c_pos k = of_nat (?L - ?p)"
    unfolding f of_nat_diff [OF p] by (simp add: algebra_simps)
  have c0: "unat (drop_bit 1 (c_scr_end k - c_pos k)) = (?L - ?p) div 2" unfolding d0 by (rule h)
  have d1: "c_pos k - c_origin k = of_nat ?p" unfolding f by simp
  have c1: "unat (drop_bit 1 (c_pos k - c_origin k)) = ?p div 2" unfolding d1 by (rule h)
  have "g_cols g * g_lines g < 2 ^ 20" using L by (simp add: algebra_simps)
  note lt = this
  have "c_cols k * c_lines k = of_nat (g_cols g * g_lines g)" unfolding f by simp
  then have c2: "unat (c_cols k * c_lines k) = g_cols g * g_lines g" using of_nat_byte [OF lt] by (simp only:)
  have k0: "keeps g m0 (stosw_up ((?L - ?p) div 2) (c_erase k) (c_pos k) (c_vmem k))"
    unfolding f using bd p by (intro keeps_stosw_up) linarith+
  have k1: "keeps g m0 (stosw_up (?p div 2) (c_erase k) (c_origin k) (c_vmem k))"
    unfolding f using bd p by (intro keeps_stosw_up) linarith+
  have k2: "keeps g m0 (stosw_up (g_cols g * g_lines g) (c_erase k) (c_origin k) (c_vmem k))"
  proof -
    have "2 * (g_cols g * g_lines g) = ?L" by simp
    then show ?thesis unfolding f using bd by (intro keeps_stosw_up) linarith+
  qed
  have "con_at g m0 w x y t b (csi_J v k)"
    unfolding csi_J_def Let_def c0 c1 c2 using k con_at_vmem [OF k k0] con_at_vmem [OF k k1] con_at_vmem [OF k k2] by simp
  with g show ?thesis by (rule con_invI)
qed

lemma inv_csi_K: assumes "con_inv g m0 k" shows "con_inv g m0 (csi_K v k)"
proof -
  from assms obtain w x y t b where g: "geom_ok g" and k: "con_at g m0 w x y t b k" by (rule con_invE)
  note bd = con_at_bounds [OF g k] and f = con_at_fields [OF k] and rb = row_bound [OF g k]
  let ?row = "2 * g_cols g"
  have le: "c_cols k \<le> c_x k \<longleftrightarrow> g_cols g \<le> x" "c_x k < c_cols k \<longleftrightarrow> x < g_cols g"
    unfolding f using small_words bd(4,9) by simp_all
  have ux: "unat (c_x k) = x" unfolding f using bd(4,9) by (simp add: of_nat_byte)
  have c0: "unat (c_cols k - c_x k) = g_cols g - x"
    unfolding f of_nat_diff_word [OF bd(4)] using bd(9) by (simp add: of_nat_byte)
  have s: "c_pos k - push_bit 1 (c_x k) = of_nat (w + y * ?row)" unfolding f by (simp add: push_bit_1)
  have k0: "keeps g m0 (stosw_up (g_cols g - x) (c_erase k) (c_pos k) (c_vmem k))"
    unfolding f using bd rb by (intro keeps_stosw_up) linarith+
  have k1: "keeps g m0 (stosw_up n (c_erase k) (of_nat (w + y * ?row)) (c_vmem k))" if "n \<le> g_cols g" for n
    using bd rb that by (intro keeps_stosw_up) linarith+
  have uc: "unat (c_cols k) = g_cols g" unfolding f by (rule unat_cols [OF g])
  have ui: "unat (if c_x k < c_cols k then c_x k else c_cols k) = x" using le(2) ux uc bd(4) by simp
  define fill where "fill = (\<lambda>n a. k\<lparr>c_vmem := stosw_up n (c_erase k) a (c_vmem k)\<rparr>)"
  have "csi_K v k \<in> {k, fill (g_cols g - x) (c_pos k), fill x (of_nat (w + y * ?row)), fill (g_cols g) (of_nat (w + y * ?row))}"
    unfolding csi_K_def Let_def c0 s ui uc fill_def by simp
  moreover have "con_at g m0 w x y t b (fill (g_cols g - x) (c_pos k))" "con_at g m0 w x y t b (fill x (of_nat (w + y * ?row)))"
    "con_at g m0 w x y t b (fill (g_cols g) (of_nat (w + y * ?row)))"
    unfolding fill_def by (rule con_at_vmem [OF k k0], rule con_at_vmem [OF k k1 [OF bd(4)]], rule con_at_vmem [OF k k1 [OF order_refl]])
  ultimately have "con_at g m0 w x y t b (csi_K v k)" using k by auto
  with g show ?thesis by (rule con_invI)
qed

lemma inv_delete_char: assumes "con_inv g m0 k" shows "con_inv g m0 (delete_char k)"
proof (cases "c_cols k \<le> c_x k")
  case True
  then show ?thesis using assms by (simp add: delete_char_def)
next
  case False
  from assms obtain w x y t b where g: "geom_ok g" and k: "con_at g m0 w x y t b k" by (rule con_invE)
  note bd = con_at_bounds [OF g k] and f = con_at_fields [OF k] and rb = row_bound [OF g k]
  have x: "x < g_cols g" using False small_words(2) [of "g_cols g" x] bd(4,9) unfolding f by simp
  have u: "unat (c_cols k) - unat (c_x k) - 1 = g_cols g - x - 1" unfolding f using bd(4,9) by (simp add: of_nat_byte)
  have "keeps g m0 (shift_left (g_cols g - x - 1) (c_pos k) (c_erase k) (c_vmem k))"
    unfolding f using bd rb x by (intro keeps_shift_left) linarith+
  from con_at_vmem [OF k this] have "con_at g m0 w x y t b (delete_char k)"
    unfolding delete_char_def if_not_P [OF False] u .
  with g show ?thesis by (rule con_invI)
qed

lemma inv_insert_char: assumes "con_inv g m0 k" shows "con_inv g m0 (insert_char k)"
proof -
  from assms obtain w x y t b where g: "geom_ok g" and k: "con_at g m0 w x y t b k" by (rule con_invE)
  note bd = con_at_bounds [OF g k] and f = con_at_fields [OF k] and rb = row_bound [OF g k]
  have u: "unat (c_cols k) - unat (c_x k) = g_cols g - x" unfolding f using bd(4,9) by (simp add: of_nat_byte)
  have "keeps g m0 (shift_right (g_cols g - x) (c_pos k) (c_erase k) (c_vmem k))"
    unfolding f using bd rb by (intro keeps_shift_right) linarith+
  from con_at_vmem [OF k this] have "con_at g m0 w x y t b (insert_char k)"
    unfolding insert_char_def u .
  with g show ?thesis by (rule con_invI)
qed

text \<open>Lines are inserted and deleted by scrolling a temporary region.\<close>

lemma con_inv_region:
  assumes "con_inv g m0 k"
  shows "con_inv g m0 (k\<lparr>c_top := c_y k, c_bottom := c_lines k\<rparr>)"
    "con_inv g m0 k2 \<Longrightarrow> con_inv g m0 (k2\<lparr>c_top := c_top k, c_bottom := c_bottom k\<rparr>)"
proof -
  from assms obtain w x y t b where g: "geom_ok g" and k: "con_at g m0 w x y t b k" by (rule con_invE)
  have "con_at g m0 w x y y (g_lines g) (k\<lparr>c_top := c_y k, c_bottom := c_lines k\<rparr>)"
    using k by (simp add: con_at_def)
  with g show "con_inv g m0 (k\<lparr>c_top := c_y k, c_bottom := c_lines k\<rparr>)" by (rule con_invI)
  assume "con_inv g m0 k2"
  then obtain w' x' y' t' b' where "con_at g m0 w' x' y' t' b' k2" by (rule con_invE)
  then have "con_at g m0 w' x' y' t b (k2\<lparr>c_top := c_top k, c_bottom := c_bottom k\<rparr>)"
    using k by (simp add: con_at_def)
  with g show "con_inv g m0 (k2\<lparr>c_top := c_top k, c_bottom := c_bottom k\<rparr>)" by (rule con_invI)
qed

lemma inv_delete_line: "con_inv g m0 k \<Longrightarrow> con_inv g m0 (delete_line k)"
  unfolding delete_line_def by (intro con_inv_region(2) inv_scrup con_inv_region(1))

lemma inv_insert_line: "con_inv g m0 k \<Longrightarrow> con_inv g m0 (insert_line k)"
  unfolding insert_line_def by (intro con_inv_region(2) inv_scrdown con_inv_region(1))

lemma inv_funpow: "(\<And>k. con_inv g m0 k \<Longrightarrow> con_inv g m0 (op k)) \<Longrightarrow> con_inv g m0 k \<Longrightarrow> con_inv g m0 ((op ^^ n) k)"
  by (induction n) simp_all

lemma inv_repeat:
  assumes "con_inv g m0 k"
  shows "con_inv g m0 (csi_at n k)" "con_inv g m0 (csi_L n k)" "con_inv g m0 (csi_P n k)" "con_inv g m0 (csi_M n k)"
  unfolding csi_at_def csi_L_def csi_P_def csi_M_def
  by (rule inv_funpow [OF _ assms]; simp add: inv_insert_char inv_insert_line inv_delete_char inv_delete_line)+

lemma inv_par: "con_inv g m0 k \<Longrightarrow> con_inv g m0 (par_dec i k)" "con_inv g m0 k \<Longrightarrow> con_inv g m0 (par_min1 k)"
  by (simp_all add: par_dec_def par_min1_def)

lemma inv_set_region: assumes "con_inv g m0 k" shows "con_inv g m0 (set_region k)"
proof -
  define k1 where "k1 = par_dec 0 k"
  define k2 where "k2 = (if c_par k1 ! 1 = 0 then k1\<lparr>c_par := (c_par k1)[1 := c_lines k1]\<rparr> else k1)"
  have i: "con_inv g m0 k2" using inv_par(1) [OF assms, of 0] by (simp add: k2_def k1_def)
  show ?thesis
  proof (cases "c_par k2 ! 0 < c_par k2 ! 1 \<and> c_par k2 ! 1 \<le> c_lines k2")
    case True
    from i obtain w x y t b where g: "geom_ok g" and k: "con_at g m0 w x y t b k2" by (rule con_invE)
    have "unat (c_par k2 ! 0) < unat (c_par k2 ! 1)" "unat (c_par k2 ! 1) \<le> g_lines g"
      using True con_at_fields(2) [OF k] con_at_bounds(10) [OF g k]
      by (simp_all add: word_less_nat_alt word_le_nat_alt of_nat_byte)
    then have "con_at g m0 w x y (unat (c_par k2 ! 0)) (unat (c_par k2 ! 1))
        (k2\<lparr>c_top := c_par k2 ! 0, c_bottom := c_par k2 ! 1\<rparr>)"
      using k by (simp add: con_at_def)
    with g have "con_inv g m0 (k2\<lparr>c_top := c_par k2 ! 0, c_bottom := c_par k2 ! 1\<rparr>)" by (rule con_invI)
    then show ?thesis unfolding set_region_def Let_def k1_def [symmetric] k2_def [symmetric] using True by simp
  next
    case False
    show ?thesis unfolding set_region_def Let_def k1_def [symmetric] k2_def [symmetric] if_not_P [OF False] by (rule i)
  qed
qed

subsection \<open>Characters keep the invariant\<close>

lemma con_inv_npar: assumes "con_inv g m0 k" "n \<le> 15" shows "con_inv g m0 (k\<lparr>c_npar := n\<rparr>)"
proof -
  from assms obtain w x y t b where g: "geom_ok g" and k: "con_at g m0 w x y t b k" by (auto elim: con_invE)
  have "con_at g m0 w x y t b (k\<lparr>c_npar := n\<rparr>)" using k assms(2) by (simp add: con_at_def)
  with g show ?thesis by (rule con_invI)
qed

lemma inv_restore: "con_inv g m0 k \<Longrightarrow> con_inv g m0 (save_cur k) \<and> con_inv g m0 (restore_cur k)"
  by (simp add: save_cur_def restore_cur_def inv_gotoxy)

lemma scrup_x [simp]: "c_x (scrup k) = c_x k"
  by (simp add: scrup_def Let_def set_origin_def)

lemma lf_x [simp]: "c_x (lf k) = c_x k"
  by (simp add: lf_def)

lemma wrap_x [simp]: "c_x (wrap_line k) = c_x k - c_cols k"
  by (simp add: wrap_line_def)

text \<open>A cursor moved past the last column by at most one line goes to the next line.\<close>

lemma inv_wrap:
  assumes g: "geom_ok g" and k: "con_at g m0 w x y t b k" and z: "g_cols g \<le> z" "z \<le> 2 * g_cols g"
  shows "con_inv g m0 (wrap_line (k\<lparr>c_x := of_nat z, c_pos := of_nat (w + y * (2 * g_cols g) + 2 * z)\<rparr>))"
proof -
  obtain u where u: "z = g_cols g + u" using z(1) le_Suc_ex by blast
  have "con_at g m0 w u y t b (k\<lparr>c_x := of_nat z - c_cols k, c_pos := of_nat (w + y * (2 * g_cols g) + 2 * z) - c_row k\<rparr>)"
    using k z(2) unfolding u by (simp add: con_at_def)
  then show ?thesis unfolding wrap_line_def by (intro inv_lf con_invI [OF g]) simp
qed

lemma con_at_self: "con_at g m0 w x y t b k \<Longrightarrow> k\<lparr>c_x := of_nat x, c_pos := of_nat (w + y * (2 * g_cols g) + 2 * x)\<rparr> = k"
  by (simp add: con_at_def)

lemma inv_put_char: assumes "con_inv g m0 k" shows "con_inv g m0 (put_char c k)"
proof -
  define k1 where "k1 = (if c_cols k \<le> c_x k then wrap_line k else k)"
  have "\<exists>w x y t b. geom_ok g \<and> con_at g m0 w x y t b k1 \<and> x < g_cols g"
  proof -
    from assms obtain w x y t b where g: "geom_ok g" and k: "con_at g m0 w x y t b k" by (rule con_invE)
    note bd = con_at_bounds [OF g k] and f = con_at_fields [OF k]
    have le: "c_cols k \<le> c_x k \<longleftrightarrow> x = g_cols g" unfolding f using small_words(2) [of "g_cols g" x] bd(4,9) by auto
    show ?thesis
    proof (cases "x = g_cols g")
      case True
      have "con_inv g m0 (wrap_line k)" using inv_wrap [OF g k, of x] True con_at_self [OF k] by simp
      then obtain w' x' y' t' b' where k': "con_at g m0 w' x' y' t' b' (wrap_line k)" by (rule con_invE)
      have "c_x (wrap_line k) = 0" using True f by simp
      then have "x' = 0" using x_zero [OF g k'] by simp
      moreover have "k1 = wrap_line k" using True le by (simp add: k1_def)
      ultimately have "con_at g m0 w' 0 y' t' b' k1" "0 < g_cols g" using k' bd(13) by simp_all
      then show ?thesis using g by blast
    next
      case False
      then have "k1 = k" "x < g_cols g" using le bd(4) by (simp_all add: k1_def)
      then show ?thesis using g k by blast
    qed
  qed
  then obtain w x y t b where g: "geom_ok g" and k: "con_at g m0 w x y t b k1" and x: "x < g_cols g" by blast
  note bd = con_at_bounds [OF g k] and f = con_at_fields [OF k] and rb = row_bound [OF g k]
  define m where "m = (c_vmem k1)(c_pos k1 := c, c_pos k1 + 1 := ucast (c_attr k1))"
  have "of_nat (w + y * (2 * g_cols g) + 2 * x) + 1 = (of_nat (w + y * (2 * g_cols g) + 2 * x + 1) :: u32)" by simp
  then have "keeps g m0 m" unfolding m_def f using bd rb x
    by (simp only:) (intro keeps_byte, linarith+)
  then have "con_at g m0 w (x + 1) y t b (k1\<lparr>c_vmem := m, c_pos := c_pos k1 + 2, c_x := c_x k1 + 1\<rparr>)"
    using k x by (simp add: con_at_def)
  then show ?thesis unfolding put_char_def k1_def [symmetric] Let_def m_def by (rule con_invI [OF g])
qed

lemma inv_tab: assumes "con_inv g m0 k" shows "con_inv g m0 (tab k)"
proof -
  from assms obtain w x y t b where g: "geom_ok g" and k: "con_at g m0 w x y t b k" by (rule con_invE)
  note bd = con_at_bounds [OF g k] and f = con_at_fields [OF k]
  define d where "d = 8 - x mod 8"
  have d: "d \<le> 8" by (simp add: d_def)
  have "(7 :: u32) = mask 3" by (simp add: mask_numeral)
  then have "unat (of_nat x AND 7 :: u32) = x mod 8"
    using unat_and_mask [of "of_nat x :: u32" 3] bd(4,9) by (simp add: of_nat_byte)
  moreover have "of_nat (unat (of_nat x AND 7 :: u32)) = (of_nat x AND 7 :: u32)" by simp
  ultimately have "(of_nat x AND 7 :: u32) = of_nat (x mod 8)" by simp
  then have c: "8 - (c_x k AND 7) = of_nat d" unfolding f d_def by (simp add: of_nat_diff)
  define k1 where "k1 = k\<lparr>c_x := of_nat (x + d), c_pos := of_nat (w + y * (2 * g_cols g) + 2 * (x + d))\<rparr>"
  have e: "k\<lparr>c_x := c_x k + of_nat d, c_pos := c_pos k + push_bit 1 (of_nat d)\<rparr> = k1"
    unfolding k1_def f push_bit_1 by (simp add: algebra_simps)
  have t: "tab k = (if c_cols k1 < c_x k1 then wrap_line k1 else k1)" unfolding tab_def Let_def c e ..
  have lt: "c_cols k1 < c_x k1 \<longleftrightarrow> g_cols g < x + d"
    using small_words(1) [of "g_cols g" "x + d"] bd(4,9) d by (simp add: k1_def f del: of_nat_add)
  show ?thesis
  proof (cases "g_cols g < x + d")
    case True
    then show ?thesis unfolding t k1_def using inv_wrap [OF g k, of "x + d"] bd(4,13) d lt by (simp add: k1_def)
  next
    case False
    then have "con_at g m0 w (x + d) y t b k1" using k by (simp add: k1_def con_at_def)
    then show ?thesis unfolding t using False lt con_invI [OF g] by simp
  qed
qed

lemma inv_normal: "con_inv g m0 k \<Longrightarrow> con_inv g m0 (con_normal c k)"
  by (simp add: con_normal_def inv_put_char inv_lf inv_cr inv_del inv_backspace inv_tab)

lemma con_inv_full_region: assumes "con_inv g m0 k" shows "con_inv g m0 (k\<lparr>c_top := 0, c_bottom := c_lines k\<rparr>)"
proof -
  from assms obtain w x y t b where g: "geom_ok g" and k: "con_at g m0 w x y t b k" by (rule con_invE)
  have "con_at g m0 w x y 0 (g_lines g) (k\<lparr>c_top := 0, c_bottom := c_lines k\<rparr>)" using k by (simp add: con_at_def)
  with g show ?thesis by (rule con_invI)
qed

lemma inv_esc: "con_inv g m0 k \<Longrightarrow> con_inv g m0 (fst (con_esc c k))"
  using con_inv_full_region [of g m0 "k\<lparr>c_state := ESnormal\<rparr>"] inv_restore [of g m0 "k\<lparr>c_state := ESnormal\<rparr>"]
  by (simp add: con_esc_def Let_def inv_gotoxy inv_ri inv_lf)

lemma inv_csi: assumes "con_inv g m0 k" shows "con_inv g m0 (con_csi c k)"
proof -
  have m: "con_inv g m0 (csi_m k)" using assms by (simp add: csi_m_def)
  have p: "con_inv g m0 (par_dec i k)" "con_inv g m0 (par_min1 k)" "con_inv g m0 (par_dec 1 (par_dec 0 k))" for i
    using assms by (simp_all add: inv_par)
  show ?thesis
    unfolding con_csi_def Let_def
    using assms m p inv_restore [OF assms] inv_repeat [OF assms] inv_set_region [OF assms]
      inv_csi_J [OF assms] inv_csi_K [OF assms] by (simp add: inv_gotoxy)
qed

lemma inv_gotpars: "con_inv g m0 k \<Longrightarrow> con_inv g m0 (con_gotpars c k)"
  by (simp add: con_gotpars_def Let_def inv_csi)

lemma inv_getpars: assumes "con_inv g m0 k" shows "con_inv g m0 (con_getpars c k)"
proof -
  have "c_npar k < 15 \<Longrightarrow> c_npar k + 1 \<le> 15" by (simp add: word_le_nat_alt word_less_nat_alt unat_word_ariths)
  then show ?thesis using assms con_inv_npar [OF assms, of "c_npar k + 1"]
    by (auto simp: con_getpars_def Let_def inv_gotpars)
qed

lemma inv_square: assumes "con_inv g m0 k" shows "con_inv g m0 (con_square c k)"
proof -
  from assms obtain w x y t b where g: "geom_ok g" and k: "con_at g m0 w x y t b k" by (rule con_invE)
  have "con_at g m0 w x y t b (k\<lparr>c_par := replicate 16 0, c_npar := 0, c_state := ESgetpars\<rparr>)"
    using k by (simp add: con_at_def)
  with g have "con_inv g m0 (k\<lparr>c_par := replicate 16 0, c_npar := 0, c_state := ESgetpars\<rparr>)" by (rule con_invI)
  then show ?thesis by (simp add: con_square_def Let_def inv_getpars)
qed

lemma con_char_inv: "con_inv g m0 k \<Longrightarrow> con_inv g m0 (fst (con_char c k))"
  by (simp add: con_char_def inv_normal inv_esc inv_square inv_getpars inv_gotpars con_setterm_def Let_def)

lemma con_flush_inv: "con_inv g m0 k \<Longrightarrow> con_inv g m0 (con_flush k)"
  by (simp add: con_flush_def set_cursor_def inv_gotoxy)

lemma con_print_inv: "con_inv g m0 k \<Longrightarrow> con_inv g m0 (con_print cs k)"
proof -
  have "con_inv g m0 k \<Longrightarrow> con_inv g m0 (fold con_print_char cs k)"
    by (induction cs arbitrary: k)
      (simp_all add: con_print_char_def inv_put_char inv_lf inv_cr inv_del inv_backspace)
  then show "con_inv g m0 k \<Longrightarrow> con_inv g m0 (con_print cs k)" by (simp add: con_print_def con_flush_inv)
qed

text \<open>C22: Whatever bytes are written to the terminal, the console stays well formed and inside the video
  memory: the cursor is on the screen (or just behind the last column), its address is the one of
  its line and column, the scrolling region is a non-empty part of the screen, the window lies in
  the video memory, and no byte outside the video memory is changed.\<close>

theorem console_stays_on_screen:
  assumes "con_inv g m0 k"
  shows "con_inv g m0 (con_flush (fold (\<lambda>c k. fst (con_char c k)) cs k)) \<and> con_inv g m0 (con_print cs k) \<and>
    (\<forall>b. unat b < g_base g \<or> g_term g \<le> unat b \<longrightarrow>
      c_vmem (con_flush (fold (\<lambda>c k. fst (con_char c k)) cs k)) b = m0 b \<and> c_vmem (con_print cs k) b = m0 b)"
proof -
  have f: "con_inv g m0 k \<Longrightarrow> con_inv g m0 (fold (\<lambda>c k. fst (con_char c k)) cs k)"
    by (induction cs arbitrary: k) (simp_all add: con_char_inv)
  have out: "con_inv g m0 k \<Longrightarrow> unat b < g_base g \<or> g_term g \<le> unat b \<Longrightarrow> c_vmem k b = m0 b" for k b
    unfolding con_inv_def con_at_def keeps_def by blast
  have "con_inv g m0 (con_flush (fold (\<lambda>c k. fst (con_char c k)) cs k))" "con_inv g m0 (con_print cs k)"
    using assms by (simp_all add: f con_flush_inv con_print_inv)
  then show ?thesis using out by blast
qed

definition screen0 :: console where
  "screen0 = \<lparr>c_vmem = (\<lambda>_. 0), c_crtc = (\<lambda>_. 0), c_cols = 0, c_lines = 0, c_base = 0, c_term = 0, c_row = 0, c_erase = 0,
     c_origin = 0, c_scr_end = 0, c_pos = 0, c_x = 0, c_y = 0, c_top = 0, c_bottom = 0, c_state = 0, c_npar = 0,
     c_par = replicate 16 0, c_ques = False, c_attr = 7, c_def_attr = 7, c_saved_x = 0, c_saved_y = 0\<rparr>"

definition vga :: geom where
  "vga = \<lparr>g_cols = 80, g_lines = 25, g_base = 0xb8000, g_term = 0xc0000\<rparr>"

definition vga_screen :: console where
  "vga_screen = con_init 0 3 0x5003 25 0 screen0"

lemma vga_screen_inv: "con_inv vga (c_vmem vga_screen) vga_screen"
proof -
  have "con_at vga (c_vmem vga_screen) 0xb8000 0 3 0 25 vga_screen"
    by (simp add: con_at_def vga_def vga_screen_def con_init_def Let_def gotoxy_def set_cursor_def screen0_def keeps_def)
  moreover have "geom_ok vga" by (simp add: geom_ok_def vga_def)
  ultimately show ?thesis by (auto intro: con_invI)
qed

theorem console_stays_on_screen_witness:
  "c_vmem (con_print [72, 105, 10] vga_screen) 0x90000 = c_vmem vga_screen 0x90000"
  using console_stays_on_screen [OF vga_screen_inv] by (simp add: vga_def)

text \<open>Three states have no case in the switch: after \<open>ESC [ [\<close>, \<open>ESC (\<close> and \<open>ESC #\<close> the console swallows
  every further character.\<close>

lemma console_stuck:
  "c_state k \<in> {ESfunckey, ESsetgraph, - 1} \<Longrightarrow> fold (\<lambda>c k. fst (con_char c k)) cs k = k"
  by (induction cs) (auto simp: con_char_def ES_defs)

end
