(* ===== verification/TtyQueue.thy ===== *)
theory TtyQueue
  imports Task
begin

text \<open>
  The character queues of a terminal (\<open>include/linux/tty.h\<close>, \<open>kernel/chr_drv/tty_io.c\<close>): a ring of 1024
  bytes with a head and a tail. The interface the terminal code relies on is the locale \<open>char_queue\<close>
  (a bounded first-in first-out queue) and its extension \<open>line_queue\<close>, whose last character can be
  looked at and taken back; both are interpreted on the ring. Nothing in \<open>PUTCH\<close> looks whether the
  ring is full: the laws for it have room in the queue as a hypothesis.
\<close>

section \<open>The interface\<close>

locale char_queue =
  fixes put :: "'c \<Rightarrow> 'q \<Rightarrow> 'q"
    and get :: "'q \<Rightarrow> 'c \<times> 'q"
    and contents :: "'q \<Rightarrow> 'c list"
    and invar :: "'q \<Rightarrow> bool"
    and cap :: nat
  assumes invar_put: "invar q \<Longrightarrow> invar (put c q)"
    and invar_get: "invar q \<Longrightarrow> invar (snd (get q))"
    and contents_cap: "invar q \<Longrightarrow> length (contents q) \<le> cap"
    and contents_put: "invar q \<Longrightarrow> length (contents q) < cap \<Longrightarrow> contents (put c q) = contents q @ [c]"
    and contents_get: "invar q \<Longrightarrow> contents q = c # cs \<Longrightarrow> fst (get q) = c \<and> contents (snd (get q)) = cs"
begin

lemma invar_puts: "invar q \<Longrightarrow> invar (fold put cs q)"
  by (induction cs arbitrary: q) (simp_all add: invar_put)

lemma contents_puts:
  "invar q \<Longrightarrow> length (contents q) + length cs \<le> cap \<Longrightarrow> contents (fold put cs q) = contents q @ cs"
  by (induction cs arbitrary: q) (simp_all add: invar_put contents_put)

text \<open>Reading \<open>n\<close> characters one after the other.\<close>

primrec gets :: "nat \<Rightarrow> 'q \<Rightarrow> 'c list \<times> 'q" where
  "gets 0 q = ([], q)"
| "gets (Suc n) q = (let (c, q1) = get q; (cs, q2) = gets n q1 in (c # cs, q2))"

lemma gets_contents:
  "invar q \<Longrightarrow> n \<le> length (contents q) \<Longrightarrow>
     fst (gets n q) = take n (contents q) \<and> contents (snd (gets n q)) = drop n (contents q) \<and> invar (snd (gets n q))"
proof (induction n arbitrary: q)
  case (Suc n)
  then obtain c cs where c: "contents q = c # cs" by (cases "contents q") auto
  note g = contents_get [OF Suc.prems(1) c]
  have "invar (snd (get q))" using Suc.prems(1) by (rule invar_get)
  from Suc.IH [OF this] g Suc.prems(2) c show ?case
    by (cases "get q"; cases "gets n (snd (get q))") (auto simp: Let_def)
qed simp

text \<open>First in, first out.\<close>

lemma fifo:
  "invar q \<Longrightarrow> contents q = [] \<Longrightarrow> length cs \<le> cap \<Longrightarrow> fst (gets (length cs) (fold put cs q)) = cs"
  using gets_contents [of "fold put cs q" "length cs"] by (simp add: contents_puts invar_puts)

end

locale line_queue = char_queue put get contents invar cap
  for put :: "'c \<Rightarrow> 'q \<Rightarrow> 'q" and get and contents and invar and cap +
  fixes unput :: "'q \<Rightarrow> 'q" and peek_last :: "'q \<Rightarrow> 'c"
  assumes invar_unput: "invar q \<Longrightarrow> invar (unput q)"
    and contents_unput: "invar q \<Longrightarrow> contents q \<noteq> [] \<Longrightarrow> contents (unput q) = butlast (contents q)"
    and peek_last: "invar q \<Longrightarrow> contents q \<noteq> [] \<Longrightarrow> peek_last q = last (contents q)"
begin

lemma unput_put: "invar q \<Longrightarrow> length (contents q) < cap \<Longrightarrow> contents (unput (put c q)) = contents q"
  by (simp add: invar_put contents_put contents_unput)

lemma peek_put: "invar q \<Longrightarrow> length (contents q) < cap \<Longrightarrow> peek_last (put c q) = c"
  by (simp add: invar_put contents_put peek_last)

end

section \<open>The ring\<close>

definition TTY_BUF_SIZE :: nat where "TTY_BUF_SIZE = 1024"

text \<open>\<open>q_proc_list\<close> is the address of the queue variable \<open>proc_list\<close>.\<close>

record tty_queue =
  q_data :: u32
  q_head :: u32
  q_tail :: u32
  q_proc_list :: u32
  q_buf :: "u8 list"

definition CHARS :: "tty_queue \<Rightarrow> u32" where
  "CHARS q = (q_head q - q_tail q) AND 1023"

definition PUTCH :: "u8 \<Rightarrow> tty_queue \<Rightarrow> tty_queue" where
  "PUTCH c q = q\<lparr>q_buf := (q_buf q)[unat (q_head q) := c], q_head := (q_head q + 1) AND 1023\<rparr>"

definition GETCH :: "tty_queue \<Rightarrow> u8 \<times> tty_queue" where
  "GETCH q = (q_buf q ! unat (q_tail q), q\<lparr>q_tail := (q_tail q + 1) AND 1023\<rparr>)"

definition EMPTY :: "tty_queue \<Rightarrow> bool" where
  "EMPTY q \<longleftrightarrow> q_tail q = q_head q"

definition LEFT :: "tty_queue \<Rightarrow> u32" where
  "LEFT q = (q_tail q - q_head q - 1) AND 1023"

definition FULL :: "tty_queue \<Rightarrow> bool" where
  "FULL q \<longleftrightarrow> LEFT q = 0"

definition LAST :: "tty_queue \<Rightarrow> u8" where
  "LAST q = q_buf q ! unat (1023 AND (q_head q - 1))"

definition DEC_head :: "tty_queue \<Rightarrow> tty_queue" where
  "DEC_head q = q\<lparr>q_head := (q_head q - 1) AND 1023\<rparr>"

section \<open>The ring is a queue\<close>

definition queue_inv :: "tty_queue \<Rightarrow> bool" where
  "queue_inv q \<longleftrightarrow> length (q_buf q) = 1024 \<and> unat (q_head q) < 1024 \<and> unat (q_tail q) < 1024"

definition q_len :: "tty_queue \<Rightarrow> nat" where
  "q_len q = (unat (q_head q) + 1024 - unat (q_tail q)) mod 1024"

definition q_list :: "tty_queue \<Rightarrow> u8 list" where
  "q_list q = map (\<lambda>i. q_buf q ! ((unat (q_tail q) + i) mod 1024)) [0..<q_len q]"

lemma length_q_list [simp]: "length (q_list q) = q_len q"
  by (simp add: q_list_def)

lemma q_len_less: "q_len q < 1024"
  by (simp add: q_len_def)

lemma unat_and_1023: "unat (w AND 1023 :: u32) = unat w mod 1024"
proof -
  have "(1023 :: u32) = mask 10" by (simp add: mask_numeral)
  then show ?thesis using unat_and_mask [of w 10] by simp
qed

lemma mod_1024: "x < 2048 \<Longrightarrow> x mod 1024 = (if x < 1024 then x else x - 1024 :: nat)"
  using mod_less [of x 1024] mod_less [of "x - 1024" 1024] le_mod_geq [of 1024 x] by auto

lemma unat_ring_sub:
  fixes a b :: u32
  assumes "unat a < 1024" "unat b \<le> 1024"
  shows "unat (a - b) mod 1024 = (unat a + 1024 - unat b) mod 1024"
proof (cases "unat b \<le> unat a")
  case False
  then have "unat (a - b) = unat a + 2 ^ 32 - unat b" by (simp add: unat_sub_if')
  also have "\<dots> = (unat a + 1024 - unat b) + 1024 * 4194303" using assms by simp
  finally show ?thesis by (simp only: mod_mult_self2)
next
  case True
  then have "unat a + 1024 - unat b = (unat a - unat b) + 1024" by simp
  then have "(unat a + 1024 - unat b) mod 1024 = (unat a - unat b) mod 1024" by (simp only: mod_add_self2)
  then show ?thesis using True by (simp add: unat_sub_if')
qed

lemma unat_ring_inc: "unat (a :: u32) < 1024 \<Longrightarrow> unat ((a + 1) AND 1023) = (unat a + 1) mod 1024"
  using unat_add_small [of a 1] by (simp add: unat_and_1023)

lemma unat_ring_dec: "unat (a :: u32) < 1024 \<Longrightarrow> unat ((a - 1) AND 1023) = (unat a + 1023) mod 1024"
  using unat_ring_sub [of a 1] by (simp add: unat_and_1023 add.commute)

lemma q_len_if:
  "queue_inv q \<Longrightarrow> q_len q = (if unat (q_tail q) \<le> unat (q_head q) then unat (q_head q) - unat (q_tail q)
     else unat (q_head q) + 1024 - unat (q_tail q))"
  using mod_1024 [of "unat (q_head q) + 1024 - unat (q_tail q)"] by (auto simp: q_len_def queue_inv_def)

lemma CHARS_len: "queue_inv q \<Longrightarrow> unat (CHARS q) = q_len q"
  by (simp add: CHARS_def unat_and_1023 q_len_def queue_inv_def unat_ring_sub)

lemma EMPTY_list: "queue_inv q \<Longrightarrow> EMPTY q \<longleftrightarrow> q_list q = []"
proof -
  assume "queue_inv q"
  then have "EMPTY q \<longleftrightarrow> q_len q = 0"
    by (auto simp: EMPTY_def queue_inv_def q_len_if word_eq_iff_unsigned [where ?'a = nat])
  also have "\<dots> \<longleftrightarrow> q_list q = []" by (metis length_0_conv length_q_list)
  finally show ?thesis .
qed

lemma LEFT_len: "queue_inv q \<Longrightarrow> unat (LEFT q) = 1023 - q_len q"
proof -
  assume q: "queue_inv q"
  let ?t = "unat (q_tail q)" and ?h = "unat (q_head q)"
  have h1: "unat (q_head q + 1) = ?h + 1"
    using q unat_add_small [of "q_head q" 1] by (simp add: queue_inv_def)
  have "unat (q_tail q - q_head q - 1) mod 1024 = unat (q_tail q - (q_head q + 1)) mod 1024"
    by (simp only: diff_diff_eq)
  also have "\<dots> = (?t + 1024 - (?h + 1)) mod 1024"
    using unat_ring_sub [of "q_tail q" "q_head q + 1"] q h1 by (simp add: queue_inv_def)
  also have "\<dots> = 1023 - q_len q"
    using q mod_1024 [of "?t + 1024 - (?h + 1)"] by (auto simp: q_len_if queue_inv_def)
  finally show ?thesis by (simp add: LEFT_def unat_and_1023)
qed

lemma FULL_len: "queue_inv q \<Longrightarrow> FULL q \<longleftrightarrow> q_len q = 1023"
  using LEFT_len [of q] q_len_less [of q] by (auto simp: FULL_def word_eq_iff_unsigned [where ?'a = nat])

lemma queue_inv_ops:
  assumes "queue_inv q"
  shows "queue_inv (PUTCH c q)" "queue_inv (snd (GETCH q))" "queue_inv (DEC_head q)"
  using assms unat_ring_inc [of "q_head q"] unat_ring_inc [of "q_tail q"] unat_ring_dec [of "q_head q"]
  by (auto simp: queue_inv_def PUTCH_def GETCH_def DEC_head_def)

text \<open>The arithmetic of the ring, on \<open>nat\<close>.\<close>

lemma ring_len:
  fixes h t :: nat
  assumes "h < 1024" "t < 1024"
  defines "n \<equiv> (h + 1024 - t) mod 1024"
  shows "n < 1023 \<Longrightarrow> ((h + 1) mod 1024 + 1024 - t) mod 1024 = n + 1"
    "0 < n \<Longrightarrow> (h + 1024 - (t + 1) mod 1024) mod 1024 = n - 1"
    "0 < n \<Longrightarrow> ((h + 1023) mod 1024 + 1024 - t) mod 1024 = n - 1"
    "(t + n) mod 1024 = h"
    "0 < n \<Longrightarrow> (t + (n - 1)) mod 1024 = (h + 1023) mod 1024"
  using assms by (auto simp: mod_1024 split: if_splits)

lemma q_list_PUTCH:
  assumes "queue_inv q" "q_len q < 1023"
  shows "q_list (PUTCH c q) = q_list q @ [c]"
proof -
  let ?h = "unat (q_head q)" and ?t = "unat (q_tail q)"
  have b: "?h < 1024" "?t < 1024" "length (q_buf q) = 1024" using assms(1) by (auto simp: queue_inv_def)
  have n: "q_len q = (?h + 1024 - ?t) mod 1024" by (simp add: q_len_def)
  have n': "q_len (PUTCH c q) = q_len q + 1"
    using ring_len(1) [OF b(1,2)] assms(2) unat_ring_inc [OF b(1)] by (simp add: q_len_def PUTCH_def)
  have ne: "?h \<noteq> (?t + i) mod 1024" if "i < q_len q" for i
    using that b mod_1024 [of "?t + i"] unfolding q_len_if [OF assms(1)] by (auto split: if_splits)
  have "map (\<lambda>i. (q_buf q)[?h := c] ! ((?t + i) mod 1024)) [0..<q_len q] = q_list q"
    unfolding q_list_def by (rule map_cong [OF refl]) (simp add: nth_list_update_neq [OF ne])
  moreover have "(q_buf q)[?h := c] ! ((?t + q_len q) mod 1024) = c"
    using ring_len(4) [OF b(1,2)] b unfolding n by simp
  ultimately show ?thesis by (subst q_list_def) (simp add: n', simp add: PUTCH_def)
qed

lemma q_list_GETCH:
  assumes "queue_inv q" "q_list q = c # cs"
  shows "fst (GETCH q) = c \<and> q_list (snd (GETCH q)) = cs"
proof -
  let ?h = "unat (q_head q)" and ?t = "unat (q_tail q)"
  have b: "?h < 1024" "?t < 1024" using assms(1) by (auto simp: queue_inv_def)
  have n0: "0 < q_len q" using arg_cong [OF assms(2), of length] by simp
  then have n': "q_len (snd (GETCH q)) = q_len q - 1"
    using ring_len(2) [OF b] unat_ring_inc [OF b(2)] by (simp add: q_len_def GETCH_def)
  have l: "[0..<q_len q] = 0 # map Suc [0..<q_len q - 1]"
    using n0 by (simp add: map_Suc_upt upt_conv_Cons)
  have "q_list q = q_buf q ! ?t # map (\<lambda>i. q_buf q ! ((?t + Suc i) mod 1024)) [0..<q_len q - 1]"
    unfolding q_list_def l using b by simp
  moreover have "q_list (snd (GETCH q)) = map (\<lambda>i. q_buf q ! ((?t + Suc i) mod 1024)) [0..<q_len q - 1]"
    unfolding q_list_def n' using unat_ring_inc [OF b(2)] by (simp add: GETCH_def mod_simps)
  ultimately show ?thesis using assms(2) by (simp add: GETCH_def)
qed

lemma q_list_DEC:
  assumes "queue_inv q" "q_list q \<noteq> []"
  shows "q_list (DEC_head q) = butlast (q_list q) \<and> LAST q = last (q_list q)"
proof -
  let ?h = "unat (q_head q)" and ?t = "unat (q_tail q)"
  have b: "?h < 1024" "?t < 1024" using assms(1) by (auto simp: queue_inv_def)
  have n0: "0 < q_len q" using assms(2) by (metis length_greater_0_conv length_q_list)
  have n': "q_len (DEC_head q) = q_len q - 1"
    using ring_len(3) [OF b] n0 unat_ring_dec [OF b(1)] by (simp add: q_len_def DEC_head_def)
  have l: "[0..<q_len q] = [0..<q_len q - 1] @ [q_len q - 1]"
    using n0 by (metis Suc_pred' upt_Suc_append zero_le)
  have m: "(?t + (q_len q - 1)) mod 1024 = (?h + 1023) mod 1024"
    using ring_len(5) [OF b] n0 unfolding q_len_def .
  have "q_list q = map (\<lambda>i. q_buf q ! ((?t + i) mod 1024)) [0..<q_len q - 1] @ [q_buf q ! ((?h + 1023) mod 1024)]"
    unfolding q_list_def l by (simp only: map_append list.map m)
  moreover have "q_list (DEC_head q) = map (\<lambda>i. q_buf q ! ((?t + i) mod 1024)) [0..<q_len q - 1]"
    unfolding q_list_def n' by (simp add: DEC_head_def)
  moreover have "LAST q = q_buf q ! ((?h + 1023) mod 1024)"
    using unat_ring_dec [OF b(1)] by (simp add: LAST_def and.commute)
  ultimately show ?thesis by simp
qed

interpretation ring: char_queue PUTCH GETCH q_list queue_inv 1023
proof unfold_locales
  show "queue_inv q \<Longrightarrow> length (q_list q) \<le> 1023" for q using q_len_less [of q] by simp
qed (simp_all add: queue_inv_ops q_list_PUTCH q_list_GETCH)

interpretation line_ring: line_queue PUTCH GETCH q_list queue_inv 1023 DEC_head LAST
  by unfold_locales (simp_all add: queue_inv_ops q_list_DEC)

text \<open>C27: The ring of a terminal is a first-in first-out queue of up to 1023 characters: what is put in
  is what comes out, in order, and a character put last can be taken back. With 1023 characters in it
  the ring is \<open>FULL\<close>, and one more \<open>PUTCH\<close> loses all of them: the ring is then empty.\<close>

theorem tty_queue_fifo:
  assumes "queue_inv q" "length (q_list q) + length cs \<le> 1023"
  shows "q_list (fold PUTCH cs q) = q_list q @ cs \<and> queue_inv (fold PUTCH cs q) \<and>
    (q_list q @ cs \<noteq> [] \<longrightarrow> fst (GETCH (fold PUTCH cs q)) = hd (q_list q @ cs) \<and>
       q_list (snd (GETCH (fold PUTCH cs q))) = tl (q_list q @ cs) \<and> LAST (fold PUTCH cs q) = last (q_list q @ cs)) \<and>
    (FULL (fold PUTCH cs q) \<longleftrightarrow> length (q_list q) + length cs = 1023) \<and>
    (FULL q \<longrightarrow> q_list (PUTCH c q) = [])"
proof -
  note c = ring.contents_puts [OF assms] and i = ring.invar_puts [OF assms(1), of cs]
  have f: "FULL (fold PUTCH cs q) \<longleftrightarrow> length (q_list q) + length cs = 1023"
    using FULL_len [OF i] arg_cong [OF c, of length] by simp
  have e: "FULL q \<Longrightarrow> q_list (PUTCH c q) = []"
  proof -
    assume "FULL q"
    then have "q_len q = 1023" using FULL_len [OF assms(1)] by simp
    then have "q_len (PUTCH c q) = 0"
      using assms(1) unat_ring_inc [of "q_head q"] by (auto simp: q_len_def PUTCH_def queue_inv_def mod_1024 split: if_splits)
    then show ?thesis by (metis length_0_conv length_q_list)
  qed
  show ?thesis
  proof (cases "q_list q @ cs")
    case Nil
    then show ?thesis using c i f e by simp
  next
    case (Cons d ds)
    then show ?thesis
      using ring.contents_get [OF i, of d ds] line_ring.peek_last [OF i] c i f e by simp
  qed
qed

definition queue0 :: tty_queue where
  "queue0 = \<lparr>q_data = 0, q_head = 1023, q_tail = 1023, q_proc_list = 0x100, q_buf = replicate 1024 0\<rparr>"

lemma queue0_inv: "queue_inv queue0" "q_list queue0 = []"
  by (simp_all add: queue_inv_def queue0_def q_list_def q_len_def)

theorem tty_queue_fifo_witness: "q_list (fold PUTCH [1, 2] queue0) = [1, 2]"
  using tty_queue_fifo [of queue0 "[1, 2]"] queue0_inv by simp

end
