(* ===== verification/Ctype.thy ===== *)
theory Ctype
  imports Prelude
begin

text \<open>
  Character classes, \<open>lib/ctype.c\<close> and \<open>include/ctype.h\<close>. The macros index the table with the signed
  value of the character plus one: a character from \<open>0x80\<close> to \<open>0xfe\<close> reads before the table.
\<close>

definition CU :: u8 where "CU = 0x01"
definition CL :: u8 where "CL = 0x02"
definition CD :: u8 where "CD = 0x04"
definition CC :: u8 where "CC = 0x08"
definition CP :: u8 where "CP = 0x10"
definition CS :: u8 where "CS = 0x20"
definition CX :: u8 where "CX = 0x40"
definition CSP :: u8 where "CSP = 0x80"

lemmas ctype_bits = CU_def CL_def CD_def CC_def CP_def CS_def CX_def CSP_def

definition ctype_table :: "u8 list" where
  "ctype_table = [0] @ replicate 9 CC @ replicate 5 (CC OR CS) @ replicate 18 CC @ [CS OR CSP] @ replicate 15 CP
     @ replicate 10 CD @ replicate 7 CP @ replicate 6 (CU OR CX) @ replicate 20 CU @ replicate 6 CP
     @ replicate 6 (CL OR CX) @ replicate 20 CL @ replicate 4 CP @ [CC] @ replicate 128 0"

definition ctype_of :: "u8 \<Rightarrow> u8 kres" where
  "ctype_of c = (if - 1 \<le>s c then Inr (ctype_table ! nat (sint c + 1)) else Inl OutOfBounds)"

definition islower :: "u8 \<Rightarrow> bool kres" where
  "islower c = kbind (ctype_of c) (\<lambda>t. Inr (t AND CL \<noteq> 0))"

definition isupper :: "u8 \<Rightarrow> bool kres" where
  "isupper c = kbind (ctype_of c) (\<lambda>t. Inr (t AND CU \<noteq> 0))"

definition tolower :: "u8 \<Rightarrow> u8 kres" where
  "tolower c = kbind (isupper c) (\<lambda>u. Inr (if u then c + 32 else c))"

definition toupper :: "u8 \<Rightarrow> u8 kres" where
  "toupper c = kbind (islower c) (\<lambda>l. Inr (if l then c - 32 else c))"

lemma length_ctype_table: "length ctype_table = 257"
  by (simp add: ctype_table_def)

text \<open>What the table says of an ASCII character.\<close>

lemma ctype_letters:
  "list_all (\<lambda>n. (ctype_table ! (n + 1) AND CU \<noteq> 0) = (65 \<le> n \<and> n \<le> 90) \<and>
     (ctype_table ! (n + 1) AND CL \<noteq> 0) = (97 \<le> n \<and> n \<le> 122)) [0..<128]"
  by (simp add: ctype_table_def ctype_bits nth_append upt_rec)

lemma ctype_of_ascii: "unat c < 128 \<Longrightarrow> ctype_of c = Inr (ctype_table ! (unat c + 1))"
proof -
  assume "unat c < 128"
  then have s: "sint c = int (unat c)" using sint_of_nat_small [of "unat c", where ?'a = 8] by simp
  then have "nat (sint c + 1) = unat c + 1" "- 1 \<le> sint c" by linarith+
  then show ?thesis by (simp add: ctype_of_def word_sle_eq)
qed

text \<open>On ASCII the two conversions are what they should be, and inverse to each other on letters.\<close>

lemma tolower_ascii: "unat c < 128 \<Longrightarrow> tolower c = Inr (if 65 \<le> unat c \<and> unat c \<le> 90 then c + 32 else c)"
  using ctype_letters by (simp add: tolower_def isupper_def ctype_of_ascii list_all_iff)

lemma toupper_ascii: "unat c < 128 \<Longrightarrow> toupper c = Inr (if 97 \<le> unat c \<and> unat c \<le> 122 then c - 32 else c)"
  using ctype_letters by (simp add: toupper_def islower_def ctype_of_ascii list_all_iff)

lemma toupper_tolower: "97 \<le> unat c \<Longrightarrow> unat c \<le> 122 \<Longrightarrow> kbind (toupper c) tolower = Inr c"
proof -
  assume c: "97 \<le> unat c" "unat c \<le> 122"
  then have u: "unat (c - 32) = unat c - 32" by (simp add: unat_sub_if')
  then have "65 \<le> unat (c - 32)" "unat (c - 32) \<le> 90" using c by linarith+
  then show ?thesis using c by (simp add: toupper_ascii tolower_ascii)
qed

end
