(* ===== verification/Tty.thy ===== *)
theory Tty
  imports Console TtyQueue Ctype Exit Wait
begin

text \<open>
  The terminal, \<open>kernel/chr_drv/tty_io.c\<close> and \<open>tty_ioctl.c\<close>, with the loop of \<open>con_write\<close> from
  \<open>console.c\<close>. The table has one terminal; its \<open>write\<close> is always \<open>con_write\<close>. Typed characters go from
  the queue \<open>read_q\<close> through \<open>copy_to_cooked\<close> (the line discipline) to \<open>secondary\<close>, where \<open>tty_read\<close>
  takes them; echoes and output go to \<open>write_q\<close>, which \<open>con_write\<close> empties onto the console.

  \<open>con_write\<close> and \<open>copy_to_cooked\<close> call each other (an echo is written, a request for identification is
  answered by typing), so both take a number of steps as fuel: \<open>None\<close> is "out of steps". A plain
  character is a signed \<open>char\<close>, a control character of the terminal an unsigned one.
\<close>

record termios =
  c_iflag :: u16
  c_oflag :: u16
  c_cflag :: u16
  c_lflag :: u16
  c_line :: u8
  c_cc :: "u8 list"

record tty_struct =
  tt_termios :: termios
  tt_pgrp :: u32
  tt_session :: u32
  tt_stopped :: u32
  read_q :: tty_queue
  write_q :: tty_queue
  secondary :: tty_queue

text \<open>\<open>s_user\<close> is the user's memory, \<open>s_verified\<close> the calls of \<open>verify_area\<close>, \<open>s_cr_flag\<close> the static
  variable of \<open>tty_write\<close>.\<close>

record ttysys =
  s_tty :: tty_struct
  s_con :: console
  s_w :: wsys
  s_user :: bmem
  s_verified :: "(u32 \<times> u32) list"
  s_cr_flag :: bool

section \<open>Flags and control characters\<close>

definition L_FLAG :: "tty_struct \<Rightarrow> u16 \<Rightarrow> bool" where "L_FLAG t f \<longleftrightarrow> c_lflag (tt_termios t) AND f \<noteq> 0"
definition O_FLAG :: "tty_struct \<Rightarrow> u16 \<Rightarrow> bool" where "O_FLAG t f \<longleftrightarrow> c_oflag (tt_termios t) AND f \<noteq> 0"
definition I_FLAG :: "tty_struct \<Rightarrow> u16 \<Rightarrow> bool" where "I_FLAG t f \<longleftrightarrow> c_iflag (tt_termios t) AND f \<noteq> 0"

definition L_ISIG :: "tty_struct \<Rightarrow> bool" where "L_ISIG t = L_FLAG t 0x1"
definition L_CANON :: "tty_struct \<Rightarrow> bool" where "L_CANON t = L_FLAG t 0x2"
definition L_ECHO :: "tty_struct \<Rightarrow> bool" where "L_ECHO t = L_FLAG t 0x8"
definition L_ECHOCTL :: "tty_struct \<Rightarrow> bool" where "L_ECHOCTL t = L_FLAG t 0x200"

definition O_POST :: "tty_struct \<Rightarrow> bool" where "O_POST t = O_FLAG t 0x1"
definition O_LCUC :: "tty_struct \<Rightarrow> bool" where "O_LCUC t = O_FLAG t 0x2"
definition O_NLCR :: "tty_struct \<Rightarrow> bool" where "O_NLCR t = O_FLAG t 0x4"
definition O_CRNL :: "tty_struct \<Rightarrow> bool" where "O_CRNL t = O_FLAG t 0x8"
definition O_NLRET :: "tty_struct \<Rightarrow> bool" where "O_NLRET t = O_FLAG t 0x20"

definition I_NLCR :: "tty_struct \<Rightarrow> bool" where "I_NLCR t = I_FLAG t 0x40"
definition I_NOCR :: "tty_struct \<Rightarrow> bool" where "I_NOCR t = I_FLAG t 0x80"
definition I_CRNL :: "tty_struct \<Rightarrow> bool" where "I_CRNL t = I_FLAG t 0x100"
definition I_UCLC :: "tty_struct \<Rightarrow> bool" where "I_UCLC t = I_FLAG t 0x200"

text \<open>The indices of \<open>c_cc\<close>.\<close>

definition VINTR :: nat where "VINTR = 0"
definition VQUIT :: nat where "VQUIT = 1"
definition VERASE :: nat where "VERASE = 2"
definition VKILL :: nat where "VKILL = 3"
definition VEOF :: nat where "VEOF = 4"
definition VSTART :: nat where "VSTART = 8"
definition VSTOP :: nat where "VSTOP = 9"
definition VSUSP :: nat where "VSUSP = 10"

definition cc :: "nat \<Rightarrow> tty_struct \<Rightarrow> u8" where "cc i t = c_cc (tt_termios t) ! i"

text \<open>A signed character against an unsigned one.\<close>

definition ceq :: "u8 \<Rightarrow> u8 \<Rightarrow> bool" where
  "ceq c k \<longleftrightarrow> (scast c :: u32) = ucast k"

section \<open>Output and the line discipline\<close>

definition put_write :: "u8 \<Rightarrow> ttysys \<Rightarrow> ttysys" where
  "put_write c s = s\<lparr>s_tty := (s_tty s)\<lparr>write_q := PUTCH c (write_q (s_tty s))\<rparr>\<rparr>"

definition put_secondary :: "u8 \<Rightarrow> ttysys \<Rightarrow> ttysys" where
  "put_secondary c s = s\<lparr>s_tty := (s_tty s)\<lparr>secondary := PUTCH c (secondary (s_tty s))\<rparr>\<rparr>"

definition put_read :: "u8 \<Rightarrow> ttysys \<Rightarrow> ttysys" where
  "put_read c s = s\<lparr>s_tty := (s_tty s)\<lparr>read_q := PUTCH c (read_q (s_tty s))\<rparr>\<rparr>"

definition RESPONSE :: "u8 list" where
  "RESPONSE = [27, ch CHR ''['', ch CHR ''?'', ch CHR ''1'', ch CHR '';'', ch CHR ''2'', ch CHR ''c'']"

text \<open>The character as the input flags change it: \<open>None\<close> is "ignored".\<close>

definition map_input :: "tty_struct \<Rightarrow> u8 \<Rightarrow> u8 option kres" where
  "map_input t c =
     (let r = (if c = 13 then (if I_CRNL t then Some 10 else if I_NOCR t then None else Some c)
               else if c = 10 \<and> I_NLCR t then Some 13 else Some c)
      in case r of None \<Rightarrow> Inr None
         | Some c \<Rightarrow> if I_UCLC t then kbind (tolower c) (\<lambda>c. Inr (Some c)) else Inr (Some c))"

text \<open>The test that ends the erasing of characters.\<close>

definition line_start :: "tty_struct \<Rightarrow> bool" where
  "line_start t \<longleftrightarrow> EMPTY (secondary t) \<or> LAST (secondary t) = 10 \<or> ceq (LAST (secondary t)) (cc VEOF t)"

definition drop_last :: "ttysys \<Rightarrow> ttysys" where
  "drop_last s = s\<lparr>s_tty := (s_tty s)\<lparr>secondary := DEC_head (secondary (s_tty s))\<rparr>\<rparr>"

text \<open>The signal a character stands for.\<close>

definition signal_of :: "tty_struct \<Rightarrow> u8 \<Rightarrow> u32 option" where
  "signal_of t c =
     (if \<not> L_ISIG t then None
      else if ceq c (cc VINTR t) then Some (signo SIGINT)
      else if ceq c (cc VQUIT t) then Some (signo SIGQUIT)
      else if ceq c (cc VSUSP t) then Some (signo SIGTSTP)
      else None)"

definition tty_kill :: "u32 \<Rightarrow> ttysys \<Rightarrow> ttysys kres" where
  "tty_kill sig s =
     kbind (kill_pg (tt_pgrp (s_tty s)) sig True (wk (s_w s))) (\<lambda>(_, k). Inr (s\<lparr>s_w := (s_w s)\<lparr>wk := k\<rparr>\<rparr>))"

text \<open>The characters an accepted character is echoed as.\<close>

definition echo_of :: "tty_struct \<Rightarrow> u8 \<Rightarrow> u8 list" where
  "echo_of t c =
     (if c = 10 then [10, 13]
      else if c <s 32 then (if L_ECHOCTL t then [ch CHR ''^'', c + 64] else [])
      else [c])"

definition erase_echo :: "u8 \<Rightarrow> u8 list" where
  "erase_echo c = (if c <s 32 then [127, 127] else [127])"

definition count_line :: "u8 \<Rightarrow> ttysys \<Rightarrow> ttysys" where
  "count_line c s =
     (if c = 10 \<or> ceq c (cc VEOF (s_tty s)) then
        s\<lparr>s_tty := (s_tty s)\<lparr>secondary := (secondary (s_tty s))\<lparr>q_data := q_data (secondary (s_tty s)) + 1\<rparr>\<rparr>\<rparr>
      else s)"

text \<open>\<open>con_write\<close> (its loop, with the count of characters that is left), \<open>copy_to_cooked\<close>, the part of its
  loop body after the input flags (\<open>cook_key\<close>, where a \<open>continue\<close> is a return) and the loop that kills a line.\<close>

fun con_loop :: "nat \<Rightarrow> nat \<Rightarrow> ttysys \<Rightarrow> ttysys kres option"
and copy_to_cooked :: "nat \<Rightarrow> ttysys \<Rightarrow> ttysys kres option"
and cook_key :: "nat \<Rightarrow> u8 \<Rightarrow> ttysys \<Rightarrow> ttysys kres option"
and kill_loop :: "nat \<Rightarrow> ttysys \<Rightarrow> ttysys kres option" where
  "con_loop 0 nr s = None"
| "con_loop (Suc n) 0 s = Some (Inr (s\<lparr>s_con := con_flush (s_con s)\<rparr>))"
| "con_loop (Suc n) (Suc nr) s =
     (let (c, q) = GETCH (write_q (s_tty s));
          (k, answer) = con_char c (s_con s);
          s1 = s\<lparr>s_tty := (s_tty s)\<lparr>write_q := q\<rparr>, s_con := k\<rparr>
      in if answer then obind (copy_to_cooked n (fold put_read RESPONSE s1)) (con_loop n nr)
         else con_loop n nr s1)"
| "copy_to_cooked 0 s = None"
| "copy_to_cooked (Suc n) s =
     (if EMPTY (read_q (s_tty s)) \<or> FULL (secondary (s_tty s))
      then Some (Inr (s\<lparr>s_w := wake_up (q_proc_list (secondary (s_tty s))) (s_w s)\<rparr>))
      else
        let (c, q) = GETCH (read_q (s_tty s));
            s1 = s\<lparr>s_tty := (s_tty s)\<lparr>read_q := q\<rparr>\<rparr>
        in obind (Some (map_input (s_tty s) c)) (\<lambda>r.
             case r of None \<Rightarrow> copy_to_cooked n s1
             | Some c \<Rightarrow> obind (cook_key n c s1) (copy_to_cooked n)))"
| "cook_key 0 c s = None"
| "cook_key (Suc n) c s =
     (let t = s_tty s in
      if L_CANON t \<and> ceq c (cc VKILL t) then kill_loop n s
      else if L_CANON t \<and> ceq c (cc VERASE t) then
        (if line_start t then Some (Inr s)
         else
           let s1 = fold put_write (erase_echo (LAST (secondary t))) s in
           obind (if L_ECHO t then con_loop n (unat (CHARS (write_q (s_tty s1)))) s1 else Some (Inr s))
             (\<lambda>s. Some (Inr (drop_last s))))
      else if L_CANON t \<and> ceq c (cc VSTOP t) then Some (Inr (s\<lparr>s_tty := t\<lparr>tt_stopped := 1\<rparr>\<rparr>))
      else if L_CANON t \<and> ceq c (cc VSTART t) then Some (Inr (s\<lparr>s_tty := t\<lparr>tt_stopped := 0\<rparr>\<rparr>))
      else case signal_of t c of
        Some sig \<Rightarrow> Some (tty_kill sig s)
      | None \<Rightarrow>
          let s = count_line c s;
              s1 = fold put_write (echo_of t c) s
          in obind (if L_ECHO t then con_loop n (unat (CHARS (write_q (s_tty s1)))) s1 else Some (Inr s))
               (\<lambda>s. Some (Inr (put_secondary c s))))"
| "kill_loop 0 s = None"
| "kill_loop (Suc n) s =
     (let t = s_tty s in
      if line_start t then Some (Inr s)
      else
        let s1 = fold put_write (erase_echo (LAST (secondary t))) s in
        obind (if L_ECHO t then con_loop n (unat (CHARS (write_q (s_tty s1)))) s1 else Some (Inr s))
          (\<lambda>s. kill_loop n (drop_last s)))"

definition con_write :: "nat \<Rightarrow> ttysys \<Rightarrow> ttysys kres option" where
  "con_write n s = con_loop n (unat (CHARS (write_q (s_tty s)))) s"

definition do_tty_interrupt :: "nat \<Rightarrow> nat \<Rightarrow> ttysys \<Rightarrow> ttysys kres option" where
  "do_tty_interrupt n tty s = (if tty = 0 then copy_to_cooked n s else Some (Inl OutOfBounds))"

section \<open>Writing and reading\<close>

text \<open>The loop of \<open>tty_write\<close>: \<open>b\<close> is the address of the next character, \<open>nr\<close> how many are left, and
  \<open>crf\<close> the flag that a carriage return has been put before the newline at \<open>b\<close>.\<close>

definition output_char :: "tty_struct \<Rightarrow> u8 \<Rightarrow> u8" where
  "output_char t c =
     (if c = 13 \<and> O_CRNL t then 10 else if c = 10 \<and> O_NLRET t then 13 else c)"

function write_loop :: "nat \<Rightarrow> u32 \<Rightarrow> bool \<Rightarrow> bmem \<Rightarrow> tty_struct \<Rightarrow> (u32 \<times> bool \<times> tty_struct) kres" where
  "write_loop 0 b crf m t = Inr (b, crf, t)"
| "write_loop (Suc nr) b crf m t =
     (let c = get_fs_byte b m in
      if O_POST t then
        let c = output_char t c in
        if c = 10 \<and> \<not> crf \<and> O_NLCR t then
          write_loop (Suc nr) b True m (t\<lparr>write_q := PUTCH 13 (write_q t)\<rparr>)
        else
          kbind (if O_LCUC t then toupper c else Inr c) (\<lambda>c.
            write_loop nr (b + 1) False m (t\<lparr>write_q := PUTCH c (write_q t)\<rparr>))
      else write_loop nr (b + 1) False m (t\<lparr>write_q := PUTCH c (write_q t)\<rparr>))"
  by pat_completeness auto
termination
  by (relation "measure (\<lambda>(nr, b, crf, m, t). 2 * nr + (if crf then 0 else 1))") auto

definition tty_write :: "nat \<Rightarrow> u32 \<Rightarrow> u32 \<Rightarrow> u32 \<Rightarrow> ttysys \<Rightarrow> (u32 \<times> ttysys) kres option" where
  "tty_write n channel buf nr s =
     (if 2 < channel \<or> nr <s 0 then Some (Inr (- 1, s))
      else if channel \<noteq> 0 then Some (Inl OutOfBounds)
      else obind (Some (write_loop (unat nr) buf (s_cr_flag s) (s_user s) (s_tty s))) (\<lambda>(b, crf, t).
        obind (con_write n (s\<lparr>s_tty := t, s_cr_flag := crf\<rparr>)) (\<lambda>s. Some (Inr (b - buf, s)))))"

text \<open>Taking characters from the cooked queue: the inner loop of \<open>tty_read\<close>. The first component says
  that an end-of-file character was met, which ends the call.\<close>

fun read_chars :: "nat \<Rightarrow> u32 \<Rightarrow> bmem \<Rightarrow> tty_struct \<Rightarrow> bool \<times> nat \<times> u32 \<times> bmem \<times> tty_struct" where
  "read_chars 0 b m t = (False, 0, b, m, t)"
| "read_chars (Suc nr) b m t =
     (let (c, q) = GETCH (secondary t);
          q = (if ceq c (cc VEOF t) \<or> c = 10 then q\<lparr>q_data := q_data q - 1\<rparr> else q);
          eof = ceq c (cc VEOF t) \<and> L_CANON t;
          t = t\<lparr>secondary := q\<rparr>
      in if eof then (True, Suc nr, b, m, t)
         else if EMPTY (secondary t) then (False, nr, b + 1, put_fs_byte c b m, t)
         else read_chars nr (b + 1) (put_fs_byte c b m) t)"

definition nothing_to_read :: "tty_struct \<Rightarrow> bool" where
  "nothing_to_read t \<longleftrightarrow>
     EMPTY (secondary t) \<or> L_CANON t \<and> \<not> FULL (read_q t) \<and> q_data (secondary t) = 0"

text \<open>\<open>tty_read\<close>: \<open>env\<close> is what the rest of the system does from the moment the task falls asleep to the
  moment it runs again. A reader nobody writes for never returns: its value is \<open>None\<close>. The terminal may be part of
  a larger state, which \<open>env\<close> changes with it.\<close>

partial_function (option) read_loop ::
    "('a ttysys_scheme \<Rightarrow> 'a ttysys_scheme) \<Rightarrow> u32 \<Rightarrow> nat \<Rightarrow> u32 \<Rightarrow> 'a ttysys_scheme \<Rightarrow>
      (u32 \<times> 'a ttysys_scheme) kres option" where
  "read_loop env buf nr b s =
     (if nr = 0 then Some (Inr (b - buf, s))
      else if nothing_to_read (s_tty s) then
        (case interruptible_sleep_on (q_proc_list (secondary (s_tty s))) (s_w s) of
           Inl e \<Rightarrow> Some (Inl e)
         | Inr w \<Rightarrow> read_loop env buf nr b (env (s\<lparr>s_w := w\<rparr>)))
      else
        (case read_chars nr b (s_user s) (s_tty s) of
           (eof, nr', b', m, t) \<Rightarrow>
             if eof \<or> L_CANON t \<and> b' - buf \<noteq> 0
             then Some (Inr (b' - buf, s\<lparr>s_user := m, s_tty := t\<rparr>))
             else read_loop env buf nr' b' (s\<lparr>s_user := m, s_tty := t\<rparr>)))"

definition tty_read ::
    "('a ttysys_scheme \<Rightarrow> 'a ttysys_scheme) \<Rightarrow> u32 \<Rightarrow> u32 \<Rightarrow> u32 \<Rightarrow> 'a ttysys_scheme \<Rightarrow>
      (u32 \<times> 'a ttysys_scheme) kres option" where
  "tty_read env channel buf nr s =
     (if 2 < channel \<or> nr <s 0 then Some (Inr (- 1, s))
      else if channel \<noteq> 0 then (if nr = 0 then Some (Inr (0, s)) else Some (Inl OutOfBounds))
      else read_loop env buf (unat nr) buf s)"

section \<open>Control of the terminal\<close>

text \<open>The structures of \<open>termios.h\<close> as the bytes the program sees: 26 bytes, and 18 for the older
  \<open>struct termio\<close>, the last of them padding.\<close>

definition short_bytes :: "u16 \<Rightarrow> u8 list" where
  "short_bytes w = [ucast w, ucast (drop_bit 8 w)]"

definition bytes_short :: "u8 \<Rightarrow> u8 \<Rightarrow> u16" where
  "bytes_short a b = ucast a OR push_bit 8 (ucast b)"

definition termios_bytes :: "termios \<Rightarrow> u8 list" where
  "termios_bytes t =
     short_bytes (c_iflag t) @ short_bytes (c_oflag t) @ short_bytes (c_cflag t) @ short_bytes (c_lflag t)
       @ c_line t # c_cc t"

definition bytes_termios :: "u8 list \<Rightarrow> termios" where
  "bytes_termios bs =
     \<lparr>c_iflag = bytes_short (bs ! 0) (bs ! 1), c_oflag = bytes_short (bs ! 2) (bs ! 3),
      c_cflag = bytes_short (bs ! 4) (bs ! 5), c_lflag = bytes_short (bs ! 6) (bs ! 7),
      c_line = bs ! 8, c_cc = drop 9 bs\<rparr>"

definition put_bytes :: "u8 list \<Rightarrow> u32 \<Rightarrow> bmem \<Rightarrow> bmem" where
  "put_bytes bs a m = fold (\<lambda>i. put_fs_byte (bs ! i) (a + of_nat i)) [0..<length bs] m"

definition get_bytes :: "nat \<Rightarrow> u32 \<Rightarrow> bmem \<Rightarrow> u8 list" where
  "get_bytes n a m = map (\<lambda>i. get_fs_byte (a + of_nat i) m) [0..<n]"

definition tty_verify :: "u32 \<Rightarrow> u32 \<Rightarrow> ttysys \<Rightarrow> ttysys" where
  "tty_verify a n s = s\<lparr>s_verified := s_verified s @ [(a, n)]\<rparr>"

definition get_termios :: "u32 \<Rightarrow> ttysys \<Rightarrow> u32 \<times> ttysys" where
  "get_termios arg s =
     (let s = tty_verify arg 26 s
      in (0, s\<lparr>s_user := put_bytes (termios_bytes (tt_termios (s_tty s))) arg (s_user s)\<rparr>))"

definition set_termios :: "u32 \<Rightarrow> ttysys \<Rightarrow> u32 \<times> ttysys" where
  "set_termios arg s =
     (0, s\<lparr>s_tty := (s_tty s)\<lparr>tt_termios := bytes_termios (get_bytes 26 arg (s_user s))\<rparr>\<rparr>)"

text \<open>The local \<open>tmp_termio\<close> is not initialised: \<open>pad\<close> is what the stack has in its last byte.\<close>

definition get_termio :: "u8 \<Rightarrow> u32 \<Rightarrow> ttysys \<Rightarrow> u32 \<times> ttysys" where
  "get_termio pad arg s =
     (let s = tty_verify arg 18 s
      in (0, s\<lparr>s_user := put_bytes (take 17 (termios_bytes (tt_termios (s_tty s))) @ [pad]) arg (s_user s)\<rparr>))"

definition set_termio :: "u32 \<Rightarrow> ttysys \<Rightarrow> u32 \<times> ttysys" where
  "set_termio arg s =
     (let new = bytes_termios (take 17 (get_bytes 18 arg (s_user s)));
          old = tt_termios (s_tty s)
      in (0, s\<lparr>s_tty := (s_tty s)\<lparr>tt_termios := new\<lparr>c_cc := c_cc new @ drop 8 (c_cc old)\<rparr>\<rparr>\<rparr>))"

definition flush :: "tty_queue \<Rightarrow> tty_queue" where
  "flush q = q\<lparr>q_head := q_tail q\<rparr>"

definition flush_read :: "ttysys \<Rightarrow> ttysys" where
  "flush_read s = s\<lparr>s_tty := (s_tty s)\<lparr>read_q := flush (read_q (s_tty s))\<rparr>\<rparr>"

definition flush_write :: "ttysys \<Rightarrow> ttysys" where
  "flush_write s = s\<lparr>s_tty := (s_tty s)\<lparr>write_q := flush (write_q (s_tty s))\<rparr>\<rparr>"

text \<open>\<open>tcxonc\<close> and \<open>tcflsh\<close> are the inner \<open>switch\<close> and the chain of \<open>if\<close>s of \<open>tty_ioctl\<close>;
  \<open>wait_until_sent\<close> and \<open>send_break\<close> do nothing.\<close>

definition tcxonc :: "nat \<Rightarrow> u32 \<Rightarrow> ttysys \<Rightarrow> (u32 \<times> ttysys) kres option" where
  "tcxonc n arg s =
     (if arg = 0 then obind (con_write n (s\<lparr>s_tty := (s_tty s)\<lparr>tt_stopped := 1\<rparr>\<rparr>)) (\<lambda>s. Some (Inr (0, s)))
      else if arg = 1 then obind (con_write n (s\<lparr>s_tty := (s_tty s)\<lparr>tt_stopped := 0\<rparr>\<rparr>)) (\<lambda>s. Some (Inr (0, s)))
      else if arg = 2 then
        Some (Inr (0, if cc VSTOP (s_tty s) \<noteq> 0 then put_write (cc VSTOP (s_tty s)) s else s))
      else if arg = 3 then
        Some (Inr (0, if cc VSTART (s_tty s) \<noteq> 0 then put_write (cc VSTART (s_tty s)) s else s))
      else Some (Inr (neg_errno EINVAL, s)))"

definition tcflsh :: "u32 \<Rightarrow> ttysys \<Rightarrow> u32 \<times> ttysys" where
  "tcflsh arg s =
     (if arg = 0 then (0, flush_read s)
      else if arg = 1 then (0, flush_write s)
      else if arg = 2 then (0, flush_write (flush_read s))
      else (neg_errno EINVAL, s))"

definition tell :: "u32 \<Rightarrow> u32 \<Rightarrow> ttysys \<Rightarrow> u32 \<times> ttysys" where
  "tell v arg s = (let s = tty_verify arg 4 s in (0, s\<lparr>s_user := put_fs_long v arg (s_user s)\<rparr>))"

text \<open>The commands that touch the terminal (the others only return a value); \<open>dev\<close> indexes the table.\<close>

definition tty_commands :: "u32 list" where
  "tty_commands = [0x5401, 0x5402, 0x5403, 0x5404, 0x5405, 0x5406, 0x5407, 0x5408, 0x540A, 0x540B, 0x540F, 0x5411, 0x541B]"

definition tty_ioctl :: "nat \<Rightarrow> u8 \<Rightarrow> u32 \<Rightarrow> u32 \<Rightarrow> u32 \<Rightarrow> ttysys \<Rightarrow> (u32 \<times> ttysys) kres option" where
  "tty_ioctl n pad dev cmd arg s =
     (let t = s_tty s in
      if cmd \<in> set tty_commands \<and> dev \<noteq> 0 then Some (Inl OutOfBounds)
      else if cmd = 0x5401 then Some (Inr (get_termios arg s))
      else if cmd = 0x5404 then Some (Inr (set_termios arg (flush_read s)))
      else if cmd = 0x5403 \<or> cmd = 0x5402 then Some (Inr (set_termios arg s))
      else if cmd = 0x5405 then Some (Inr (get_termio pad arg s))
      else if cmd = 0x5408 then Some (Inr (set_termio arg (flush_read s)))
      else if cmd = 0x5407 \<or> cmd = 0x5406 then Some (Inr (set_termio arg s))
      else if cmd = 0x5409 then Some (Inr (0, s))
      else if cmd = 0x540A then tcxonc n arg s
      else if cmd = 0x540B then Some (Inr (tcflsh arg s))
      else if cmd = 0x540F then Some (Inr (tell (tt_pgrp t) arg s))
      else if cmd = 0x5410 then Some (Inr (0, s))
      else if cmd = 0x5411 then Some (Inr (tell (CHARS (write_q t)) arg s))
      else if cmd = 0x541B then Some (Inr (tell (CHARS (secondary t)) arg s))
      else Some (Inr (neg_errno EINVAL, s)))"

text \<open>\<open>INIT_C_CC\<close> and the entry of \<open>tty_table\<close>; \<open>proc_list\<close> gives the addresses of the three queue variables.\<close>

definition INIT_C_CC :: "u8 list" where
  "INIT_C_CC = [3, 28, 127, 21, 4, 0, 1, 0, 17, 19, 26, 0, 18, 15, 23, 22, 0]"

definition empty_queue :: "u32 \<Rightarrow> tty_queue" where
  "empty_queue a = \<lparr>q_data = 0, q_head = 0, q_tail = 0, q_proc_list = a, q_buf = replicate 1024 0\<rparr>"

definition tty_table0 :: "u32 \<Rightarrow> tty_struct" where
  "tty_table0 a =
     \<lparr>tt_termios = \<lparr>c_iflag = 0x100, c_oflag = 0x5, c_cflag = 0,
        c_lflag = 0x1 OR 0x2 OR 0x8 OR 0x200 OR 0x800, c_line = 0, c_cc = INIT_C_CC\<rparr>,
      tt_pgrp = 0, tt_session = 0, tt_stopped = 0,
      read_q = empty_queue a, write_q = empty_queue (a + 4), secondary = empty_queue (a + 8)\<rparr>"

section \<open>What the console does with a list of characters\<close>

text \<open>\<open>run_chars\<close> is the console after the characters, \<open>quiet\<close> says that none of them asks for an answer.\<close>

definition run_chars :: "u8 list \<Rightarrow> console \<Rightarrow> console" where
  "run_chars cs k = fold (\<lambda>c k. fst (con_char c k)) cs k"

primrec quiet :: "u8 list \<Rightarrow> console \<Rightarrow> bool" where
  "quiet [] k \<longleftrightarrow> True"
| "quiet (c # cs) k \<longleftrightarrow> \<not> snd (con_char c k) \<and> quiet cs (fst (con_char c k))"

lemma run_chars_simps [simp]:
  "run_chars [] k = k"
  "run_chars (c # cs) k = run_chars cs (fst (con_char c k))"
  by (simp_all add: run_chars_def)

lemma con_loop_quiet:
  "length cs < n \<Longrightarrow> queue_inv (write_q (s_tty s)) \<Longrightarrow> q_list (write_q (s_tty s)) = cs \<Longrightarrow> quiet cs (s_con s) \<Longrightarrow>
   \<exists>q. con_loop n (length cs) s =
     Some (Inr (s\<lparr>s_tty := (s_tty s)\<lparr>write_q := q\<rparr>, s_con := con_flush (run_chars cs (s_con s))\<rparr>)) \<and>
     queue_inv q \<and> q_list q = []"
proof (induction cs arbitrary: n s)
  case Nil
  then obtain n' where "n = Suc n'" by (cases n) auto
  then show ?case using Nil by (intro exI [of _ "write_q (s_tty s)"]) simp
next
  case (Cons c cs)
  then obtain n' where n: "n = Suc n'" "length cs < n'" by (cases n) auto
  let ?q = "snd (GETCH (write_q (s_tty s)))"
  define s1 where "s1 = s\<lparr>s_tty := (s_tty s)\<lparr>write_q := ?q\<rparr>, s_con := fst (con_char c (s_con s))\<rparr>"
  have g: "fst (GETCH (write_q (s_tty s))) = c" "q_list ?q = cs" "queue_inv ?q"
    using q_list_GETCH [OF Cons.prems(2,3)] queue_inv_ops [OF Cons.prems(2)] by auto
  have step: "con_loop n (length (c # cs)) s = con_loop n' (length cs) s1"
    using Cons.prems(4) g(1) unfolding n(1) by (simp add: s1_def case_prod_beta)
  have "queue_inv (write_q (s_tty s1))" "q_list (write_q (s_tty s1)) = cs" "quiet cs (s_con s1)"
    using g Cons.prems(4) by (simp_all add: s1_def)
  from Cons.IH [OF n(2) this] obtain q where q: "con_loop n' (length cs) s1 =
     Some (Inr (s1\<lparr>s_tty := (s_tty s1)\<lparr>write_q := q\<rparr>, s_con := con_flush (run_chars cs (s_con s1))\<rparr>))"
     "queue_inv q" "q_list q = []" by blast
  then show ?case unfolding step by (intro exI [of _ q]) (simp add: s1_def)
qed

text \<open>In the state \<open>ESnormal\<close> only an escape character can lead to a question.\<close>

lemma state_simps [simp]:
  "c_state (set_origin k) = c_state k" "c_state (set_cursor k) = c_state k" "c_state (gotoxy x y k) = c_state k"
  "c_state (cr k) = c_state k" "c_state (del k) = c_state k" "c_state (backspace k) = c_state k"
  "c_state (con_flush k) = c_state k"
  by (simp_all add: set_origin_def set_cursor_def gotoxy_def cr_def del_def backspace_def con_flush_def)

lemma state_scrup [simp]: "c_state (scrup k) = c_state k"
  by (simp add: scrup_def Let_def)

lemma state_lf [simp]: "c_state (lf k) = c_state k"
  by (simp add: lf_def)

lemma state_put [simp]: "c_state (put_char c k) = c_state k" "c_state (tab k) = c_state k"
  by (simp_all add: put_char_def tab_def wrap_line_def Let_def)

lemma con_normal_state: "c \<noteq> 27 \<Longrightarrow> c_state (con_normal c k) = c_state k"
  by (simp add: con_normal_def)

lemma plain_quiet:
  "c_state k = ESnormal \<Longrightarrow> 27 \<notin> set cs \<Longrightarrow> quiet cs k \<and> c_state (run_chars cs k) = ESnormal"
proof (induction cs arbitrary: k)
  case (Cons c cs)
  then have "con_char c k = (con_normal c k, False)" "c_state (con_normal c k) = ESnormal"
    by (auto simp: con_char_def con_normal_state)
  then show ?case using Cons by simp
qed simp

text \<open>An echo changes the console and the ring indices of \<open>write_q\<close>, which stays empty.\<close>

definition echoed :: "ttysys \<Rightarrow> ttysys \<Rightarrow> bool" where
  "echoed s s' \<longleftrightarrow> (\<exists>q k. s' = s\<lparr>s_tty := (s_tty s)\<lparr>write_q := q\<rparr>, s_con := k\<rparr> \<and> queue_inv q \<and>
     q_list q = [] \<and> c_state k = ESnormal)"

lemma echoedI: "queue_inv q \<Longrightarrow> q_list q = [] \<Longrightarrow> c_state k = ESnormal \<Longrightarrow>
    echoed s (s\<lparr>s_tty := (s_tty s)\<lparr>write_q := q\<rparr>, s_con := k\<rparr>)"
  unfolding echoed_def by blast

lemma put_writes: "fold put_write cs s = s\<lparr>s_tty := (s_tty s)\<lparr>write_q := fold PUTCH cs (write_q (s_tty s))\<rparr>\<rparr>"
  by (induction cs arbitrary: s) (simp_all add: put_write_def)

lemma echo_ok:
  assumes "queue_inv (write_q (s_tty s))" "q_list (write_q (s_tty s)) = []" "c_state (s_con s) = ESnormal"
    "27 \<notin> set cs" "length cs < n" "length cs \<le> 1023"
  defines "s1 \<equiv> fold put_write cs s"
  shows "\<exists>s'. con_loop n (unat (CHARS (write_q (s_tty s1)))) s1 = Some (Inr s') \<and> echoed s s'"
proof -
  let ?q = "fold PUTCH cs (write_q (s_tty s))"
  have s1: "s1 = s\<lparr>s_tty := (s_tty s)\<lparr>write_q := ?q\<rparr>\<rparr>" by (simp add: s1_def put_writes)
  have q: "queue_inv ?q" "q_list ?q = cs"
    using ring.invar_puts [OF assms(1), of cs] ring.contents_puts [OF assms(1), of cs] assms(2,6) by auto
  have len: "unat (CHARS ?q) = length cs"
    using CHARS_len [OF q(1)] arg_cong [OF q(2), of length] by simp
  have "quiet cs (s_con s1)" and st: "c_state (run_chars cs (s_con s1)) = ESnormal"
    using plain_quiet [OF assms(3,4)] by (simp_all add: s1)
  then obtain q' where "con_loop n (length cs) s1 =
     Some (Inr (s1\<lparr>s_tty := (s_tty s1)\<lparr>write_q := q'\<rparr>, s_con := con_flush (run_chars cs (s_con s1))\<rparr>))"
     "queue_inv q'" "q_list q' = []"
    using con_loop_quiet [OF assms(5), of s1] q by (auto simp: s1)
  moreover from this have "echoed s (s1\<lparr>s_tty := (s_tty s1)\<lparr>write_q := q'\<rparr>, s_con := con_flush (run_chars cs (s_con s1))\<rparr>)"
    using echoedI [of q' "con_flush (run_chars cs (s_con s1))" s] st by (simp add: s1)
  ultimately show ?thesis using len by (simp add: s1)
qed

section \<open>Line editing\<close>

text \<open>The line discipline on lists: \<open>edit t l c\<close> is the line \<open>l\<close> after the key \<open>c\<close>.\<close>

definition line_end :: "tty_struct \<Rightarrow> u8 \<Rightarrow> bool" where
  "line_end t c \<longleftrightarrow> c = 10 \<or> ceq c (cc VEOF t)"

definition kill_line :: "tty_struct \<Rightarrow> u8 list \<Rightarrow> u8 list" where
  "kill_line t l = rev (dropWhile (\<lambda>c. \<not> line_end t c) (rev l))"

definition edit_key :: "tty_struct \<Rightarrow> u8 list \<Rightarrow> u8 \<Rightarrow> u8 list" where
  "edit_key t l c =
     (if L_CANON t \<and> ceq c (cc VKILL t) then kill_line t l
      else if L_CANON t \<and> ceq c (cc VERASE t) then (if l \<noteq> [] \<and> \<not> line_end t (last l) then butlast l else l)
      else if L_CANON t \<and> (ceq c (cc VSTOP t) \<or> ceq c (cc VSTART t)) then l
      else if signal_of t c \<noteq> None then l
      else l @ [c])"

definition edit :: "tty_struct \<Rightarrow> u8 list \<Rightarrow> u8 \<Rightarrow> u8 list" where
  "edit t l c = (case map_input t c of Inr (Some d) \<Rightarrow> edit_key t l d | _ \<Rightarrow> l)"

text \<open>The state between two keys: \<open>t\<close> gives the flags, \<open>q_data\<close> counts the complete lines.\<close>

definition tty_inv :: "tty_struct \<Rightarrow> ttysys \<Rightarrow> bool" where
  "tty_inv t s \<longleftrightarrow> tt_termios (s_tty s) = tt_termios t \<and> tt_pgrp (s_tty s) = 0 \<and>
     queue_inv (read_q (s_tty s)) \<and> queue_inv (write_q (s_tty s)) \<and> queue_inv (secondary (s_tty s)) \<and>
     q_list (write_q (s_tty s)) = [] \<and> c_state (s_con s) = ESnormal"

definition line_inv :: "tty_struct \<Rightarrow> ttysys \<Rightarrow> bool" where
  "line_inv t s \<longleftrightarrow> tty_inv t s \<and> q_data (secondary (s_tty s)) = of_nat (length (filter (line_end t) (q_list (secondary (s_tty s)))))"

lemma flags_cong:
  assumes "tt_termios t = tt_termios t'"
  shows "L_CANON t = L_CANON t'" "L_ECHO t = L_ECHO t'" "cc i t = cc i t'" "signal_of t c = signal_of t' c"
    "map_input t c = map_input t' c" "echo_of t c = echo_of t' c" "line_end t c = line_end t' c"
    "edit_key t l c = edit_key t' l c"
proof -
  show b: "L_CANON t = L_CANON t'" "L_ECHO t = L_ECHO t'" "cc i t = cc i t'" for i
    using assms by (simp_all add: L_CANON_def L_ECHO_def L_FLAG_def cc_def)
  show g: "signal_of t c = signal_of t' c" for c
    using assms b by (simp add: signal_of_def L_ISIG_def L_FLAG_def)
  show "map_input t c = map_input t' c" "echo_of t c = echo_of t' c"
    using assms by (simp_all add: map_input_def echo_of_def I_CRNL_def I_NOCR_def I_NLCR_def I_UCLC_def I_FLAG_def
        L_ECHOCTL_def L_FLAG_def)
  show e: "line_end t c = line_end t' c" for c using b by (simp add: line_end_def)
  show "edit_key t l c = edit_key t' l c" using b g e by (simp add: edit_key_def kill_line_def)
qed

lemma tty_inv_echoed: "tty_inv t s \<Longrightarrow> echoed s s' \<Longrightarrow> tty_inv t s' \<and>
    read_q (s_tty s') = read_q (s_tty s) \<and> secondary (s_tty s') = secondary (s_tty s)"
  by (auto simp: tty_inv_def echoed_def)

lemma sless_32: "unat c < 128 \<Longrightarrow> (c :: u8) <s 32 \<longleftrightarrow> unat c < 32"
proof -
  assume "unat c < 128"
  then have "sint c = int (unat c)" using sint_of_nat_small [of "unat c", where ?'a = 8] by simp
  moreover have "sint (32 :: u8) = 32" by simp
  ultimately show ?thesis unfolding word_sless_alt by linarith
qed

lemma echo_chars: "unat c < 128 \<Longrightarrow> 27 \<notin> set (echo_of t c) \<and> length (echo_of t c) \<le> 2"
proof -
  assume c: "unat c < 128"
  have "unat (c + 64) = unat c + 64" if "unat c < 32" using unat_add_small [of c 64] that by simp
  then have "c + 64 \<noteq> 27" if "unat c < 32" using that by (auto simp: word_eq_iff_unsigned [where ?'a = nat])
  moreover have "c \<noteq> 27" if "\<not> unat c < 32" using that by auto
  ultimately show ?thesis using sless_32 [OF c] by (auto simp: echo_of_def)
qed

lemma erase_chars: "27 \<notin> set (erase_echo c) \<and> length (erase_echo c) \<le> 2"
  by (simp add: erase_echo_def)

text \<open>What follows a possible echo.\<close>

lemma maybe_echo:
  assumes "tty_inv t s" "27 \<notin> set cs" "length cs \<le> 2" "2 < n"
  obtains s' where "(if e then con_loop n (unat (CHARS (write_q (s_tty (fold put_write cs s))))) (fold put_write cs s)
      else Some (Inr s)) = Some (Inr s')" "tty_inv t s'" "read_q (s_tty s') = read_q (s_tty s)"
      "secondary (s_tty s') = secondary (s_tty s)"
proof (cases e)
  case True
  have "queue_inv (write_q (s_tty s))" "q_list (write_q (s_tty s)) = []" "c_state (s_con s) = ESnormal"
    using assms(1) by (simp_all add: tty_inv_def)
  from echo_ok [OF this assms(2), of n] assms(3,4) obtain s' where
    "con_loop n (unat (CHARS (write_q (s_tty (fold put_write cs s))))) (fold put_write cs s) = Some (Inr s')" "echoed s s'"
    by auto
  with tty_inv_echoed [OF assms(1)] True that show ?thesis by simp
next
  case False
  with that assms(1) show ?thesis by simp
qed

lemma line_start_list:
  "line_inv t s \<Longrightarrow> line_start (s_tty s) \<longleftrightarrow>
     q_list (secondary (s_tty s)) = [] \<or> line_end t (last (q_list (secondary (s_tty s))))"
  using EMPTY_list [of "secondary (s_tty s)"] q_list_DEC [of "secondary (s_tty s)"]
  by (auto simp: line_inv_def tty_inv_def line_start_def line_end_def flags_cong(3) [of "s_tty s" t])

lemma drop_last_ok:
  assumes "line_inv t s" "q_list (secondary (s_tty s)) = l @ [c]" "\<not> line_end t c"
  shows "line_inv t (drop_last s) \<and> read_q (s_tty (drop_last s)) = read_q (s_tty s) \<and>
    q_list (secondary (s_tty (drop_last s))) = l"
proof -
  have "q_list (DEC_head (secondary (s_tty s))) = l" "queue_inv (DEC_head (secondary (s_tty s)))"
    using q_list_DEC [of "secondary (s_tty s)"] queue_inv_ops(3) assms(1,2) by (auto simp: line_inv_def tty_inv_def)
  then show ?thesis using assms by (simp add: drop_last_def line_inv_def tty_inv_def) (simp add: DEC_head_def)
qed

lemma kill_loop_ok:
  "line_inv t s \<Longrightarrow> q_list (secondary (s_tty s)) = l \<Longrightarrow> length l + 4 \<le> n \<Longrightarrow>
   \<exists>s'. kill_loop n s = Some (Inr s') \<and> line_inv t s' \<and> read_q (s_tty s') = read_q (s_tty s) \<and>
     q_list (secondary (s_tty s')) = kill_line t l"
proof (induction l arbitrary: n s rule: rev_induct)
  case Nil
  then obtain n' where "n = Suc n'" by (cases n) auto
  then show ?case using Nil line_start_list [OF Nil(1)] by (simp add: kill_line_def)
next
  case (snoc c l)
  then obtain n' where n: "n = Suc n'" "length l + 4 \<le> n'" by (cases n) auto
  show ?case
  proof (cases "line_end t c")
    case True
    then show ?thesis using snoc.prems line_start_list [OF snoc.prems(1)] n by (simp add: kill_line_def)
  next
    case False
    obtain s1 where s1: "(if L_ECHO (s_tty s) then con_loop n' (unat (CHARS (write_q (s_tty (fold put_write
        (erase_echo (LAST (secondary (s_tty s)))) s))))) (fold put_write (erase_echo (LAST (secondary (s_tty s)))) s)
      else Some (Inr s)) = Some (Inr s1)" "tty_inv t s1" "read_q (s_tty s1) = read_q (s_tty s)"
      "secondary (s_tty s1) = secondary (s_tty s)"
      using maybe_echo [of t s, OF _, of "erase_echo (LAST (secondary (s_tty s)))" n'] erase_chars n(2) snoc.prems(1)
      by (auto simp: line_inv_def)
    then have inv1: "line_inv t s1" using snoc.prems(1) by (simp add: line_inv_def)
    have step: "kill_loop n s = kill_loop n' (drop_last s1)"
      using False line_start_list [OF snoc.prems(1)] snoc.prems(2) s1(1) unfolding n(1) by (simp add: Let_def)
    have d: "line_inv t (drop_last s1)" "read_q (s_tty (drop_last s1)) = read_q (s_tty s)"
      "q_list (secondary (s_tty (drop_last s1))) = l"
      using drop_last_ok [OF inv1, of l c] snoc.prems(2) False s1(3,4) by auto
    from snoc.IH [OF d(1,3) n(2)] d(2) False show ?thesis
      unfolding step by (simp add: kill_line_def)
  qed
qed

lemma tolower_is_ascii: "unat c < 128 \<Longrightarrow> \<exists>d. tolower c = Inr d \<and> unat d < 128"
  using unat_add_small [of c 32] by (auto simp: tolower_ascii)

lemma map_input_ascii:
  assumes "unat c < 128"
  obtains r where "map_input t c = Inr r" "\<And>d. r = Some d \<Longrightarrow> unat d < 128"
proof -
  have "\<exists>r. map_input t c = Inr r \<and> (\<forall>d. r = Some d \<longrightarrow> unat d < 128)"
    using assms tolower_is_ascii [of c] tolower_is_ascii [of 10] tolower_is_ascii [of 13]
    by (auto simp: map_input_def Let_def)
  then show ?thesis using that by blast
qed

text \<open>Counting a line end and appending the character.\<close>

lemma count_line_inv:
  assumes "tt_termios (s_tty s) = tt_termios t"
  shows "count_line c s = s\<lparr>s_tty := (s_tty s)\<lparr>secondary := (secondary (s_tty s))\<lparr>q_data :=
      q_data (secondary (s_tty s)) + (if line_end t c then 1 else 0)\<rparr>\<rparr>\<rparr>"
  using flags_cong(3) [OF assms, of VEOF] by (auto simp: count_line_def line_end_def)

lemma q_data_frame [simp]: "queue_inv (q\<lparr>q_data := d\<rparr>) = queue_inv q" "q_list (q\<lparr>q_data := d\<rparr>) = q_list q"
  by (simp_all add: queue_inv_def q_list_def q_len_def)

lemma put_secondary_ok:
  assumes "queue_inv (secondary (s_tty s))" "q_list (secondary (s_tty s)) = l" "length l < 1023"
  shows "queue_inv (secondary (s_tty (put_secondary c s))) \<and> q_list (secondary (s_tty (put_secondary c s))) = l @ [c] \<and>
    q_data (secondary (s_tty (put_secondary c s))) = q_data (secondary (s_tty s))"
  using assms q_list_PUTCH [OF assms(1)] queue_inv_ops(1) [OF assms(1)] length_q_list [of "secondary (s_tty s)"]
  by (simp add: put_secondary_def) (simp add: PUTCH_def)

text \<open>One key, from the state invariant to the state invariant.\<close>

lemma erase_key_ok:
  assumes inv: "line_inv t s" and l: "q_list (secondary (s_tty s)) = l" "l \<noteq> []" "\<not> line_end t (last l)" and n: "3 \<le> n"
  defines "s1 \<equiv> fold put_write (erase_echo (LAST (secondary (s_tty s)))) s"
  shows "\<exists>s'. obind (if L_ECHO (s_tty s) then con_loop n (unat (CHARS (write_q (s_tty s1)))) s1 else Some (Inr s))
             (\<lambda>s. Some (Inr (drop_last s))) = Some (Inr s') \<and> line_inv t s' \<and> read_q (s_tty s') = read_q (s_tty s) \<and>
           q_list (secondary (s_tty s')) = butlast l"
proof -
  have "tty_inv t s" "2 < n" using inv n by (simp_all add: line_inv_def)
  from maybe_echo [OF this(1) _ _ this(2), of "erase_echo (LAST (secondary (s_tty s)))" "L_ECHO (s_tty s)"] erase_chars
  obtain s2 where s2: "(if L_ECHO (s_tty s) then con_loop n (unat (CHARS (write_q (s_tty s1)))) s1 else Some (Inr s)) = Some (Inr s2)"
      "tty_inv t s2" "read_q (s_tty s2) = read_q (s_tty s)" "secondary (s_tty s2) = secondary (s_tty s)"
    unfolding s1_def by metis
  have "line_inv t s2" using s2(2,4) inv by (simp add: line_inv_def)
  moreover have "q_list (secondary (s_tty s2)) = butlast l @ [last l]" using s2(4) l by simp
  ultimately show ?thesis using drop_last_ok [of t s2 "butlast l" "last l"] l(3) s2(3) unfolding s2(1) by simp
qed

lemma keep_key_ok:
  assumes inv: "line_inv t s" and l: "q_list (secondary (s_tty s)) = l" "length l < 1023" and n: "3 \<le> n" and c: "unat c < 128"
  defines "s0 \<equiv> count_line c s"
  defines "s1 \<equiv> fold put_write (echo_of (s_tty s) c) s0"
  shows "\<exists>s'. obind (if L_ECHO (s_tty s) then con_loop n (unat (CHARS (write_q (s_tty s1)))) s1 else Some (Inr s0))
             (\<lambda>s. Some (Inr (put_secondary c s))) = Some (Inr s') \<and> line_inv t s' \<and> read_q (s_tty s') = read_q (s_tty s) \<and>
           q_list (secondary (s_tty s')) = l @ [c]"
proof -
  have tt: "tt_termios (s_tty s) = tt_termios t" using inv by (simp add: line_inv_def tty_inv_def)
  have s0: "tty_inv t s0" "q_list (secondary (s_tty s0)) = l" "read_q (s_tty s0) = read_q (s_tty s)"
    "q_data (secondary (s_tty s0)) = of_nat (length (filter (line_end t) (l @ [c])))"
    using inv l(1) by (simp_all add: s0_def count_line_inv [OF tt] line_inv_def tty_inv_def)
  have "2 < n" using n by simp
  from maybe_echo [OF s0(1) _ _ this, of "echo_of (s_tty s) c" "L_ECHO (s_tty s)"] echo_chars [OF c]
  obtain s2 where s2: "(if L_ECHO (s_tty s) then con_loop n (unat (CHARS (write_q (s_tty s1)))) s1 else Some (Inr s0)) = Some (Inr s2)"
      "tty_inv t s2" "read_q (s_tty s2) = read_q (s_tty s0)" "secondary (s_tty s2) = secondary (s_tty s0)"
    unfolding s1_def by metis
  have q: "queue_inv (secondary (s_tty s2))" using s2(2) by (simp add: tty_inv_def)
  note p = put_secondary_ok [OF q, of l c, unfolded s2(4), OF s0(2) l(2)]
  have "tty_inv t (put_secondary c s2)"
    using s2(2) p by (simp add: tty_inv_def) (simp add: put_secondary_def)
  then have "line_inv t (put_secondary c s2)" using p s0(4) by (simp add: line_inv_def)
  moreover have "read_q (s_tty (put_secondary c s2)) = read_q (s_tty s)"
    using s2(3) s0(3) by (simp add: put_secondary_def)
  ultimately show ?thesis using p unfolding s2(1) by simp
qed

lemma tty_kill_nobody: "tt_pgrp (s_tty s) = 0 \<Longrightarrow> tty_kill sig s = Inr s"
  by (simp add: tty_kill_def kill_pg_def)

lemma cook_key_ok:
  assumes inv: "line_inv t s" and l: "q_list (secondary (s_tty s)) = l" "length l < 1023" and n: "1030 \<le> n" and c: "unat c < 128"
  shows "\<exists>s'. cook_key n c s = Some (Inr s') \<and> line_inv t s' \<and> read_q (s_tty s') = read_q (s_tty s) \<and>
           q_list (secondary (s_tty s')) = edit_key t l c"
proof -
  obtain n' where n': "n = Suc n'" "1029 \<le> n'" using n by (cases n) auto
  have tt: "tt_termios (s_tty s) = tt_termios t" "tt_pgrp (s_tty s) = 0" using inv by (auto simp: line_inv_def tty_inv_def)
  note fc = flags_cong [OF tt(1)]
  have stop: "line_inv t (s\<lparr>s_tty := (s_tty s)\<lparr>tt_stopped := v\<rparr>\<rparr>)" for v
    using inv by (simp add: line_inv_def tty_inv_def)
  have kill: "\<exists>s'. kill_loop n' s = Some (Inr s') \<and> line_inv t s' \<and> read_q (s_tty s') = read_q (s_tty s) \<and>
     q_list (secondary (s_tty s')) = kill_line t l"
    using kill_loop_ok [OF inv l(1)] l(2) n'(2) by simp
  note er = erase_key_ok [OF inv l(1), of n'] and ke = keep_key_ok [OF inv l, of n' c]
  have er': "\<exists>s'. obind (if L_ECHO (s_tty s) then con_loop n' (unat (CHARS (write_q (s_tty (fold put_write
        (erase_echo (LAST (secondary (s_tty s)))) s))))) (fold put_write (erase_echo (LAST (secondary (s_tty s)))) s)
      else Some (Inr s)) (\<lambda>s. Some (Inr (drop_last s))) = Some (Inr s') \<and> line_inv t s' \<and>
      read_q (s_tty s') = read_q (s_tty s) \<and> q_list (secondary (s_tty s')) = butlast l"
    if "\<not> line_start (s_tty s)"
    using er that line_start_list [OF inv] l(1) n'(2) by simp
  consider "L_CANON t" "ceq c (cc VKILL t)" | "L_CANON t" "\<not> ceq c (cc VKILL t)" "ceq c (cc VERASE t)"
    | "L_CANON t" "\<not> ceq c (cc VKILL t)" "\<not> ceq c (cc VERASE t)" "ceq c (cc VSTOP t) \<or> ceq c (cc VSTART t)"
    | "\<not> (L_CANON t \<and> (ceq c (cc VKILL t) \<or> ceq c (cc VERASE t) \<or> ceq c (cc VSTOP t) \<or> ceq c (cc VSTART t)))"
    by blast
  then show ?thesis
  proof cases
    case 1 then show ?thesis using kill by (simp add: n'(1) fc edit_key_def Let_def)
  next
    case 2 then show ?thesis using er' inv l(1) line_start_list [OF inv] by (auto simp: n'(1) fc edit_key_def Let_def)
  next
    case 3 then show ?thesis using stop [of 0] stop [of 1] l(1) by (auto simp: n'(1) fc edit_key_def Let_def)
  next
    case 4
    then have e: "edit_key t l c = (if signal_of t c \<noteq> None then l else l @ [c])" by (auto simp: edit_key_def)
    show ?thesis
    proof (cases "signal_of t c")
      case None then show ?thesis using 4 ke c n'(2) by (auto simp: n'(1) fc e Let_def)
    next
      case (Some sig) then show ?thesis using 4 inv l(1) tty_kill_nobody [OF tt(2)] by (auto simp: n'(1) fc e Let_def)
    qed
  qed
qed

lemma kill_line_length: "length (kill_line t l) \<le> length l"
  unfolding kill_line_def by (metis length_dropWhile_le length_rev)

lemma edit_length: "length (edit t l c) \<le> length l + 1"
  using kill_line_length [of t l] by (auto simp: edit_def edit_key_def split: sum.split option.split)

lemma cooked_edits:
  assumes "line_inv t s" "q_list (read_q (s_tty s)) = keys" "q_list (secondary (s_tty s)) = l"
    "\<forall>c \<in> set keys. unat c < 128" "length keys + length l \<le> 1023" "1030 + length keys < n"
  shows "\<exists>s'. copy_to_cooked n s = Some (Inr s') \<and> line_inv t s' \<and> q_list (read_q (s_tty s')) = [] \<and>
     q_list (secondary (s_tty s')) = fold (\<lambda>c l. edit t l c) keys l \<and>
     q_data (secondary (s_tty s')) = of_nat (length (filter (line_end t) (q_list (secondary (s_tty s')))))"
  using assms
proof (induction keys arbitrary: n s l)
  case Nil
  then obtain n' where n: "n = Suc n'" by (cases n) auto
  have "EMPTY (read_q (s_tty s))" using EMPTY_list Nil.prems(1,2) by (auto simp: line_inv_def tty_inv_def)
  then show ?case using Nil.prems unfolding n by (auto simp: line_inv_def tty_inv_def)
next
  case (Cons c cs)
  then obtain n' where n: "n = Suc n'" "1030 + length cs < n'" by (cases n) auto
  have qi: "queue_inv (read_q (s_tty s))" "queue_inv (secondary (s_tty s))" and tt: "tt_termios (s_tty s) = tt_termios t"
    using Cons.prems(1) by (auto simp: line_inv_def tty_inv_def)
  have c: "unat c < 128" "\<forall>c \<in> set cs. unat c < 128" using Cons.prems(4) by auto
  have ne: "\<not> EMPTY (read_q (s_tty s))" "\<not> FULL (secondary (s_tty s))"
    using EMPTY_list [OF qi(1)] FULL_len [OF qi(2)] Cons.prems(2,3,5) length_q_list [of "secondary (s_tty s)"] by auto
  let ?q = "snd (GETCH (read_q (s_tty s)))"
  define s1 where "s1 = s\<lparr>s_tty := (s_tty s)\<lparr>read_q := ?q\<rparr>\<rparr>"
  have g: "fst (GETCH (read_q (s_tty s))) = c" "q_list ?q = cs" "queue_inv ?q"
    using q_list_GETCH [OF qi(1) Cons.prems(2)] queue_inv_ops(2) [OF qi(1)] by auto
  have inv1: "line_inv t s1" and l1: "q_list (secondary (s_tty s1)) = l" "q_list (read_q (s_tty s1)) = cs"
    using Cons.prems(1,3) g by (simp_all add: line_inv_def tty_inv_def s1_def)
  obtain r where r: "map_input t c = Inr r" "\<And>d. r = Some d \<Longrightarrow> unat d < 128"
    using map_input_ascii [OF c(1), of t] by blast
  have run: "copy_to_cooked n s = (case r of None \<Rightarrow> copy_to_cooked n' s1
      | Some d \<Rightarrow> obind (cook_key n' d s1) (copy_to_cooked n'))"
    using ne g(1) r(1) flags_cong(5) [OF tt] by (cases r) (simp_all add: n(1) case_prod_beta s1_def Let_def)
  have "\<exists>s2. copy_to_cooked n s = copy_to_cooked n' s2 \<and> line_inv t s2 \<and> q_list (read_q (s_tty s2)) = cs \<and>
      q_list (secondary (s_tty s2)) = edit t l c"
  proof (cases r)
    case None
    then show ?thesis using run inv1 l1 r(1) by (auto simp: edit_def)
  next
    case (Some d)
    have "length l < 1023" "1030 \<le> n'" using Cons.prems(5) n(2) by auto
    from cook_key_ok [OF inv1 l1(1) this r(2) [OF Some]] l1(2) run r(1) Some show ?thesis by (auto simp: edit_def)
  qed
  then obtain s2 where s2: "copy_to_cooked n s = copy_to_cooked n' s2" "line_inv t s2" "q_list (read_q (s_tty s2)) = cs"
      "q_list (secondary (s_tty s2)) = edit t l c" by blast
  have "length cs + length (edit t l c) \<le> 1023" using Cons.prems(5) edit_length [of t l c] by simp
  from Cons.IH [OF s2(2-4) c(2) this n(2)] show ?case unfolding s2(1) by simp
qed

text \<open>C23: Line editing. With the terminal and its console in the state they are in between two keys, the
  keys waiting in \<open>read_q\<close> being ASCII and fitting into the cooked queue, \<open>copy_to_cooked\<close> returns (1030
  steps more than there are keys are enough), whatever it echoes; it has taken all keys, the cooked queue
  is what the list function \<open>edit\<close> makes of it, key by key, and \<open>data\<close> is the number of line ends in it.\<close>

theorem copy_to_cooked_edits:
  assumes "line_inv t s" "q_list (read_q (s_tty s)) = keys" "q_list (secondary (s_tty s)) = l"
    "\<forall>c \<in> set keys. unat c < 128" "length keys + length l \<le> 1023" "1030 + length keys < n"
  shows "\<exists>s'. copy_to_cooked n s = Some (Inr s') \<and> line_inv t s' \<and> q_list (read_q (s_tty s')) = [] \<and>
     q_list (secondary (s_tty s')) = fold (\<lambda>c l. edit t l c) keys l \<and>
     q_data (secondary (s_tty s')) = of_nat (length (filter (line_end t) (q_list (secondary (s_tty s')))))"
  using assms by (rule cooked_edits)

text \<open>To compute the effect of a key with given flags.\<close>

lemmas edit_defs = edit_def edit_key_def kill_line_def map_input_def L_CANON_def L_FLAG_def I_CRNL_def
  I_NLCR_def I_NOCR_def I_UCLC_def I_FLAG_def ceq_def cc_def INIT_C_CC_def line_end_def signal_of_def L_ISIG_def
  VKILL_def VERASE_def VEOF_def VSTOP_def VSTART_def VINTR_def VQUIT_def VSUSP_def

text \<open>The terminal as it starts, with keys typed on it.\<close>

definition sys0 :: ttysys where
  "sys0 = \<lparr>s_tty = tty_table0 0x100, s_con = screen0, s_w = \<lparr>wk = kern0, wq = (\<lambda>_. 0), frames = (\<lambda>_. None)\<rparr>,
     s_user = (\<lambda>_. 0), s_verified = [], s_cr_flag = False\<rparr>"

definition typed :: "u8 list \<Rightarrow> ttysys" where
  "typed keys = fold put_read keys sys0"

lemma empty_queue_ok: "queue_inv (empty_queue a)" "q_list (empty_queue a) = []"
  by (simp_all add: queue_inv_def empty_queue_def q_list_def q_len_def)

lemma put_reads: "fold put_read cs s = s\<lparr>s_tty := (s_tty s)\<lparr>read_q := fold PUTCH cs (read_q (s_tty s))\<rparr>\<rparr>"
  by (induction cs arbitrary: s) (simp_all add: put_read_def)

lemma typed_ok:
  assumes "length keys \<le> 1023"
  shows "line_inv (tty_table0 0x100) (typed keys)" "q_list (read_q (s_tty (typed keys))) = keys"
    "q_list (secondary (s_tty (typed keys))) = []"
proof -
  have q: "queue_inv (fold PUTCH keys (empty_queue 0x100))" "q_list (fold PUTCH keys (empty_queue 0x100)) = keys"
    using ring.invar_puts [of "empty_queue 0x100" keys] ring.contents_puts [of "empty_queue 0x100" keys] assms
      empty_queue_ok by auto
  then show "q_list (read_q (s_tty (typed keys))) = keys" "q_list (secondary (s_tty (typed keys))) = []"
    by (simp_all add: typed_def put_reads sys0_def tty_table0_def empty_queue_ok)
  have "c_state screen0 = ESnormal" by (simp add: screen0_def ESnormal_def)
  then show "line_inv (tty_table0 0x100) (typed keys)" using q(1)
    by (simp add: typed_def put_reads sys0_def tty_table0_def empty_queue_ok line_inv_def tty_inv_def)
      (simp add: empty_queue_def)
qed

theorem copy_to_cooked_edits_witness:
  "\<exists>s'. copy_to_cooked 2000 (typed [97, 127, 98, 10, 99, 21]) = Some (Inr s') \<and> q_list (secondary (s_tty s')) = [98, 10]"
  using copy_to_cooked_edits [of "tty_table0 0x100" "typed [97, 127, 98, 10, 99, 21]", OF _ refl refl, of 2000]
    typed_ok [of "[97, 127, 98, 10, 99, 21]"]
  by (auto simp: edit_defs tty_table0_def)

section \<open>Output\<close>

text \<open>The characters a character of the program's buffer becomes on its way to the console.\<close>

definition cooked_out :: "tty_struct \<Rightarrow> u8 \<Rightarrow> u8 list" where
  "cooked_out t c =
     (if O_POST t then
        let d = output_char t c in
        (if d = 10 \<and> O_NLCR t then [13] else [])
          @ [if O_LCUC t \<and> 97 \<le> unat d \<and> unat d \<le> 122 then d - 32 else d]
      else [c])"

lemma get_bytes_Suc: "get_bytes (Suc n) a m = m a # get_bytes n (a + 1) m"
  unfolding get_bytes_def get_fs_byte_def
  by (subst upt_conv_Cons) (simp_all add: map_Suc_upt [symmetric] comp_def add.assoc del: upt_Suc)

lemma get_bytes_0 [simp]: "get_bytes 0 a m = []"
  by (simp add: get_bytes_def)

lemma output_frame [simp]:
  "O_POST (t\<lparr>write_q := q\<rparr>) = O_POST t" "O_NLCR (t\<lparr>write_q := q\<rparr>) = O_NLCR t" "O_LCUC (t\<lparr>write_q := q\<rparr>) = O_LCUC t"
  "output_char (t\<lparr>write_q := q\<rparr>) c = output_char t c" "cooked_out (t\<lparr>write_q := q\<rparr>) = cooked_out t"
  by (simp_all add: fun_eq_iff O_POST_def O_NLCR_def O_LCUC_def O_CRNL_def O_NLRET_def O_FLAG_def output_char_def cooked_out_def)

lemma output_char_ascii: "unat c < 128 \<Longrightarrow> unat (output_char t c) < 128"
  by (simp add: output_char_def)

lemma write_loop_cooks:
  "(O_LCUC t \<Longrightarrow> \<forall>c \<in> set (get_bytes nr b m). unat c < 128) \<Longrightarrow>
   write_loop nr b False m t = Inr (b + of_nat nr, False,
     t\<lparr>write_q := fold PUTCH (concat (map (cooked_out t) (get_bytes nr b m))) (write_q t)\<rparr>)"
proof (induction nr arbitrary: b t)
  case 0
  then show ?case by simp
next
  case (Suc nr)
  let ?out = "cooked_out t (m b)"
  define d where "d = output_char t (m b)"
  have up: "O_LCUC t \<Longrightarrow> toupper d = Inr (if 97 \<le> unat d \<and> unat d \<le> 122 then d - 32 else d)"
    using Suc.prems output_char_ascii [of "m b" t] by (simp add: get_bytes_Suc d_def toupper_ascii)
  have up10: "toupper 10 = Inr 10" by (simp add: toupper_ascii)
  have one: "write_loop (Suc nr) b False m t =
      write_loop nr (b + 1) False m (t\<lparr>write_q := fold PUTCH ?out (write_q t)\<rparr>)"
    using up up10 unfolding d_def by (auto simp: get_fs_byte_def cooked_out_def Let_def)
  have "O_LCUC (t\<lparr>write_q := fold PUTCH ?out (write_q t)\<rparr>) \<Longrightarrow> \<forall>c \<in> set (get_bytes nr (b + 1) m). unat c < 128"
    using Suc.prems by (simp add: get_bytes_Suc)
  from Suc.IH [of "t\<lparr>write_q := fold PUTCH ?out (write_q t)\<rparr>" "b + 1"] this show ?case
    unfolding one by (simp add: get_bytes_Suc add.assoc)
qed

lemma length_cooked: "length bs \<le> length (concat (map (cooked_out t) bs))"
proof (induction bs)
  case (Cons c bs)
  have "1 \<le> length (cooked_out t c)" by (simp add: cooked_out_def Let_def)
  with Cons show ?case by simp
qed simp

lemma tty_write_quiet:
  assumes "queue_inv (write_q (s_tty s))" "q_list (write_q (s_tty s)) = []" "\<not> s_cr_flag s"
    "O_LCUC (s_tty s) \<Longrightarrow> \<forall>c \<in> set (get_bytes nr buf (s_user s)). unat c < 128"
    "cs = concat (map (cooked_out (s_tty s)) (get_bytes nr buf (s_user s)))"
    "length cs \<le> 1023" "quiet cs (s_con s)" "length cs < n"
  obtains q' where "tty_write n 0 buf (of_nat nr) s = Some (Inr (of_nat nr,
      s\<lparr>s_tty := (s_tty s)\<lparr>write_q := q'\<rparr>, s_con := con_flush (run_chars cs (s_con s)), s_cr_flag := False\<rparr>))"
    "queue_inv q'" "q_list q' = []"
proof -
  have nr: "nr \<le> 1023" using length_cooked [of "get_bytes nr buf (s_user s)" "s_tty s"] assms(5,6)
    by (simp add: get_bytes_def)
  then have u: "unat (of_nat nr :: u32) = nr" "\<not> (of_nat nr :: u32) <s 0"
    using sint_of_nat_small [of nr, where ?'a = 32] by (simp_all add: unat_of_nat_small word_sless_alt)
  define s1 where "s1 = s\<lparr>s_tty := (s_tty s)\<lparr>write_q := fold PUTCH cs (write_q (s_tty s))\<rparr>, s_cr_flag := False\<rparr>"
  have q: "queue_inv (write_q (s_tty s1))" "q_list (write_q (s_tty s1)) = cs"
    using ring.invar_puts [OF assms(1), of cs] ring.contents_puts [OF assms(1), of cs] assms(2,6) by (auto simp: s1_def)
  have run: "tty_write n 0 buf (of_nat nr) s = obind (con_write n s1) (\<lambda>s. Some (Inr (of_nat nr, s)))"
    using write_loop_cooks [of "s_tty s" nr buf "s_user s", OF assms(4)] assms(3) u
    by (simp add: tty_write_def s1_def assms(5))
  have len: "unat (CHARS (write_q (s_tty s1))) = length cs"
    using CHARS_len [OF q(1)] arg_cong [OF q(2), of length] by simp
  have "quiet cs (s_con s1)" using assms(7) by (simp add: s1_def)
  from con_loop_quiet [OF assms(8) q this] obtain q' where
    w: "con_write n s1 = Some (Inr (s1\<lparr>s_tty := (s_tty s1)\<lparr>write_q := q'\<rparr>, s_con := con_flush (run_chars cs (s_con s1))\<rparr>))"
    "queue_inv q'" "q_list q' = []" unfolding con_write_def len by blast
  show ?thesis
    by (rule that [of q']) (use w in \<open>simp_all add: run, simp_all add: s1_def\<close>)
qed

text \<open>C24: Writing to the terminal. With \<open>write_q\<close> empty and the converted output fitting into it,
  \<open>tty_write\<close> returns the number of characters it was given, leaves \<open>write_q\<close> empty again and the console as
  it is after exactly the converted characters (a newline as carriage return and newline, and so on), provided
  none of them asks the console for an answer.\<close>

theorem tty_write_displays:
  assumes "queue_inv (write_q (s_tty s))" "q_list (write_q (s_tty s)) = []" "\<not> s_cr_flag s"
    "O_LCUC (s_tty s) \<Longrightarrow> \<forall>c \<in> set (get_bytes nr buf (s_user s)). unat c < 128"
    "cs = concat (map (cooked_out (s_tty s)) (get_bytes nr buf (s_user s)))"
    "length cs \<le> 1023" "quiet cs (s_con s)" "length cs < n"
  shows "\<exists>s'. tty_write n 0 buf (of_nat nr) s = Some (Inr (of_nat nr, s')) \<and>
     s_con s' = con_flush (run_chars cs (s_con s)) \<and> q_list (write_q (s_tty s')) = [] \<and> \<not> s_cr_flag s' \<and>
     read_q (s_tty s') = read_q (s_tty s) \<and> secondary (s_tty s') = secondary (s_tty s) \<and> s_user s' = s_user s"
proof -
  from tty_write_quiet [OF assms] obtain q' where
    "tty_write n 0 buf (of_nat nr) s = Some (Inr (of_nat nr,
      s\<lparr>s_tty := (s_tty s)\<lparr>write_q := q'\<rparr>, s_con := con_flush (run_chars cs (s_con s)), s_cr_flag := False\<rparr>))"
    "q_list q' = []" by metis
  then show ?thesis by simp
qed

theorem tty_write_displays_witness:
  "\<exists>s'. tty_write 10 0 0 2 (sys0\<lparr>s_user := (\<lambda>a. if a = 0 then 65 else 10)\<rparr>) = Some (Inr (2, s')) \<and>
     s_con s' = con_flush (run_chars [65, 13, 10] screen0)"
proof -
  let ?s = "sys0\<lparr>s_user := (\<lambda>a. if a = 0 then 65 else 10)\<rparr>"
  have b: "get_bytes 2 0 (s_user ?s) = [65, 10]" by (simp add: get_bytes_def get_fs_byte_def upt_rec)
  have t: "concat (map (cooked_out (s_tty ?s)) [65, 10]) = [65, 13, 10]"
    by (simp add: cooked_out_def output_char_def sys0_def tty_table0_def O_POST_def O_NLCR_def O_LCUC_def O_CRNL_def
        O_NLRET_def O_FLAG_def)
  have "c_state screen0 = ESnormal" by (simp add: screen0_def ESnormal_def)
  then have "quiet [65, 13, 10] screen0" using plain_quiet [of screen0 "[65, 13, 10]"] by simp
  moreover have "O_LCUC (s_tty ?s) \<Longrightarrow> \<forall>c \<in> set (get_bytes 2 0 (s_user ?s)). unat c < 128" unfolding b by simp
  moreover have "queue_inv (write_q (s_tty ?s))" "q_list (write_q (s_tty ?s)) = []" "\<not> s_cr_flag ?s" "s_con ?s = screen0"
    by (simp_all add: sys0_def tty_table0_def empty_queue_ok)
  ultimately show ?thesis
    using tty_write_displays [of ?s 2 0 "[65, 13, 10]" 10] b t by (auto simp del: quiet.simps run_chars_simps)
qed

section \<open>Setting and reading the flags\<close>

lemma short_back: "bytes_short (ucast w) (ucast (drop_bit 8 w)) = w"
  unfolding bytes_short_def by (rule bit_word_eqI) (auto simp: bit_simps)

lemma bytes_termios_back: "bytes_termios (termios_bytes t) = t"
  by (simp add: bytes_termios_def termios_bytes_def short_bytes_def short_back)

lemma bytes_termios_take: "bytes_termios (take 17 (termios_bytes t)) = t\<lparr>c_cc := take 8 (c_cc t)\<rparr>"
  by (simp add: bytes_termios_def termios_bytes_def short_bytes_def short_back)

lemma put_bytes_get:
  assumes "length bs \<le> 2 ^ 32"
  shows "get_bytes (length bs) a (put_bytes bs a m) = bs"
proof -
  have "fold (\<lambda>i. put_fs_byte (bs ! i) (a + of_nat i)) [0..<n] m (a + of_nat j) = bs ! j" if "j < n" "n \<le> length bs" for n j
    using that
  proof (induction n)
    case (Suc n)
    show ?case
    proof (cases "j = n")
      case False
      then have "(of_nat j :: u32) \<noteq> of_nat n"
        using Suc.prems assms word_offset_inj [where ?'a = 32, of j n 0] by auto
      then show ?thesis using Suc False by (simp add: put_fs_byte_def)
    qed (simp add: put_fs_byte_def)
  qed simp
  then show ?thesis by (intro nth_equalityI) (simp_all add: get_bytes_def put_bytes_def get_fs_byte_def)
qed

text \<open>C26: What \<open>TCGETS\<close> stores a later \<open>TCSETS\<close> (or \<open>TCSETSW\<close>, or \<open>TCSETSF\<close>, which also empties \<open>read_q\<close>)
  brings back: all flags and all 17 control characters. \<open>TCGETA\<close> and \<open>TCSETA\<close> bring back the flags and the first
  eight control characters and leave the others as they are then; the byte of padding \<open>TCGETA\<close> stores is whatever
  was on the kernel's stack.\<close>

theorem termios_round_trip:
  assumes "length (c_cc (tt_termios (s_tty s))) = 17" "length (c_cc (tt_termios t)) = 17" "cmd \<in> {0x5402, 0x5403, 0x5404}"
  shows "\<exists>s1 s2. tty_ioctl n pad 0 0x5401 arg s = Some (Inr (0, s1)) \<and> s_verified s1 = s_verified s @ [(arg, 26)] \<and>
     tty_ioctl n pad 0 cmd arg (s1\<lparr>s_tty := t\<rparr>) = Some (Inr (0, s2)) \<and>
     tt_termios (s_tty s2) = tt_termios (s_tty s) \<and> (cmd = 0x5404 \<longrightarrow> EMPTY (read_q (s_tty s2))) \<and>
     (\<exists>s3 s4. tty_ioctl n pad 0 0x5405 arg s = Some (Inr (0, s3)) \<and> s_user s3 (arg + 17) = pad \<and>
        tty_ioctl n pad 0 0x5406 arg (s3\<lparr>s_tty := t\<rparr>) = Some (Inr (0, s4)) \<and>
        tt_termios (s_tty s4) = (tt_termios (s_tty s))\<lparr>c_cc :=
          take 8 (c_cc (tt_termios (s_tty s))) @ drop 8 (c_cc (tt_termios t))\<rparr>)"
proof -
  let ?b = "termios_bytes (tt_termios (s_tty s))"
  have l: "length ?b = 26" "length (take 17 ?b @ [pad]) = 18" using assms(1) by (simp_all add: termios_bytes_def short_bytes_def)
  have g: "get_bytes 26 arg (put_bytes ?b arg m) = ?b" "get_bytes 18 arg (put_bytes (take 17 ?b @ [pad]) arg m) = take 17 ?b @ [pad]" for m
    using put_bytes_get [of ?b arg m] put_bytes_get [of "take 17 ?b @ [pad]" arg m] l by simp_all
  have p: "put_bytes (take 17 ?b @ [pad]) arg m (arg + 17) = pad" for m
    using arg_cong [OF g(2) [of m], of "\<lambda>l. l ! 17"] l by (simp add: get_bytes_def get_fs_byte_def nth_append)
  have t: "take 17 (take 17 ?b @ [pad]) = take 17 ?b" using l by simp
  note d = tty_ioctl_def tty_commands_def Let_def
  have io: "tty_ioctl n pad 0 0x5401 arg s = Some (Inr (get_termios arg s))"
    "tty_ioctl n pad 0 0x5405 arg s = Some (Inr (get_termio pad arg s))"
    "tty_ioctl n pad 0 0x5406 arg s' = Some (Inr (set_termio arg s'))"
    "tty_ioctl n pad 0 cmd arg s' = Some (Inr (set_termios arg (if cmd = 0x5404 then flush_read s' else s')))" for s'
    using assms(3) by (auto simp: d)
  define s1 where "s1 = snd (get_termios arg s)"
  define s2 where "s2 = snd (set_termios arg (if cmd = 0x5404 then flush_read (s1\<lparr>s_tty := t\<rparr>) else s1\<lparr>s_tty := t\<rparr>))"
  define s3 where "s3 = snd (get_termio pad arg s)"
  define s4 where "s4 = snd (set_termio arg (s3\<lparr>s_tty := t\<rparr>))"
  have e: "get_termios arg s = (0, s1)" "get_termio pad arg s = (0, s3)" "set_termio arg (s3\<lparr>s_tty := t\<rparr>) = (0, s4)"
    "set_termios arg (if cmd = 0x5404 then flush_read (s1\<lparr>s_tty := t\<rparr>) else s1\<lparr>s_tty := t\<rparr>) = (0, s2)"
    by (simp_all add: s1_def s2_def s3_def s4_def get_termios_def set_termios_def get_termio_def set_termio_def Let_def)
  have r1: "s_verified s1 = s_verified s @ [(arg, 26)]" "s_user s1 = put_bytes ?b arg (s_user s)"
    by (simp_all add: s1_def get_termios_def tty_verify_def Let_def)
  have r3: "s_user s3 = put_bytes (take 17 ?b @ [pad]) arg (s_user s)"
    by (simp add: s3_def get_termio_def tty_verify_def Let_def)
  have r2: "tt_termios (s_tty s2) = tt_termios (s_tty s)" "cmd = 0x5404 \<longrightarrow> EMPTY (read_q (s_tty s2))"
    by (simp_all add: s2_def set_termios_def flush_read_def flush_def EMPTY_def r1 g bytes_termios_back)
  have r4: "tt_termios (s_tty s4) = (tt_termios (s_tty s))\<lparr>c_cc :=
      take 8 (c_cc (tt_termios (s_tty s))) @ drop 8 (c_cc (tt_termios t))\<rparr>"
  proof -
    have x: "get_bytes 18 arg (s_user (s3\<lparr>s_tty := t\<rparr>)) = take 17 ?b @ [pad]" by (simp add: r3 g)
    show ?thesis unfolding s4_def set_termio_def Let_def x t bytes_termios_take by simp
  qed
  have "tty_ioctl n pad 0 0x5401 arg s = Some (Inr (0, s1))" "tty_ioctl n pad 0 0x5405 arg s = Some (Inr (0, s3))"
    "tty_ioctl n pad 0 cmd arg (s1\<lparr>s_tty := t\<rparr>) = Some (Inr (0, s2))"
    "tty_ioctl n pad 0 0x5406 arg (s3\<lparr>s_tty := t\<rparr>) = Some (Inr (0, s4))" "s_user s3 (arg + 17) = pad"
    unfolding io e r3 p by (rule refl)+
  then show ?thesis using r1(1) r2 r4 by blast
qed

theorem termios_round_trip_witness:
  "\<exists>s1 s2. tty_ioctl 0 0 0 0x5401 0x1000 sys0 = Some (Inr (0, s1)) \<and>
     tty_ioctl 0 0 0 0x5404 0x1000 (s1\<lparr>s_tty := tty_table0 8\<rparr>) = Some (Inr (0, s2)) \<and>
     tt_termios (s_tty s2) = tt_termios (s_tty sys0)"
  using termios_round_trip [of sys0 "tty_table0 8" "0x5404" 0 0 "0x1000"]
  by (auto simp: sys0_def tty_table0_def INIT_C_CC_def)

section \<open>Input\<close>

lemma put_bytes_Cons: "put_bytes (c # p) a m = put_bytes p (a + 1) (put_fs_byte c a m)"
proof -
  have "[0..<length (c # p)] = 0 # map Suc [0..<length p]" by (subst upt_conv_Cons) (simp_all only: map_Suc_upt length_Cons zero_less_Suc)
  then show ?thesis unfolding put_bytes_def by (simp add: fold_map comp_def add.assoc del: upt_Suc)
qed

lemma put_bytes_Nil [simp]: "put_bytes [] a m = m"
  by (simp add: put_bytes_def)

definition before_eof :: "tty_struct \<Rightarrow> u8 list \<Rightarrow> u8 list" where
  "before_eof t = takeWhile (\<lambda>c. \<not> ceq c (cc VEOF t))"

text \<open>The inner loop in canonical mode: it stops at an end-of-file character, at \<open>nr\<close> characters or at the
  end of the queue, not at a newline.\<close>

lemma read_chars_canon:
  assumes "L_CANON t" "queue_inv (secondary t)" "q_list (secondary t) = l" "nr = 0 \<or> l \<noteq> []"
  shows "\<exists>q. read_chars nr b m t =
      (length (take nr (before_eof t l)) < nr \<and> length (take nr (before_eof t l)) < length l,
       nr - length (take nr (before_eof t l)), b + of_nat (length (take nr (before_eof t l))),
       put_bytes (take nr (before_eof t l)) b m, t\<lparr>secondary := q\<rparr>) \<and>
    queue_inv q \<and>
    q_list q = drop (length (take nr (before_eof t l)) + (if length (take nr (before_eof t l)) < nr then 1 else 0)) l"
  using assms
proof (induction nr arbitrary: b m t l)
  case 0
  then show ?case by (intro exI [of _ "secondary t"]) simp
next
  case (Suc nr)
  then obtain c cs where l: "l = c # cs" by (cases l) auto
  have g: "fst (GETCH (secondary t)) = c" "q_list (snd (GETCH (secondary t))) = cs" "queue_inv (snd (GETCH (secondary t)))"
    using q_list_GETCH [of "secondary t" c cs] queue_inv_ops(2) [of "secondary t"] Suc.prems l by auto
  define q where "q = (let q = snd (GETCH (secondary t)) in
    if ceq c (cc VEOF t) \<or> c = 10 then q\<lparr>q_data := q_data q - 1\<rparr> else q)"
  have q: "queue_inv q" "q_list q = cs" using g by (simp_all add: q_def Let_def)
  let ?t = "t\<lparr>secondary := q\<rparr>"
  have run: "read_chars (Suc nr) b m t =
      (if ceq c (cc VEOF t) \<and> L_CANON t then (True, Suc nr, b, m, ?t)
       else if EMPTY q then (False, nr, b + 1, put_fs_byte c b m, ?t)
       else read_chars nr (b + 1) (put_fs_byte c b m) ?t)"
    using g(1) by (simp add: q_def case_prod_beta Let_def)
  show ?case
  proof (cases "ceq c (cc VEOF t)")
    case True
    then show ?thesis using Suc.prems(1) q unfolding run by (auto simp: l before_eof_def)
  next
    case eof: False
    have be: "before_eof ?t = before_eof t" by (simp add: before_eof_def cc_def fun_eq_iff)
    show ?thesis
    proof (cases "cs = []")
      case True
      then show ?thesis using eof EMPTY_list [OF q(1)] q unfolding run
        by (auto simp: l before_eof_def put_bytes_Cons)
    next
      case False
      have "L_CANON ?t" using Suc.prems(1) by (simp add: L_CANON_def L_FLAG_def)
      from Suc.IH [OF this, of cs "b + 1" "put_fs_byte c b m"] q False obtain q' where
        "read_chars nr (b + 1) (put_fs_byte c b m) ?t =
          (length (take nr (before_eof t cs)) < nr \<and> length (take nr (before_eof t cs)) < length cs,
           nr - length (take nr (before_eof t cs)), b + 1 + of_nat (length (take nr (before_eof t cs))),
           put_bytes (take nr (before_eof t cs)) (b + 1) (put_fs_byte c b m), t\<lparr>secondary := q'\<rparr>)"
        "queue_inv q'"
        "q_list q' = drop (length (take nr (before_eof t cs)) + (if length (take nr (before_eof t cs)) < nr then 1 else 0)) cs"
        unfolding be by auto
      moreover have "take (Suc nr) (before_eof t l) = c # take nr (before_eof t cs)"
        using eof by (simp add: l before_eof_def)
      ultimately show ?thesis using eof EMPTY_list [OF q(1)] q(2) False unfolding run
        by (intro exI [of _ q']) (simp add: put_bytes_Cons l algebra_simps)
    qed
  qed
qed

text \<open>C25: Reading in canonical mode. When there is a line (or an end of file, or a full queue) to read,
  \<open>tty_read\<close> does not sleep; it stores the characters before the first end-of-file character, at most as many
  as asked for, returns their number, and takes them and the end-of-file character it met off the queue. (It does
  not stop at a newline: one call may return several lines and the beginning of an unfinished one.)\<close>

theorem tty_read_line:
  assumes "L_CANON (s_tty s)" "queue_inv (secondary (s_tty s))" "q_list (secondary (s_tty s)) = l"
    "\<not> nothing_to_read (s_tty s)" "0 < nr" "nr < 2 ^ 31"
    "p = take nr (before_eof (s_tty s) l)"
  shows "\<exists>s'. tty_read env 0 buf (of_nat nr) s = Some (Inr (of_nat (length p), s')) \<and>
     get_bytes (length p) buf (s_user s') = p \<and>
     q_list (secondary (s_tty s')) = drop (length p + (if length p < nr then 1 else 0)) l"
proof -
  have ne: "l \<noteq> []" using assms(2,3,4) EMPTY_list by (auto simp: nothing_to_read_def)
  have u: "unat (of_nat nr :: u32) = nr" "\<not> (of_nat nr :: u32) <s 0"
    using sint_of_nat_small [of nr, where ?'a = 32] assms(6) by (simp_all add: unat_of_nat_small word_sless_alt)
  obtain q where q: "read_chars nr buf (s_user s) (s_tty s) = (length p < nr \<and> length p < length l, nr - length p,
       buf + of_nat (length p), put_bytes p buf (s_user s), (s_tty s)\<lparr>secondary := q\<rparr>)"
     "q_list q = drop (length p + (if length p < nr then 1 else 0)) l"
    using read_chars_canon [OF assms(1-3), of nr buf "s_user s"] ne assms(7) by auto
  have "length p \<le> length (before_eof (s_tty s) l)" by (simp add: assms(7))
  also have "\<dots> \<le> length l" by (simp add: before_eof_def length_takeWhile_le)
  also have "\<dots> = q_len (secondary (s_tty s))" by (simp add: assms(3) [symmetric])
  also have "\<dots> \<le> 1023" using q_len_less [of "secondary (s_tty s)"] by simp
  finally have pl: "length p \<le> 1023" .
  have canon: "L_CANON ((s_tty s)\<lparr>secondary := q\<rparr>)" using assms(1) by (simp add: L_CANON_def L_FLAG_def)
  have stop: "length p < nr \<and> length p < length l \<or> (of_nat (length p) :: u32) \<noteq> 0"
  proof (cases "p = []")
    case True
    then show ?thesis using assms(5) ne by simp
  next
    case False
    then have "(of_nat (length p) :: u32) \<noteq> of_nat 0"
      using word_offset_inj [where ?'a = 32, of "length p" 0 0] pl by auto
    then show ?thesis by simp
  qed
  have "tty_read env 0 buf (of_nat nr) s = read_loop env buf nr buf s"
    using u by (simp add: tty_read_def)
  also have "\<dots> = Some (Inr (of_nat (length p), s\<lparr>s_user := put_bytes p buf (s_user s), s_tty := (s_tty s)\<lparr>secondary := q\<rparr>\<rparr>))"
    using assms(4,5) q(1) canon stop by (subst read_loop.simps) auto
  finally show ?thesis using put_bytes_get [of p buf "s_user s"] pl q(2) by auto
qed

text \<open>Two lines typed, read at once.\<close>

theorem tty_read_line_witness:
  "\<exists>s'. tty_read id 0 0 100 (sys0\<lparr>s_tty := (tty_table0 0x100)\<lparr>secondary :=
      (fold PUTCH [97, 10, 98, 10] (empty_queue 8))\<lparr>q_data := 2\<rparr>\<rparr>\<rparr>) = Some (Inr (4, s'))"
proof -
  let ?q = "fold PUTCH [97, 10, 98, 10] (empty_queue 8)"
  let ?s = "sys0\<lparr>s_tty := (tty_table0 0x100)\<lparr>secondary := ?q\<lparr>q_data := 2\<rparr>\<rparr>\<rparr>"
  have q: "queue_inv ?q" "q_list ?q = [97, 10, 98, 10]"
    using ring.invar_puts [of "empty_queue 8" "[97, 10, 98, 10]"] ring.contents_puts [of "empty_queue 8" "[97, 10, 98, 10]"]
      empty_queue_ok by auto
  have c: "L_CANON (s_tty ?s)" by (simp add: L_CANON_def L_FLAG_def tty_table0_def)
  have qq: "queue_inv (secondary (s_tty ?s))" "q_list (secondary (s_tty ?s)) = [97, 10, 98, 10]"
    using q by (simp_all add: tty_table0_def del: fold_simps)
  have n: "\<not> nothing_to_read (s_tty ?s)"
    using EMPTY_list [OF qq(1)] qq(2) by (simp add: nothing_to_read_def)
  have b: "before_eof (s_tty ?s) [97, 10, 98, 10] = [97, 10, 98, 10]"
    by (simp add: before_eof_def ceq_def cc_def VEOF_def tty_table0_def INIT_C_CC_def)
  from tty_read_line [OF c qq n, of 100 "[97, 10, 98, 10]" id 0] b show ?thesis by auto
qed

end
