(* ===== verification/Fs.thy ===== *)
theory Fs
  imports Timer Fork Tty
begin

text \<open>
  The data of the file system, \<open>include/linux/fs.h\<close>, with the state all its parts work on. A structure is a
  record; the pointers to buffer heads, i-nodes and open files are addresses, \<open>0\<close> the null pointer, and the
  entries of a table are given by the list of their addresses. The kilobyte a buffer head's \<open>b_data\<close> points
  to is the list \<open>b_data\<close>: it belongs to the buffer head from \<open>buffer_init\<close> on. A wait queue inside a
  structure is the address of the field, \<open>b_wait\<close>, \<open>i_wait\<close> and \<open>i_wait2\<close>.

  A routine that may sleep takes an \<open>environment\<close>: what everything else (interrupts, other tasks) does to
  the state from the moment the running task falls asleep until it runs again, and the functions the
  table of block devices points to; \<open>con_fuel\<close> bounds the writing of the console and \<open>io_pad\<close> is the byte that
  \<open>tty_ioctl\<close> copies without having set it. A routine that never returns is \<open>None\<close>.
\<close>

record buffer_head =
  b_data :: "u8 list"
  b_blocknr :: u32
  b_dev :: u16
  b_uptodate :: u8
  b_dirt :: u8
  b_count :: u8
  b_lock :: u8
  b_prev :: u32
  b_next :: u32
  b_prev_free :: u32
  b_next_free :: u32

record m_inode =
  i_mode :: u16
  i_uid :: u16
  i_size :: u32
  i_mtime :: u32
  i_gid :: u8
  i_nlinks :: u8
  i_zone :: "u16 list"
  i_atime :: u32
  i_ctime :: u32
  i_dev :: u16
  i_num :: u16
  i_count :: u16
  i_lock :: u8
  i_dirt :: u8
  i_pipe :: u8
  i_mount :: u8
  i_seek :: u8
  i_update :: u8

record open_file =
  f_mode :: u16
  f_flags :: u16
  f_count :: u16
  f_inode :: u32
  f_pos :: u32

record super_block =
  s_ninodes :: u16
  s_nzones :: u16
  s_imap_blocks :: u16
  s_zmap_blocks :: u16
  s_firstdatazone :: u16
  s_log_zone_size :: u16
  s_max_size :: u32
  s_magic :: u16
  s_imap :: "u32 list"
  s_zmap :: "u32 list"
  s_dev :: u16
  s_isup :: u32
  s_imount :: u32
  s_time :: u32
  s_lock :: u8
  s_rd_only :: u8
  s_dirt :: u8

text \<open>A request to a block device; \<open>buffer\<close> points into the data of \<open>bh\<close>, at \<open>r_offset\<close>. A link between
  requests is the index of an entry of the table.\<close>

record blk_request =
  r_dev :: u32
  r_cmd :: u32
  r_errors :: u32
  r_sector :: u32
  r_nr_sectors :: u32
  r_offset :: nat
  r_bh :: u32
  r_next :: "nat option"

text \<open>What the processor does on the ports of a disk: a byte to a port, words to the data port.\<close>

datatype io_event = Out u32 u8 | Out_words "u8 list"

datatype hd_intr = No_intr | Read_intr | Write_intr

record hd_geometry =
  hd_head :: u32
  hd_sect :: u32
  hd_cyl :: u32
  hd_wpcom :: u32
  hd_lzone :: u32
  hd_ctl :: u32

text \<open>The variables of the floppy driver. \<open>fd_type\<close> is the index of \<open>floppy\<close> in \<open>floppy_type\<close>, \<open>fd_do\<close> the handler of
  the next interrupt; \<open>fd_status n\<close> and \<open>fd_data n\<close> are what the \<open>n\<close>-th read of the two ports gives; \<open>fd_place h\<close> is
  where the data of the buffer \<open>h\<close> is in memory, the last three are the addresses of \<open>tmp_floppy_area\<close> and of the two
  functions that are called by timers.\<close>

datatype fd_intr = Fd_none | Fd_rw | Fd_seek | Fd_recal | Fd_reset

record fd_state =
  fd_recalibrate :: bool
  fd_reset :: bool
  fd_seek :: bool
  fd_reply :: "u8 list"
  cur_spec1 :: u32
  cur_rate :: u32
  fd_type :: nat
  current_drive :: u8
  fd_sector :: u8
  fd_head :: u8
  fd_track :: u8
  seek_track :: u8
  current_track :: u8
  fd_command :: u8
  wait_on_floppy_select :: u32
  tmp_floppy_area :: "u8 list"
  fd_do :: fd_intr
  fd_status :: "nat \<Rightarrow> u8"
  fd_data :: "nat \<Rightarrow> u8"
  fd_reads :: nat
  fd_bytes :: nat
  fd_log :: "io_event list"
  fd_place :: "u32 \<Rightarrow> u32"
  fd_area_addr :: u32
  fd_on_fn :: u32
  fd_transfer_fn :: u32

text \<open>\<open>hd_status n\<close> is what the \<open>n\<close>-th read of the status port of the disk gives, \<open>hd_words n\<close> the \<open>n\<close>-th
  sector read from its data port.\<close>

record fsys =
  fw :: wsys
  fm :: mem
  fu :: bmem
  fverified :: "(u32 \<times> u32) list"
  bhs :: "u32 \<Rightarrow> buffer_head"
  buffers :: "u32 list"
  hash_table :: "u32 list"
  free_list :: u32
  buffer_wait :: u32
  request :: "blk_request list"
  current_request :: "nat option list"
  wait_for_request :: u32
  hd_fn :: hd_intr
  hd_info :: "hd_geometry list"
  hd_parts :: "(u32 \<times> u32) list"
  nr_hd :: u32
  hd_log :: "io_event list"
  hd_status :: "nat \<Rightarrow> u8"
  hd_reads :: nat
  hd_words :: "nat \<Rightarrow> nat \<Rightarrow> u8"
  hd_sectors :: nat
  inodes :: "u32 \<Rightarrow> m_inode"
  inode_table :: "u32 list"
  last_inode :: nat
  sb :: super_block
  files :: "u32 \<Rightarrow> open_file"
  file_table :: "u32 list"
  root_dev :: u32
  sys_tty :: tty_struct
  sys_con :: console
  sys_cr_flag :: bool
  sys_timers :: timers
  sys_motors :: motors
  sys_fd :: fd_state
  sys_gdt :: "nat \<Rightarrow> desc"

abbreviation fk :: "fsys \<Rightarrow> kern" where "fk s \<equiv> wk (fw s)"

definition set_fk :: "kern \<Rightarrow> fsys \<Rightarrow> fsys" where
  "set_fk k s = s\<lparr>fw := (fw s)\<lparr>wk := k\<rparr>\<rparr>"

definition b_wait :: "u32 \<Rightarrow> u32" where "b_wait b = b + 16"
definition i_wait :: "u32 \<Rightarrow> u32" where "i_wait p = p + 32"
definition i_wait2 :: "u32 \<Rightarrow> u32" where "i_wait2 p = p + 36"

definition upd_bh :: "u32 \<Rightarrow> (buffer_head \<Rightarrow> buffer_head) \<Rightarrow> fsys \<Rightarrow> fsys" where
  "upd_bh b f s = s\<lparr>bhs := (bhs s)(b := f (bhs s b))\<rparr>"

definition upd_inode :: "u32 \<Rightarrow> (m_inode \<Rightarrow> m_inode) \<Rightarrow> fsys \<Rightarrow> fsys" where
  "upd_inode p f s = s\<lparr>inodes := (inodes s)(p := f (inodes s p))\<rparr>"

definition upd_file :: "u32 \<Rightarrow> (open_file \<Rightarrow> open_file) \<Rightarrow> fsys \<Rightarrow> fsys" where
  "upd_file p f s = s\<lparr>files := (files s)(p := f (files s p))\<rparr>"

lemma upd_bh_frame [simp, frame_facts]:
  "fw (upd_bh b g s) = fw s" "fm (upd_bh b g s) = fm s" "fu (upd_bh b g s) = fu s"
  "fverified (upd_bh b g s) = fverified s" "buffers (upd_bh b g s) = buffers s"
  "hash_table (upd_bh b g s) = hash_table s" "free_list (upd_bh b g s) = free_list s"
  "buffer_wait (upd_bh b g s) = buffer_wait s" "request (upd_bh b g s) = request s"
  "current_request (upd_bh b g s) = current_request s" "wait_for_request (upd_bh b g s) = wait_for_request s"
  "hd_fn (upd_bh b g s) = hd_fn s" "hd_info (upd_bh b g s) = hd_info s" "hd_parts (upd_bh b g s) = hd_parts s"
  "nr_hd (upd_bh b g s) = nr_hd s" "hd_log (upd_bh b g s) = hd_log s" "hd_status (upd_bh b g s) = hd_status s"
  "hd_reads (upd_bh b g s) = hd_reads s" "hd_words (upd_bh b g s) = hd_words s"
  "hd_sectors (upd_bh b g s) = hd_sectors s" "inodes (upd_bh b g s) = inodes s"
  "inode_table (upd_bh b g s) = inode_table s" "last_inode (upd_bh b g s) = last_inode s" "sb (upd_bh b g s) = sb s"
  "files (upd_bh b g s) = files s" "file_table (upd_bh b g s) = file_table s" "root_dev (upd_bh b g s) = root_dev s"
  "sys_tty (upd_bh b g s) = sys_tty s" "sys_con (upd_bh b g s) = sys_con s" "sys_cr_flag (upd_bh b g s) = sys_cr_flag s"
  "sys_timers (upd_bh b g s) = sys_timers s" "sys_motors (upd_bh b g s) = sys_motors s" "sys_fd (upd_bh b g s) = sys_fd s" "sys_gdt (upd_bh b g s) = sys_gdt s"
  by (simp_all add: upd_bh_def)

lemma upd_inode_frame [simp, frame_facts]:
  "fw (upd_inode p g s) = fw s" "fm (upd_inode p g s) = fm s" "fu (upd_inode p g s) = fu s"
  "fverified (upd_inode p g s) = fverified s" "bhs (upd_inode p g s) = bhs s"
  "buffers (upd_inode p g s) = buffers s" "hash_table (upd_inode p g s) = hash_table s"
  "free_list (upd_inode p g s) = free_list s" "buffer_wait (upd_inode p g s) = buffer_wait s"
  "request (upd_inode p g s) = request s" "current_request (upd_inode p g s) = current_request s"
  "wait_for_request (upd_inode p g s) = wait_for_request s" "hd_fn (upd_inode p g s) = hd_fn s"
  "hd_info (upd_inode p g s) = hd_info s" "hd_parts (upd_inode p g s) = hd_parts s"
  "nr_hd (upd_inode p g s) = nr_hd s" "hd_log (upd_inode p g s) = hd_log s"
  "hd_status (upd_inode p g s) = hd_status s" "hd_reads (upd_inode p g s) = hd_reads s"
  "hd_words (upd_inode p g s) = hd_words s" "hd_sectors (upd_inode p g s) = hd_sectors s"
  "inode_table (upd_inode p g s) = inode_table s" "last_inode (upd_inode p g s) = last_inode s"
  "sb (upd_inode p g s) = sb s" "files (upd_inode p g s) = files s" "file_table (upd_inode p g s) = file_table s"
  "root_dev (upd_inode p g s) = root_dev s"
  "sys_tty (upd_inode p g s) = sys_tty s" "sys_con (upd_inode p g s) = sys_con s" "sys_cr_flag (upd_inode p g s) = sys_cr_flag s"
  "sys_timers (upd_inode p g s) = sys_timers s" "sys_motors (upd_inode p g s) = sys_motors s" "sys_fd (upd_inode p g s) = sys_fd s" "sys_gdt (upd_inode p g s) = sys_gdt s"
  by (simp_all add: upd_inode_def)

lemma upd_file_frame [simp, frame_facts]:
  "fw (upd_file p g s) = fw s" "fm (upd_file p g s) = fm s" "fu (upd_file p g s) = fu s"
  "fverified (upd_file p g s) = fverified s" "bhs (upd_file p g s) = bhs s" "buffers (upd_file p g s) = buffers s"
  "hash_table (upd_file p g s) = hash_table s" "free_list (upd_file p g s) = free_list s"
  "buffer_wait (upd_file p g s) = buffer_wait s" "request (upd_file p g s) = request s"
  "current_request (upd_file p g s) = current_request s" "wait_for_request (upd_file p g s) = wait_for_request s"
  "hd_fn (upd_file p g s) = hd_fn s" "hd_info (upd_file p g s) = hd_info s" "hd_parts (upd_file p g s) = hd_parts s"
  "nr_hd (upd_file p g s) = nr_hd s" "hd_log (upd_file p g s) = hd_log s" "hd_status (upd_file p g s) = hd_status s"
  "hd_reads (upd_file p g s) = hd_reads s" "hd_words (upd_file p g s) = hd_words s"
  "hd_sectors (upd_file p g s) = hd_sectors s" "inodes (upd_file p g s) = inodes s"
  "inode_table (upd_file p g s) = inode_table s" "last_inode (upd_file p g s) = last_inode s"
  "sb (upd_file p g s) = sb s" "file_table (upd_file p g s) = file_table s" "root_dev (upd_file p g s) = root_dev s"
  "sys_tty (upd_file p g s) = sys_tty s" "sys_con (upd_file p g s) = sys_con s" "sys_cr_flag (upd_file p g s) = sys_cr_flag s"
  "sys_timers (upd_file p g s) = sys_timers s" "sys_motors (upd_file p g s) = sys_motors s" "sys_fd (upd_file p g s) = sys_fd s" "sys_gdt (upd_file p g s) = sys_gdt s"
  by (simp_all add: upd_file_def)

lemma set_fk_frame [simp, frame_facts]:
  "fm (set_fk k s) = fm s" "fu (set_fk k s) = fu s" "fverified (set_fk k s) = fverified s"
  "bhs (set_fk k s) = bhs s" "buffers (set_fk k s) = buffers s" "hash_table (set_fk k s) = hash_table s"
  "free_list (set_fk k s) = free_list s" "buffer_wait (set_fk k s) = buffer_wait s"
  "request (set_fk k s) = request s" "current_request (set_fk k s) = current_request s"
  "wait_for_request (set_fk k s) = wait_for_request s" "hd_fn (set_fk k s) = hd_fn s"
  "hd_info (set_fk k s) = hd_info s" "hd_parts (set_fk k s) = hd_parts s" "nr_hd (set_fk k s) = nr_hd s"
  "hd_log (set_fk k s) = hd_log s" "hd_status (set_fk k s) = hd_status s" "hd_reads (set_fk k s) = hd_reads s"
  "hd_words (set_fk k s) = hd_words s" "hd_sectors (set_fk k s) = hd_sectors s" "inodes (set_fk k s) = inodes s"
  "inode_table (set_fk k s) = inode_table s" "last_inode (set_fk k s) = last_inode s" "sb (set_fk k s) = sb s"
  "files (set_fk k s) = files s" "file_table (set_fk k s) = file_table s" "root_dev (set_fk k s) = root_dev s"
  "sys_tty (set_fk k s) = sys_tty s" "sys_con (set_fk k s) = sys_con s" "sys_cr_flag (set_fk k s) = sys_cr_flag s"
  "sys_timers (set_fk k s) = sys_timers s" "sys_motors (set_fk k s) = sys_motors s" "sys_fd (set_fk k s) = sys_fd s" "sys_gdt (set_fk k s) = sys_gdt s"
  by (simp_all add: set_fk_def)

lemma upd_bh_bhs [simp]: "bhs (upd_bh b f s) = (bhs s)(b := f (bhs s b))"
  by (simp add: upd_bh_def)

lemma upd_inode_inodes [simp]: "inodes (upd_inode p f s) = (inodes s)(p := f (inodes s p))"
  by (simp add: upd_inode_def)

lemma upd_file_files [simp]: "files (upd_file p f s) = (files s)(p := f (files s p))"
  by (simp add: upd_file_def)

lemma set_fk_fk [simp]: "fk (set_fk k s) = k"
  by (simp add: set_fk_def)

section \<open>Sleeping\<close>

record environment =
  others :: "fsys \<Rightarrow> fsys"
  request_fn :: "nat \<Rightarrow> (fsys \<Rightarrow> fsys kres option) option"
  con_fuel :: nat
  io_pad :: u8
  cmos :: "u8 \<Rightarrow> u8"
  test_c :: u32

text \<open>Sequencing of routines that may not return can be used under a recursion.\<close>

lemma obind_bind: "obind m c = Option.bind m (\<lambda>r. case r of Inl e \<Rightarrow> Some (Inl e) | Inr a \<Rightarrow> c a)"
  by (cases m) (auto simp: obind_def split: sum.split)

lemma obind_mono [partial_function_mono]:
  assumes "mono_option B" "\<And>y. mono_option (\<lambda>f. C y f)"
  shows "mono_option (\<lambda>f. obind (B f) (\<lambda>y. C y f))"
  unfolding obind_bind using assms
  by (intro bind_mono) (auto split: sum.split simp: monotone_def option.leq_refl)

definition sleep_fs :: "environment \<Rightarrow> u32 \<Rightarrow> fsys \<Rightarrow> fsys kres option" where
  "sleep_fs env p s =
     (case sleep_on p (fw s) of Inl e \<Rightarrow> Some (Inl e) | Inr w \<Rightarrow> Some (Inr (others env (s\<lparr>fw := w\<rparr>))))"

definition isleep_fs :: "environment \<Rightarrow> u32 \<Rightarrow> fsys \<Rightarrow> fsys kres option" where
  "isleep_fs env p s =
     (case interruptible_sleep_on p (fw s) of Inl e \<Rightarrow> Some (Inl e) | Inr w \<Rightarrow> Some (Inr (others env (s\<lparr>fw := w\<rparr>))))"

definition wake_fs :: "u32 \<Rightarrow> fsys \<Rightarrow> fsys" where
  "wake_fs p s = s\<lparr>fw := wake_up p (fw s)\<rparr>"

definition log_fs :: "string \<Rightarrow> fsys \<Rightarrow> fsys" where
  "log_fs msg s = set_fk ((fk s)\<lparr>klog := klog (fk s) @ [msg]\<rparr>) s"

lemma wake_fs_frame [simp, frame_facts]:
  "fm (wake_fs p s) = fm s" "fu (wake_fs p s) = fu s" "fverified (wake_fs p s) = fverified s"
  "bhs (wake_fs p s) = bhs s" "buffers (wake_fs p s) = buffers s" "hash_table (wake_fs p s) = hash_table s"
  "free_list (wake_fs p s) = free_list s" "buffer_wait (wake_fs p s) = buffer_wait s"
  "request (wake_fs p s) = request s" "current_request (wake_fs p s) = current_request s"
  "wait_for_request (wake_fs p s) = wait_for_request s" "hd_fn (wake_fs p s) = hd_fn s"
  "hd_info (wake_fs p s) = hd_info s" "hd_parts (wake_fs p s) = hd_parts s" "nr_hd (wake_fs p s) = nr_hd s"
  "hd_log (wake_fs p s) = hd_log s" "hd_status (wake_fs p s) = hd_status s" "hd_reads (wake_fs p s) = hd_reads s"
  "hd_words (wake_fs p s) = hd_words s" "hd_sectors (wake_fs p s) = hd_sectors s" "inodes (wake_fs p s) = inodes s"
  "inode_table (wake_fs p s) = inode_table s" "last_inode (wake_fs p s) = last_inode s" "sb (wake_fs p s) = sb s"
  "files (wake_fs p s) = files s" "file_table (wake_fs p s) = file_table s" "root_dev (wake_fs p s) = root_dev s"
  "sys_tty (wake_fs p s) = sys_tty s" "sys_con (wake_fs p s) = sys_con s" "sys_cr_flag (wake_fs p s) = sys_cr_flag s"
  "sys_timers (wake_fs p s) = sys_timers s" "sys_motors (wake_fs p s) = sys_motors s" "sys_fd (wake_fs p s) = sys_fd s" "sys_gdt (wake_fs p s) = sys_gdt s"
  by (simp_all add: wake_fs_def)

lemma log_fs_frame [simp, frame_facts]:
  "fm (log_fs t s) = fm s" "fu (log_fs t s) = fu s" "fverified (log_fs t s) = fverified s"
  "bhs (log_fs t s) = bhs s" "buffers (log_fs t s) = buffers s" "hash_table (log_fs t s) = hash_table s"
  "free_list (log_fs t s) = free_list s" "buffer_wait (log_fs t s) = buffer_wait s"
  "request (log_fs t s) = request s" "current_request (log_fs t s) = current_request s"
  "wait_for_request (log_fs t s) = wait_for_request s" "hd_fn (log_fs t s) = hd_fn s"
  "hd_info (log_fs t s) = hd_info s" "hd_parts (log_fs t s) = hd_parts s" "nr_hd (log_fs t s) = nr_hd s"
  "hd_log (log_fs t s) = hd_log s" "hd_status (log_fs t s) = hd_status s" "hd_reads (log_fs t s) = hd_reads s"
  "hd_words (log_fs t s) = hd_words s" "hd_sectors (log_fs t s) = hd_sectors s" "inodes (log_fs t s) = inodes s"
  "inode_table (log_fs t s) = inode_table s" "last_inode (log_fs t s) = last_inode s" "sb (log_fs t s) = sb s"
  "files (log_fs t s) = files s" "file_table (log_fs t s) = file_table s" "root_dev (log_fs t s) = root_dev s"
  "sys_tty (log_fs t s) = sys_tty s" "sys_con (log_fs t s) = sys_con s" "sys_cr_flag (log_fs t s) = sys_cr_flag s"
  "sys_timers (log_fs t s) = sys_timers s" "sys_motors (log_fs t s) = sys_motors s" "sys_fd (log_fs t s) = sys_fd s" "sys_gdt (log_fs t s) = sys_gdt s"
  by (simp_all add: log_fs_def)

section \<open>A file system at rest\<close>

text \<open>The state the examples start from: every table empty, all requests free, the tasks of \<open>kern0\<close>.\<close>

definition buffer0 :: buffer_head where
  "buffer0 = \<lparr>b_data = replicate 1024 0, b_blocknr = 0, b_dev = 0, b_uptodate = 0, b_dirt = 0, b_count = 0,
     b_lock = 0, b_prev = 0, b_next = 0, b_prev_free = 0, b_next_free = 0\<rparr>"

definition inode0 :: m_inode where
  "inode0 = \<lparr>i_mode = 0, i_uid = 0, i_size = 0, i_mtime = 0, i_gid = 0, i_nlinks = 0, i_zone = replicate 9 0,
     i_atime = 0, i_ctime = 0, i_dev = 0, i_num = 0, i_count = 0, i_lock = 0, i_dirt = 0, i_pipe = 0, i_mount = 0,
     i_seek = 0, i_update = 0\<rparr>"

definition super0 :: super_block where
  "super0 = \<lparr>s_ninodes = 0, s_nzones = 0, s_imap_blocks = 0, s_zmap_blocks = 0, s_firstdatazone = 0,
     s_log_zone_size = 0, s_max_size = 0, s_magic = 0, s_imap = replicate 8 0, s_zmap = replicate 8 0, s_dev = 0,
     s_isup = 0, s_imount = 0, s_time = 0, s_lock = 0, s_rd_only = 0, s_dirt = 0\<rparr>"

definition motors0 :: motors where
  "motors0 = \<lparr>mon_timer = [0, 0, 0, 0], moff_timer = [0, 0, 0, 0], current_DOR = 0x0C, selected = 0,
     fd_wait = [0x10008, 0x1000C, 0x10010, 0x10014], fd_out = []\<rparr>"

definition floppy0 :: fd_state where
  "floppy0 = \<lparr>fd_recalibrate = False, fd_reset = False, fd_seek = False, fd_reply = replicate 7 0, cur_spec1 = - 1,
     cur_rate = - 1, fd_type = 0, current_drive = 0, fd_sector = 0, fd_head = 0, fd_track = 0, seek_track = 0,
     current_track = 255, fd_command = 0, wait_on_floppy_select = 0x10018, tmp_floppy_area = replicate 1024 0,
     fd_do = Fd_none, fd_status = (\<lambda>_. 0x80), fd_data = (\<lambda>_. 0), fd_reads = 0, fd_bytes = 0, fd_log = [],
     fd_place = (\<lambda>h. h), fd_area_addr = 0x8000, fd_on_fn = 0x9000, fd_transfer_fn = 0x9100\<rparr>"

definition fs0 :: fsys where
  "fs0 = \<lparr>fw = \<lparr>wk = kern0, wq = (\<lambda>_. 0), frames = (\<lambda>_. None)\<rparr>, fm = mem0, fu = (\<lambda>_. 0), fverified = [],
     bhs = (\<lambda>_. buffer0), buffers = [], hash_table = replicate 307 0, free_list = 0, buffer_wait = 0x10000,
     request = replicate 32 \<lparr>r_dev = - 1, r_cmd = 0, r_errors = 0, r_sector = 0, r_nr_sectors = 0, r_offset = 0,
       r_bh = 0, r_next = None\<rparr>,
     current_request = replicate 7 None, wait_for_request = 0x10004, hd_fn = No_intr,
     hd_info = replicate 2 \<lparr>hd_head = 16, hd_sect = 63, hd_cyl = 100, hd_wpcom = 0, hd_lzone = 0, hd_ctl = 8\<rparr>,
     hd_parts = replicate 10 (0, 0), nr_hd = 1, hd_log = [], hd_status = (\<lambda>_. 0x50), hd_reads = 0,
     hd_words = (\<lambda>_ _. 0), hd_sectors = 0, inodes = (\<lambda>_. inode0), inode_table = [], last_inode = 0,
     sb = super0, files = (\<lambda>_. \<lparr>f_mode = 0, f_flags = 0, f_count = 0, f_inode = 0, f_pos = 0\<rparr>), file_table = [],
     root_dev = 0x301, sys_tty = tty_table0 0x100, sys_con = screen0, sys_cr_flag = False,
     sys_timers = timers0, sys_motors = motors0, sys_fd = floppy0, sys_gdt = (\<lambda>_. (0, 0))\<rparr>"

definition env0 :: environment where
  "env0 = \<lparr>others = (\<lambda>s. s), request_fn = (\<lambda>_. None), con_fuel = 0, io_pad = 0, cmos = (\<lambda>_. 0), test_c = 0x9200\<rparr>"

end
