(* ===== verification/Blk.thy ===== *)
theory Blk
  imports Fs "HOL-Library.Multiset"
begin

text \<open>
  Requests to block devices, \<open>kernel/blk_drv/ll_rw_blk.c\<close> and \<open>blk.h\<close>: locking a buffer, the table of
  requests, the list of the requests of a device, kept in the order of the elevator, and the end of a
  request. The request function of a device is the environment's.
\<close>

definition NR_BLK_DEV :: nat where "NR_BLK_DEV = 7"
definition NR_REQUEST :: nat where "NR_REQUEST = 32"

definition READ :: u32 where "READ = 0"
definition WRITE :: u32 where "WRITE = 1"

definition MAJOR :: "u32 \<Rightarrow> u32" where "MAJOR a = drop_bit 8 a"
definition MINOR :: "u32 \<Rightarrow> u32" where "MINOR a = a AND 0xff"

definition upd_req :: "nat \<Rightarrow> (blk_request \<Rightarrow> blk_request) \<Rightarrow> fsys \<Rightarrow> fsys" where
  "upd_req i f s = s\<lparr>request := (request s)[i := f (request s ! i)]\<rparr>"

definition set_current :: "nat \<Rightarrow> nat option \<Rightarrow> fsys \<Rightarrow> fsys" where
  "set_current major r s = s\<lparr>current_request := (current_request s)[major := r]\<rparr>"

lemma upd_req_request [simp]: "request (upd_req i f s) = (request s)[i := f (request s ! i)]"
  by (simp add: upd_req_def)

lemma set_current_current [simp]: "current_request (set_current m r s) = (current_request s)[m := r]"
  by (simp add: set_current_def)

lemma upd_req_frame [simp, frame_facts]:
  "fw (upd_req i g s) = fw s" "fm (upd_req i g s) = fm s" "fu (upd_req i g s) = fu s"
  "fverified (upd_req i g s) = fverified s" "bhs (upd_req i g s) = bhs s" "buffers (upd_req i g s) = buffers s"
  "hash_table (upd_req i g s) = hash_table s" "free_list (upd_req i g s) = free_list s"
  "buffer_wait (upd_req i g s) = buffer_wait s" "current_request (upd_req i g s) = current_request s"
  "wait_for_request (upd_req i g s) = wait_for_request s" "hd_fn (upd_req i g s) = hd_fn s"
  "hd_info (upd_req i g s) = hd_info s" "hd_parts (upd_req i g s) = hd_parts s" "nr_hd (upd_req i g s) = nr_hd s"
  "hd_log (upd_req i g s) = hd_log s" "hd_status (upd_req i g s) = hd_status s"
  "hd_reads (upd_req i g s) = hd_reads s" "hd_words (upd_req i g s) = hd_words s"
  "hd_sectors (upd_req i g s) = hd_sectors s" "inodes (upd_req i g s) = inodes s"
  "inode_table (upd_req i g s) = inode_table s" "last_inode (upd_req i g s) = last_inode s"
  "sb (upd_req i g s) = sb s" "files (upd_req i g s) = files s" "file_table (upd_req i g s) = file_table s"
  "root_dev (upd_req i g s) = root_dev s"
  by (simp_all add: upd_req_def)

lemma set_current_frame [simp, frame_facts]:
  "fw (set_current m r s) = fw s" "fm (set_current m r s) = fm s" "fu (set_current m r s) = fu s"
  "fverified (set_current m r s) = fverified s" "bhs (set_current m r s) = bhs s"
  "buffers (set_current m r s) = buffers s" "hash_table (set_current m r s) = hash_table s"
  "free_list (set_current m r s) = free_list s" "buffer_wait (set_current m r s) = buffer_wait s"
  "request (set_current m r s) = request s" "wait_for_request (set_current m r s) = wait_for_request s"
  "hd_fn (set_current m r s) = hd_fn s" "hd_info (set_current m r s) = hd_info s"
  "hd_parts (set_current m r s) = hd_parts s" "nr_hd (set_current m r s) = nr_hd s"
  "hd_log (set_current m r s) = hd_log s" "hd_status (set_current m r s) = hd_status s"
  "hd_reads (set_current m r s) = hd_reads s" "hd_words (set_current m r s) = hd_words s"
  "hd_sectors (set_current m r s) = hd_sectors s" "inodes (set_current m r s) = inodes s"
  "inode_table (set_current m r s) = inode_table s" "last_inode (set_current m r s) = last_inode s"
  "sb (set_current m r s) = sb s" "files (set_current m r s) = files s"
  "file_table (set_current m r s) = file_table s" "root_dev (set_current m r s) = root_dev s"
  by (simp_all add: set_current_def)

section \<open>Locking a buffer\<close>

partial_function (option) wait_on_buffer :: "environment \<Rightarrow> u32 \<Rightarrow> fsys \<Rightarrow> fsys kres option" where
  "wait_on_buffer env b s =
     (if b_lock (bhs s b) \<noteq> 0 then obind (sleep_fs env (b_wait b) s) (\<lambda>s. wait_on_buffer env b s)
      else Some (Inr s))"

definition lock_buffer :: "environment \<Rightarrow> u32 \<Rightarrow> fsys \<Rightarrow> fsys kres option" where
  "lock_buffer env b s =
     obind (wait_on_buffer env b s) (\<lambda>s. Some (Inr (upd_bh b (\<lambda>h. h\<lparr>b_lock := 1\<rparr>) s)))"

definition unlock_buffer :: "u32 \<Rightarrow> fsys \<Rightarrow> fsys" where
  "unlock_buffer b s =
     (let s = (if b_lock (bhs s b) = 0 then log_fs ''ll_rw_block.c: buffer not locked'' s else s)
      in wake_fs (b_wait b) (upd_bh b (\<lambda>h. h\<lparr>b_lock := 0\<rparr>) s))"

section \<open>The list of requests\<close>

definition IN_ORDER :: "blk_request \<Rightarrow> blk_request \<Rightarrow> bool" where
  "IN_ORDER s1 s2 \<longleftrightarrow>
     r_cmd s1 <s r_cmd s2 \<or> r_cmd s1 = r_cmd s2 \<and>
       (r_dev s1 <s r_dev s2 \<or> r_dev s1 = r_dev s2 \<and> r_sector s1 < r_sector s2)"

text \<open>The request after which the new one \<open>r\<close> is put.\<close>

partial_function (option) insert_after :: "blk_request list \<Rightarrow> nat \<Rightarrow> nat \<Rightarrow> nat option" where
  "insert_after rs r tmp =
     (case r_next (rs ! tmp) of None \<Rightarrow> Some tmp
      | Some nx \<Rightarrow>
          if r_bh (rs ! r) = 0 then
            (if r_bh (rs ! nx) \<noteq> 0 then Some tmp else insert_after rs r nx)
          else if (IN_ORDER (rs ! tmp) (rs ! r) \<or> \<not> IN_ORDER (rs ! tmp) (rs ! nx)) \<and> IN_ORDER (rs ! r) (rs ! nx)
          then Some tmp
          else insert_after rs r nx)"

definition add_request :: "environment \<Rightarrow> nat \<Rightarrow> nat \<Rightarrow> fsys \<Rightarrow> fsys kres option" where
  "add_request env major r s =
     (let s = upd_req r (\<lambda>q. q\<lparr>r_next := None\<rparr>) s;
          b = r_bh (request s ! r);
          s = (if b \<noteq> 0 then upd_bh b (\<lambda>h. h\<lparr>b_dirt := 0\<rparr>) s else s)
      in if NR_BLK_DEV \<le> major then Some (Inl OutOfBounds)
      else case current_request s ! major of
        None \<Rightarrow>
          (case request_fn env major of None \<Rightarrow> Some (Inl NullDeref)
           | Some f \<Rightarrow> f (set_current major (Some r) s))
      | Some t \<Rightarrow>
          (case insert_after (request s) r t of None \<Rightarrow> None
           | Some tmp \<Rightarrow>
               Some (Inr (upd_req tmp (\<lambda>q. q\<lparr>r_next := Some r\<rparr>)
                           (upd_req r (\<lambda>q. q\<lparr>r_next := r_next (request s ! tmp)\<rparr>) s)))))"

text \<open>The last free entry below \<open>n\<close>.\<close>

fun free_request :: "blk_request list \<Rightarrow> nat \<Rightarrow> nat option" where
  "free_request rs 0 = None"
| "free_request rs (Suc n) = (if r_dev (rs ! n) <s 0 then Some n else free_request rs n)"

partial_function (option) get_request :: "environment \<Rightarrow> u32 \<Rightarrow> fsys \<Rightarrow> (nat \<times> fsys) kres option" where
  "get_request env rw s =
     (case free_request (request s) (if rw = READ then NR_REQUEST else NR_REQUEST * 2 div 3) of
        Some r \<Rightarrow> Some (Inr (r, s))
      | None \<Rightarrow> obind (sleep_fs env (wait_for_request s) s) (\<lambda>s. get_request env rw s))"

definition make_request :: "environment \<Rightarrow> nat \<Rightarrow> u32 \<Rightarrow> u32 \<Rightarrow> fsys \<Rightarrow> fsys kres option" where
  "make_request env major rw b s =
     obind (lock_buffer env b s) (\<lambda>s.
     if rw = WRITE \<and> b_dirt (bhs s b) = 0 \<or> rw = READ \<and> b_uptodate (bhs s b) \<noteq> 0
     then Some (Inr (unlock_buffer b s))
     else
       obind (get_request env rw s) (\<lambda>(r, s).
         add_request env major r
           (upd_req r (\<lambda>_. \<lparr>r_dev = ucast (b_dev (bhs s b)), r_cmd = rw, r_errors = 0,
              r_sector = push_bit 1 (b_blocknr (bhs s b)), r_nr_sectors = 2, r_offset = 0, r_bh = b, r_next = None\<rparr>) s)))"

definition ll_rw_block :: "environment \<Rightarrow> u32 \<Rightarrow> u32 \<Rightarrow> fsys \<Rightarrow> fsys kres option" where
  "ll_rw_block env rw b s = make_request env (unat (MAJOR (ucast (b_dev (bhs s b))))) rw b s"

definition end_request :: "nat \<Rightarrow> u8 \<Rightarrow> fsys \<Rightarrow> fsys kres" where
  "end_request dev uptodate s =
     (case current_request s ! dev of None \<Rightarrow> Inl NullDeref
      | Some r \<Rightarrow>
          let b = r_bh (request s ! r);
              s = (if b \<noteq> 0 then unlock_buffer b (upd_bh b (\<lambda>h. h\<lparr>b_uptodate := uptodate\<rparr>) s) else s)
          in if uptodate = 0 \<and> b = 0 then Inl NullDeref
             else
               let s = (if uptodate = 0 then log_fs ''I/O error'' s else s);
                   s = upd_req r (\<lambda>q. q\<lparr>r_dev := - 1\<rparr>) s
               in Inr (set_current dev (r_next (request s ! r)) s))"

definition blk_dev_init :: "fsys \<Rightarrow> fsys" where
  "blk_dev_init s = s\<lparr>request := map (\<lambda>q. q\<lparr>r_dev := - 1, r_next := None\<rparr>) (request s)\<rparr>"

section \<open>The elevator\<close>

text \<open>The list of a device as a list of indices, and inserting into it.\<close>

fun req_chain :: "blk_request list \<Rightarrow> nat option \<Rightarrow> nat list \<Rightarrow> bool" where
  "req_chain rs h [] \<longleftrightarrow> h = None"
| "req_chain rs h (r # l) \<longleftrightarrow> h = Some r \<and> r < length rs \<and> req_chain rs (r_next (rs ! r)) l"

fun elevator :: "(nat \<Rightarrow> blk_request) \<Rightarrow> nat \<Rightarrow> nat \<Rightarrow> nat list \<Rightarrow> nat list" where
  "elevator q r t [] = [r]"
| "elevator q r t (n # l) =
     (if (IN_ORDER (q t) (q r) \<or> \<not> IN_ORDER (q t) (q n)) \<and> IN_ORDER (q r) (q n) then r # n # l
      else n # elevator q r n l)"

lemma mset_elevator: "mset (elevator q r t l) = add_mset r (mset l)"
  by (induction l arbitrary: t) auto

lemma set_elevator: "set (elevator q r t l) = insert r (set l)"
  using mset_elevator [of q r t l] by (metis set_mset_add_mset_insert set_mset_mset)

lemma IN_ORDER_trans: "IN_ORDER a b \<Longrightarrow> IN_ORDER b c \<Longrightarrow> IN_ORDER a c"
  by (auto simp: IN_ORDER_def word_sless_alt)

lemma elevator_sorted:
  assumes "sorted_wrt (\<lambda>i j. IN_ORDER (q i) (q j)) (t # l)" "IN_ORDER (q t) (q r)"
    "\<forall>i \<in> set l. IN_ORDER (q i) (q r) \<or> IN_ORDER (q r) (q i)"
  shows "sorted_wrt (\<lambda>i j. IN_ORDER (q i) (q j)) (t # elevator q r t l)"
  using assms
proof (induction l arbitrary: t)
  case (Cons n l)
  show ?case
  proof (cases "IN_ORDER (q r) (q n)")
    case True
    then have "IN_ORDER (q r) (q j)" if "j \<in> set l" for j
      using Cons.prems(1) that by (auto intro: IN_ORDER_trans)
    then show ?thesis using Cons.prems True by auto
  next
    case False
    then have "IN_ORDER (q n) (q r)" using Cons.prems(3) by auto
    then show ?thesis using Cons False by (auto simp: set_elevator)
  qed
qed simp

text \<open>A write to an entry that is not in the list.\<close>

lemma req_chain_other:
  "i \<notin> set l \<Longrightarrow> req_chain (rs[i := x]) h l = req_chain rs h l"
  by (induction l arbitrary: h) auto

lemma insert_after_chain:
  assumes "req_chain rs (Some t) (t # l)" "distinct (t # l)" "r \<notin> set (t # l)" "r < length rs" "r_bh (rs ! r) \<noteq> 0"
  shows "\<exists>tmp. insert_after rs r t = Some tmp \<and> tmp \<in> set (t # l) \<and>
    req_chain (rs[r := (rs ! r)\<lparr>r_next := r_next (rs ! tmp)\<rparr>, tmp := (rs ! tmp)\<lparr>r_next := Some r\<rparr>]) (Some t)
      (t # elevator (\<lambda>i. rs ! i) r t l)"
  using assms
proof (induction l arbitrary: t)
  case Nil
  then have "insert_after rs r t = Some t" by (subst insert_after.simps) simp
  then show ?case using Nil by simp
next
  case (Cons n l)
  then have nx: "r_next (rs ! t) = Some n" and t: "t < length rs" "t \<noteq> r" "t \<notin> set (n # l)" by auto
  let ?c = "(IN_ORDER (rs ! t) (rs ! r) \<or> \<not> IN_ORDER (rs ! t) (rs ! n)) \<and> IN_ORDER (rs ! r) (rs ! n)"
  have step: "insert_after rs r t = (if ?c then Some t else insert_after rs r n)"
    using nx Cons.prems(5) by (subst insert_after.simps) simp
  show ?case
  proof (cases ?c)
    case True
    have "req_chain (rs[r := (rs ! r)\<lparr>r_next := Some n\<rparr>, t := (rs ! t)\<lparr>r_next := Some r\<rparr>]) (Some n) (n # l)"
      using Cons.prems t by (simp add: req_chain_other)
    then show ?thesis using True step t Cons.prems(4) nx by (intro exI [of _ t]) simp
  next
    case False
    from Cons.IH [of n] Cons.prems obtain tmp where tmp: "insert_after rs r n = Some tmp" "tmp \<in> set (n # l)"
      "req_chain (rs[r := (rs ! r)\<lparr>r_next := r_next (rs ! tmp)\<rparr>, tmp := (rs ! tmp)\<lparr>r_next := Some r\<rparr>]) (Some n)
        (n # elevator (\<lambda>i. rs ! i) r n l)" by auto
    then have "t \<noteq> tmp" using t by auto
    then show ?thesis using False step tmp t nx by (intro exI [of _ tmp]) auto
  qed
qed

text \<open>C36: Adding a request to a device that is busy. The list of the device gets the new request behind the one
  that is being served, at the place the elevator says; all other requests stay, in their order; a list in
  increasing order of command, device and sector stays in that order when the request fits behind the one being
  served. The request function is not called, and the buffer of the request counts as written.\<close>

theorem add_request_elevator:
  assumes "req_chain (request s) (current_request s ! major) (t # l)" "distinct (t # l)" "major < NR_BLK_DEV"
    "r \<notin> set (t # l)" "r < length (request s)" "r_bh (request s ! r) \<noteq> 0"
  defines "l' \<equiv> elevator (\<lambda>i. request s ! i) r t l"
  shows "\<exists>s'. add_request env major r s = Some (Inr s') \<and>
    req_chain (request s') (current_request s' ! major) (t # l') \<and> mset l' = add_mset r (mset l) \<and>
    (sorted_wrt (\<lambda>i j. IN_ORDER (request s ! i) (request s ! j)) (t # l) \<and> IN_ORDER (request s ! t) (request s ! r) \<and>
      (\<forall>i \<in> set l. IN_ORDER (request s ! i) (request s ! r) \<or> IN_ORDER (request s ! r) (request s ! i)) \<longrightarrow>
      sorted_wrt (\<lambda>i j. IN_ORDER (request s ! i) (request s ! j)) (t # l')) \<and>
    b_dirt (bhs s' (r_bh (request s ! r))) = 0"
proof -
  let ?rs = "(request s)[r := (request s ! r)\<lparr>r_next := None\<rparr>]"
  have cur: "current_request s ! major = Some t" using assms(1) by simp
  have ch: "req_chain ?rs (Some t) (t # l)" using assms(1,4) cur by (simp add: req_chain_other)
  have q: "elevator (\<lambda>i. ?rs ! i) r u m = elevator (\<lambda>i. request s ! i) r u m" for u m
  proof (induction m arbitrary: u)
    case (Cons n m)
    have "IN_ORDER (?rs ! i) (?rs ! j) = IN_ORDER (request s ! i) (request s ! j)" for i j
      by (cases "i = r"; cases "j = r") (use assms(5) in \<open>simp_all add: IN_ORDER_def\<close>)
    then show ?case using Cons by simp
  qed simp
  obtain tmp where tmp: "insert_after ?rs r t = Some tmp"
    "req_chain (?rs[r := (?rs ! r)\<lparr>r_next := r_next (?rs ! tmp)\<rparr>, tmp := (?rs ! tmp)\<lparr>r_next := Some r\<rparr>]) (Some t) (t # l')"
    "tmp \<in> set (t # l)"
    using insert_after_chain [OF ch assms(2,4)] assms(5,6) q unfolding l'_def by auto
  define s' where "s' = upd_req tmp (\<lambda>q. q\<lparr>r_next := Some r\<rparr>) (upd_req r (\<lambda>q. q\<lparr>r_next := r_next (?rs ! tmp)\<rparr>)
     (upd_bh (r_bh (request s ! r)) (\<lambda>h. h\<lparr>b_dirt := 0\<rparr>) (upd_req r (\<lambda>q. q\<lparr>r_next := None\<rparr>) s)))"
  have ne: "tmp \<noteq> r" using tmp(3) assms(4) by auto
  have "add_request env major r s = Some (Inr s')"
    using cur tmp(1) assms(3,5,6) by (simp add: add_request_def Let_def s'_def)
  moreover have "request s' = ?rs[r := (?rs ! r)\<lparr>r_next := r_next (?rs ! tmp)\<rparr>, tmp := (?rs ! tmp)\<lparr>r_next := Some r\<rparr>]"
    "current_request s' = current_request s" "b_dirt (bhs s' (r_bh (request s ! r))) = 0"
    using ne by (simp_all add: s'_def)
  ultimately show ?thesis
    using tmp(2) cur mset_elevator elevator_sorted [of "\<lambda>i. request s ! i" t l r] unfolding l'_def by simp
qed

text \<open>A device that serves sector 10 and has sector 50 waiting; a request for sector 20 goes between them.\<close>

definition busy_disk :: fsys where
  "busy_disk = set_current 3 (Some 0)
     (upd_req 0 (\<lambda>q. q\<lparr>r_dev := 0x301, r_sector := 10, r_bh := 0x500, r_next := Some 1\<rparr>)
     (upd_req 1 (\<lambda>q. q\<lparr>r_dev := 0x301, r_sector := 50, r_bh := 0x600\<rparr>)
     (upd_req 2 (\<lambda>q. q\<lparr>r_dev := 0x301, r_sector := 20, r_bh := 0x700\<rparr>) fs0)))"

theorem add_request_elevator_witness:
  "\<exists>s'. add_request env0 3 2 busy_disk = Some (Inr s') \<and> req_chain (request s') (current_request s' ! 3) [0, 2, 1]"
proof -
  have rs: "request busy_disk ! 0 = \<lparr>r_dev = 0x301, r_cmd = 0, r_errors = 0, r_sector = 10, r_nr_sectors = 0,
      r_offset = 0, r_bh = 0x500, r_next = Some 1\<rparr>"
    "request busy_disk ! 1 = \<lparr>r_dev = 0x301, r_cmd = 0, r_errors = 0, r_sector = 50, r_nr_sectors = 0,
      r_offset = 0, r_bh = 0x600, r_next = None\<rparr>"
    "request busy_disk ! 2 = \<lparr>r_dev = 0x301, r_cmd = 0, r_errors = 0, r_sector = 20, r_nr_sectors = 0,
      r_offset = 0, r_bh = 0x700, r_next = None\<rparr>"
    "length (request busy_disk) = 32" "current_request busy_disk ! 3 = Some 0"
    by (simp_all add: busy_disk_def fs0_def)
  have ch: "req_chain (request busy_disk) (current_request busy_disk ! 3) (0 # [1])"
    using rs by simp
  have el: "elevator (\<lambda>i. request busy_disk ! i) 2 0 [1] = [2, 1]"
    using rs by (simp add: IN_ORDER_def word_sless_alt)
  show ?thesis
    using add_request_elevator [OF ch, of 2 env0] rs el by (auto simp: NR_BLK_DEV_def)
qed

end
