(* ===== verification/Buffer.thy ===== *)
theory Buffer
  imports Blk
begin

text \<open>
  The buffer cache, \<open>fs/buffer.c\<close>: the hash table of the blocks in memory, the circular list of all
  buffers in the order they are reused, finding a block, getting a buffer for it and reading it. The functions
  that write everything back (\<open>sys_sync\<close>, \<open>sync_dev\<close>) are with the i-nodes.

  A loop along a list of pointers is a partial function: on a list that never ends it does not return.
\<close>

definition NR_HASH :: nat where "NR_HASH = 307"
definition BLOCK_SIZE :: nat where "BLOCK_SIZE = 1024"

section \<open>The queues\<close>

definition hashfn :: "u32 \<Rightarrow> u32 \<Rightarrow> nat" where
  "hashfn dev block = unat (dev XOR block) mod NR_HASH"

definition hash_head :: "u32 \<Rightarrow> u32 \<Rightarrow> fsys \<Rightarrow> u32" where
  "hash_head dev block s = hash_table s ! hashfn dev block"

definition set_hash :: "u32 \<Rightarrow> u32 \<Rightarrow> u32 \<Rightarrow> fsys \<Rightarrow> fsys" where
  "set_hash dev block b s = s\<lparr>hash_table := (hash_table s)[hashfn dev block := b]\<rparr>"

text \<open>Both functions in two parts, the hash queue of the block and the free list.\<close>

definition unlink_hash :: "u32 \<Rightarrow> fsys \<Rightarrow> fsys" where
  "unlink_hash b s =
     (let s = (if b_next (bhs s b) \<noteq> 0
               then upd_bh (b_next (bhs s b)) (\<lambda>h. h\<lparr>b_prev := b_prev (bhs s b)\<rparr>) s else s);
          s = (if b_prev (bhs s b) \<noteq> 0
               then upd_bh (b_prev (bhs s b)) (\<lambda>h. h\<lparr>b_next := b_next (bhs s b)\<rparr>) s else s);
          dev = ucast (b_dev (bhs s b)); block = b_blocknr (bhs s b)
      in if hash_head dev block s = b then set_hash dev block (b_next (bhs s b)) s else s)"

definition unlink_free :: "u32 \<Rightarrow> fsys \<Rightarrow> fsys kres" where
  "unlink_free b s =
     (if b_prev_free (bhs s b) = 0 \<or> b_next_free (bhs s b) = 0 then Inl (Panic ''Free block list corrupted'')
      else
        let s = upd_bh (b_prev_free (bhs s b)) (\<lambda>h. h\<lparr>b_next_free := b_next_free (bhs s b)\<rparr>) s;
            s = upd_bh (b_next_free (bhs s b)) (\<lambda>h. h\<lparr>b_prev_free := b_prev_free (bhs s b)\<rparr>) s
        in Inr (if free_list s = b then s\<lparr>free_list := b_next_free (bhs s b)\<rparr> else s))"

definition remove_from_queues :: "u32 \<Rightarrow> fsys \<Rightarrow> fsys kres" where
  "remove_from_queues b s = unlink_free b (unlink_hash b s)"

definition link_free :: "u32 \<Rightarrow> fsys \<Rightarrow> fsys kres" where
  "link_free b s =
     (let s = upd_bh b (\<lambda>h. h\<lparr>b_next_free := free_list s\<rparr>) s in
      if free_list s = 0 then Inl NullDeref
      else
        let s = upd_bh b (\<lambda>h. h\<lparr>b_prev_free := b_prev_free (bhs s (free_list s))\<rparr>) s in
        if b_prev_free (bhs s (free_list s)) = 0 then Inl NullDeref
        else
          let s = upd_bh (b_prev_free (bhs s (free_list s))) (\<lambda>h. h\<lparr>b_next_free := b\<rparr>) s
          in Inr (upd_bh (free_list s) (\<lambda>h. h\<lparr>b_prev_free := b\<rparr>) s))"

definition link_hash :: "u32 \<Rightarrow> fsys \<Rightarrow> fsys" where
  "link_hash b s =
     (let s = upd_bh b (\<lambda>h. h\<lparr>b_prev := 0, b_next := 0\<rparr>) s in
      if b_dev (bhs s b) = 0 then s
      else
        let dev = ucast (b_dev (bhs s b)); block = b_blocknr (bhs s b);
            s = upd_bh b (\<lambda>h. h\<lparr>b_next := hash_head dev block s\<rparr>) s;
            s = set_hash dev block b s
        in if b_next (bhs s b) \<noteq> 0 then upd_bh (b_next (bhs s b)) (\<lambda>h. h\<lparr>b_prev := b\<rparr>) s else s)"

definition insert_into_queues :: "u32 \<Rightarrow> fsys \<Rightarrow> fsys kres" where
  "insert_into_queues b s = kbind (link_free b s) (\<lambda>s. Inr (link_hash b s))"

section \<open>Finding a block\<close>

definition holds_block :: "u32 \<Rightarrow> u32 \<Rightarrow> fsys \<Rightarrow> u32 \<Rightarrow> bool" where
  "holds_block dev block s b \<longleftrightarrow> ucast (b_dev (bhs s b)) = dev \<and> b_blocknr (bhs s b) = block"

partial_function (option) find_from :: "u32 \<Rightarrow> u32 \<Rightarrow> fsys \<Rightarrow> u32 \<Rightarrow> u32 option" where
  "find_from dev block s tmp =
     (if tmp = 0 \<or> holds_block dev block s tmp then Some tmp else find_from dev block s (b_next (bhs s tmp)))"

definition find_buffer :: "u32 \<Rightarrow> u32 \<Rightarrow> fsys \<Rightarrow> u32 option" where
  "find_buffer dev block s = find_from dev block s (hash_head dev block s)"

partial_function (option) get_hash_table :: "environment \<Rightarrow> u32 \<Rightarrow> u32 \<Rightarrow> fsys \<Rightarrow> (u32 \<times> fsys) kres option" where
  "get_hash_table env dev block s =
     (case find_buffer dev block s of None \<Rightarrow> None
      | Some b \<Rightarrow>
          if b = 0 then Some (Inr (0, s))
          else obind (wait_on_buffer env b (upd_bh b (\<lambda>h. h\<lparr>b_count := b_count h + 1\<rparr>) s)) (\<lambda>s.
            if holds_block dev block s b then Some (Inr (b, s))
            else get_hash_table env dev block (upd_bh b (\<lambda>h. h\<lparr>b_count := b_count h - 1\<rparr>) s)))"

section \<open>Getting a buffer\<close>

definition BADNESS :: "buffer_head \<Rightarrow> nat" where
  "BADNESS h = 2 * unat (b_dirt h) + unat (b_lock h)"

text \<open>The search through the free list: the best buffer found (or none), and where the search stopped.\<close>

partial_function (option) free_scan :: "fsys \<Rightarrow> u32 \<Rightarrow> u32 \<Rightarrow> (u32 \<times> u32) kres option" where
  "free_scan s tmp bh =
     (if tmp = 0 then Some (Inl NullDeref)
      else
        let better = (b_count (bhs s tmp) = 0 \<and> (bh = 0 \<or> BADNESS (bhs s tmp) < BADNESS (bhs s bh)));
            bh = (if better then tmp else bh)
        in if better \<and> BADNESS (bhs s tmp) = 0 then Some (Inr (bh, tmp))
           else if b_next_free (bhs s tmp) = free_list s then Some (Inr (bh, b_next_free (bhs s tmp)))
           else free_scan s (b_next_free (bhs s tmp)) bh)"

definition take_buffer :: "u32 \<Rightarrow> u32 \<Rightarrow> u32 \<Rightarrow> fsys \<Rightarrow> fsys kres" where
  "take_buffer dev block b s =
     kbind (remove_from_queues b (upd_bh b (\<lambda>h. h\<lparr>b_count := 1, b_dirt := 0, b_uptodate := 0\<rparr>) s)) (\<lambda>s.
     insert_into_queues b (upd_bh b (\<lambda>h. h\<lparr>b_dev := ucast dev, b_blocknr := block\<rparr>) s))"

text \<open>What is taken in the end is where the search stopped, not the buffer it found: they differ when no
  clean unlocked buffer is free.\<close>

partial_function (option) getblk :: "environment \<Rightarrow> u32 \<Rightarrow> u32 \<Rightarrow> fsys \<Rightarrow> (u32 \<times> fsys) kres option" where
  "getblk env dev block s =
     obind (get_hash_table env dev block s) (\<lambda>(bh, s).
     if bh \<noteq> 0 then Some (Inr (bh, s))
     else
       obind (free_scan s (free_list s) 0) (\<lambda>(bh, tmp).
       if bh = 0 then obind (sleep_fs env (buffer_wait s) s) (\<lambda>s. getblk env dev block s)
       else
         obind (wait_on_buffer env bh s) (\<lambda>s.
         if b_count (bhs s bh) \<noteq> 0 then getblk env dev block s
         else
           (case find_buffer dev block s of None \<Rightarrow> None
            | Some f \<Rightarrow> if f \<noteq> 0 then getblk env dev block s
                else obind (Some (take_buffer dev block tmp s)) (\<lambda>s. Some (Inr (tmp, s)))))))"

definition brelse :: "environment \<Rightarrow> u32 \<Rightarrow> fsys \<Rightarrow> fsys kres option" where
  "brelse env b s =
     (if b = 0 then Some (Inr s)
      else
        obind (wait_on_buffer env b s) (\<lambda>s.
        if b_count (bhs s b) = 0 then Some (Inl (Panic ''Trying to free free buffer''))
        else Some (Inr (wake_fs (buffer_wait s) (upd_bh b (\<lambda>h. h\<lparr>b_count := b_count h - 1\<rparr>) s)))))"

text \<open>The address of the buffer, or 0 when the block cannot be read.\<close>

definition bread :: "environment \<Rightarrow> u32 \<Rightarrow> u32 \<Rightarrow> fsys \<Rightarrow> (u32 \<times> fsys) kres option" where
  "bread env dev block s =
     obind (getblk env dev block s) (\<lambda>(b, s).
     if b = 0 then Some (Inl (Panic ''bread: getblk returned NULL''))
     else if b_uptodate (bhs s b) \<noteq> 0 then Some (Inr (b, s))
     else
       obind (ll_rw_block env READ b s) (\<lambda>s.
       obind (wait_on_buffer env b s) (\<lambda>s.
       if b_uptodate (bhs s b) \<noteq> 0 then Some (Inr (b, s))
       else obind (brelse env b s) (\<lambda>s. Some (Inr (0, s))))))"

section \<open>Reading a page\<close>

text \<open>The first loop asks for up to four blocks, none for a block number 0; the second waits for each and copies it.\<close>

fun read_ahead :: "environment \<Rightarrow> u32 \<Rightarrow> u32 list \<Rightarrow> fsys \<Rightarrow> (u32 list \<times> fsys) kres option" where
  "read_ahead env dev [] s = Some (Inr ([], s))"
| "read_ahead env dev (nr # nrs) s =
     obind (if nr = 0 then Some (Inr (0, s))
            else obind (getblk env dev nr s) (\<lambda>(b, s).
                 if b = 0 \<or> b_uptodate (bhs s b) \<noteq> 0 then Some (Inr (b, s))
                 else obind (ll_rw_block env READ b s) (\<lambda>s. Some (Inr (b, s))))) (\<lambda>(b, s).
     obind (read_ahead env dev nrs s) (\<lambda>(bs, s). Some (Inr (b # bs, s))))"

text \<open>\<open>COPYBLK\<close>: \<open>rep movsl\<close> of the kilobyte at \<open>b_data\<close>.\<close>

fun store_bytes :: "u8 list \<Rightarrow> u32 \<Rightarrow> bmem \<Rightarrow> bmem" where
  "store_bytes [] a m = m"
| "store_bytes (c # cs) a m = store_bytes cs (a + 1) (m(a := c))"

definition COPYBLK :: "u32 \<Rightarrow> u32 \<Rightarrow> fsys \<Rightarrow> fsys" where
  "COPYBLK b a s = s\<lparr>fm := (fm s)\<lparr>phys := store_bytes (take BLOCK_SIZE (b_data (bhs s b))) a (phys (fm s))\<rparr>\<rparr>"

fun copy_blocks :: "environment \<Rightarrow> u32 list \<Rightarrow> u32 \<Rightarrow> fsys \<Rightarrow> fsys kres option" where
  "copy_blocks env [] a s = Some (Inr s)"
| "copy_blocks env (b # bs) a s =
     obind (if b = 0 then Some (Inr s)
            else obind (wait_on_buffer env b s) (\<lambda>s.
                 brelse env b (if b_uptodate (bhs s b) \<noteq> 0 then COPYBLK b a s else s)))
       (copy_blocks env bs (a + of_nat BLOCK_SIZE))"

definition bread_page :: "environment \<Rightarrow> u32 \<Rightarrow> u32 \<Rightarrow> u32 list \<Rightarrow> fsys \<Rightarrow> fsys kres option" where
  "bread_page env address dev nrs s = obind (read_ahead env dev nrs s) (\<lambda>(bs, s). copy_blocks env bs address s)"

section \<open>Setting up the cache\<close>

text \<open>A buffer head has 36 bytes; \<open>b\<close> goes down from the end of the buffer memory in steps of a kilobyte, jumping
  over the video memory and the ROM, \<open>h\<close> goes up, until they meet (\<open>b\<close> stays above \<open>h\<close>, so that it does not wrap). The
  result lists the heads with their data.\<close>

function buffer_places :: "u32 \<Rightarrow> u32 \<Rightarrow> (u32 \<times> u32) list" where
  "buffer_places h b =
     (if b < 1024 \<or> b - 1024 < h + 36 \<or> h + 36 < h then []
      else (h, b - 1024) # buffer_places (h + 36) (if b - 1024 = 0x100000 then 0xA0000 else b - 1024))"
  by pat_completeness auto
termination
  by (relation "measure (\<lambda>(h, b). 2 ^ 32 - unat h)")
    (auto simp: word_less_nat_alt unat_plus_if' not_less split: if_splits intro!: diff_less_mono2)

declare buffer_places.simps [simp del]

definition init_head :: "u32 \<Rightarrow> u32 \<Rightarrow> fsys \<Rightarrow> fsys" where
  "init_head h b s =
     (upd_bh h (\<lambda>q. q\<lparr>b_dev := 0, b_dirt := 0, b_count := 0, b_lock := 0, b_uptodate := 0, b_next := 0, b_prev := 0,
        b_data := map (\<lambda>i. phys (fm s) (b + of_nat i)) [0..<BLOCK_SIZE], b_prev_free := h - 36, b_next_free := h + 36\<rparr>) s)
        \<lparr>fw := (fw s)\<lparr>wq := (wq (fw s))(b_wait h := 0)\<rparr>\<rparr>"

text \<open>With no room for a single buffer the code links the head before the first one.\<close>

definition buffer_init :: "u32 \<Rightarrow> u32 \<Rightarrow> fsys \<Rightarrow> fsys" where
  "buffer_init start buffer_end s =
     (let places = buffer_places start (if buffer_end = 0x100000 then 640 * 1024 else buffer_end);
          s = fold (\<lambda>(h, b). init_head h b) places s;
          h = start + 36 * of_nat (length places) - 36;
          s = s\<lparr>free_list := start\<rparr>;
          s = upd_bh (free_list s) (\<lambda>q. q\<lparr>b_prev_free := h\<rparr>) s;
          s = upd_bh h (\<lambda>q. q\<lparr>b_next_free := free_list s\<rparr>) s
      in s\<lparr>buffers := map fst places, hash_table := replicate NR_HASH 0\<rparr>)"

section \<open>Linked lists\<close>

text \<open>\<open>links nf pf x us y\<close>: the fields \<open>nf\<close> lead from \<open>x\<close> over \<open>us\<close> to \<open>y\<close>, the fields \<open>pf\<close> back. A ring leads from
  its first element to itself. \<open>hchain\<close> is a list that ends in \<open>0\<close>, with the predecessor of its head.\<close>

fun links :: "(u32 \<Rightarrow> u32) \<Rightarrow> (u32 \<Rightarrow> u32) \<Rightarrow> u32 \<Rightarrow> u32 list \<Rightarrow> u32 \<Rightarrow> bool" where
  "links nf pf x [] y \<longleftrightarrow> nf x = y \<and> pf y = x"
| "links nf pf x (u # us) y \<longleftrightarrow> nf x = u \<and> pf u = x \<and> links nf pf u us y"

fun hchain :: "(u32 \<Rightarrow> u32) \<Rightarrow> (u32 \<Rightarrow> u32) \<Rightarrow> u32 \<Rightarrow> u32 \<Rightarrow> u32 list \<Rightarrow> bool" where
  "hchain nx pv p h [] \<longleftrightarrow> h = 0"
| "hchain nx pv p h (c # cs) \<longleftrightarrow> h = c \<and> c \<noteq> 0 \<and> pv c = p \<and> hchain nx pv c (nx c) cs"

lemma links_append: "links nf pf x (us @ z # vs) y \<longleftrightarrow> links nf pf x us z \<and> links nf pf z vs y"
  by (induction us arbitrary: x) auto

lemma links_frame:
  "(\<And>u. u \<in> set (x # us) \<Longrightarrow> nf' u = nf u) \<Longrightarrow> (\<And>u. u \<in> set (us @ [y]) \<Longrightarrow> pf' u = pf u) \<Longrightarrow>
     links nf' pf' x us y = links nf pf x us y"
  by (induction us arbitrary: x) auto

lemma links_ends: "links nf pf x us y \<Longrightarrow> pf y = last (x # us) \<and> nf x = hd (us @ [y])"
  by (induction us arbitrary: x) auto

lemma links_remove:
  assumes "links nf pf x us b" "links nf pf b vs y" "distinct (x # us @ b # vs)" "y \<notin> set (us @ b # vs)"
    and nf': "\<And>u. nf' u = (if u = pf b then nf b else nf u)" and pf': "\<And>u. pf' u = (if u = nf b then pf b else pf u)"
  shows "links nf' pf' x (us @ vs) y"
  using assms(1-4)
proof (induction us arbitrary: x)
  case Nil
  show ?case
  proof (cases vs)
    case (Cons v vs')
    then have "links nf' pf' v vs' y = links nf pf v vs' y"
      using Nil.prems by (intro links_frame) (auto simp: nf' pf')
    then show ?thesis using Nil.prems Cons by (auto simp: nf' [of x] pf' [of v])
  qed (use Nil.prems in \<open>auto simp: nf' [of x] pf' [of y]\<close>)
next
  case (Cons u us)
  have "links nf' pf' u (us @ vs) y" using Cons by auto
  moreover have "pf b \<noteq> x"
  proof -
    have "pf b = last (u # us)" using links_ends [of nf pf u us b] Cons.prems by auto
    then have "pf b \<in> set (u # us)" by (metis last_in_set list.distinct(1))
    then show ?thesis using Cons.prems by auto
  qed
  moreover have "nf b \<noteq> u" using links_ends [of nf pf b vs y] Cons.prems by (cases vs) auto
  ultimately show ?case using Cons.prems by (auto simp: nf' [of x] pf' [of u])
qed

lemma links_insert:
  assumes "links nf pf x us y" "distinct (x # us)" "y \<notin> set us" "b \<notin> set (x # us)" "b \<noteq> y"
    and nf': "\<And>u. nf' u = (if u = pf y then b else if u = b then y else nf u)"
    and pf': "\<And>u. pf' u = (if u = y then b else if u = b then pf y else pf u)"
  shows "links nf' pf' x (us @ [b]) y"
  using assms(1-5)
proof (induction us arbitrary: x)
  case Nil
  then show ?case by (auto simp: nf' [of x] nf' [of b] pf' [of y] pf' [of b])
next
  case (Cons u us)
  have "links nf' pf' u (us @ [b]) y" using Cons by auto
  moreover have "pf y \<noteq> x"
  proof -
    have "pf y = last (u # us)" using links_ends [of nf pf u us y] Cons.prems by auto
    then have "pf y \<in> set (u # us)" by (metis last_in_set list.distinct(1))
    then show ?thesis using Cons.prems by auto
  qed
  ultimately show ?case using Cons.prems by (auto simp: nf' [of x] pf' [of u])
qed

lemma links_rotate: "links nf pf x (us @ z # vs) x \<longleftrightarrow> links nf pf z (vs @ x # us) z"
  by (auto simp: links_append)

lemma hchain_frame:
  "(\<And>c. c \<in> set cs \<Longrightarrow> nx' c = nx c \<and> pv' c = pv c) \<Longrightarrow> hchain nx' pv' p h cs = hchain nx pv p h cs"
  by (induction cs arbitrary: p h) auto

lemma hchain_unique: "hchain nx pv p h cs \<Longrightarrow> hchain nx pv p' h cs' \<Longrightarrow> cs = cs'"
proof (induction cs arbitrary: p p' h cs')
  case Nil then show ?case by (cases cs') auto
next
  case (Cons c cs) then show ?case by (cases cs') auto
qed

lemma hchain_head: "hchain nx pv p h cs \<Longrightarrow> h = (if cs = [] then 0 else hd cs)"
  by (cases cs) auto

lemma hchain_prev: "hchain nx pv p h (us @ b # vs) \<Longrightarrow> pv b = (if us = [] then p else last us)"
  by (induction us arbitrary: p h) auto

lemma hchain_tail: "hchain nx pv p h (us @ b # vs) \<Longrightarrow> hchain nx pv b (nx b) vs"
  by (induction us arbitrary: p h) auto

text \<open>Taking \<open>b\<close> out of its chain, and putting it in front.\<close>

lemma hchain_remove:
  assumes "hchain nx pv p h (us @ b # vs)" "distinct (us @ b # vs)" "p \<notin> set (us @ b # vs)" "us = [] \<longrightarrow> p = 0"
    and nx': "\<And>u. nx' u = (if u = pv b \<and> u \<noteq> 0 then nx b else nx u)"
    and pv': "\<And>u. pv' u = (if u = nx b \<and> u \<noteq> 0 then pv b else pv u)"
  shows "hchain nx' pv' p (if h = b then nx b else h) (us @ vs)"
  using assms(1-4)
proof (induction us arbitrary: p h)
  case Nil
  have pv: "pv b = 0" using Nil by auto
  show ?case
  proof (cases vs)
    case (Cons v vs')
    then have "hchain nx' pv' v (nx v) vs' = hchain nx pv v (nx v) vs'"
      using Nil.prems by (intro hchain_frame) (auto simp: nx' pv' pv)
    then show ?thesis using Nil.prems Cons by (auto simp: nx' [of v] pv' [of v] pv)
  qed (use Nil.prems in auto)
next
  case (Cons u us)
  have h: "h = u" "u \<noteq> 0" "u \<noteq> b" "pv u = p" and ch: "hchain nx pv u (nx u) (us @ b # vs)" using Cons.prems by auto
  have nb: "nx b \<noteq> u" 
  proof -
    have "hchain nx pv b (nx b) vs" using ch by (induction us arbitrary: u) auto
    then show ?thesis using hchain_head [of nx pv b "nx b" vs] Cons.prems(2) h(2) by (cases vs) auto
  qed
  show ?case
  proof (cases us)
    case Nil
    have b: "nx u = b" "pv b = u" "hchain nx pv b (nx b) vs" using ch Nil by auto
    have "hchain nx' pv' u (nx b) vs"
    proof (cases vs)
      case (Cons v vs')
      then have "hchain nx' pv' v (nx v) vs' = hchain nx pv v (nx v) vs'"
        using Cons.prems b by (intro hchain_frame) (auto simp: nx' pv')
      then show ?thesis using b Cons Cons.prems h by (auto simp: nx' [of v] pv' [of v])
    qed (use b in auto)
    then show ?thesis using Nil h b nb by (auto simp: nx' [of u] pv' [of u])
  next
    case (Cons w ws)
    have "hchain nx' pv' u (if nx u = b then nx b else nx u) (us @ vs)"
      using Cons.IH [OF ch] Cons.prems Cons by auto
    moreover have "nx u \<noteq> b" using ch Cons Cons.prems by auto
    moreover have "pv b \<noteq> u"
    proof -
      have "pv b \<in> set us" using hchain_prev [OF ch] Cons by (metis last_in_set list.distinct(1))
      then show ?thesis using Cons.prems(2) by auto
    qed
    ultimately show ?thesis using h nb by (auto simp: nx' [of u] pv' [of u])
  qed
qed

section \<open>The effect on the links\<close>

text \<open>A buffer head without its links.\<close>

definition core :: "buffer_head \<Rightarrow> buffer_head" where
  "core h = h\<lparr>b_prev := 0, b_next := 0, b_prev_free := 0, b_next_free := 0\<rparr>"

lemma core_simps [simp]:
  "core (h\<lparr>b_prev := x\<rparr>) = core h" "core (h\<lparr>b_next := x\<rparr>) = core h"
  "core (h\<lparr>b_prev_free := x\<rparr>) = core h" "core (h\<lparr>b_next_free := x\<rparr>) = core h"
  by (simp_all add: core_def)

lemma core_fields:
  "core h = core h' \<Longrightarrow> b_dev h = b_dev h' \<and> b_blocknr h = b_blocknr h' \<and> b_count h = b_count h' \<and> b_dirt h = b_dirt h' \<and>
     b_lock h = b_lock h' \<and> b_uptodate h = b_uptodate h' \<and> b_data h = b_data h'"
  by (cases h; cases h') (simp add: core_def)

lemma core_dev: "core h = core h' \<Longrightarrow> core (h\<lparr>b_dev := d, b_blocknr := n\<rparr>) = core (h'\<lparr>b_dev := d, b_blocknr := n\<rparr>)"
  by (cases h; cases h') (simp add: core_def)

text \<open>Everything but the cache.\<close>

definition rest :: "fsys \<Rightarrow> fsys" where
  "rest s = s\<lparr>bhs := \<lambda>_. buffer0, hash_table := [], free_list := 0\<rparr>"

lemma rest_upd [simp]:
  "rest (upd_bh b f s) = rest s" "rest (set_hash dev block b s) = rest s" "rest (s\<lparr>free_list := p\<rparr>) = rest s"
  by (simp_all add: rest_def upd_bh_def set_hash_def)

lemma rest_fields:
  assumes "rest s' = rest s"
  shows "fw s' = fw s" "fm s' = fm s" "fu s' = fu s" "fverified s' = fverified s" "buffers s' = buffers s"
    "buffer_wait s' = buffer_wait s" "request s' = request s" "current_request s' = current_request s"
    "wait_for_request s' = wait_for_request s" "hd_fn s' = hd_fn s" "hd_info s' = hd_info s" "hd_parts s' = hd_parts s"
    "nr_hd s' = nr_hd s" "hd_log s' = hd_log s" "hd_status s' = hd_status s" "hd_reads s' = hd_reads s"
    "hd_words s' = hd_words s" "hd_sectors s' = hd_sectors s" "inodes s' = inodes s" "inode_table s' = inode_table s"
    "last_inode s' = last_inode s" "sb s' = sb s" "files s' = files s" "file_table s' = file_table s" "root_dev s' = root_dev s"
  using assms by (cases s; cases s'; simp add: rest_def)+

lemma take_buffer_rest: "take_buffer dev block b s = Inr s' \<Longrightarrow> rest s' = rest s"
proof -
  have h: "rest (unlink_hash b s) = rest s" "rest (link_hash b s) = rest s" for s
    by (simp_all add: unlink_hash_def link_hash_def Let_def)
  have f: "unlink_free b s = Inr s' \<Longrightarrow> rest s' = rest s" for s s'
    by (drule arg_cong [of _ _ "\<lambda>r. case r of Inl _ \<Rightarrow> rest s | Inr s' \<Rightarrow> rest s'"]) (simp add: unlink_free_def Let_def split: if_splits)
  have g: "link_free b s = Inr s' \<Longrightarrow> rest s' = rest s" for s s'
    by (drule arg_cong [of _ _ "\<lambda>r. case r of Inl _ \<Rightarrow> rest s | Inr s' \<Rightarrow> rest s'"]) (simp add: link_free_def Let_def split: if_splits)
  assume "take_buffer dev block b s = Inr s'"
  then obtain s1 s2 where "unlink_free b (unlink_hash b (upd_bh b (\<lambda>h. h\<lparr>b_count := 1, b_dirt := 0, b_uptodate := 0\<rparr>) s)) = Inr s1"
    "link_free b (upd_bh b (\<lambda>h. h\<lparr>b_dev := ucast dev, b_blocknr := block\<rparr>) s1) = Inr s2" "s' = link_hash b s2"
    by (auto simp: take_buffer_def remove_from_queues_def insert_into_queues_def kbind_eq_Inr)
  then show ?thesis using f [of "unlink_hash b _" s1] g [of _ s2] h by simp
qed

definition slot :: "buffer_head \<Rightarrow> nat" where
  "slot h = hashfn (ucast (b_dev h)) (b_blocknr h)"

lemma unlink_hash_effect:
  assumes "b_next (bhs s b) \<noteq> b" "b_prev (bhs s b) \<noteq> b"
  shows "b_next (bhs (unlink_hash b s) u) = (if u = b_prev (bhs s b) \<and> u \<noteq> 0 then b_next (bhs s b) else b_next (bhs s u))"
    "b_prev (bhs (unlink_hash b s) u) = (if u = b_next (bhs s b) \<and> u \<noteq> 0 then b_prev (bhs s b) else b_prev (bhs s u))"
    "b_prev_free (bhs (unlink_hash b s) u) = b_prev_free (bhs s u)"
    "b_next_free (bhs (unlink_hash b s) u) = b_next_free (bhs s u)"
    "core (bhs (unlink_hash b s) u) = core (bhs s u)"
    "hash_table (unlink_hash b s) = (if hash_table s ! slot (bhs s b) = b
       then (hash_table s)[slot (bhs s b) := b_next (bhs s b)] else hash_table s)"
    "free_list (unlink_hash b s) = free_list s" "buffers (unlink_hash b s) = buffers s" "fw (unlink_hash b s) = fw s"
  using assms by (simp_all add: unlink_hash_def set_hash_def hash_head_def slot_def Let_def)

lemma unlink_free_effect:
  assumes "b_prev_free (bhs s b) \<notin> {0, b}" "b_next_free (bhs s b) \<notin> {0, b}"
  obtains s' where "unlink_free b s = Inr s'"
    "\<And>u. b_next_free (bhs s' u) = (if u = b_prev_free (bhs s b) then b_next_free (bhs s b) else b_next_free (bhs s u))"
    "\<And>u. b_prev_free (bhs s' u) = (if u = b_next_free (bhs s b) then b_prev_free (bhs s b) else b_prev_free (bhs s u))"
    "\<And>u. b_next (bhs s' u) = b_next (bhs s u)" "\<And>u. b_prev (bhs s' u) = b_prev (bhs s u)"
    "\<And>u. core (bhs s' u) = core (bhs s u)" "hash_table s' = hash_table s"
    "free_list s' = (if free_list s = b then b_next_free (bhs s b) else free_list s)" "buffers s' = buffers s" "fw s' = fw s"
  by (rule that [of "projr (unlink_free b s)"]) (use assms in \<open>simp_all add: unlink_free_def Let_def\<close>)

lemma link_free_effect:
  assumes "free_list s \<notin> {0, b}" "b_prev_free (bhs s (free_list s)) \<notin> {0, b}"
  obtains s' where "link_free b s = Inr s'"
    "\<And>u. b_next_free (bhs s' u) = (if u = b_prev_free (bhs s (free_list s)) then b else if u = b then free_list s
       else b_next_free (bhs s u))"
    "\<And>u. b_prev_free (bhs s' u) = (if u = free_list s then b else if u = b then b_prev_free (bhs s (free_list s))
       else b_prev_free (bhs s u))"
    "\<And>u. b_next (bhs s' u) = b_next (bhs s u)" "\<And>u. b_prev (bhs s' u) = b_prev (bhs s u)"
    "\<And>u. core (bhs s' u) = core (bhs s u)" "hash_table s' = hash_table s" "free_list s' = free_list s"
    "buffers s' = buffers s" "fw s' = fw s"
  by (rule that [of "projr (link_free b s)"]) (use assms in \<open>simp_all add: link_free_def Let_def\<close>)

lemma link_hash_effect:
  assumes "b_dev (bhs s b) \<noteq> 0" "hash_table s ! slot (bhs s b) \<noteq> b"
  defines "h \<equiv> hash_table s ! slot (bhs s b)"
  shows "b_next (bhs (link_hash b s) u) = (if u = b then h else b_next (bhs s u))"
    "b_prev (bhs (link_hash b s) u) = (if u = b then 0 else if u = h \<and> u \<noteq> 0 then b else b_prev (bhs s u))"
    "b_prev_free (bhs (link_hash b s) u) = b_prev_free (bhs s u)"
    "b_next_free (bhs (link_hash b s) u) = b_next_free (bhs s u)"
    "core (bhs (link_hash b s) u) = core (bhs s u)"
    "hash_table (link_hash b s) = (hash_table s)[slot (bhs s b) := b]"
    "free_list (link_hash b s) = free_list s" "buffers (link_hash b s) = buffers s" "fw (link_hash b s) = fw s"
  using assms by (simp_all add: link_hash_def set_hash_def hash_head_def slot_def Let_def)

section \<open>The invariant of the cache\<close>

definition free_ring :: "fsys \<Rightarrow> u32 list \<Rightarrow> bool" where
  "free_ring s xs \<longleftrightarrow> xs \<noteq> [] \<and> free_list s = hd xs \<and>
     links (\<lambda>u. b_next_free (bhs s u)) (\<lambda>u. b_prev_free (bhs s u)) (hd xs) (tl xs) (hd xs)"

definition hash_queue :: "fsys \<Rightarrow> u32 set \<Rightarrow> nat \<Rightarrow> u32 list \<Rightarrow> bool" where
  "hash_queue s A i cs \<longleftrightarrow> hchain (\<lambda>u. b_next (bhs s u)) (\<lambda>u. b_prev (bhs s u)) 0 (hash_table s ! i) cs \<and>
     distinct cs \<and> set cs = {c \<in> A. b_dev (bhs s c) \<noteq> 0 \<and> slot (bhs s c) = i}"

definition hash_ok :: "fsys \<Rightarrow> u32 set \<Rightarrow> bool" where
  "hash_ok s A \<longleftrightarrow> 0 \<notin> A \<and> length (hash_table s) = NR_HASH \<and> (\<forall>i<NR_HASH. \<exists>cs. hash_queue s A i cs) \<and>
     (\<forall>c\<in>A. b_dev (bhs s c) = 0 \<longrightarrow> b_next (bhs s c) = 0 \<and> b_prev (bhs s c) = 0)"

text \<open>The whole: the free list is a ring through all buffers, every hash queue holds the blocks with its number and
  nothing else, and no block is held twice.\<close>

definition cache_ok :: "fsys \<Rightarrow> u32 list \<Rightarrow> bool" where
  "cache_ok s xs \<longleftrightarrow> distinct xs \<and> 0 \<notin> set xs \<and> 2 \<le> length xs \<and> set xs = set (buffers s) \<and> free_ring s xs \<and>
     hash_ok s (set xs) \<and>
     (\<forall>b\<in>set xs. \<forall>c\<in>set xs. b_dev (bhs s b) \<noteq> 0 \<and> b_dev (bhs s b) = b_dev (bhs s c) \<and>
        b_blocknr (bhs s b) = b_blocknr (bhs s c) \<longrightarrow> b = c)"

lemma slot_less [simp]: "slot h < NR_HASH"
  by (simp add: slot_def hashfn_def NR_HASH_def)

lemma slot_core: "core h = core h' \<Longrightarrow> slot h = slot h'"
  using core_fields [of h h'] by (simp add: slot_def)

lemma free_ring_ends:
  assumes "free_ring s (us @ b # vs)" "distinct (us @ b # vs)" "us @ vs \<noteq> []"
  shows "b_next_free (bhs s b) \<in> set (us @ vs)" "b_prev_free (bhs s b) \<in> set (us @ vs)"
proof -
  let ?l = "links (\<lambda>u. b_next_free (bhs s u)) (\<lambda>u. b_prev_free (bhs s u))"
  obtain x ws where x: "?l b ws b" "set ws = set (us @ vs)"
  proof (cases us)
    case Nil
    then show ?thesis using assms(1) that [of vs] by (auto simp: free_ring_def)
  next
    case (Cons x us')
    then have "?l b (vs @ x # us') b" using assms(1) links_rotate by (auto simp: free_ring_def)
    then show ?thesis using that [of "vs @ x # us'"] Cons by auto
  qed
  then have ne: "ws \<noteq> []" using assms(3) by auto
  have "b_next_free (bhs s b) = hd ws" "b_prev_free (bhs s b) = last ws" using links_ends [OF x(1)] ne by auto
  then show "b_next_free (bhs s b) \<in> set (us @ vs)" "b_prev_free (bhs s b) \<in> set (us @ vs)"
    unfolding x(2) [symmetric] using ne by (simp_all del: set_append)
qed

lemma free_ring_unlink:
  assumes "free_ring s (us @ b # vs)" "distinct (us @ b # vs)" "us @ vs \<noteq> []"
    "\<And>u. b_next_free (bhs s' u) = (if u = b_prev_free (bhs s b) then b_next_free (bhs s b) else b_next_free (bhs s u))"
    "\<And>u. b_prev_free (bhs s' u) = (if u = b_next_free (bhs s b) then b_prev_free (bhs s b) else b_prev_free (bhs s u))"
    "free_list s' = (if free_list s = b then b_next_free (bhs s b) else free_list s)"
  shows "free_ring s' (us @ vs)"
proof (cases us)
  case Nil
  then obtain v vs' where vs: "vs = v # vs'" using assms(3) by (cases vs) auto
  have l: "b_next_free (bhs s b) = v" "b_prev_free (bhs s v) = b"
    "links (\<lambda>u. b_next_free (bhs s u)) (\<lambda>u. b_prev_free (bhs s u)) v vs' b" "free_list s = b"
    using assms(1) Nil vs by (auto simp: free_ring_def)
  have "links (\<lambda>u. b_next_free (bhs s' u)) (\<lambda>u. b_prev_free (bhs s' u)) v (vs' @ []) v"
    by (rule links_remove [OF l(3)]) (use l assms(2,4,5) Nil vs in auto)
  then show ?thesis using Nil vs assms(6) l by (simp add: free_ring_def)
next
  case (Cons x us')
  then have l: "links (\<lambda>u. b_next_free (bhs s u)) (\<lambda>u. b_prev_free (bhs s u)) x us' b"
    "links (\<lambda>u. b_next_free (bhs s u)) (\<lambda>u. b_prev_free (bhs s u)) b vs x" "free_list s = x" "x \<noteq> b"
    using assms(1,2) by (auto simp: free_ring_def links_append)
  have "links (\<lambda>u. b_next_free (bhs s' u)) (\<lambda>u. b_prev_free (bhs s' u)) x (us' @ vs) x"
    by (rule links_remove [OF l(1,2)]) (use assms(2,4,5) Cons in auto)
  then show ?thesis using Cons assms(6) l by (simp add: free_ring_def)
qed

lemma free_ring_link:
  assumes "free_ring s xs" "distinct xs" "b \<notin> set xs"
    "\<And>u. b_next_free (bhs s' u) = (if u = b_prev_free (bhs s (free_list s)) then b else if u = b then free_list s
       else b_next_free (bhs s u))"
    "\<And>u. b_prev_free (bhs s' u) = (if u = free_list s then b else if u = b then b_prev_free (bhs s (free_list s))
       else b_prev_free (bhs s u))"
    "free_list s' = free_list s"
  shows "free_ring s' (xs @ [b])"
proof -
  obtain x us where x: "xs = x # us" "free_list s = x" using assms(1) by (cases xs) (auto simp: free_ring_def)
  have "links (\<lambda>u. b_next_free (bhs s' u)) (\<lambda>u. b_prev_free (bhs s' u)) x (us @ [b]) x"
    by (rule links_insert [where nf = "\<lambda>u. b_next_free (bhs s u)" and pf = "\<lambda>u. b_prev_free (bhs s u)"])
      (use assms x in \<open>auto simp: free_ring_def\<close>)
  then show ?thesis using x assms(6) by (simp add: free_ring_def)
qed

lemma hash_ok_cong:
  assumes "\<And>c. c \<in> A \<Longrightarrow> b_next (bhs s' c) = b_next (bhs s c) \<and> b_prev (bhs s' c) = b_prev (bhs s c) \<and>
      b_dev (bhs s' c) = b_dev (bhs s c) \<and> b_blocknr (bhs s' c) = b_blocknr (bhs s c)"
    "hash_table s' = hash_table s"
  shows "hash_ok s' A = hash_ok s A"
proof -
  have "hash_queue s' A i cs = hash_queue s A i cs" for i cs
  proof -
    have set: "{c \<in> A. b_dev (bhs s' c) \<noteq> 0 \<and> slot (bhs s' c) = i} = {c \<in> A. b_dev (bhs s c) \<noteq> 0 \<and> slot (bhs s c) = i}"
      using assms(1) by (auto simp: slot_def)
    show ?thesis
    proof (cases "set cs \<subseteq> A")
      case True
      then have "hchain (\<lambda>u. b_next (bhs s' u)) (\<lambda>u. b_prev (bhs s' u)) 0 (hash_table s ! i) cs =
          hchain (\<lambda>u. b_next (bhs s u)) (\<lambda>u. b_prev (bhs s u)) 0 (hash_table s ! i) cs"
        using assms(1) by (intro hchain_frame) auto
      then show ?thesis by (simp add: hash_queue_def set assms(2))
    next
      case False
      then show ?thesis by (auto simp: hash_queue_def set)
    qed
  qed
  then show ?thesis using assms by (simp add: hash_ok_def)
qed

lemma hash_ok_links:
  assumes "hash_ok s A" "b \<in> A"
  obtains "b_dev (bhs s b) = 0" "b_next (bhs s b) = 0" "b_prev (bhs s b) = 0" "hash_table s ! slot (bhs s b) \<noteq> b"
  | us vs where "b_dev (bhs s b) \<noteq> 0" "hash_queue s A (slot (bhs s b)) (us @ b # vs)"
      "b_prev (bhs s b) = (if us = [] then 0 else last us)" "b_next (bhs s b) = (if vs = [] then 0 else hd vs)"
proof -
  obtain cs where cs: "hash_queue s A (slot (bhs s b)) cs" using assms(1) slot_less unfolding hash_ok_def by blast
  have b0: "b \<noteq> 0" using assms by (auto simp: hash_ok_def)
  have ch: "hchain (\<lambda>u. b_next (bhs s u)) (\<lambda>u. b_prev (bhs s u)) 0 (hash_table s ! slot (bhs s b)) cs"
    using cs by (simp add: hash_queue_def)
  show ?thesis
  proof (cases "b_dev (bhs s b) = 0")
    case True
    then have "b \<notin> set cs" using cs by (auto simp: hash_queue_def)
    then have "hash_table s ! slot (bhs s b) \<noteq> b" using hchain_head [OF ch] b0 by (auto split: if_splits)
    then show ?thesis using that(1) True assms by (auto simp: hash_ok_def)
  next
    case False
    then have "b \<in> set cs" using cs assms(2) by (auto simp: hash_queue_def)
    then obtain us vs where e: "cs = us @ b # vs" by (metis split_list)
    have "hchain (\<lambda>u. b_next (bhs s u)) (\<lambda>u. b_prev (bhs s u)) b (b_next (bhs s b)) vs"
      using hchain_tail [OF ch [unfolded e]] .
    then show ?thesis using that(2) [of us vs] False cs e hchain_prev [OF ch [unfolded e]] hchain_head by fastforce
  qed
qed

lemma hash_ok_unlink:
  assumes ok: "hash_ok s A" and b: "b \<in> A"
  shows "hash_ok (unlink_hash b s) (A - {b})" "b_next (bhs s b) \<noteq> b" "b_prev (bhs s b) \<noteq> b"
proof -
  have b0: "b \<noteq> 0" "0 \<notin> A" using assms by (auto simp: hash_ok_def)
  consider (free) "b_dev (bhs s b) = 0" "b_next (bhs s b) = 0" "b_prev (bhs s b) = 0" "hash_table s ! slot (bhs s b) \<noteq> b"
  | (used) us vs where "b_dev (bhs s b) \<noteq> 0" "hash_queue s A (slot (bhs s b)) (us @ b # vs)"
      "b_prev (bhs s b) = (if us = [] then 0 else last us)" "b_next (bhs s b) = (if vs = [] then 0 else hd vs)"
    using hash_ok_links [OF assms] by metis
  then have "hash_ok (unlink_hash b s) (A - {b}) \<and> b_next (bhs s b) \<noteq> b \<and> b_prev (bhs s b) \<noteq> b"
  proof cases
    case free
    then have ne: "b_next (bhs s b) \<noteq> b" "b_prev (bhs s b) \<noteq> b" using b0 by auto
    note e = unlink_hash_effect [OF ne]
    have "hash_ok (unlink_hash b s) A = hash_ok s A"
      by (rule hash_ok_cong) (use e free core_fields [OF e(5)] in auto)
    moreover have "hash_queue (unlink_hash b s) (A - {b}) i = hash_queue (unlink_hash b s) A i" for i
      using free core_fields [OF e(5), of b] by (auto simp: hash_queue_def fun_eq_iff)
    ultimately show ?thesis using ok ne by (simp add: hash_ok_def)
  next
    case (used us vs)
    have q: "hchain (\<lambda>u. b_next (bhs s u)) (\<lambda>u. b_prev (bhs s u)) 0 (hash_table s ! slot (bhs s b)) (us @ b # vs)"
      "distinct (us @ b # vs)" "set (us @ b # vs) = {c \<in> A. b_dev (bhs s c) \<noteq> 0 \<and> slot (bhs s c) = slot (bhs s b)}"
      using used(2) by (auto simp: hash_queue_def)
    have p: "b_prev (bhs s b) \<in> insert 0 (set us)" "b_next (bhs s b) \<in> insert 0 (set vs)"
      using used(3,4) by auto
    have ne: "b_next (bhs s b) \<noteq> b" "b_prev (bhs s b) \<noteq> b" using p q(2) b0 by auto
    note e = unlink_hash_effect [OF ne]
    note c = core_fields [OF e(5)] slot_core [OF e(5)]
    have "\<exists>cs. hash_queue (unlink_hash b s) (A - {b}) i cs" if i: "i < NR_HASH" for i
    proof (cases "i = slot (bhs s b)")
      case True
      have "hchain (\<lambda>u. b_next (bhs (unlink_hash b s) u)) (\<lambda>u. b_prev (bhs (unlink_hash b s) u)) 0
          (if hash_table s ! i = b then b_next (bhs s b) else hash_table s ! i) (us @ vs)"
        by (rule hchain_remove) (use q True b0 e(1,2) in auto)
      moreover have "hash_table (unlink_hash b s) ! i = (if hash_table s ! i = b then b_next (bhs s b) else hash_table s ! i)"
        using e(6) True i ok by (simp add: hash_ok_def)
      ultimately have "hash_queue (unlink_hash b s) (A - {b}) i (us @ vs)"
        using q c True by (auto simp: hash_queue_def)
      then show ?thesis by blast
    next
      case False
      obtain cs where cs: "hash_queue s A i cs" using ok i by (auto simp: hash_ok_def)
      have out: "x \<notin> set cs" if "x \<in> set (us @ b # vs) \<or> x = 0" for x
        using that q(3) cs False b0 by (auto simp: hash_queue_def)
      have "hchain (\<lambda>u. b_next (bhs (unlink_hash b s) u)) (\<lambda>u. b_prev (bhs (unlink_hash b s) u)) 0 (hash_table s ! i) cs
         = hchain (\<lambda>u. b_next (bhs s u)) (\<lambda>u. b_prev (bhs s u)) 0 (hash_table s ! i) cs"
        by (rule hchain_frame) (use e(1,2) out p in auto)
      moreover have "hash_table (unlink_hash b s) ! i = hash_table s ! i" using e(6) False by auto
      moreover have "b \<notin> set cs" using out [of b] by simp
      ultimately have "hash_queue (unlink_hash b s) (A - {b}) i cs" using cs c by (auto simp: hash_queue_def)
      then show ?thesis by blast
    qed
    moreover have "b_next (bhs (unlink_hash b s) x) = 0 \<and> b_prev (bhs (unlink_hash b s) x) = 0"
      if x: "x \<in> A" "b_dev (bhs (unlink_hash b s) x) = 0" for x
    proof -
      have "x \<noteq> b_prev (bhs s b)" "x \<noteq> b_next (bhs s b)" using x c p q(3) b0 by auto
      then show ?thesis using x c e(1,2) ok by (auto simp: hash_ok_def)
    qed
    ultimately show ?thesis using ne ok e(6) by (auto simp: hash_ok_def)
  qed
  then show "hash_ok (unlink_hash b s) (A - {b})" "b_next (bhs s b) \<noteq> b" "b_prev (bhs s b) \<noteq> b" by auto
qed

lemma hash_ok_link:
  assumes ok: "hash_ok s A" and b: "b \<notin> A" "b \<noteq> 0" "b_dev (bhs s b) \<noteq> 0"
  shows "hash_ok (link_hash b s) (insert b A)" "hash_table s ! slot (bhs s b) \<noteq> b"
proof -
  obtain cs where cs: "hash_queue s A (slot (bhs s b)) cs" using ok slot_less unfolding hash_ok_def by blast
  have hd: "hash_table s ! slot (bhs s b) = (if cs = [] then 0 else hd cs)"
    using hchain_head [OF conjunct1 [OF cs [unfolded hash_queue_def]]] .
  have q: "hchain (\<lambda>u. b_next (bhs s u)) (\<lambda>u. b_prev (bhs s u)) 0 (hash_table s ! slot (bhs s b)) cs" "distinct cs"
    using cs by (simp_all add: hash_queue_def)
  have csA: "set cs \<subseteq> A" "0 \<notin> A" using cs ok by (auto simp: hash_queue_def hash_ok_def)
  then show ne: "hash_table s ! slot (bhs s b) \<noteq> b" using hd b by (metis list.set_sel(1) subsetD)
  note e = link_hash_effect [OF b(3) ne]
  note c = core_fields [OF e(5)] slot_core [OF e(5)]
  have "\<exists>cs. hash_queue (link_hash b s) (insert b A) i cs" if i: "i < NR_HASH" for i
  proof (cases "i = slot (bhs s b)")
    case True
    have "hchain (\<lambda>u. b_next (bhs (link_hash b s) u)) (\<lambda>u. b_prev (bhs (link_hash b s) u)) b (hash_table s ! i) cs"
    proof (cases cs)
      case (Cons x xs)
      then have x: "hash_table s ! i = x" "x \<noteq> 0" "x \<noteq> b" "x \<notin> set xs" "b \<notin> set xs"
        "hchain (\<lambda>u. b_next (bhs s u)) (\<lambda>u. b_prev (bhs s u)) x (b_next (bhs s x)) xs"
        using q csA b True by auto
      have "hchain (\<lambda>u. b_next (bhs (link_hash b s) u)) (\<lambda>u. b_prev (bhs (link_hash b s) u)) x (b_next (bhs s x)) xs
         = hchain (\<lambda>u. b_next (bhs s u)) (\<lambda>u. b_prev (bhs s u)) x (b_next (bhs s x)) xs"
        by (rule hchain_frame) (use e(1,2) x True in auto)
      then show ?thesis using Cons x e(1,2) True by simp
    qed (use hd True in simp)
    then have "hchain (\<lambda>u. b_next (bhs (link_hash b s) u)) (\<lambda>u. b_prev (bhs (link_hash b s) u)) 0
        (hash_table (link_hash b s) ! i) (b # cs)"
      using e(1,2,6) True b i ok by (simp add: hash_ok_def)
    then have "hash_queue (link_hash b s) (insert b A) i (b # cs)"
      using cs csA b c True by (auto simp: hash_queue_def)
    then show ?thesis by blast
  next
    case False
    obtain cs' where cs': "hash_queue s A i cs'" using ok i by (auto simp: hash_ok_def)
    have out: "b \<notin> set cs'" "hash_table s ! slot (bhs s b) \<notin> set cs'"
    proof -
      have "hash_table s ! slot (bhs s b) \<in> insert 0 (set cs)" using hd by auto
      then show "b \<notin> set cs'" "hash_table s ! slot (bhs s b) \<notin> set cs'"
        using cs cs' False b csA by (auto simp: hash_queue_def)
    qed
    have "hchain (\<lambda>u. b_next (bhs (link_hash b s) u)) (\<lambda>u. b_prev (bhs (link_hash b s) u)) 0 (hash_table s ! i) cs'
       = hchain (\<lambda>u. b_next (bhs s u)) (\<lambda>u. b_prev (bhs s u)) 0 (hash_table s ! i) cs'"
      by (rule hchain_frame) (use e(1,2) out in auto)
    moreover have "hash_table (link_hash b s) ! i = hash_table s ! i" using e(6) False by auto
    ultimately have "hash_queue (link_hash b s) (insert b A) i cs'" using cs' c False by (auto simp: hash_queue_def)
    then show ?thesis by blast
  qed
  moreover have "b_next (bhs (link_hash b s) x) = 0 \<and> b_prev (bhs (link_hash b s) x) = 0"
    if x: "x \<in> insert b A" "b_dev (bhs (link_hash b s) x) = 0" for x
  proof -
    have "x \<noteq> b" using x c b by auto
    moreover have "x \<noteq> hash_table s ! slot (bhs s b)"
    proof -
      have "hash_table s ! slot (bhs s b) \<in> insert 0 (set cs)" using hd by auto
      then show ?thesis using x c cs csA \<open>x \<noteq> b\<close> by (auto simp: hash_queue_def)
    qed
    ultimately show ?thesis using x c e(1,2) ok by (auto simp: hash_ok_def)
  qed
  ultimately show "hash_ok (link_hash b s) (insert b A)" using ok e(6) b by (auto simp: hash_ok_def)
qed

text \<open>A buffer without a device is in no queue.\<close>

lemma link_hash_frame:
  "b_prev_free (bhs (link_hash b s) u) = b_prev_free (bhs s u)" "b_next_free (bhs (link_hash b s) u) = b_next_free (bhs s u)"
  "core (bhs (link_hash b s) u) = core (bhs s u)" "free_list (link_hash b s) = free_list s"
  "buffers (link_hash b s) = buffers s" "fw (link_hash b s) = fw s"
  by (simp_all add: link_hash_def set_hash_def Let_def)

lemma hash_ok_link_any:
  assumes ok: "hash_ok s A" and b: "b \<notin> A" "b \<noteq> 0"
  shows "hash_ok (link_hash b s) (insert b A)"
proof (cases "b_dev (bhs s b) = 0")
  case True
  then have l: "link_hash b s = upd_bh b (\<lambda>h. h\<lparr>b_prev := 0, b_next := 0\<rparr>) s" by (simp add: link_hash_def)
  have "hash_queue (link_hash b s) (insert b A) i cs" if q: "hash_queue s A i cs" for i cs
  proof -
    have "b \<notin> set cs" using q b by (auto simp: hash_queue_def)
    then have "hchain (\<lambda>u. b_next (bhs (link_hash b s) u)) (\<lambda>u. b_prev (bhs (link_hash b s) u)) 0 (hash_table s ! i) cs =
        hchain (\<lambda>u. b_next (bhs s u)) (\<lambda>u. b_prev (bhs s u)) 0 (hash_table s ! i) cs"
      by (intro hchain_frame) (auto simp: l)
    moreover have "{c \<in> insert b A. b_dev (bhs (link_hash b s) c) \<noteq> 0 \<and> slot (bhs (link_hash b s) c) = i} =
        {c \<in> A. b_dev (bhs s c) \<noteq> 0 \<and> slot (bhs s c) = i}"
      using True by (auto simp: l slot_def)
    ultimately show ?thesis using q by (simp add: hash_queue_def) (simp add: l)
  qed
  then show ?thesis using ok b by (fastforce simp: hash_ok_def l)
next
  case False
  then show ?thesis using hash_ok_link(1) [OF ok b] by simp
qed

section \<open>Taking a buffer for a block\<close>

lemma free_ring_cong:
  "(\<And>u. b_next_free (bhs s' u) = b_next_free (bhs s u)) \<Longrightarrow> (\<And>u. b_prev_free (bhs s' u) = b_prev_free (bhs s u)) \<Longrightarrow>
     free_list s' = free_list s \<Longrightarrow> free_ring s' xs = free_ring s xs"
  by (simp add: free_ring_def)

lemma take_buffer_ok:
  fixes d :: u16
  assumes ok: "cache_ok s (us @ b # vs)"
    and new: "d \<noteq> 0 \<Longrightarrow> \<forall>c \<in> set (us @ b # vs). \<not> holds_block (ucast d) block s c"
  obtains s' where "take_buffer (ucast d) block b s = Inr s'" "cache_ok s' (us @ vs @ [b])"
    "core (bhs s' b) = core ((bhs s b)\<lparr>b_count := 1, b_dirt := 0, b_uptodate := 0, b_dev := d, b_blocknr := block\<rparr>)"
    "\<And>u. u \<noteq> b \<Longrightarrow> core (bhs s' u) = core (bhs s u)" "fw s' = fw s"
proof -
  let ?xs = "us @ b # vs" and ?A = "set (us @ vs)"
  have dist: "distinct ?xs" "0 \<notin> set ?xs" "set ?xs = set (buffers s)" "free_ring s ?xs" "hash_ok s (set ?xs)"
    and "2 \<le> length ?xs"
    using ok unfolding cache_ok_def by blast+
  then have ne: "us @ vs \<noteq> []" by (cases us) auto
  note dist = dist(1,2) ne dist(3-5)
  have uniq: "c = c'" if "c \<in> set ?xs" "c' \<in> set ?xs" "b_dev (bhs s c) \<noteq> 0" "b_dev (bhs s c) = b_dev (bhs s c')"
      "b_blocknr (bhs s c) = b_blocknr (bhs s c')" for c c'
    using ok that unfolding cache_ok_def by blast
  have A: "?A = set ?xs - {b}" using dist(1) by auto
  define s1 where "s1 = upd_bh b (\<lambda>h. h\<lparr>b_count := 1, b_dirt := 0, b_uptodate := 0\<rparr>) s"
  have s1: "free_ring s1 ?xs" "hash_ok s1 (set ?xs)" "b \<in> set ?xs"
    "\<And>u. u \<noteq> b \<Longrightarrow> core (bhs s1 u) = core (bhs s u)" "buffers s1 = buffers s" "fw s1 = fw s"
  proof -
    have f: "b_next_free (bhs s1 u) = b_next_free (bhs s u)" "b_prev_free (bhs s1 u) = b_prev_free (bhs s u)"
      "b_next (bhs s1 u) = b_next (bhs s u)" "b_prev (bhs s1 u) = b_prev (bhs s u)"
      "b_dev (bhs s1 u) = b_dev (bhs s u)" "b_blocknr (bhs s1 u) = b_blocknr (bhs s u)" for u
      by (simp_all add: s1_def)
    show "free_ring s1 ?xs" using dist(5) free_ring_cong [of s1 s ?xs] f by (simp add: s1_def)
    show "hash_ok s1 (set ?xs)" using dist(6) hash_ok_cong [of "set ?xs" s1 s] f by (simp add: s1_def)
  qed (simp_all add: s1_def)
  define s2 where "s2 = unlink_hash b s1"
  note u = hash_ok_unlink [OF s1(2,3), folded s2_def A]
  note e2 = unlink_hash_effect [OF u(2,3), folded s2_def]
  have ring2: "free_ring s2 ?xs" using s1(1) free_ring_cong [of s2 s1 ?xs] e2 by simp
  have fb: "b_prev_free (bhs s2 b) \<notin> {0, b}" "b_next_free (bhs s2 b) \<notin> {0, b}"
    using free_ring_ends [OF ring2 dist(1,3)] dist(1,2) by auto
  obtain s3 where s3: "unlink_free b s2 = Inr s3"
    "\<And>u. b_next_free (bhs s3 u) = (if u = b_prev_free (bhs s2 b) then b_next_free (bhs s2 b) else b_next_free (bhs s2 u))"
    "\<And>u. b_prev_free (bhs s3 u) = (if u = b_next_free (bhs s2 b) then b_prev_free (bhs s2 b) else b_prev_free (bhs s2 u))"
    "\<And>u. b_next (bhs s3 u) = b_next (bhs s2 u)" "\<And>u. b_prev (bhs s3 u) = b_prev (bhs s2 u)"
    "\<And>u. core (bhs s3 u) = core (bhs s2 u)" "hash_table s3 = hash_table s2"
    "free_list s3 = (if free_list s2 = b then b_next_free (bhs s2 b) else free_list s2)" "buffers s3 = buffers s2" "fw s3 = fw s2"
    using unlink_free_effect [OF fb] by blast
  have ring3: "free_ring s3 (us @ vs)" using free_ring_unlink [OF ring2 dist(1,3) s3(2,3,8)] .
  have hash3: "hash_ok s3 ?A" using u(1) hash_ok_cong [of ?A s3 s2] s3 core_fields [OF s3(6)] by simp
  define s4 where "s4 = upd_bh b (\<lambda>h. h\<lparr>b_dev := ucast (ucast d :: u32), b_blocknr := block\<rparr>) s3"
  have dd: "ucast (ucast d :: u32) = d" by (rule bit_word_eqI) (auto simp: bit_simps)
  have bA: "b \<notin> ?A" using dist(1) by auto
  have ring4: "free_ring s4 (us @ vs)" using ring3 free_ring_cong [of s4 s3] by (simp add: s4_def)
  have same4: "bhs s4 c = bhs s3 c" if "c \<in> ?A" for c using that bA by (auto simp: s4_def)
  have hash4: "hash_ok s4 ?A" using hash3 same4 hash_ok_cong [of ?A s4 s3] by (simp add: s4_def)
  have f4: "free_list s4 \<in> ?A" "b_prev_free (bhs s4 (free_list s4)) \<in> ?A"
  proof -
    obtain x zs where x: "us @ vs = x # zs" using dist(3) by (cases "us @ vs") auto
    show "free_list s4 \<in> ?A" using ring4 x by (auto simp: free_ring_def)
    show "b_prev_free (bhs s4 (free_list s4)) \<in> ?A"
      using ring4 links_ends unfolding free_ring_def x
      by (metis last_in_set list.distinct(1) list.sel(1) list.sel(3))
  qed
  then have fl: "free_list s4 \<notin> {0, b}" "b_prev_free (bhs s4 (free_list s4)) \<notin> {0, b}" using dist(1,2) by auto
  obtain s5 where s5: "link_free b s4 = Inr s5"
    "\<And>u. b_next_free (bhs s5 u) = (if u = b_prev_free (bhs s4 (free_list s4)) then b else if u = b then free_list s4
       else b_next_free (bhs s4 u))"
    "\<And>u. b_prev_free (bhs s5 u) = (if u = free_list s4 then b else if u = b then b_prev_free (bhs s4 (free_list s4))
       else b_prev_free (bhs s4 u))"
    "\<And>u. b_next (bhs s5 u) = b_next (bhs s4 u)" "\<And>u. b_prev (bhs s5 u) = b_prev (bhs s4 u)"
    "\<And>u. core (bhs s5 u) = core (bhs s4 u)" "hash_table s5 = hash_table s4" "free_list s5 = free_list s4"
    "buffers s5 = buffers s4" "fw s5 = fw s4"
    using link_free_effect [OF fl] by blast
  have dist': "distinct (us @ vs)" using dist(1) by auto
  have ring5: "free_ring s5 ((us @ vs) @ [b])" using free_ring_link [OF ring4 dist' bA s5(2,3,8)] .
  have hash5: "hash_ok s5 ?A" using hash4 hash_ok_cong [of ?A s5 s4] s5 core_fields [OF s5(6)] by simp
  have b0: "b \<noteq> 0" using dist(2) by auto
  note l = hash_ok_link_any [OF hash5 bA b0]
  note e6 = link_hash_frame [of b s5]
  define s6 where "s6 = link_hash b s5"
  have cb: "core (bhs s6 b) = core ((bhs s b)\<lparr>b_count := 1, b_dirt := 0, b_uptodate := 0, b_dev := d, b_blocknr := block\<rparr>)"
  proof -
    have "core (bhs s3 b) = core (bhs s1 b)" using s3(6) e2(5) by simp
    then have "core (bhs s4 b) = core ((bhs s1 b)\<lparr>b_dev := d, b_blocknr := block\<rparr>)"
      unfolding s4_def dd upd_bh_bhs fun_upd_same by (rule core_dev)
    then show ?thesis using s5(6) e6(3) by (simp add: s6_def s1_def)
  qed
  have co: "core (bhs s6 u) = core (bhs s u)" if "u \<noteq> b" for u
    using that s1(4) e2(5) s3(6) s5(6) e6(3) by (simp add: s6_def s4_def)
  have "take_buffer (ucast d) block b s = Inr s6"
    using s3(1) s5(1) unfolding s2_def s1_def s4_def dd s6_def
    by (simp add: take_buffer_def remove_from_queues_def insert_into_queues_def dd)
  moreover have "cache_ok s6 (us @ vs @ [b])"
  proof -
    have set: "set (us @ vs @ [b]) = set ?xs" "insert b ?A = set ?xs" by auto
    have buf: "buffers s6 = buffers s" using e6(5) s5(9) s3(9) e2(8) s1(5) by (simp add: s6_def s4_def)
    have ring6: "free_ring s6 (us @ vs @ [b])" using ring5 free_ring_cong [of s6 s5] e6 by (simp add: s6_def)
    have f: "b_dev (bhs s6 c) = (if c = b then d else b_dev (bhs s c))"
      "b_blocknr (bhs s6 c) = (if c = b then block else b_blocknr (bhs s c))" for c
      using core_fields [OF cb] core_fields [OF co, of c] by (cases "c = b"; simp)+
    have nob: "d \<noteq> 0 \<Longrightarrow> b_dev (bhs s c) = d \<Longrightarrow> b_blocknr (bhs s c) \<noteq> block" if "c \<in> set ?xs" for c
      using new that by (auto simp: holds_block_def)
    have uniq6: "c = c'" if "c \<in> set ?xs" "c' \<in> set ?xs" "b_dev (bhs s6 c) \<noteq> 0"
      "b_dev (bhs s6 c) = b_dev (bhs s6 c')" "b_blocknr (bhs s6 c) = b_blocknr (bhs s6 c')" for c c'
    proof (rule ccontr)
      assume "c \<noteq> c'"
      then consider "c = b" "c' \<noteq> b" | "c' = b" "c \<noteq> b" | "c \<noteq> b" "c' \<noteq> b" by blast
      then show False
      proof cases
        case 1
        then have "d \<noteq> 0" "b_dev (bhs s c') = d" "b_blocknr (bhs s c') = block"
          using that(3) that(4,5) [symmetric] unfolding f by simp_all
        then show ?thesis using nob [OF that(2)] by blast
      next
        case 2
        then have "d \<noteq> 0" "b_dev (bhs s c) = d" "b_blocknr (bhs s c) = block"
          using that(3-5) unfolding f by simp_all
        then show ?thesis using nob [OF that(1)] by blast
      next
        case 3
        then show ?thesis using uniq [OF that(1,2)] that(3-5) \<open>c \<noteq> c'\<close> unfolding f by simp
      qed
    qed
    have "hash_ok s6 (set ?xs)" using l set(2) by (simp add: s6_def)
    moreover have "distinct (us @ vs @ [b])" "2 \<le> length (us @ vs @ [b])" using dist(1) \<open>2 \<le> length ?xs\<close> by auto
    ultimately show ?thesis unfolding cache_ok_def set(1) buf using dist(2,4) ring6 uniq6 by blast
  qed
  moreover have "fw s6 = fw s" using e6(6) s5(10) s3(10) e2(9) s1(6) by (simp add: s6_def s4_def)
  ultimately show ?thesis using that cb co by blast
qed

section \<open>Finding and getting blocks\<close>

lemma cache_ok_cong:
  assumes "\<And>u. b_next (bhs s' u) = b_next (bhs s u)" "\<And>u. b_prev (bhs s' u) = b_prev (bhs s u)"
    "\<And>u. b_next_free (bhs s' u) = b_next_free (bhs s u)" "\<And>u. b_prev_free (bhs s' u) = b_prev_free (bhs s u)"
    "\<And>u. b_dev (bhs s' u) = b_dev (bhs s u)" "\<And>u. b_blocknr (bhs s' u) = b_blocknr (bhs s u)"
    "hash_table s' = hash_table s" "free_list s' = free_list s" "buffers s' = buffers s"
  shows "cache_ok s' xs = cache_ok s xs"
  using hash_ok_cong [of "set xs" s' s] free_ring_cong [of s' s xs] assms by (simp add: cache_ok_def)

lemma cache_ok_simps [simp]:
  "cache_ok (s\<lparr>fw := w\<rparr>) xs = cache_ok s xs"
  "cache_ok (wake_fs p s) xs = cache_ok s xs"
  "cache_ok (log_fs t s) xs = cache_ok s xs"
  "cache_ok (upd_bh b (\<lambda>h. h\<lparr>b_count := n h\<rparr>) s) xs = cache_ok s xs"
  "cache_ok (upd_bh b (\<lambda>h. h\<lparr>b_lock := n h\<rparr>) s) xs = cache_ok s xs"
  "cache_ok (upd_bh b (\<lambda>h. h\<lparr>b_dirt := n h\<rparr>) s) xs = cache_ok s xs"
  "cache_ok (upd_bh b (\<lambda>h. h\<lparr>b_uptodate := n h\<rparr>) s) xs = cache_ok s xs"
  "cache_ok (upd_bh b (\<lambda>h. h\<lparr>b_data := ds h\<rparr>) s) xs = cache_ok s xs"
  by (rule cache_ok_cong; simp)+

lemma cache_ok_facts:
  assumes "cache_ok s xs"
  shows "distinct xs" "0 \<notin> set xs" "set xs = set (buffers s)"
    "\<And>b c. b \<in> set xs \<Longrightarrow> c \<in> set xs \<Longrightarrow> b_dev (bhs s b) \<noteq> 0 \<Longrightarrow> b_dev (bhs s b) = b_dev (bhs s c) \<Longrightarrow>
       b_blocknr (bhs s b) = b_blocknr (bhs s c) \<Longrightarrow> b = c"
  using assms unfolding cache_ok_def by blast+

lemma find_from_chain:
  "hchain (\<lambda>u. b_next (bhs s u)) pv p h cs \<Longrightarrow> find_from dev block s h =
     Some (case find (holds_block dev block s) cs of None \<Rightarrow> 0 | Some c \<Rightarrow> c)"
proof (induction cs arbitrary: p h)
  case Nil then show ?case by (subst find_from.simps) simp
next
  case (Cons c cs)
  then show ?case by (subst find_from.simps) auto
qed

lemma ucast_back: "ucast (ucast (d :: u16) :: u32) = d"
  by (rule bit_word_eqI) (auto simp: bit_simps)

lemma holds_block_dev: "holds_block (ucast (d :: u16)) block s b \<longleftrightarrow> b_dev (bhs s b) = d \<and> b_blocknr (bhs s b) = block"
  unfolding holds_block_def by (metis ucast_back)

lemma find_buffer_spec:
  fixes d :: u16
  assumes "cache_ok s xs" "d \<noteq> 0"
  shows "\<exists>b. find_buffer (ucast d) block s = Some b \<and> (\<forall>c\<in>set xs. holds_block (ucast d) block s c \<longleftrightarrow> c = b) \<and>
    (b \<noteq> 0 \<longrightarrow> b \<in> set xs)"
proof -
  let ?i = "hashfn (ucast d) block" and ?h = "holds_block (ucast d) block s"
  have x0: "0 \<notin> set xs" using cache_ok_facts(2) [OF assms(1)] .
  have i: "?i < NR_HASH" by (simp add: hashfn_def NR_HASH_def)
  obtain cs where cs: "hash_queue s (set xs) ?i cs" using assms(1) i unfolding cache_ok_def hash_ok_def by blast
  have set: "b \<in> set cs \<longleftrightarrow> b \<in> set xs \<and> b_dev (bhs s b) \<noteq> 0 \<and> slot (bhs s b) = ?i" for b
    using cs by (auto simp: hash_queue_def)
  have f: "find_buffer (ucast d) block s = Some (case find ?h cs of None \<Rightarrow> 0 | Some c \<Rightarrow> c)"
    unfolding find_buffer_def hash_head_def
    by (rule find_from_chain [OF conjunct1 [OF cs [unfolded hash_queue_def]]])
  have in_cs: "b \<in> set cs" if "b \<in> set xs" "?h b" for b
    using that assms(2) unfolding set by (simp add: slot_def holds_block_dev)
  show ?thesis
  proof (cases "find ?h cs")
    case None
    then have "\<not> (\<exists>b\<in>set xs. ?h b)" using in_cs by (auto simp: find_None_iff)
    then show ?thesis using f None x0 by auto
  next
    case (Some c)
    then have "c \<in> set cs" "?h c" by (metis find_Some_iff nth_mem)+
    then have c: "c \<in> set xs" "?h c" using set by blast+
    have "b = c" if "b \<in> set xs" "?h b" for b
      using cache_ok_facts(4) [OF assms(1) that(1) c(1)] that(2) c(2) assms(2) by (simp add: holds_block_dev)
    then have "\<forall>b\<in>set xs. ?h b \<longleftrightarrow> b = c" using c by blast
    then show ?thesis using f Some c(1) by simp
  qed
qed

section \<open>What \<open>getblk\<close> returns\<close>

definition cached :: "fsys \<Rightarrow> bool" where
  "cached s \<longleftrightarrow> (\<exists>xs. cache_ok s xs)"

lemma cached_simps [simp]:
  "cached (s\<lparr>fw := w\<rparr>) = cached s" "cached (wake_fs p s) = cached s" "cached (log_fs t s) = cached s"
  "cached (upd_bh b (\<lambda>h. h\<lparr>b_count := n h\<rparr>) s) = cached s" "cached (upd_bh b (\<lambda>h. h\<lparr>b_lock := n h\<rparr>) s) = cached s"
  "cached (upd_bh b (\<lambda>h. h\<lparr>b_dirt := n h\<rparr>) s) = cached s" "cached (upd_bh b (\<lambda>h. h\<lparr>b_uptodate := n h\<rparr>) s) = cached s"
  "cached (upd_bh b (\<lambda>h. h\<lparr>b_data := ds h\<rparr>) s) = cached s"
  by (simp_all add: cached_def)

definition env_keeps :: "environment \<Rightarrow> (fsys \<Rightarrow> bool) \<Rightarrow> bool" where
  "env_keeps env I \<longleftrightarrow> (\<forall>s. I s \<longrightarrow> I (others env s))"

lemma sleep_fs_keeps:
  assumes "env_keeps env I" "\<And>w s. I (s\<lparr>fw := w\<rparr>) = I s" "sleep_fs env p s = Some (Inr s')" "I s"
  shows "I s'"
  using assms by (auto simp: sleep_fs_def env_keeps_def split: sum.splits)

definition returns :: "('a \<Rightarrow> bool) \<Rightarrow> 'a kres \<Rightarrow> bool" where
  "returns P r \<longleftrightarrow> (\<forall>a. r = Inr a \<longrightarrow> P a)"

lemma returns_simps [simp]: "returns P (Inl e)" "returns P (Inr a) = P a"
  by (simp_all add: returns_def)

lemma wait_on_buffer_keeps:
  assumes I: "\<And>w s. I (s\<lparr>fw := w\<rparr>) = I s"
  shows "wait_on_buffer env b s = Some r \<Longrightarrow>
    env_keeps env I \<longrightarrow> I s \<longrightarrow> returns (\<lambda>s'. I s' \<and> b_lock (bhs s' b) = 0) r"
proof (induction rule: wait_on_buffer.raw_induct [rotated, consumes 1, case_names step])
  case (step W env b s r)
  show ?case
  proof (cases "b_lock (bhs s b) = 0")
    case False
    then have r: "obind (sleep_fs env (b_wait b) s) (W env b) = Some r" using step(2) by simp
    show ?thesis
    proof (cases "sleep_fs env (b_wait b) s")
      case (Some a)
      then show ?thesis
      proof (cases a)
        case (Inr s1)
        then have "W env b s1 = Some r" using r Some by simp
        then show ?thesis using step(1) [of env b s1 r] sleep_fs_keeps [OF _ I] Some Inr by blast
      qed (use r Some in auto)
    qed (use r in simp)
  qed (use step(2) in auto)
qed

lemma obind_returns:
  assumes "obind m f = Some r" "\<And>a. m = Some (Inr a) \<Longrightarrow> f a = Some r \<Longrightarrow> returns P r"
  shows "returns P r"
  using assms by (cases m) (auto simp: obind_def split: sum.splits)

text \<open>The result of looking for a block; the tasks that ran meanwhile may have moved it.\<close>

definition found :: "u32 \<Rightarrow> u32 \<Rightarrow> u32 \<times> fsys \<Rightarrow> bool" where
  "found dev block r \<longleftrightarrow> (case r of (b, s) \<Rightarrow> cached s \<and>
     (if b = 0 then \<forall>c\<in>set (buffers s). \<not> holds_block dev block s c else b \<in> set (buffers s) \<and> holds_block dev block s b))"

lemma get_hash_table_found:
  assumes "get_hash_table env dev block s = Some r"
  shows "dev = ucast (d :: u16) \<longrightarrow> d \<noteq> 0 \<longrightarrow> env_keeps env (\<lambda>s. cached s \<and> set (buffers s) = B) \<longrightarrow> cached s \<longrightarrow>
    set (buffers s) = B \<longrightarrow> returns (\<lambda>r. found dev block r \<and> set (buffers (snd r)) = B) r"
  using assms
proof (induction rule: get_hash_table.raw_induct [rotated, consumes 1, case_names step])
  case (step G env dev block s r)
  let ?I = "\<lambda>s. cached s \<and> set (buffers s) = B"
  show ?case
  proof (intro impI)
    assume a: "dev = ucast d" "d \<noteq> 0" "env_keeps env ?I" "cached s" "set (buffers s) = B"
    obtain xs where xs: "cache_ok s xs" using a(4) by (auto simp: cached_def)
    note bset = cache_ok_facts(3) [OF xs] and x0 = cache_ok_facts(2) [OF xs]
    obtain c where c: "find_buffer dev block s = Some c" "\<forall>b\<in>set xs. holds_block dev block s b \<longleftrightarrow> b = c" "c \<noteq> 0 \<longrightarrow> c \<in> set xs"
      using find_buffer_spec [OF xs a(2), of block] a(1) by blast
    show "returns (\<lambda>r. found dev block r \<and> set (buffers (snd r)) = B) r"
    proof (cases "c = 0")
      case True
      then have "r = Inr (0, s)" using step(2) c(1) by simp
      then show ?thesis using c(2) a(4,5) True x0 bset by (auto simp: found_def)
    next
      case False
      let ?s1 = "upd_bh c (\<lambda>h. h\<lparr>b_count := b_count h + 1\<rparr>) s"
      have "obind (wait_on_buffer env c ?s1) (\<lambda>s. if holds_block dev block s c then Some (Inr (c, s))
          else G env dev block (upd_bh c (\<lambda>h. h\<lparr>b_count := b_count h - 1\<rparr>) s)) = Some r"
        using step(2) c(1) False by simp
      then show ?thesis
      proof (rule obind_returns)
        fix s2
        assume w: "wait_on_buffer env c ?s1 = Some (Inr s2)" and
          r: "(if holds_block dev block s2 c then Some (Inr (c, s2))
            else G env dev block (upd_bh c (\<lambda>h. h\<lparr>b_count := b_count h - 1\<rparr>) s2)) = Some r"
        have k: "?I s2" using wait_on_buffer_keeps [of ?I, OF _ w] a(3,4,5) by auto
        show ?thesis
        proof (cases "holds_block dev block s2 c")
          case True
          then show ?thesis using r k False c(3) bset a(5) by (auto simp: found_def)
        next
          case no: False
          then show ?thesis using r step(1) [of env dev block _ r] a k by simp
        qed
      qed
    qed
  qed
qed

lemma next_free_in:
  assumes "cache_ok s xs" "x \<in> set xs"
  shows "b_next_free (bhs s x) \<in> set xs"
proof -
  obtain us vs where x: "xs = us @ x # vs" using assms(2) by (metis split_list)
  have "2 \<le> length xs" "free_ring s xs" using assms(1) unfolding cache_ok_def by blast+
  moreover from this have "us @ vs \<noteq> []" using x by (cases us) auto
  ultimately show ?thesis using free_ring_ends(1) [of s us x vs] cache_ok_facts(1) [OF assms(1)] x by auto
qed

lemma free_scan_in:
  assumes "free_scan s tmp bh = Some r"
  shows "cache_ok s xs \<longrightarrow> tmp \<in> set xs \<longrightarrow> bh = 0 \<or> bh \<in> set xs \<longrightarrow>
    returns (\<lambda>(bh', tmp'). tmp' \<in> set xs \<and> (bh' = 0 \<or> bh' \<in> set xs)) r"
  using assms
proof (induction rule: free_scan.raw_induct [rotated, consumes 1, case_names step])
  case (step F s tmp bh r)
  show ?case
  proof (intro impI)
    assume a: "cache_ok s xs" "tmp \<in> set xs" "bh = 0 \<or> bh \<in> set xs"
    have n: "b_next_free (bhs s tmp) \<in> set xs" using next_free_in [OF a(1,2)] .
    show "returns (\<lambda>(bh', tmp'). tmp' \<in> set xs \<and> (bh' = 0 \<or> bh' \<in> set xs)) r"
      using step(2) step(1) [of s "b_next_free (bhs s tmp)" _ r] a n by (auto simp: Let_def split: if_splits)
  qed
qed

lemma getblk_found:
  assumes "getblk env dev block s = Some r"
  shows "dev = ucast (d :: u16) \<longrightarrow> d \<noteq> 0 \<longrightarrow> env_keeps env (\<lambda>s. cached s \<and> set (buffers s) = B) \<longrightarrow> cached s \<longrightarrow>
    set (buffers s) = B \<longrightarrow> returns (\<lambda>r. found dev block r \<and> fst r \<noteq> 0 \<and> set (buffers (snd r)) = B) r"
  using assms
proof (induction rule: getblk.raw_induct [rotated, consumes 1, case_names step])
  case (step G env dev block s r)
  let ?I = "\<lambda>s. cached s \<and> set (buffers s) = B" and ?P = "\<lambda>r. found dev block r \<and> fst r \<noteq> 0 \<and> set (buffers (snd r)) = B"
  show ?case
  proof (intro impI)
    assume a: "dev = ucast d" "d \<noteq> 0" "env_keeps env ?I" "cached s" "set (buffers s) = B"
    have again: "G env dev block s' = Some r \<Longrightarrow> ?I s' \<Longrightarrow> returns ?P r" for s' using step(1) [of env dev block s' r] a(1-3) by blast
    show "returns ?P r"
    proof (rule obind_returns [OF step(2)], clarsimp split: prod.splits)
      fix b0 s1
      assume g: "get_hash_table env dev block s = Some (Inr (b0, s1))"
        and r: "(if b0 \<noteq> 0 then Some (Inr (b0, s1)) else obind (free_scan s1 (free_list s1) 0) (\<lambda>(bh, tmp).
           if bh = 0 then obind (sleep_fs env (buffer_wait s1) s1) (\<lambda>s. G env dev block s)
           else obind (wait_on_buffer env bh s1) (\<lambda>s. if b_count (bhs s bh) \<noteq> 0 then G env dev block s
             else (case find_buffer dev block s of None \<Rightarrow> None
               | Some f \<Rightarrow> if f \<noteq> 0 then G env dev block s
                   else obind (Some (take_buffer dev block tmp s)) (\<lambda>s. Some (Inr (tmp, s))))))) = Some r"
      have f: "found dev block (b0, s1)" "set (buffers s1) = B" using get_hash_table_found [OF g] a by auto
      show "returns ?P r"
      proof (cases "b0 = 0")
        case True
        have c1: "?I s1" using f by (auto simp: found_def)
        then obtain xs where xs: "cache_ok s1 xs" by (auto simp: cached_def)
        then have head: "free_list s1 \<in> set xs" unfolding cache_ok_def free_ring_def by (metis hd_in_set)
        from r True have "obind (free_scan s1 (free_list s1) 0) (\<lambda>(bh, tmp).
           if bh = 0 then obind (sleep_fs env (buffer_wait s1) s1) (\<lambda>s. G env dev block s)
           else obind (wait_on_buffer env bh s1) (\<lambda>s. if b_count (bhs s bh) \<noteq> 0 then G env dev block s
             else (case find_buffer dev block s of None \<Rightarrow> None
               | Some f \<Rightarrow> if f \<noteq> 0 then G env dev block s
                   else obind (Some (take_buffer dev block tmp s)) (\<lambda>s. Some (Inr (tmp, s)))))) = Some r" by simp
        then show ?thesis
        proof (rule obind_returns, clarsimp split: if_splits prod.splits)
          fix tmp assume s: "obind (sleep_fs env (buffer_wait s1) s1) (G env dev block) = Some r"
          show "returns ?P r"
          proof (rule obind_returns [OF s])
            fix s' assume sl: "sleep_fs env (buffer_wait s1) s1 = Some (Inr s')" and G: "G env dev block s' = Some r"
            have "?I s'" by (rule sleep_fs_keeps [OF a(3) _ sl c1]) simp
            then show "returns ?P r" using again [OF G] by blast
          qed
        next
          fix bh tmp assume sc: "free_scan s1 (free_list s1) 0 = Some (Inr (bh, tmp))" and
            w: "obind (wait_on_buffer env bh s1) (\<lambda>s. if b_count (bhs s bh) \<noteq> 0 then G env dev block s
               else (case find_buffer dev block s of None \<Rightarrow> None
                 | Some f \<Rightarrow> if f \<noteq> 0 then G env dev block s
                     else obind (Some (take_buffer dev block tmp s)) (\<lambda>s. Some (Inr (tmp, s))))) = Some r"
          have tmp: "tmp \<in> B" using free_scan_in [OF sc, of xs] xs head cache_ok_facts(3) [OF xs] f by auto
          show "returns ?P r"
          proof (rule obind_returns [OF w])
            fix s2 assume w2: "wait_on_buffer env bh s1 = Some (Inr s2)" and
              r2: "(if b_count (bhs s2 bh) \<noteq> 0 then G env dev block s2
                else (case find_buffer dev block s2 of None \<Rightarrow> None
                  | Some f \<Rightarrow> if f \<noteq> 0 then G env dev block s2
                      else obind (Some (take_buffer dev block tmp s2)) (\<lambda>s. Some (Inr (tmp, s))))) = Some r"
            have c2: "?I s2" using wait_on_buffer_keeps [of ?I, OF _ w2] a(3) c1 by auto
            then obtain ys where ys: "cache_ok s2 ys" by (auto simp: cached_def)
            obtain c where c: "find_buffer dev block s2 = Some c"
              "\<forall>b\<in>set ys. holds_block dev block s2 b \<longleftrightarrow> b = c" "c \<noteq> 0 \<longrightarrow> c \<in> set ys"
              using find_buffer_spec [OF ys a(2), of block] a(1) by blast
            show "returns ?P r"
            proof (cases "b_count (bhs s2 bh) \<noteq> 0 \<or> c \<noteq> 0")
              case True
              then show ?thesis using r2 c(1) again c2 by (auto split: if_splits)
            next
              case no: False
              have "tmp \<in> set ys" using tmp c2 cache_ok_facts(3) [OF ys] by simp
              then obtain us vs where uv: "ys = us @ tmp # vs" by (metis split_list)
              have "\<forall>c\<in>set (us @ tmp # vs). \<not> holds_block (ucast d) block s2 c"
                using c(2) no cache_ok_facts(2) [OF ys] a(1) uv by auto
              from take_buffer_ok [OF ys [unfolded uv], of d block, OF this] obtain s3 where
                s3: "take_buffer (ucast d) block tmp s2 = Inr s3" "cache_ok s3 (us @ vs @ [tmp])"
                "core (bhs s3 tmp) = core ((bhs s2 tmp)\<lparr>b_count := 1, b_dirt := 0, b_uptodate := 0, b_dev := d, b_blocknr := block\<rparr>)"
                by metis
              have "r = Inr (tmp, s3)" using r2 no c(1) s3(1) a(1) by simp
              moreover have "holds_block dev block s3 tmp" using core_fields [OF s3(3)] a(1) by (simp add: holds_block_dev)
              moreover have "set (buffers s3) = B"
                using cache_ok_facts(3) [OF s3(2)] cache_ok_facts(3) [OF ys] uv c2 by auto
              moreover have "tmp \<noteq> 0" using cache_ok_facts(2) [OF ys] uv by auto
              moreover have "cached s3" using s3(2) by (auto simp: cached_def)
              ultimately show ?thesis using tmp by (simp add: found_def)
            qed
          qed
        qed
      qed (use r f in auto)
    qed
  qed
qed

text \<open>C6: The cache survives everything. Whatever the other tasks do while \<open>getblk\<close> sleeps, as long as they keep the
  cache in order and its buffers, a call that returns gives a buffer of the cache that holds the block asked for, and
  the cache is in order: the free list is a ring through all buffers, every block is in its hash queue, and no block is
  held twice.\<close>

theorem getblk_keeps_cache:
  fixes d :: u16
  assumes "cached s" "set (buffers s) = B" "env_keeps env (\<lambda>s. cached s \<and> set (buffers s) = B)" "d \<noteq> 0"
    "getblk env (ucast d) block s = Some (Inr (b, s'))"
  shows "cached s' \<and> b \<in> B \<and> holds_block (ucast d) block s' b \<and> set (buffers s') = B"
proof -
  have "found (ucast d) block (b, s') \<and> b \<noteq> 0 \<and> set (buffers s') = B"
    using getblk_found [OF assms(5), of d B] assms(1-4) unfolding returns_simps fst_conv snd_conv by blast
  then show ?thesis unfolding found_def prod.case by metis
qed

section \<open>Which buffer is taken\<close>

definition clean_free :: "fsys \<Rightarrow> u32 \<Rightarrow> bool" where
  "clean_free s c \<longleftrightarrow> b_count (bhs s c) = 0 \<and> BADNESS (bhs s c) = 0"

lemma free_scan_spec:
  assumes "links (\<lambda>u. b_next_free (bhs s u)) pf x us (free_list s)" "0 \<notin> set (x # us)" "free_list s \<notin> set us"
    "bh = 0 \<or> BADNESS (bhs s bh) \<noteq> 0"
  shows "(case find (clean_free s) (x # us) of Some c \<Rightarrow> free_scan s x bh = Some (Inr (c, c))
     | None \<Rightarrow> \<exists>c. free_scan s x bh = Some (Inr (c, free_list s)) \<and>
         (c = 0 \<longleftrightarrow> bh = 0 \<and> (\<forall>b\<in>set (x # us). b_count (bhs s b) \<noteq> 0)) \<and>
         (c = bh \<or> c \<in> set (x # us) \<and> b_count (bhs s c) = 0))"
  using assms
proof (induction us arbitrary: x bh)
  case Nil
  then have n: "b_next_free (bhs s x) = free_list s" "x \<noteq> 0" by auto
  define bh' where "bh' = (if b_count (bhs s x) = 0 \<and> (bh = 0 \<or> BADNESS (bhs s x) < BADNESS (bhs s bh)) then x else bh)"
  have "free_scan s x bh = Some (Inr (bh', if clean_free s x then x else free_list s))"
    using n Nil(4) by (subst free_scan.simps) (auto simp: clean_free_def bh'_def Let_def)
  then show ?case using Nil(4) n by (auto simp: bh'_def clean_free_def)
next
  case (Cons u us)
  then have n: "b_next_free (bhs s x) = u" "u \<noteq> free_list s" "x \<noteq> 0" by auto
  show ?case
  proof (cases "clean_free s x")
    case True
    then have "free_scan s x bh = Some (Inr (x, x))"
      using Cons.prems(4) n by (subst free_scan.simps) (auto simp: clean_free_def)
    then show ?thesis using True by simp
  next
    case False
    define bh' where "bh' = (if b_count (bhs s x) = 0 \<and> (bh = 0 \<or> BADNESS (bhs s x) < BADNESS (bhs s bh)) then x else bh)"
    have step: "free_scan s x bh = free_scan s u bh'"
      using False n by (subst free_scan.simps) (auto simp: clean_free_def bh'_def Let_def)
    have b': "bh' = 0 \<or> BADNESS (bhs s bh') \<noteq> 0" using False Cons.prems(4) by (auto simp: bh'_def clean_free_def)
    have "(case find (clean_free s) (u # us) of Some c \<Rightarrow> free_scan s u bh' = Some (Inr (c, c))
     | None \<Rightarrow> \<exists>c. free_scan s u bh' = Some (Inr (c, free_list s)) \<and>
         (c = 0 \<longleftrightarrow> bh' = 0 \<and> (\<forall>b\<in>set (u # us). b_count (bhs s b) \<noteq> 0)) \<and>
         (c = bh' \<or> c \<in> set (u # us) \<and> b_count (bhs s c) = 0))"
      using Cons.prems by (intro Cons.IH b') auto
    then show ?thesis unfolding step using False n
      by (auto simp: bh'_def split: option.splits if_splits)
  qed
qed

lemma getblk_total:
  fixes d :: u16
  assumes "cache_ok s xs" "d \<noteq> 0" "\<forall>c\<in>set xs. \<not> holds_block (ucast d) block s c"
    "\<forall>c\<in>set xs. b_lock (bhs s c) = 0" "\<exists>c\<in>set xs. b_count (bhs s c) = 0"
  defines "v \<equiv> (case find (clean_free s) xs of Some c \<Rightarrow> c | None \<Rightarrow> hd xs)"
  shows "\<exists>s'. getblk env (ucast d) block s = Some (Inr (v, s')) \<and> cache_ok s' (remove1 v xs @ [v]) \<and>
    core (bhs s' v) = core ((bhs s v)\<lparr>b_count := 1, b_dirt := 0, b_uptodate := 0, b_dev := d, b_blocknr := block\<rparr>) \<and>
    (\<forall>u. u \<noteq> v \<longrightarrow> core (bhs s' u) = core (bhs s u)) \<and> rest s' = rest s"
proof -
  obtain x us where x: "xs = x # us" using assms(5) by (cases xs) auto
  have ring: "free_list s = x" "links (\<lambda>u. b_next_free (bhs s u)) (\<lambda>u. b_prev_free (bhs s u)) x us x"
    using assms(1) x unfolding cache_ok_def free_ring_def by auto
  have d: "distinct xs" "0 \<notin> set xs" using cache_ok_facts(1,2) [OF assms(1)] .
  obtain c where c: "free_scan s (free_list s) 0 = Some (Inr (c, v))" "c \<in> set xs" "b_count (bhs s c) = 0" "v \<in> set xs"
  proof (cases "find (clean_free s) xs")
    case None
    then show ?thesis
      using free_scan_spec [of s "\<lambda>u. b_prev_free (bhs s u)" x us 0] ring d assms(5) that x by (fastforce simp: v_def)
  next
    case (Some c)
    then have "c \<in> set xs" "clean_free s c" by (metis find_Some_iff nth_mem)+
    then show ?thesis using free_scan_spec [of s "\<lambda>u. b_prev_free (bhs s u)" x us 0] ring d that [of c] x Some
      by (auto simp: v_def clean_free_def)
  qed
  have find: "find_buffer (ucast d) block s = Some 0"
    using find_buffer_spec [OF assms(1,2), of block] assms(3) by metis
  have "c \<noteq> 0" using c(2) d by auto
  obtain us' vs where uv: "xs = us' @ v # vs" using c(4) by (metis split_list)
  from take_buffer_ok [OF assms(1) [unfolded uv] assms(3) [unfolded uv]] obtain s' where
    s': "take_buffer (ucast d) block v s = Inr s'" "cache_ok s' (us' @ vs @ [v])"
    "core (bhs s' v) = core ((bhs s v)\<lparr>b_count := 1, b_dirt := 0, b_uptodate := 0, b_dev := d, b_blocknr := block\<rparr>)"
    "\<And>u. u \<noteq> v \<Longrightarrow> core (bhs s' u) = core (bhs s u)" "fw s' = fw s" by metis
  have gh: "get_hash_table env (ucast d) block s = Some (Inr (0, s))"
    by (subst get_hash_table.simps) (simp add: find)
  have wait: "wait_on_buffer env c s = Some (Inr s)"
    using assms(4) c(2) by (subst wait_on_buffer.simps) simp
  have "getblk env (ucast d) block s = Some (Inr (v, s'))"
    by (subst getblk.simps) (simp add: gh c(1,3) \<open>c \<noteq> 0\<close> wait find s'(1))
  moreover have "remove1 v xs = us' @ vs" using d(1) uv by (simp add: remove1_append)
  ultimately show ?thesis using s'(2-5) take_buffer_rest [OF s'(1)] by auto
qed

text \<open>C13: Which buffer a new block gets. When no buffer holds the block, none is locked and at least one is not in use,
  \<open>getblk\<close> returns without sleeping. If some buffer is neither in use nor dirty it takes the first such one of the
  free list. Otherwise it takes the head of the free list, whether that buffer is in use or not. The buffer taken goes to
  the end of the free list, holds the block with a count of one and not up to date; no other buffer and nothing outside the
  cache changes.\<close>

theorem getblk_takes:
  fixes d :: u16
  assumes "cache_ok s xs" "d \<noteq> 0" "\<forall>c\<in>set xs. \<not> holds_block (ucast d) block s c"
    "\<forall>c\<in>set xs. b_lock (bhs s c) = 0" "\<exists>c\<in>set xs. b_count (bhs s c) = 0"
  defines "v \<equiv> (case find (clean_free s) xs of Some c \<Rightarrow> c | None \<Rightarrow> hd xs)"
  shows "\<exists>s'. getblk env (ucast d) block s = Some (Inr (v, s')) \<and> cache_ok s' (remove1 v xs @ [v]) \<and>
    core (bhs s' v) = core ((bhs s v)\<lparr>b_count := 1, b_dirt := 0, b_uptodate := 0, b_dev := d, b_blocknr := block\<rparr>) \<and>
    (\<forall>u. u \<noteq> v \<longrightarrow> core (bhs s' u) = core (bhs s u)) \<and> rest s' = rest s"
  unfolding v_def by (rule getblk_total [OF assms(1-5)])

text \<open>Both cases together: a block whose buffer, if it has one, nobody uses.\<close>

lemma wait_unlocked: "b_lock (bhs s b) = 0 \<Longrightarrow> wait_on_buffer env b s = Some (Inr s)"
  by (subst wait_on_buffer.simps) simp

lemma getblk_hit:
  fixes d :: u16
  assumes "cache_ok s xs" "d \<noteq> 0" "b \<in> set xs" "holds_block (ucast d) block s b" "b_lock (bhs s b) = 0"
  shows "getblk env (ucast d) block s = Some (Inr (b, upd_bh b (\<lambda>h. h\<lparr>b_count := b_count h + 1\<rparr>) s))"
proof -
  have f: "find_buffer (ucast d) block s = Some b" "b \<noteq> 0"
    using find_buffer_spec [OF assms(1,2), of block] assms(3,4) cache_ok_facts(2) [OF assms(1)] by auto
  let ?s = "upd_bh b (\<lambda>h. h\<lparr>b_count := b_count h + 1\<rparr>) s"
  have w: "wait_on_buffer env b ?s = Some (Inr ?s)" using assms(5) by (intro wait_unlocked) simp
  have h: "holds_block (ucast d) block ?s b" using assms(4) by (simp add: holds_block_def)
  have "get_hash_table env (ucast d) block s = Some (Inr (b, ?s))"
    by (subst get_hash_table.simps) (simp add: f w h)
  then show ?thesis by (subst getblk.simps) (simp add: f)
qed

lemma getblk_new:
  fixes d :: u16
  assumes ok: "cache_ok s xs" and d: "d \<noteq> 0" and unlocked: "\<forall>c\<in>set xs. b_lock (bhs s c) = 0"
    and clean: "\<exists>c\<in>set xs. clean_free s c" and free: "\<forall>c\<in>set xs. holds_block (ucast d) block s c \<longrightarrow> b_count (bhs s c) = 0"
  obtains b s' xs' where "getblk env (ucast d) block s = Some (Inr (b, s'))" "cache_ok s' xs'" "set xs' = set xs" "b \<in> set xs"
    "b_count (bhs s b) = 0" "b_count (bhs s' b) = 1" "b_lock (bhs s' b) = 0" "holds_block (ucast d) block s' b"
    "\<And>u. u \<noteq> b \<Longrightarrow> core (bhs s' u) = core (bhs s u)" "rest s' = rest s"
proof (cases "\<exists>b\<in>set xs. holds_block (ucast d) block s b")
  case True
  then obtain b where b: "b \<in> set xs" "holds_block (ucast d) block s b" by blast
  let ?s = "upd_bh b (\<lambda>h. h\<lparr>b_count := b_count h + 1\<rparr>) s"
  have "b_lock (bhs s b) = 0" "b_count (bhs s b) = 0" using unlocked free b by auto
  then show ?thesis using that [OF getblk_hit [OF ok d b] _ _ b(1), of xs] ok b by (simp add: holds_block_def)
next
  case False
  obtain v where v: "find (clean_free s) xs = Some v" "v \<in> set xs" "clean_free s v"
  proof -
    obtain v where "find (clean_free s) xs = Some v" using clean by (cases "find (clean_free s) xs") (auto simp: find_None_iff)
    moreover from this have "v \<in> set xs" "clean_free s v" by (metis find_Some_iff nth_mem)+
    ultimately show ?thesis using that by blast
  qed
  have "\<exists>c\<in>set xs. b_count (bhs s c) = 0" using clean by (auto simp: clean_free_def)
  then obtain s' where s': "getblk env (ucast d) block s = Some (Inr (v, s'))" "cache_ok s' (remove1 v xs @ [v])"
    "core (bhs s' v) = core ((bhs s v)\<lparr>b_count := 1, b_dirt := 0, b_uptodate := 0, b_dev := d, b_blocknr := block\<rparr>)"
    "\<forall>u. u \<noteq> v \<longrightarrow> core (bhs s' u) = core (bhs s u)" "rest s' = rest s"
    using getblk_total [OF ok d _ unlocked, of block env] False v(1) by auto
  have "set (remove1 v xs @ [v]) = set xs" using cache_ok_facts(1) [OF ok] v(2) by (auto simp: set_remove1_eq)
  moreover have "b_lock (bhs s v) = 0" "b_count (bhs s v) = 0" using unlocked v by (auto simp: clean_free_def)
  ultimately show ?thesis using that [OF s'(1,2) _ v(2)] core_fields [OF s'(3)] s'(4,5) by (simp add: holds_block_dev)
qed

lemma brelse_unlocked:
  assumes "b_lock (bhs s b) = 0" "b_count (bhs s b) \<noteq> 0" "b \<noteq> 0"
  shows "brelse env b s = Some (Inr (wake_fs (buffer_wait s) (upd_bh b (\<lambda>h. h\<lparr>b_count := b_count h - 1\<rparr>) s)))"
  using assms wait_unlocked [OF assms(1)] by (simp add: brelse_def)

section \<open>The cache at the start\<close>

lemma buffer_places_heads:
  "map fst (buffer_places h b) = map (\<lambda>i. h + 36 * of_nat i) [0..<length (buffer_places h b)] \<and>
     unat h + 36 * length (buffer_places h b) < 2 ^ 32"
proof (induction h b rule: buffer_places.induct)
  case (1 h b)
  show ?case
  proof (cases "b < 1024 \<or> b - 1024 < h + 36 \<or> h + 36 < h")
    case True
    then have "buffer_places h b = []" by (subst buffer_places.simps) simp
    moreover have "unat h < 2 ^ LENGTH(32)" by (rule unsigned_less)
    ultimately show ?thesis by simp
  next
    case False
    define b' where "b' = (if b - 1024 = 0x100000 then 0xA0000 else b - 1024)"
    have e: "buffer_places h b = (h, b - 1024) # buffer_places (h + 36) b'"
      using False by (subst buffer_places.simps) (simp add: b'_def)
    have h: "unat (h + 36) = unat h + 36" using False by (simp add: unat_plus_if' word_less_nat_alt split: if_splits)
    have IH: "map fst (buffer_places (h + 36) b') = map (\<lambda>i. h + 36 + 36 * of_nat i) [0..<length (buffer_places (h + 36) b')]"
      "unat (h + 36) + 36 * length (buffer_places (h + 36) b') < 2 ^ 32"
      using 1 False by (auto simp: b'_def)
    have "[0..<Suc n] = 0 # map Suc [0..<n]" for n by (simp add: upt_conv_Cons map_Suc_upt del: upt_Suc)
    then show ?thesis using IH h unfolding e by (simp add: algebra_simps del: upt_Suc)
  qed
qed

lemma init_heads:
  assumes "distinct (map fst ps)"
  shows "bhs (fold (\<lambda>(h, b). init_head h b) ps s) u =
      (case map_of ps u of None \<Rightarrow> bhs s u
       | Some b \<Rightarrow> (bhs s u)\<lparr>b_dev := 0, b_dirt := 0, b_count := 0, b_lock := 0, b_uptodate := 0, b_next := 0, b_prev := 0,
           b_data := map (\<lambda>i. phys (fm s) (b + of_nat i)) [0..<BLOCK_SIZE], b_prev_free := u - 36, b_next_free := u + 36\<rparr>)"
  using assms
proof (induction ps arbitrary: s)
  case (Cons p ps)
  obtain h b where p: "p = (h, b)" by fastforce
  have "fm (init_head h b s) = fm s" by (simp add: init_head_def)
  moreover have "h \<notin> fst ` set ps" using Cons.prems p by auto
  then have "map_of ps h = None" by (simp add: map_of_eq_None_iff)
  ultimately show ?case using Cons p by (auto simp: init_head_def split: option.splits)
qed simp

lemma links_arith:
  assumes "\<And>i. Suc i < n \<Longrightarrow> nf (p + 36 * of_nat i) = p + 36 * of_nat (Suc i)"
    "\<And>i. Suc i < n \<Longrightarrow> pf (p + 36 * of_nat (Suc i)) = p + 36 * of_nat i"
    "nf (p + 36 * of_nat (n - 1)) = p" "pf p = p + 36 * of_nat (n - 1)" "i < n"
  shows "links nf pf (p + 36 * of_nat i) (map (\<lambda>i. p + 36 * of_nat i) [Suc i..<n]) (p :: u32)"
  using assms(5)
proof (induction "n - i" arbitrary: i)
  case (Suc k)
  show ?case
  proof (cases "Suc i = n")
    case True
    then have "i = n - 1" by simp
    then show ?thesis using assms(3,4) by simp
  next
    case False
    then have "links nf pf (p + 36 * of_nat (Suc i)) (map (\<lambda>i. p + 36 * of_nat i) [Suc (Suc i)..<n]) p"
      using Suc by (intro Suc.hyps(1)) auto
    then show ?thesis using assms(1,2) [of i] False Suc.prems by (simp add: upt_conv_Cons del: upt_Suc of_nat_Suc)
  qed
qed simp

lemma buffer_init_ok:
  assumes "start \<noteq> 0" "2 \<le> length (buffer_places start (if buffer_end = 0x100000 then 640 * 1024 else buffer_end))"
  defines "n \<equiv> length (buffer_places start (if buffer_end = 0x100000 then 640 * 1024 else buffer_end))"
  defines "xs \<equiv> map (\<lambda>i. start + 36 * of_nat i) [0..<n]"
  shows "cache_ok (buffer_init start buffer_end s) xs"
    "b \<in> set xs \<Longrightarrow> b_count (bhs (buffer_init start buffer_end s) b) = 0 \<and> b_dirt (bhs (buffer_init start buffer_end s) b) = 0 \<and>
       b_lock (bhs (buffer_init start buffer_end s) b) = 0 \<and> b_dev (bhs (buffer_init start buffer_end s) b) = 0"
proof -
  let ?ps = "buffer_places start (if buffer_end = 0x100000 then 640 * 1024 else buffer_end)"
  let ?s1 = "fold (\<lambda>(h, b). init_head h b) ?ps s" and ?s = "buffer_init start buffer_end s"
  let ?last = "start + 36 * of_nat (n - 1)"
  have heads: "map fst ?ps = xs" and small: "unat start + 36 * n < 2 ^ 32"
    using buffer_places_heads [of start "if buffer_end = 0x100000 then 640 * 1024 else buffer_end"] by (simp_all add: xs_def n_def)
  have n2: "2 \<le> n" using assms(2) by (simp add: n_def)
  have un: "unat (start + 36 * of_nat i) = unat start + 36 * i" if "i < n" for i
    using unat_add_small [of start "36 * i"] small that by simp
  have inj: "i = j" if "i < n" "j < n" "start + 36 * of_nat i = start + 36 * of_nat j" for i j
  proof -
    have "unat start + 36 * i = unat start + 36 * j" using un [OF that(1)] un [OF that(2)] that(3) by metis
    then show ?thesis by simp
  qed
  have dist: "distinct xs" unfolding xs_def distinct_map using inj by (auto intro!: inj_onI simp del: add_left_cancel)
  have zero: "0 \<notin> set xs"
  proof
    assume "0 \<in> set xs"
    then obtain i where "i < n" "start + 36 * of_nat i = 0" by (auto simp: xs_def)
    then have "unat start = 0" using un [of i] by simp
    then show False using assms(1) by (simp add: unat_eq_zero)
  qed
  have hd: "start + 36 * of_nat n - 36 = ?last" using n2 by (cases n) (auto simp: algebra_simps)
  have B: "bhs ?s u = (bhs ?s1 u)\<lparr>b_prev_free := if u = start then ?last else b_prev_free (bhs ?s1 u),
      b_next_free := if u = ?last then start else b_next_free (bhs ?s1 u)\<rparr>" for u
    unfolding buffer_init_def Let_def n_def [symmetric] hd by simp
  have init: "u \<in> set xs \<Longrightarrow> \<exists>b. map_of ?ps u = Some b" for u
    unfolding heads [symmetric] by (cases "map_of ?ps u") (auto simp: map_of_eq_None_iff)
  have f: "b_prev_free (bhs ?s u) = (if u = start then ?last else u - 36) \<and> b_next_free (bhs ?s u) = (if u = ?last then start else u + 36) \<and>
     b_dev (bhs ?s u) = 0 \<and> b_next (bhs ?s u) = 0 \<and> b_prev (bhs ?s u) = 0 \<and> b_count (bhs ?s u) = 0 \<and> b_dirt (bhs ?s u) = 0 \<and>
     b_lock (bhs ?s u) = 0" if "u \<in> set xs" for u
    using init_heads [of ?ps s u] dist heads init [OF that] unfolding B by auto
  show "b \<in> set xs \<Longrightarrow> b_count (bhs ?s b) = 0 \<and> b_dirt (bhs ?s b) = 0 \<and> b_lock (bhs ?s b) = 0 \<and> b_dev (bhs ?s b) = 0"
    using f by blast
  have xs: "xs = start # map (\<lambda>i. start + 36 * of_nat i) [1..<n]"
    using n2 by (simp add: xs_def upt_conv_Cons)
  have el: "start + 36 * of_nat i \<in> set xs" if "i < n" for i using that by (auto simp: xs_def)
  have ne: "start + 36 * of_nat i \<noteq> ?last \<and> start + 36 * of_nat (Suc i) \<noteq> start" if "Suc i < n" for i
  proof
    show "start + 36 * of_nat i \<noteq> ?last" using inj [of i "n - 1"] that by fastforce
    show "start + 36 * of_nat (Suc i) \<noteq> start" using inj [of "Suc i" 0] that by fastforce
  qed
  have "links (\<lambda>u. b_next_free (bhs ?s u)) (\<lambda>u. b_prev_free (bhs ?s u)) (start + 36 * of_nat 0)
      (map (\<lambda>i. start + 36 * of_nat i) [Suc 0..<n]) start"
  proof (rule links_arith)
    fix i assume i: "Suc i < n"
    then show "b_next_free (bhs ?s (start + 36 * of_nat i)) = start + 36 * of_nat (Suc i)"
      using f [OF el, of i] ne [OF i] by simp
    show "b_prev_free (bhs ?s (start + 36 * of_nat (Suc i))) = start + 36 * of_nat i"
      using f [OF el, of "Suc i"] ne [OF i] i by (simp del: of_nat_Suc) (simp add: algebra_simps)
  next
    show "b_next_free (bhs ?s ?last) = start" using f [OF el, of "n - 1"] n2 by simp
    show "b_prev_free (bhs ?s start) = ?last" using f [OF el, of 0] n2 by simp
    show "0 < n" using n2 by simp
  qed
  then have "free_ring ?s xs" by (simp add: free_ring_def xs buffer_init_def Let_def)
  moreover have "hash_ok ?s (set xs)"
  proof -
    have "hash_table ?s = replicate NR_HASH 0" by (simp add: buffer_init_def Let_def)
    then have "hash_queue ?s (set xs) i []" if "i < NR_HASH" for i using that f by (auto simp: hash_queue_def)
    then show ?thesis using zero f \<open>hash_table ?s = _\<close> by (auto simp: hash_ok_def)
  qed
  moreover have "buffers ?s = xs" using heads by (simp add: buffer_init_def Let_def)
  ultimately show "cache_ok ?s xs" unfolding cache_ok_def using dist zero n2 f by (simp add: xs_def)
qed

text \<open>Two buffers.\<close>

definition cache0 :: fsys where
  "cache0 = buffer_init 0x200000 0x200C00 fs0"

lemma cache0_ok:
  "cache_ok cache0 [0x200000, 0x200024]" "set (buffers cache0) = {0x200000, 0x200024}"
  "b \<in> {0x200000, 0x200024} \<Longrightarrow> b_count (bhs cache0 b) = 0 \<and> b_dirt (bhs cache0 b) = 0 \<and> b_lock (bhs cache0 b) = 0 \<and>
     b_dev (bhs cache0 b) = 0"
proof -
  have p: "buffer_places 0x200000 0x200C00 = [(0x200000, 0x200800), (0x200024, 0x200400)]"
    by (simp add: buffer_places.simps)
  note i = buffer_init_ok [where start = "0x200000" and buffer_end = "0x200C00" and s = fs0, folded cache0_def]
  have xs: "map (\<lambda>i. 0x200000 + 36 * word_of_nat i) [0..<Suc (Suc 0)] = [0x200000 :: u32, 0x200024]" by simp
  show c: "cache_ok cache0 [0x200000, 0x200024]" using i(1) by (simp add: p xs)
  then show "set (buffers cache0) = {0x200000, 0x200024}" using cache_ok_facts(3) by fastforce
  show "b \<in> {0x200000, 0x200024} \<Longrightarrow> b_count (bhs cache0 b) = 0 \<and> b_dirt (bhs cache0 b) = 0 \<and> b_lock (bhs cache0 b) = 0 \<and>
     b_dev (bhs cache0 b) = 0"
    using i(2) [of b] by (simp add: p xs)
qed

lemma cache0_new: "\<forall>c\<in>set [0x200000, 0x200024]. \<not> holds_block (ucast (0x301 :: u16)) 5 cache0 c"
  using cache0_ok(3) by (auto simp: holds_block_def)

theorem getblk_takes_witness:
  "\<exists>s'. getblk env0 0x301 5 cache0 = Some (Inr (0x200000, s')) \<and> cache_ok s' [0x200024, 0x200000]"
  using getblk_takes [OF cache0_ok(1) _ cache0_new, of env0] cache0_ok(3) by (auto simp: clean_free_def BADNESS_def)

theorem getblk_keeps_cache_witness:
  "\<exists>b s'. getblk env0 0x301 5 cache0 = Some (Inr (b, s')) \<and> cached s' \<and> holds_block 0x301 5 s' b"
proof -
  obtain b s' where g: "getblk env0 (ucast (0x301 :: u16)) 5 cache0 = Some (Inr (b, s'))"
    using getblk_total [OF cache0_ok(1) _ cache0_new, of env0] cache0_ok(3) by fastforce
  moreover have "cached cache0" using cache0_ok(1) by (auto simp: cached_def)
  ultimately show ?thesis
    using getblk_keeps_cache [OF _ cache0_ok(2) _ _ g] by (auto simp: env_keeps_def env0_def)
qed

end
