(* ===== verification/Bitmap.thy ===== *)
theory Bitmap
  imports Buffer
begin

text \<open>
  The bitmaps of zones and i-nodes, \<open>fs/bitmap.c\<close>: finding, setting and clearing bits in the data of the
  buffers the super block holds, allocating and freeing a zone, freeing an i-node (\<open>new_inode\<close> is with the
  i-nodes, since it needs a free entry of their table).
\<close>

section \<open>Bits in a buffer\<close>

text \<open>The bit instructions with a memory operand address the bit \<open>nr mod 8\<close> of the byte \<open>nr div 8\<close>.\<close>

definition test_bit :: "nat \<Rightarrow> u8 list \<Rightarrow> bool" where
  "test_bit nr ds = bit (ds ! (nr div 8)) (nr mod 8)"

definition set_bit :: "nat \<Rightarrow> u8 list \<Rightarrow> bool \<times> u8 list" where
  "set_bit nr ds = (test_bit nr ds, ds[nr div 8 := ds ! (nr div 8) OR push_bit (nr mod 8) 1])"

definition clear_bit :: "nat \<Rightarrow> u8 list \<Rightarrow> bool \<times> u8 list" where
  "clear_bit nr ds = (\<not> test_bit nr ds, ds[nr div 8 := ds ! (nr div 8) AND NOT (push_bit (nr mod 8) 1)])"

text \<open>\<open>lodsl\<close> and \<open>bsfl\<close>.\<close>

definition long_at :: "u8 list \<Rightarrow> nat \<Rightarrow> u32" where
  "long_at ds i = ucast (ds ! i) OR push_bit 8 (ucast (ds ! (i + 1))) OR push_bit 16 (ucast (ds ! (i + 2)))
     OR push_bit 24 (ucast (ds ! (i + 3)))"

definition bsf :: "u32 \<Rightarrow> nat" where
  "bsf w = length (takeWhile (\<lambda>i. \<not> bit w i) [0..<32])"

fun zero_loop :: "u8 list \<Rightarrow> nat \<Rightarrow> nat \<Rightarrow> nat" where
  "zero_loop ds 0 ecx = ecx"
| "zero_loop ds (Suc n) ecx =
     (let eax = NOT (long_at ds (ecx div 8)) in
      if eax = 0 then zero_loop ds n (ecx + 32) else ecx + bsf eax)"

definition find_first_zero :: "u8 list \<Rightarrow> nat" where
  "find_first_zero ds = zero_loop ds 256 0"

text \<open>The search through the slots of a map: the index of the slot, its buffer and the bit.\<close>

fun map_scan :: "u32 list \<Rightarrow> nat \<Rightarrow> fsys \<Rightarrow> (nat \<times> u32 \<times> nat) option" where
  "map_scan [] i s = None"
| "map_scan (b # bs) i s =
     (if b \<noteq> 0 \<and> find_first_zero (b_data (bhs s b)) < 8192
      then Some (i, b, find_first_zero (b_data (bhs s b))) else map_scan bs (i + 1) s)"

section \<open>Zones\<close>

definition mark_bit :: "nat \<Rightarrow> u32 \<Rightarrow> fsys \<Rightarrow> fsys" where
  "mark_bit j b s = upd_bh b (\<lambda>h. h\<lparr>b_data := snd (set_bit j (b_data h)), b_dirt := 1\<rparr>) s"

text \<open>\<open>clear_block\<close> and the flags of a new block.\<close>

definition clear_block :: "u32 \<Rightarrow> fsys \<Rightarrow> fsys" where
  "clear_block b s = upd_bh b (\<lambda>h. h\<lparr>b_data := replicate BLOCK_SIZE 0, b_uptodate := 1, b_dirt := 1\<rparr>) s"

definition new_block :: "environment \<Rightarrow> u32 \<Rightarrow> fsys \<Rightarrow> (u32 \<times> fsys) kres option" where
  "new_block env dev s =
     (case map_scan (s_zmap (sb s)) 0 s of
        None \<Rightarrow> Some (Inr (0, s))
      | Some (i, b, j) \<Rightarrow>
          if fst (set_bit j (b_data (bhs s b))) then Some (Inl (Panic ''new_block: bit already set''))
          else
            let s = mark_bit j b s;
                zone = of_nat (j + i * 8192) + ucast (s_firstdatazone (sb s)) - 1
            in if ucast (s_nzones (sb s)) \<le>s zone then Some (Inr (0, s))
               else
                 obind (getblk env dev zone s) (\<lambda>(b, s).
                 if b = 0 then Some (Inl (Panic ''new_block: cannot get block''))
                 else if b_count (bhs s b) \<noteq> 1 then Some (Inl (Panic ''new block: count is != 1''))
                 else obind (brelse env b (clear_block b s)) (\<lambda>s. Some (Inr (zone, s)))))"

text \<open>The result is 1 when the block was freed, 0 when somebody else uses its buffer.\<close>

definition free_bit :: "u32 \<Rightarrow> fsys \<Rightarrow> (u32 \<times> fsys) kres" where
  "free_bit block s =
     (let nr = unat (block - (ucast (s_firstdatazone (sb s)) - 1));
          b = s_zmap (sb s) ! (nr div 8192)
      in if b = 0 then Inl NullDeref
         else if fst (clear_bit (nr mod 8192) (b_data (bhs s b))) then Inl (Panic ''free_block: bit already cleared'')
         else Inr (1, upd_bh b (\<lambda>h. h\<lparr>b_data := snd (clear_bit (nr mod 8192) (b_data h)), b_dirt := 1\<rparr>) s))"

definition free_block :: "environment \<Rightarrow> u32 \<Rightarrow> u32 \<Rightarrow> fsys \<Rightarrow> (u32 \<times> fsys) kres option" where
  "free_block env dev block s =
     (if block <s ucast (s_firstdatazone (sb s)) \<or> ucast (s_nzones (sb s)) \<le>s block
      then Some (Inl (Panic ''trying to free block not in datazone''))
      else
        obind (get_hash_table env dev block s) (\<lambda>(b, s).
        if b \<noteq> 0 \<and> 1 < b_count (bhs s b) then obind (brelse env b s) (\<lambda>s. Some (Inr (0, s)))
        else
          obind (if b = 0 then Some (Inr s)
                 else
                   let s = upd_bh b (\<lambda>h. h\<lparr>b_dirt := 0, b_uptodate := 0\<rparr>) s in
                   if b_count (bhs s b) \<noteq> 0 then brelse env b s else Some (Inr s)) (\<lambda>s.
          Some (free_bit block s))))"

section \<open>I-nodes\<close>

text \<open>\<open>memset(inode, 0, sizeof *inode)\<close> also empties the two wait queues inside the structure.\<close>

definition zero_inode :: "u32 \<Rightarrow> fsys \<Rightarrow> fsys" where
  "zero_inode p s = (upd_inode p (\<lambda>_. inode0) s)\<lparr>fw := (fw s)\<lparr>wq := (wq (fw s))(i_wait p := 0, i_wait2 p := 0)\<rparr>\<rparr>"

definition free_inode :: "u32 \<Rightarrow> fsys \<Rightarrow> fsys kres" where
  "free_inode p s =
     (let i = inodes s p; num = unat (i_num i) in
      if p = 0 then Inr s
      else if i_dev i = 0 then Inr (zero_inode p s)
      else if 1 < i_count i then Inl (Panic ''free_inode'')
      else if i_nlinks i \<noteq> 0 then Inl (Panic ''trying to free inode with links'')
      else if num < 1 \<or> unat (s_ninodes (sb s)) < num then Inl (Panic ''trying to free inode 0 or nonexistant inode'')
      else
        let b = s_imap (sb s) ! (num div 8192) in
        if b = 0 then Inl (Panic ''nonexistent imap in superblock'')
        else if fst (clear_bit (num mod 8192) (b_data (bhs s b))) then Inl (Panic ''free_inode: bit already cleared.'')
        else Inr (zero_inode p (upd_bh b (\<lambda>h. h\<lparr>b_data := snd (clear_bit (num mod 8192) (b_data h)), b_dirt := 1\<rparr>) s)))"

section \<open>Bits\<close>

lemma bit_index: "k = nr \<longleftrightarrow> k div 8 = nr div 8 \<and> k mod 8 = nr mod (8 :: nat)"
  by (metis div_mult_mod_eq)

lemma bit_power_byte: "bit (2 ^ (nr mod 8) :: u8) m \<longleftrightarrow> m = nr mod 8"
  using mod_less_divisor [of 8 nr] by (auto simp: bit_exp_iff possible_bit_word simp del: mod_less_divisor)

lemma test_set_bit:
  assumes "nr < 8 * length ds"
  shows "test_bit k (snd (set_bit nr ds)) \<longleftrightarrow> k = nr \<or> test_bit k ds"
proof -
  have "nr div 8 < length ds" using assms by linarith
  then show ?thesis
    by (cases "k div 8 = nr div 8") (simp_all add: set_bit_def test_bit_def bit_or_iff bit_power_byte bit_index [of k nr] disj_commute)
qed

lemma test_clear_bit:
  assumes "nr < 8 * length ds"
  shows "test_bit k (snd (clear_bit nr ds)) \<longleftrightarrow> k \<noteq> nr \<and> test_bit k ds"
proof -
  have "nr div 8 < length ds" using assms by linarith
  moreover have "bit (ds ! i) m \<Longrightarrow> m < 8" for i m by (rule bit_imp_le_length [where 'a = 8, simplified])
  ultimately show ?thesis
    by (cases "k div 8 = nr div 8") (auto simp add: clear_bit_def test_bit_def bit_and_iff bit_not_iff possible_bit_word bit_power_byte bit_index [of k nr])
qed

lemma length_bits [simp]: "length (snd (set_bit nr ds)) = length ds" "length (snd (clear_bit nr ds)) = length ds"
  by (simp_all add: set_bit_def clear_bit_def)

lemma bit_long_at:
  assumes "n < 32"
  shows "bit (long_at ds i) n = bit (ds ! (i + n div 8)) (n mod 8)"
proof -
  have small: "bit (ds ! k) m \<Longrightarrow> m < 8" for k m by (rule bit_imp_le_length [where 'a = 8, simplified])
  consider "n < 8" | "8 \<le> n" "n < 16" | "16 \<le> n" "n < 24" | "24 \<le> n" "n < 32" using assms by linarith
  then show ?thesis
  proof cases
    case 1
    then show ?thesis by (auto simp: long_at_def bit_simps)
  next
    case 2
    then have "n div 8 = 1" "n mod 8 = n - 8" by presburger+
    then show ?thesis using 2 small [of i n] by (auto simp: long_at_def bit_simps)
  next
    case 3
    then have "n div 8 = 2" "n mod 8 = n - 16" by presburger+
    then show ?thesis using 3 small [of i n] small [of "i + 1" "n - 8"] by (auto simp: long_at_def bit_simps)
  next
    case 4
    then have "n div 8 = 3" "n mod 8 = n - 24" by presburger+
    then show ?thesis using 4 small [of i n] small [of "i + 1" "n - 8"] small [of "i + 2" "n - 16"]
      by (auto simp: long_at_def bit_simps)
  qed
qed

lemma bsf_spec:
  assumes "w \<noteq> 0"
  shows "bsf w < 32 \<and> bit w (bsf w) \<and> (\<forall>i<bsf w. \<not> bit w i)"
proof -
  have "\<exists>n<32. bit w n"
  proof (rule ccontr)
    assume "\<not> (\<exists>n<32. bit w n)"
    then have "w = 0" by (intro bit_word_eqI) auto
    then show False using assms by simp
  qed
  then obtain n where n: "bit w n" "n < 32" by blast
  let ?t = "takeWhile (\<lambda>i. \<not> bit w i) [0..<32]"
  have "bsf w < length [0..<32]"
  proof (rule ccontr)
    assume "\<not> bsf w < length [0..<32]"
    then have "?t = [0..<32]" unfolding bsf_def by (metis length_takeWhile_le linorder_neqE_nat not_less takeWhile_eq_all_conv nth_equalityI takeWhile_nth order_antisym_conv)
    then have "\<forall>i\<in>set [0..<32]. \<not> bit w i" by (simp only: takeWhile_eq_all_conv)
    then show False using n by simp
  qed
  then have "bsf w < 32" "bit w ([0..<32] ! bsf w)" unfolding bsf_def
    using nth_length_takeWhile [of "\<lambda>i. \<not> bit w i" "[0..<32]"] by simp_all
  moreover have "\<not> bit w i" if "i < bsf w" for i
  proof -
    have "i < 32" using that \<open>bsf w < 32\<close> by simp
    have "?t ! i \<in> set ?t" using that unfolding bsf_def by (rule nth_mem)
    moreover have "?t ! i = i" using that \<open>i < 32\<close> unfolding bsf_def by (simp add: takeWhile_nth)
    ultimately show ?thesis using set_takeWhileD by fastforce
  qed
  ultimately show ?thesis by simp
qed

lemma zero_loop_spec:
  assumes "ecx mod 32 = 0" "\<forall>k<ecx. test_bit k ds"
  shows "zero_loop ds n ecx \<le> ecx + 32 * n \<and> (\<forall>k < zero_loop ds n ecx. test_bit k ds) \<and>
    (zero_loop ds n ecx < ecx + 32 * n \<longrightarrow> \<not> test_bit (zero_loop ds n ecx) ds)"
  using assms
proof (induction ds n ecx rule: zero_loop.induct)
  case (2 ds n ecx)
  define eax where "eax = NOT (long_at ds (ecx div 8))"
  have b: "bit eax i = (\<not> test_bit (ecx + i) ds)" if "i < 32" for i
  proof -
    have "(ecx + i) div 8 = ecx div 8 + i div 8" "(ecx + i) mod 8 = i mod 8"
    proof -
      have "ecx = 8 * (4 * (ecx div 32))" using 2(2) mult_div_mod_eq [of 32 ecx] by simp
      then obtain m where "ecx = 8 * m" by blast
      then show "(ecx + i) div 8 = ecx div 8 + i div 8" "(ecx + i) mod 8 = i mod 8" by simp_all
    qed
    then show ?thesis using that by (simp add: eax_def bit_not_iff bit_long_at test_bit_def)
  qed
  show ?case
  proof (cases "eax = 0")
    case True
    have "\<forall>k<ecx + 32. test_bit k ds"
    proof (intro allI impI)
      fix k assume "k < ecx + 32"
      then show "test_bit k ds" using 2(3) b [of "k - ecx"] True by (cases "k < ecx") auto
    qed
    moreover have "(ecx + 32) mod 32 = 0" using 2(2) by simp
    ultimately show ?thesis using 2(1) [OF eax_def True] True by (simp add: flip: eax_def)
  next
    case False
    note w = bsf_spec [OF False]
    have "test_bit k ds" if "k < ecx + bsf eax" for k
      using that 2(3) w b [of "k - ecx"] by (cases "k < ecx") auto
    then show ?thesis using False w b [of "bsf eax"] by (auto simp flip: eax_def)
  qed
qed simp

lemma find_first_zero_spec:
  "find_first_zero ds \<le> 8192 \<and> (\<forall>k < find_first_zero ds. test_bit k ds) \<and>
     (find_first_zero ds < 8192 \<longrightarrow> \<not> test_bit (find_first_zero ds) ds)"
  using zero_loop_spec [of 0 ds 256] by (simp add: find_first_zero_def)

lemma map_scan_None:
  "map_scan zs i s = None \<longleftrightarrow> (\<forall>m<length zs. zs ! m \<noteq> 0 \<longrightarrow> (\<forall>j<8192. test_bit j (b_data (bhs s (zs ! m)))))"
proof (induction zs arbitrary: i)
  case (Cons b bs)
  have "find_first_zero ds < 8192 \<longleftrightarrow> \<not> (\<forall>j<8192. test_bit j ds)" for ds
    using find_first_zero_spec [of ds] by (metis le_neq_implies_less)
  then show ?case using Cons by (auto simp: less_Suc_eq_0_disj)
qed simp

lemma map_scan_Some:
  "map_scan zs i s = Some (i', b, j) \<Longrightarrow> \<exists>m<length zs. i' = i + m \<and> b = zs ! m \<and> b \<noteq> 0 \<and> j < 8192 \<and>
     \<not> test_bit j (b_data (bhs s b)) \<and> (\<forall>j'<j. test_bit j' (b_data (bhs s b))) \<and>
     (\<forall>m'<m. zs ! m' \<noteq> 0 \<longrightarrow> (\<forall>j<8192. test_bit j (b_data (bhs s (zs ! m')))))"
proof (induction zs arbitrary: i)
  case (Cons c cs)
  let ?f = "find_first_zero (b_data (bhs s c))"
  show ?case
  proof (cases "c \<noteq> 0 \<and> ?f < 8192")
    case True
    then show ?thesis using Cons.prems find_first_zero_spec [of "b_data (bhs s c)"] by (intro exI [of _ 0]) auto
  next
    case False
    then have c: "c \<noteq> 0 \<longrightarrow> (\<forall>j<8192. test_bit j (b_data (bhs s c)))"
      using find_first_zero_spec [of "b_data (bhs s c)"] by auto
    obtain m where "m < length cs" "i' = i + 1 + m" "b = cs ! m" "b \<noteq> 0" "j < 8192" "\<not> test_bit j (b_data (bhs s b))"
      "\<forall>j'<j. test_bit j' (b_data (bhs s b))"
      "\<forall>m'<m. cs ! m' \<noteq> 0 \<longrightarrow> (\<forall>j<8192. test_bit j (b_data (bhs s (cs ! m'))))"
      using Cons.IH [of "i + 1"] Cons.prems False by auto
    then show ?thesis using c by (intro exI [of _ "Suc m"]) (auto simp: less_Suc_eq_0_disj)
  qed
qed simp

section \<open>Allocating a zone\<close>

text \<open>Bit \<open>k\<close> of the zone map, and the bits that are free.\<close>

definition zmap_bit :: "fsys \<Rightarrow> nat \<Rightarrow> bool" where
  "zmap_bit s k = test_bit (k mod 8192) (b_data (bhs s (s_zmap (sb s) ! (k div 8192))))"

definition free_bits :: "fsys \<Rightarrow> nat set" where
  "free_bits s = {k. k < 65536 \<and> s_zmap (sb s) ! (k div 8192) \<noteq> 0 \<and> \<not> zmap_bit s k}"

definition zone_of :: "fsys \<Rightarrow> nat \<Rightarrow> nat" where
  "zone_of s k = k + unat (s_firstdatazone (sb s)) - 1"

text \<open>The buffers of the map are in the cache, in use, whole and different from each other.\<close>

definition zmap_ok :: "fsys \<Rightarrow> u32 list \<Rightarrow> bool" where
  "zmap_ok s xs \<longleftrightarrow> length (s_zmap (sb s)) = 8 \<and>
     (\<forall>i<8. s_zmap (sb s) ! i \<noteq> 0 \<longrightarrow> s_zmap (sb s) ! i \<in> set xs \<and> b_count (bhs s (s_zmap (sb s) ! i)) \<noteq> 0 \<and>
        length (b_data (bhs s (s_zmap (sb s) ! i))) = BLOCK_SIZE \<and>
        (\<forall>j<8. s_zmap (sb s) ! j = s_zmap (sb s) ! i \<longrightarrow> i = j))"

lemma free_bits_scan:
  assumes "length (s_zmap (sb s)) = 8"
  shows "map_scan (s_zmap (sb s)) 0 s = None \<longleftrightarrow> free_bits s = {}"
    "map_scan (s_zmap (sb s)) 0 s = Some (i, b, j) \<Longrightarrow> i < 8 \<and> b = s_zmap (sb s) ! i \<and> b \<noteq> 0 \<and> j < 8192 \<and>
       \<not> test_bit j (b_data (bhs s b)) \<and> Min (free_bits s) = j + i * 8192 \<and> j + i * 8192 \<in> free_bits s"
proof -
  have fin: "finite (free_bits s)" by (rule finite_subset [of _ "{..<65536}"]) (auto simp: free_bits_def)
  show "map_scan (s_zmap (sb s)) 0 s = None \<longleftrightarrow> free_bits s = {}"
  proof
    assume n: "map_scan (s_zmap (sb s)) 0 s = None"
    show "free_bits s = {}"
    proof (rule ccontr)
      assume "free_bits s \<noteq> {}"
      then obtain k where k: "k < 65536" "s_zmap (sb s) ! (k div 8192) \<noteq> 0" "\<not> zmap_bit s k" by (auto simp: free_bits_def)
      moreover have "k div 8192 < 8" using k(1) by linarith
      ultimately show False using n assms unfolding map_scan_None zmap_bit_def by auto
    qed
  next
    assume e: "free_bits s = {}"
    show "map_scan (s_zmap (sb s)) 0 s = None" unfolding map_scan_None assms
    proof (intro allI impI)
      fix m j :: nat assume m: "m < 8" "s_zmap (sb s) ! m \<noteq> 0" "j < 8192"
      have "m * 8192 + j \<notin> free_bits s" using e by simp
      then show "test_bit j (b_data (bhs s (s_zmap (sb s) ! m)))" using m by (auto simp: free_bits_def zmap_bit_def)
    qed
  qed
  assume "map_scan (s_zmap (sb s)) 0 s = Some (i, b, j)"
  from map_scan_Some [OF this] have m: "i < 8" "b = s_zmap (sb s) ! i" "b \<noteq> 0" "j < 8192" "\<not> test_bit j (b_data (bhs s b))"
    "\<forall>j'<j. test_bit j' (b_data (bhs s b))"
    "\<forall>m'<i. s_zmap (sb s) ! m' \<noteq> 0 \<longrightarrow> (\<forall>j<8192. test_bit j (b_data (bhs s (s_zmap (sb s) ! m'))))"
    using assms by auto
  have k: "j + i * 8192 \<in> free_bits s" using m by (auto simp: free_bits_def zmap_bit_def)
  have "j + i * 8192 \<le> k" if "k \<in> free_bits s" for k
  proof (rule ccontr)
    assume "\<not> j + i * 8192 \<le> k"
    moreover have "8192 * (k div 8192) + k mod 8192 = k" "k mod 8192 < 8192" by simp_all
    ultimately have "k div 8192 < i \<or> k div 8192 = i \<and> k mod 8192 < j" using m(4) by (cases "k div 8192" i rule: linorder_cases) auto
    then consider "k div 8192 < i" | "k div 8192 = i" "k mod 8192 < j" by blast
    then show False
    proof cases
      case 1
      then show ?thesis using m(7) that by (auto simp: free_bits_def zmap_bit_def)
    next
      case 2
      then show ?thesis using m(2,6) that by (auto simp: free_bits_def zmap_bit_def)
    qed
  qed
  then have "Min (free_bits s) = j + i * 8192" using fin k by (intro Min_eqI) auto
  then show "i < 8 \<and> b = s_zmap (sb s) ! i \<and> b \<noteq> 0 \<and> j < 8192 \<and>
       \<not> test_bit j (b_data (bhs s b)) \<and> Min (free_bits s) = j + i * 8192 \<and> j + i * 8192 \<in> free_bits s"
    using m k by blast
qed

lemma zmap_bit_core:
  assumes "sb s' = sb s" "\<And>i. i < 8 \<Longrightarrow> s_zmap (sb s) ! i \<noteq> 0 \<Longrightarrow> b_data (bhs s' (s_zmap (sb s) ! i)) = b_data (bhs s (s_zmap (sb s) ! i))"
    "k < 65536" "s_zmap (sb s) ! (k div 8192) \<noteq> 0"
  shows "zmap_bit s' k = zmap_bit s k"
proof -
  have "k div 8192 < 8" using assms(3) by linarith
  then show ?thesis using assms by (simp add: zmap_bit_def)
qed

lemma zmap_bit_mark:
  assumes "zmap_ok s xs" "i < 8" "s_zmap (sb s) ! i \<noteq> 0" "j < 8192" "k < 65536" "s_zmap (sb s) ! (k div 8192) \<noteq> 0"
  shows "zmap_bit (mark_bit j (s_zmap (sb s) ! i) s) k \<longleftrightarrow> k = j + i * 8192 \<or> zmap_bit s k"
proof -
  have k: "k div 8192 < 8" "8192 * (k div 8192) + k mod 8192 = k" using assms(5) by (linarith, simp)
  have l: "length (b_data (bhs s (s_zmap (sb s) ! i))) = 1024"
    and inj: "s_zmap (sb s) ! (k div 8192) = s_zmap (sb s) ! i \<longleftrightarrow> i = k div 8192"
    using assms k(1) by (auto simp: zmap_ok_def BLOCK_SIZE_def)
  show ?thesis
  proof (cases "k div 8192 = i")
    case True
    then have "k = j + i * 8192 \<longleftrightarrow> k mod 8192 = j" using k(2) by linarith
    then show ?thesis using True l assms(4) by (simp add: zmap_bit_def mark_bit_def test_set_bit)
  next
    case False
    then have "k \<noteq> j + i * 8192" using assms(4) by auto
    then show ?thesis using False inj by (simp add: zmap_bit_def mark_bit_def)
  qed
qed

lemma cache_ok_mark [simp]:
  "cache_ok (mark_bit j b s) xs = cache_ok s xs" "cache_ok (clear_block b s) xs = cache_ok s xs"
  by (rule cache_ok_cong; simp add: mark_bit_def clear_block_def)+

lemma zone_word:
  assumes "k < 65536" "0 < k"
  shows "unat (of_nat k + ucast (f :: u16) - 1 :: u32) = k + unat f - 1"
    "ucast (n :: u16) \<le>s (of_nat k + ucast f - 1 :: u32) \<longleftrightarrow> unat n \<le> k + unat f - 1"
    "of_nat k + ucast f - 1 = (of_nat (k + unat f - 1) :: u32)"
proof -
  have f: "unat f < 65536" "unat n < 65536" using unsigned_less [of f, where 'a = nat] unsigned_less [of n, where 'a = nat] by simp_all
  have e: "of_nat k + ucast f - 1 = (of_nat (k + unat f - 1) :: u32)"
    using assms(2) by (simp add: of_nat_diff unsigned_ucast_eq)
  show "of_nat k + ucast f - 1 = (of_nat (k + unat f - 1) :: u32)" by (rule e)
  show "unat (of_nat k + ucast f - 1 :: u32) = k + unat f - 1" unfolding e using assms f by (intro unat_of_nat_small) simp
  have s1: "sint (of_nat (k + unat f - 1) :: u32) = int (k + unat f - 1)" using assms f by (intro sint_of_nat_small) simp
  have s2: "sint (ucast n :: u32) = int (unat n)"
    using sint_of_nat_small [of "unat n", where 'a = 32] f by simp
  show "ucast n \<le>s (of_nat k + ucast f - 1 :: u32) \<longleftrightarrow> unat n \<le> k + unat f - 1"
    unfolding e word_sle_eq s1 s2 by (rule of_nat_le_iff)
qed

text \<open>C7: Allocating a zone. The buffers of the zone map being in the cache and in use, with no buffer locked, one
  clean buffer free and no buffer of a free zone in use, \<open>new_block\<close> returns without sleeping. With no bit free
  it returns 0 and changes nothing. Otherwise it sets the first free bit, and no other. A bit that stands for a zone
  beyond the device it leaves set and returns 0. Else it returns the zone, which a buffer of the cache now holds,
  zeroed, up to date, dirty and not in use; the cache stays in order.\<close>

theorem new_block_allocates:
  fixes d :: u16
  assumes ok: "cache_ok s xs" "zmap_ok s xs" and d: "d \<noteq> 0" and unlocked: "\<forall>c\<in>set xs. b_lock (bhs s c) = 0"
    and clean: "\<exists>c\<in>set xs. clean_free s c" and zero: "0 \<notin> free_bits s"
    and free: "\<forall>k\<in>free_bits s. \<forall>c\<in>set xs. holds_block (ucast d) (of_nat (zone_of s k)) s c \<longrightarrow> b_count (bhs s c) = 0"
  defines "k \<equiv> Min (free_bits s)"
  shows "if free_bits s = {} then new_block env (ucast d) s = Some (Inr (0, s))
    else \<exists>z s'. new_block env (ucast d) s = Some (Inr (z, s')) \<and> k \<in> free_bits s \<and> cached s' \<and>
      free_bits s' = free_bits s - {k} \<and>
      (if unat (s_nzones (sb s)) \<le> zone_of s k then z = 0
       else unat z = zone_of s k \<and>
         (\<exists>b\<in>set xs. holds_block (ucast d) z s' b \<and> b_data (bhs s' b) = replicate BLOCK_SIZE 0 \<and> b_uptodate (bhs s' b) = 1 \<and>
            b_dirt (bhs s' b) = 1 \<and> b_count (bhs s' b) = 0))"
proof (cases "map_scan (s_zmap (sb s)) 0 s")
  case None
  have len: "length (s_zmap (sb s)) = 8" using ok(2) by (simp add: zmap_ok_def)
  then show ?thesis using None free_bits_scan(1) [OF len] by (simp add: new_block_def)
next
  case (Some r)
  have len: "length (s_zmap (sb s)) = 8" using ok(2) by (simp add: zmap_ok_def)
  obtain i bm j where r: "r = (i, bm, j)" by (cases r)
  note sc = free_bits_scan(2) [OF len Some [unfolded r]]
  have k: "k = j + i * 8192" "k \<in> free_bits s" "0 < k" "k < 65536" and bm: "bm = s_zmap (sb s) ! i" "bm \<noteq> 0" "i < 8" "j < 8192"
    using sc zero by (auto simp: k_def free_bits_def intro: Suc_leI) (metis gr0I)
  have bmx: "bm \<in> set xs" "b_count (bhs s bm) \<noteq> 0" using ok(2) bm by (auto simp: zmap_ok_def)
  define s1 where "s1 = mark_bit j bm s"
  define z where "z = (of_nat (j + i * 8192) + ucast (s_firstdatazone (sb s)) - 1 :: u32)"
  have z: "unat z = zone_of s k" "ucast (s_nzones (sb s)) \<le>s z \<longleftrightarrow> unat (s_nzones (sb s)) \<le> zone_of s k"
    "z = of_nat (zone_of s k)"
    using zone_word(1) [OF k(4,3), where f = "s_firstdatazone (sb s)"]
      zone_word(2) [OF k(4,3), where f = "s_firstdatazone (sb s)" and n = "s_nzones (sb s)"]
      zone_word(3) [OF k(4,3), where f = "s_firstdatazone (sb s)"] unfolding z_def zone_of_def k(1) [symmetric] by blast+
  have bits1: "free_bits s1 = free_bits s - {k}"
    using zmap_bit_mark [OF ok(2) bm(3) _ bm(4)] bm k(1) by (auto simp: free_bits_def s1_def mark_bit_def)
  have run: "new_block env (ucast d) s = (if unat (s_nzones (sb s)) \<le> zone_of s k then Some (Inr (0, s1)) else
      obind (getblk env (ucast d) z s1) (\<lambda>(b, s).
        if b = 0 then Some (Inl (Panic ''new_block: cannot get block''))
        else if b_count (bhs s b) \<noteq> 1 then Some (Inl (Panic ''new block: count is != 1''))
        else obind (brelse env b (clear_block b s)) (\<lambda>s. Some (Inr (z, s)))))"
  proof -
    have sbm: "sb (mark_bit j bm s) = sb s" by (simp add: mark_bit_def)
    have nt: "\<not> fst (set_bit j (b_data (bhs s bm)))" using sc unfolding set_bit_def fst_conv by blast
    show ?thesis
      unfolding new_block_def z(2) [symmetric] s1_def Some r option.case prod.case Let_def z_def sbm if_not_P [OF nt] by (rule refl)
  qed
  have c1: "cache_ok s1 xs" using ok(1) by (simp add: s1_def)
  show ?thesis
  proof (cases "unat (s_nzones (sb s)) \<le> zone_of s k")
    case True
    then show ?thesis using run bits1 k(2) c1 by (auto simp: cached_def)
  next
    case False
    have f1: "b_count (bhs s1 u) = b_count (bhs s u)" "b_lock (bhs s1 u) = b_lock (bhs s u)"
      "b_dev (bhs s1 u) = b_dev (bhs s u)" "b_blocknr (bhs s1 u) = b_blocknr (bhs s u)" "u \<noteq> bm \<Longrightarrow> bhs s1 u = bhs s u" for u
      by (simp_all add: s1_def mark_bit_def)
    have clean1: "\<exists>c\<in>set xs. clean_free s1 c"
      using clean bmx f1(5) by (metis clean_free_def)
    have u1: "\<forall>c\<in>set xs. b_lock (bhs s1 c) = 0" using unlocked f1(2) by simp
    have fr1: "\<forall>c\<in>set xs. holds_block (ucast d) z s1 c \<longrightarrow> b_count (bhs s1 c) = 0"
      using free k(2) z(3) f1(1,3,4) by (simp add: holds_block_dev)
    obtain b s2 ys where g: "getblk env (ucast d) z s1 = Some (Inr (b, s2))" "cache_ok s2 ys" "set ys = set xs" "b \<in> set xs"
      "b_count (bhs s1 b) = 0" "b_count (bhs s2 b) = 1" "b_lock (bhs s2 b) = 0" "holds_block (ucast d) z s2 b"
      "\<And>u. u \<noteq> b \<Longrightarrow> core (bhs s2 u) = core (bhs s1 u)" "rest s2 = rest s1"
      by (rule getblk_new [OF c1 d u1 clean1 fr1, of env], rule that)
    have b0: "b \<noteq> 0" using cache_ok_facts(2) [OF ok(1)] g(4) by auto
    define s3 where "s3 = wake_fs (buffer_wait (clear_block b s2)) (upd_bh b (\<lambda>h. h\<lparr>b_count := b_count h - 1\<rparr>) (clear_block b s2))"
    have "brelse env b (clear_block b s2) = Some (Inr s3)"
      unfolding s3_def by (rule brelse_unlocked) (use g b0 in \<open>simp_all add: clear_block_def\<close>)
    then have "new_block env (ucast d) s = Some (Inr (z, s3))" using run False g b0 by simp
    moreover have "cached s3" using g(2) by (auto simp: s3_def cached_def)
    moreover have "free_bits s3 = free_bits s - {k}"
    proof -
      have sb: "sb s3 = sb s1" "sb s1 = sb s" using rest_fields(22) [OF g(10)] by (simp_all add: s3_def clear_block_def s1_def mark_bit_def)
      have "b_data (bhs s3 (s_zmap (sb s1) ! i)) = b_data (bhs s1 (s_zmap (sb s1) ! i))" if "i < 8" "s_zmap (sb s1) ! i \<noteq> 0" for i
      proof -
        have "s_zmap (sb s) ! i \<noteq> b" using ok(2) that g(5) f1 sb by (auto simp: zmap_ok_def)
        then show ?thesis using core_fields [OF g(9)] sb by (simp add: s3_def clear_block_def)
      qed
      then have "free_bits s3 = free_bits s1" using zmap_bit_core [OF sb(1)] sb(1) by (auto simp: free_bits_def)
      then show ?thesis using bits1 by simp
    qed
    moreover have "holds_block (ucast d) z s3 b" using g(8) by (simp add: s3_def clear_block_def holds_block_def)
    moreover have "b_data (bhs s3 b) = replicate BLOCK_SIZE 0 \<and> b_uptodate (bhs s3 b) = 1 \<and> b_dirt (bhs s3 b) = 1 \<and> b_count (bhs s3 b) = 0"
      using g(6) by (simp add: s3_def clear_block_def)
    ultimately show ?thesis using False z(1) k(2) g(4) by auto
  qed
qed

section \<open>Freeing a zone\<close>

lemma get_hash_table_miss:
  fixes d :: u16
  assumes "cache_ok s xs" "d \<noteq> 0" "\<forall>c\<in>set xs. \<not> holds_block (ucast d) block s c"
  shows "get_hash_table env (ucast d) block s = Some (Inr (0, s))"
  using find_buffer_spec [OF assms(1,2), of block] assms(3) by (subst get_hash_table.simps) auto

lemma get_hash_table_hit:
  fixes d :: u16
  assumes "cache_ok s xs" "d \<noteq> 0" "b \<in> set xs" "holds_block (ucast d) block s b" "b_lock (bhs s b) = 0"
  shows "get_hash_table env (ucast d) block s = Some (Inr (b, upd_bh b (\<lambda>h. h\<lparr>b_count := b_count h + 1\<rparr>) s))"
proof -
  have f: "find_buffer (ucast d) block s = Some b" "b \<noteq> 0"
    using find_buffer_spec [OF assms(1,2), of block] assms(3,4) cache_ok_facts(2) [OF assms(1)] by auto
  let ?s = "upd_bh b (\<lambda>h. h\<lparr>b_count := b_count h + 1\<rparr>) s"
  have w: "wait_on_buffer env b ?s = Some (Inr ?s)" using assms(5) by (intro wait_unlocked) simp
  have h: "holds_block (ucast d) block ?s b" using assms(4) by (simp add: holds_block_def)
  show ?thesis by (subst get_hash_table.simps) (simp add: f w h)
qed

lemma unat_ucast16: "unat (ucast (w :: u16) :: u32) = unat w"
  using unsigned_less [of w, where 'a = nat] by (simp add: unsigned_ucast_eq take_bit_nat_eq_self)

lemma count_up: "(c :: u8) \<noteq> 0 \<Longrightarrow> c + 1 \<noteq> 0 \<Longrightarrow> 1 < c + 1"
  using unatSuc [of c] by (simp add: word_less_nat_alt add.commute unat_gt_0)

definition zone_bit :: "fsys \<Rightarrow> u32 \<Rightarrow> nat" where
  "zone_bit s z = unat z - unat (s_firstdatazone (sb s)) + 1"

lemma free_bit_spec:
  assumes "zmap_ok s xs" "unat z < unat (s_nzones (sb s))" "unat (s_firstdatazone (sb s)) \<le> unat z" "0 < unat (s_firstdatazone (sb s))"
    "s_zmap (sb s) ! (zone_bit s z div 8192) \<noteq> 0"
  defines "k \<equiv> zone_bit s z"
  shows "if zmap_bit s k then \<exists>s'. free_bit z s = Inr (1, s') \<and> free_bits s' = insert k (free_bits s) \<and>
        (\<forall>u. u \<noteq> s_zmap (sb s) ! (k div 8192) \<longrightarrow> bhs s' u = bhs s u) \<and> (\<forall>xs. cache_ok s' xs = cache_ok s xs)
      else free_bit z s = Inl (Panic ''free_block: bit already cleared'')"
proof -
  let ?f = "s_firstdatazone (sb s)"
  let ?b = "s_zmap (sb s) ! (k div 8192)"
  have small: "unat (s_nzones (sb s)) < 65536" using unsigned_less [of "s_nzones (sb s)", where 'a = nat] by simp
  have k: "k < 65536" using assms(2,3,4) small by (simp add: k_def zone_bit_def)
  have i: "k div 8192 < 8" using k by linarith
  have u: "unat (z - (ucast ?f - 1)) = k"
  proof -
    have f: "unat (ucast ?f :: u32) = unat ?f" by (rule unat_ucast16)
    have "unat (ucast ?f - 1 :: u32) = unat ?f - 1" using f assms(4) by (simp add: unat_sub_if')
    then have "unat (z - (ucast ?f - 1)) = unat z - (unat ?f - 1)" using assms(3) by (simp add: unat_sub_if' [of z])
    then show ?thesis using assms(3,4) by (simp add: k_def zone_bit_def)
  qed
  have b: "?b \<noteq> 0" "length (b_data (bhs s ?b)) = 1024" "\<And>j. j < 8 \<Longrightarrow> s_zmap (sb s) ! j = ?b \<longleftrightarrow> j = k div 8192"
    using assms(1,5) i by (auto simp: zmap_ok_def BLOCK_SIZE_def k_def)
  show ?thesis
  proof (cases "zmap_bit s k")
    case True
    define s' where "s' = upd_bh ?b (\<lambda>h. h\<lparr>b_data := snd (clear_bit (k mod 8192) (b_data h)), b_dirt := 1\<rparr>) s"
    have "free_bit z s = Inr (1, s')"
      using True b(1) by (simp add: free_bit_def u Let_def s'_def zmap_bit_def clear_bit_def)
    moreover have "free_bits s' = insert k (free_bits s)"
    proof -
      have "zmap_bit s' m \<longleftrightarrow> m \<noteq> k \<and> zmap_bit s m" if "m < 65536" for m
      proof (cases "m div 8192 = k div 8192")
        case True
        then have "m = k \<longleftrightarrow> m mod 8192 = k mod 8192" by (metis div_mult_mod_eq)
        then show ?thesis using True b(2) by (simp add: zmap_bit_def s'_def test_clear_bit)
      next
        case False
        have "m div 8192 < 8" using that by linarith
        then have "s_zmap (sb s) ! (m div 8192) \<noteq> ?b" using b(3) False by blast
        then show ?thesis using False by (auto simp: zmap_bit_def s'_def)
      qed
      then show ?thesis using k b(1) by (auto simp: free_bits_def s'_def)
    qed
    moreover have "cache_ok s' ys = cache_ok s ys" for ys by (rule cache_ok_cong; simp add: s'_def)
    moreover have "\<forall>u. u \<noteq> ?b \<longrightarrow> bhs s' u = bhs s u" by (simp add: s'_def)
    ultimately show ?thesis using True by auto
  next
    case False
    then show ?thesis using b(1) by (simp add: free_bit_def u Let_def zmap_bit_def clear_bit_def)
  qed
qed

text \<open>C14: Freeing a zone, with no buffer locked. A zone outside the data zones is a panic. If a buffer holds the block and
  is in use, nothing is freed and 0 is returned. Otherwise a zone whose bit is not set is a panic; one whose bit is set is
  freed: the bits that are free are those before and this one, and the result is 1. A buffer that holds the block is left
  neither dirty nor up to date, so that its contents are never written.\<close>

theorem free_block_frees:
  fixes d :: u16
  assumes ok: "cache_ok s xs" "zmap_ok s xs" and d: "d \<noteq> 0" and unlocked: "\<forall>c\<in>set xs. b_lock (bhs s c) = 0"
    and fdz: "0 < unat (s_firstdatazone (sb s))" and z: "unat z < 2 ^ 31"
    and slot: "s_zmap (sb s) ! (zone_bit s z div 8192) \<noteq> 0"
    and few: "\<forall>c\<in>set xs. b_count (bhs s c) \<noteq> 255"
    and apart: "\<forall>i<8. s_zmap (sb s) ! i \<noteq> 0 \<longrightarrow> \<not> holds_block (ucast d) z s (s_zmap (sb s) ! i)"
  shows "if unat z < unat (s_firstdatazone (sb s)) \<or> unat (s_nzones (sb s)) \<le> unat z
    then free_block env (ucast d) z s = Some (Inl (Panic ''trying to free block not in datazone''))
    else if \<exists>b\<in>set xs. holds_block (ucast d) z s b \<and> b_count (bhs s b) \<noteq> 0
    then \<exists>s'. free_block env (ucast d) z s = Some (Inr (0, s')) \<and> free_bits s' = free_bits s \<and> cache_ok s' xs
    else if \<not> zmap_bit s (zone_bit s z)
    then free_block env (ucast d) z s = Some (Inl (Panic ''free_block: bit already cleared''))
    else \<exists>s'. free_block env (ucast d) z s = Some (Inr (1, s')) \<and> free_bits s' = insert (zone_bit s z) (free_bits s) \<and>
      cache_ok s' xs \<and> (\<forall>b\<in>set xs. holds_block (ucast d) z s b \<longrightarrow> b_dirt (bhs s' b) = 0 \<and> b_uptodate (bhs s' b) = 0)"
proof -
  let ?f = "s_firstdatazone (sb s)" and ?n = "s_nzones (sb s)"
  have sz: "sint z = int (unat z)" using z sint_of_nat_small [of "unat z", where 'a = 32] by simp
  have s16: "sint (ucast w :: u32) = int (unat w)" for w :: u16
    using sint_of_nat_small [of "unat w", where 'a = 32] unsigned_less [of w, where 'a = nat] by simp
  have range: "z <s ucast ?f \<or> ucast ?n \<le>s z \<longleftrightarrow> unat z < unat ?f \<or> unat ?n \<le> unat z"
    unfolding word_sless_alt word_sle_eq sz s16 of_nat_less_iff of_nat_le_iff ..
  show ?thesis
  proof (cases "unat z < unat ?f \<or> unat ?n \<le> unat z")
    case True
    then show ?thesis by (simp add: free_block_def range)
  next
    case inr: False
    have fb: "free_block env (ucast d) z s = obind (get_hash_table env (ucast d) z s) (\<lambda>(b, s).
        if b \<noteq> 0 \<and> 1 < b_count (bhs s b) then obind (brelse env b s) (\<lambda>s. Some (Inr (0, s)))
        else obind (if b = 0 then Some (Inr s)
                 else let s = upd_bh b (\<lambda>h. h\<lparr>b_dirt := 0, b_uptodate := 0\<rparr>) s in
                   if b_count (bhs s b) \<noteq> 0 then brelse env b s else Some (Inr s)) (\<lambda>s. Some (free_bit z s)))"
      unfolding free_block_def range if_not_P [OF inr] ..
    show ?thesis
    proof (cases "\<exists>b\<in>set xs. holds_block (ucast d) z s b")
      case False
      then have "free_block env (ucast d) z s = Some (free_bit z s)"
        using get_hash_table_miss [OF ok(1) d, of z env] fb by simp
      then show ?thesis using inr False free_bit_spec [OF ok(2) _ _ fdz slot] ok(1) by auto
    next
      case True
      then obtain b where b: "b \<in> set xs" "holds_block (ucast d) z s b" by blast
      have only: "c = b" if "c \<in> set xs" "holds_block (ucast d) z s c" for c
        using find_buffer_spec [OF ok(1) d, of z] that b by metis
      have b0: "b \<noteq> 0" using b(1) cache_ok_facts(2) [OF ok(1)] by auto
      have lock: "b_lock (bhs s b) = 0" using unlocked b by blast
      let ?s1 = "upd_bh b (\<lambda>h. h\<lparr>b_count := b_count h + 1\<rparr>) s"
      note gh = get_hash_table_hit [OF ok(1) d b lock, of env]
      have c1: "b_count (bhs s b) + 1 \<noteq> 0" 
      proof
        assume "b_count (bhs s b) + 1 = 0"
        then have "b_count (bhs s b) = - 1" by (simp add: add_eq_0_iff add.commute)
        moreover have "b_count (bhs s b) \<noteq> 255" using few b(1) by blast
        ultimately show False by simp
      qed
      show ?thesis
      proof (cases "b_count (bhs s b) = 0")
        case True
        define s2 where "s2 = upd_bh b (\<lambda>h. h\<lparr>b_dirt := 0, b_uptodate := 0\<rparr>) ?s1"
        define s3 where "s3 = wake_fs (buffer_wait s2) (upd_bh b (\<lambda>h. h\<lparr>b_count := b_count h - 1\<rparr>) s2)"
        have "brelse env b s2 = Some (Inr s3)" unfolding s3_def
          by (rule brelse_unlocked) (use lock True b0 in \<open>simp_all add: s2_def\<close>)
        then have run: "free_block env (ucast d) z s = Some (free_bit z s3)"
          using gh fb b0 True by (simp add: s2_def Let_def)
        have f3: "sb s3 = sb s" "b_data (bhs s3 u) = b_data (bhs s u)" "b_count (bhs s3 u) = b_count (bhs s u)"
          "u \<noteq> b \<Longrightarrow> bhs s3 u = bhs s u" "b_dirt (bhs s3 b) = 0" "b_uptodate (bhs s3 b) = 0" for u
          by (simp_all add: s3_def s2_def)
        have z3: "zmap_ok s3 xs" "zmap_bit s3 = zmap_bit s" "free_bits s3 = free_bits s" "zone_bit s3 z = zone_bit s z"
          using ok(2) by (simp_all add: zmap_ok_def zmap_bit_def free_bits_def zone_bit_def f3 fun_eq_iff)
        have c3: "cache_ok s3 xs" unfolding s3_def s2_def cache_ok_simps
          using ok(1) by (subst cache_ok_cong [of _ s]; simp)
        have "b \<noteq> s_zmap (sb s) ! (zone_bit s z div 8192)" if "unat z < unat ?n"
        proof -
          have "unat ?n < 65536" using unsigned_less [of ?n, where 'a = nat] by simp
          then have "zone_bit s z div 8192 < 8" using that inr fdz by (simp add: zone_bit_def)
          then show ?thesis using apart b(2) slot by auto
        qed
        then have bz: "b \<noteq> s_zmap (sb s) ! (zone_bit s z div 8192)" using inr by simp
        have unused: "\<not> (\<exists>c\<in>set xs. holds_block (ucast d) z s c \<and> b_count (bhs s c) \<noteq> 0)" using only True by blast
        have spec: "if zmap_bit s3 (zone_bit s3 z)
          then \<exists>s'. free_bit z s3 = Inr (1, s') \<and> free_bits s' = insert (zone_bit s3 z) (free_bits s3) \<and>
            (\<forall>u. u \<noteq> s_zmap (sb s3) ! (zone_bit s3 z div 8192) \<longrightarrow> bhs s' u = bhs s3 u) \<and> (\<forall>xs. cache_ok s' xs = cache_ok s3 xs)
          else free_bit z s3 = Inl (Panic ''free_block: bit already cleared'')"
          by (rule free_bit_spec [OF z3(1)]) (use inr fdz slot in \<open>simp_all add: f3(1) z3(4)\<close>)
        show ?thesis
        proof (cases "zmap_bit s (zone_bit s z)")
          case True
          then obtain s' where s': "free_bit z s3 = Inr (1, s')" "free_bits s' = insert (zone_bit s z) (free_bits s)"
            "\<And>u. u \<noteq> s_zmap (sb s) ! (zone_bit s z div 8192) \<Longrightarrow> bhs s' u = bhs s3 u" "cache_ok s' xs"
            using spec c3 unfolding z3 f3(1) by auto
          have "b_dirt (bhs s' c) = 0 \<and> b_uptodate (bhs s' c) = 0" if "c \<in> set xs" "holds_block (ucast d) z s c" for c
            using only [OF that] s'(3) [OF bz] f3(5,6) by simp
          then show ?thesis unfolding if_not_P [OF inr] if_not_P [OF unused] using True run s'(1,2,4) by simp
        next
          case False
          then have "free_bit z s3 = Inl (Panic ''free_block: bit already cleared'')" using spec unfolding z3 by simp
          then show ?thesis unfolding if_not_P [OF inr] if_not_P [OF unused] using False run by simp
        qed
      next
        case False
        let ?s2 = "wake_fs (buffer_wait ?s1) (upd_bh b (\<lambda>h. h\<lparr>b_count := b_count h - 1\<rparr>) ?s1)"
        have "1 < b_count (bhs s b) + 1" using count_up [OF False c1] .
        moreover have "brelse env b ?s1 = Some (Inr ?s2)"
          by (rule brelse_unlocked) (use lock c1 b0 in simp_all)
        ultimately have "free_block env (ucast d) z s = Some (Inr (0, ?s2))" using gh fb b0 by simp
        moreover have "free_bits ?s2 = free_bits s" by (simp add: free_bits_def zmap_bit_def)
        ultimately show ?thesis using inr False b ok(1) by auto
      qed
    qed
  qed
qed

text \<open>A device with the zones 10 to 999; the second buffer of \<open>cache0\<close> holds the map, whose first byte is \<open>c\<close>.\<close>

definition zones0 :: "u8 \<Rightarrow> fsys" where
  "zones0 c = (upd_bh 0x200024 (\<lambda>h. h\<lparr>b_count := 1, b_data := c # replicate 1023 0\<rparr>) cache0)
     \<lparr>sb := super0\<lparr>s_zmap := 0x200024 # replicate 7 0, s_firstdatazone := 10, s_nzones := 1000\<rparr>\<rparr>"

lemma zones0_map: "i < 8 \<Longrightarrow> s_zmap (sb (zones0 c)) ! i = (if i = 0 then 0x200024 else 0)"
  by (cases i) (simp_all add: zones0_def)

lemma zones0_facts:
  "cache_ok (zones0 c) [0x200000, 0x200024]" "zmap_ok (zones0 c) [0x200000, 0x200024]"
  "\<forall>b\<in>set [0x200000, 0x200024]. b_lock (bhs (zones0 c) b) = 0" "\<exists>b\<in>set [0x200000, 0x200024]. clean_free (zones0 c) b"
  "\<forall>b\<in>set [0x200000, 0x200024]. \<not> holds_block (ucast (0x301 :: u16)) z (zones0 c) b"
  "\<forall>b\<in>set [0x200000, 0x200024]. b_count (bhs (zones0 c) b) \<noteq> 255"
proof -
  show "cache_ok (zones0 c) [0x200000, 0x200024]"
    using cache0_ok(1) by (subst cache_ok_cong [of _ cache0]) (simp_all add: zones0_def)
  have "length (s_zmap (sb (zones0 c))) = 8" "b_count (bhs (zones0 c) 0x200024) = 1"
    "length (b_data (bhs (zones0 c) 0x200024)) = 1024" by (simp_all add: zones0_def)
  then show "zmap_ok (zones0 c) [0x200000, 0x200024]"
    by (simp add: zmap_ok_def zones0_map BLOCK_SIZE_def)
  show "\<forall>b\<in>set [0x200000, 0x200024]. b_lock (bhs (zones0 c) b) = 0" "\<exists>b\<in>set [0x200000, 0x200024]. clean_free (zones0 c) b"
    "\<forall>b\<in>set [0x200000, 0x200024]. \<not> holds_block (ucast (0x301 :: u16)) z (zones0 c) b"
    "\<forall>b\<in>set [0x200000, 0x200024]. b_count (bhs (zones0 c) b) \<noteq> 255"
    using cache0_ok(3) by (auto simp: zones0_def clean_free_def BADNESS_def holds_block_def)
qed

lemma zones0_bit: "k < 8192 \<Longrightarrow> zmap_bit (zones0 c) k \<longleftrightarrow> bit c k"
proof -
  assume k: "k < 8192"
  then have "k div 8 < 1024" by linarith
  then have "(c # replicate 1023 0) ! (k div 8) = (if k div 8 = 0 then c else 0)" by (simp add: nth_Cons')
  moreover have "bit c k \<Longrightarrow> k < 8" by (rule bit_imp_le_length [where 'a = 8, simplified])
  ultimately show ?thesis using k by (auto simp: zmap_bit_def zones0_def test_bit_def div_eq_0_iff)
qed

lemma zones0_free: "free_bits (zones0 c) = {k. k < 8192 \<and> \<not> bit c k}"
proof -
  have "k < 65536 \<and> s_zmap (sb (zones0 c)) ! (k div 8192) \<noteq> 0 \<longleftrightarrow> k < 8192" for k
  proof -
    have "k div 8192 < 8" if "k < 65536" using that by linarith
    moreover have "k div 8192 = 0 \<longleftrightarrow> k < 8192" by (simp add: div_eq_0_iff)
    ultimately show ?thesis using zones0_map [of "k div 8192" c] by auto
  qed
  then show ?thesis using zones0_bit [of _ c] unfolding free_bits_def by blast
qed

theorem new_block_allocates_witness:
  "\<exists>z s'. new_block env0 0x301 (zones0 1) = Some (Inr (z, s')) \<and> unat z = 10 \<and> free_bits s' = {k. 1 < k \<and> k < 8192}"
proof -
  have f: "free_bits (zones0 1) = {k. 0 < k \<and> k < 8192}" unfolding zones0_free by (auto simp: bit_1_iff)
  have "1 \<in> free_bits (zones0 1)" unfolding f by simp
  then have z: "0 \<notin> free_bits (zones0 1)" "free_bits (zones0 1) \<noteq> {}" unfolding f by (simp, blast)
  have z3: "free_bits (zones0 1) - {1} = {k. 1 < k \<and> k < 8192}" unfolding f by (simp add: set_eq_iff) linarith
  have "finite {k. 0 < k \<and> k < (8192 :: nat)}" by (rule finite_subset [of _ "{..<8192}"]) auto
  then have m: "Min (free_bits (zones0 1)) = 1" unfolding f by (rule Min_eqI) auto
  have n: "zone_of (zones0 1) 1 = 10" "unat (s_nzones (sb (zones0 1))) = 1000" by (simp_all add: zone_of_def zones0_def)
  have free: "\<forall>k\<in>free_bits (zones0 1). \<forall>c\<in>set [0x200000, 0x200024].
      holds_block (ucast (0x301 :: u16)) (of_nat (zone_of (zones0 1) k)) (zones0 1) c \<longrightarrow> b_count (bhs (zones0 1) c) = 0"
    using zones0_facts(5) by blast
  have d: "(0x301 :: u16) \<noteq> 0" by simp
  from new_block_allocates [OF zones0_facts(1,2) d zones0_facts(3,4) z(1) free, of env0]
  obtain y s' where "new_block env0 (ucast (0x301 :: u16)) (zones0 1) = Some (Inr (y, s'))" "free_bits s' = free_bits (zones0 1) - {1}"
    "unat y = 10" unfolding if_not_P [OF z(2)] m n by fastforce
  then show ?thesis unfolding z3 by auto
qed

text \<open>Zone 10 is in use in \<open>zones0 3\<close>.\<close>

theorem free_block_frees_witness:
  "\<exists>s'. free_block env0 0x301 10 (zones0 3) = Some (Inr (1, s')) \<and> free_bits s' = {k. 0 < k \<and> k < 8192}"
proof -
  have b: "zone_bit (zones0 3) 10 = 1" "unat (s_firstdatazone (sb (zones0 3))) = 10" "unat (s_nzones (sb (zones0 3))) = 1000"
    by (simp_all add: zones0_def zone_bit_def)
  have z: "zmap_bit (zones0 3) 1" "s_zmap (sb (zones0 3)) ! 0 = 0x200024" using zones0_bit [of 1 3] zones0_map by (simp_all add: bit_numeral_rec bit_Suc)
  have "(3 :: u8) = mask 2" by (simp add: mask_eq_exp_minus_1)
  then have bits: "bit (3 :: u8) k \<longleftrightarrow> k < 2" for k by (simp only: bit_mask_iff possible_bit_word) auto
  have f: "insert 1 (free_bits (zones0 3)) = {k. 0 < k \<and> k < 8192}" unfolding zones0_free bits by auto
  have "\<forall>i<8. s_zmap (sb (zones0 3)) ! i \<noteq> 0 \<longrightarrow> \<not> holds_block (ucast (0x301 :: u16)) 10 (zones0 3) (s_zmap (sb (zones0 3)) ! i)"
    using zones0_facts(5) zones0_map by simp
  moreover have "(0x301 :: u16) \<noteq> 0" "unat (10 :: u32) < 2 ^ 31" "0 < unat (s_firstdatazone (sb (zones0 3)))"
    "s_zmap (sb (zones0 3)) ! (zone_bit (zones0 3) 10 div 8192) \<noteq> 0" using b z(2) by simp_all
  note t = free_block_frees [OF zones0_facts(1,2) this(1) zones0_facts(3) this(3,2,4) zones0_facts(6) calculation, of env0]
  have "\<not> (unat (10 :: u32) < 10 \<or> 1000 \<le> unat (10 :: u32))" by simp
  note t1 = t [unfolded b if_not_P [OF this]]
  have "\<not> (\<exists>c\<in>set [0x200000, 0x200024]. holds_block (ucast (0x301 :: u16)) 10 (zones0 3) c \<and> b_count (bhs (zones0 3) c) \<noteq> 0)"
    using zones0_facts(5) by blast
  note t2 = t1 [unfolded if_not_P [OF this]]
  then obtain s' where "free_block env0 (ucast (0x301 :: u16)) 10 (zones0 3) = Some (Inr (1, s'))"
    "free_bits s' = insert 1 (free_bits (zones0 3))" using z(1) by auto
  then show ?thesis unfolding f by auto
qed

end
