(* ===== verification/Truncate.thy ===== *)
theory Truncate
  imports Bitmap Sys
begin

text \<open>
  Giving back the zones of a file, \<open>fs/truncate.c\<close>: direct, indirect and doubly indirect zones, and
  \<open>truncate\<close>, which tries again as long as some buffer is in use. The two functions on tables of zones have the
  same body; they differ in what they call for an entry.
\<close>

section \<open>Modes\<close>

definition S_IFMT :: u16 where "S_IFMT = 0xF000"
definition S_IFLNK :: u16 where "S_IFLNK = 0xA000"
definition S_IFREG :: u16 where "S_IFREG = 0x8000"
definition S_IFDIR :: u16 where "S_IFDIR = 0x4000"
definition S_IFCHR :: u16 where "S_IFCHR = 0x2000"

definition S_ISLNK :: "u16 \<Rightarrow> bool" where "S_ISLNK m \<longleftrightarrow> m AND S_IFMT = S_IFLNK"
definition S_ISREG :: "u16 \<Rightarrow> bool" where "S_ISREG m \<longleftrightarrow> m AND S_IFMT = S_IFREG"
definition S_ISDIR :: "u16 \<Rightarrow> bool" where "S_ISDIR m \<longleftrightarrow> m AND S_IFMT = S_IFDIR"
definition S_ISCHR :: "u16 \<Rightarrow> bool" where "S_ISCHR m \<longleftrightarrow> m AND S_IFMT = S_IFCHR"

section \<open>Tables of zones\<close>

text \<open>The \<open>unsigned short\<close> with index \<open>i\<close> in the data of a buffer.\<close>

definition short_at :: "u8 list \<Rightarrow> nat \<Rightarrow> u16" where
  "short_at ds i = ucast (ds ! (2 * i)) OR push_bit 8 (ucast (ds ! (2 * i + 1)))"

definition put_short_at :: "u16 \<Rightarrow> nat \<Rightarrow> u8 list \<Rightarrow> u8 list" where
  "put_short_at v i ds = ds[2 * i := ucast v, 2 * i + 1 := ucast (drop_bit 8 v)]"

definition entry_of :: "u32 \<Rightarrow> nat \<Rightarrow> fsys \<Rightarrow> u16" where
  "entry_of b i s = short_at (b_data (bhs s b)) i"

definition set_entry :: "u32 \<Rightarrow> nat \<Rightarrow> u16 \<Rightarrow> fsys \<Rightarrow> fsys" where
  "set_entry b i v s = upd_bh b (\<lambda>h. h\<lparr>b_data := put_short_at v i (b_data h), b_dirt := 1\<rparr>) s"

fun free_zones :: "(u32 \<Rightarrow> fsys \<Rightarrow> (u32 \<times> fsys) kres option) \<Rightarrow> u32 \<Rightarrow> nat list \<Rightarrow> bool \<Rightarrow> fsys \<Rightarrow>
    (bool \<times> fsys) kres option" where
  "free_zones f b [] busy s = Some (Inr (busy, s))"
| "free_zones f b (i # is) busy s =
     (if entry_of b i s = 0 then free_zones f b is busy s
      else obind (f (ucast (entry_of b i s)) s) (\<lambda>(r, s).
        if r \<noteq> 0 then free_zones f b is busy (set_entry b i 0 s) else free_zones f b is True s))"

definition free_table :: "(u32 \<Rightarrow> fsys \<Rightarrow> (u32 \<times> fsys) kres option) \<Rightarrow> environment \<Rightarrow> u32 \<Rightarrow> u32 \<Rightarrow> fsys \<Rightarrow>
    (u32 \<times> fsys) kres option" where
  "free_table f env dev block s =
     (if block = 0 then Some (Inr (1, s))
      else
        obind (bread env dev block s) (\<lambda>(b, s).
        obind (if b = 0 then Some (Inr (False, s))
               else obind (free_zones f b [0..<512] False s) (\<lambda>(busy, s).
                    obind (brelse env b s) (\<lambda>s. Some (Inr (busy, s))))) (\<lambda>(busy, s).
        if busy then Some (Inr (0, s)) else free_block env dev block s)))"

definition free_ind :: "environment \<Rightarrow> u32 \<Rightarrow> u32 \<Rightarrow> fsys \<Rightarrow> (u32 \<times> fsys) kres option" where
  "free_ind env dev = free_table (free_block env dev) env dev"

definition free_dind :: "environment \<Rightarrow> u32 \<Rightarrow> u32 \<Rightarrow> fsys \<Rightarrow> (u32 \<times> fsys) kres option" where
  "free_dind env dev = free_table (free_ind env dev) env dev"

section \<open>Truncating\<close>

definition set_zone :: "u32 \<Rightarrow> nat \<Rightarrow> u16 \<Rightarrow> fsys \<Rightarrow> fsys" where
  "set_zone p k z s = upd_inode p (\<lambda>i. i\<lparr>i_zone := (i_zone i)[k := z]\<rparr>) s"

abbreviation zone :: "u32 \<Rightarrow> nat \<Rightarrow> fsys \<Rightarrow> u16" where "zone p k s \<equiv> i_zone (inodes s p) ! k"

abbreviation dev_of :: "u32 \<Rightarrow> fsys \<Rightarrow> u32" where "dev_of p s \<equiv> ucast (i_dev (inodes s p))"

fun free_direct :: "environment \<Rightarrow> u32 \<Rightarrow> nat list \<Rightarrow> bool \<Rightarrow> fsys \<Rightarrow> (bool \<times> fsys) kres option" where
  "free_direct env p [] busy s = Some (Inr (busy, s))"
| "free_direct env p (k # ks) busy s =
     (if zone p k s = 0 then free_direct env p ks busy s
      else obind (free_block env (dev_of p s) (ucast (zone p k s)) s) (\<lambda>(r, s).
        if r \<noteq> 0 then free_direct env p ks busy (set_zone p k 0 s) else free_direct env p ks True s))"

text \<open>One round; the result says whether some buffer was in use.\<close>

definition truncate_round :: "environment \<Rightarrow> u32 \<Rightarrow> fsys \<Rightarrow> (bool \<times> fsys) kres option" where
  "truncate_round env p s =
     obind (free_direct env p [0..<7] False s) (\<lambda>(busy, s).
     obind (free_ind env (dev_of p s) (ucast (zone p 7 s)) s) (\<lambda>(r, s).
     let busy = (busy \<or> r = 0); s = (if r \<noteq> 0 then set_zone p 7 0 s else s) in
     obind (free_dind env (dev_of p s) (ucast (zone p 8 s)) s) (\<lambda>(r, s).
     let busy = (busy \<or> r = 0); s = (if r \<noteq> 0 then set_zone p 8 0 s else s) in
     Some (Inr (busy, upd_inode p (\<lambda>i. i\<lparr>i_dirt := 1\<rparr>) s)))))"

text \<open>\<open>schedule\<close> with a counter of zero: the others run.\<close>

definition yield_fs :: "environment \<Rightarrow> fsys \<Rightarrow> fsys" where
  "yield_fs env s = others env (set_fk (upd (current (fk s)) (\<lambda>t. t\<lparr>t_counter := 0\<rparr>) (fk s)) s)"

partial_function (option) truncate_loop :: "environment \<Rightarrow> u32 \<Rightarrow> fsys \<Rightarrow> fsys kres option" where
  "truncate_loop env p s =
     obind (truncate_round env p s) (\<lambda>(busy, s).
     if busy then truncate_loop env p (yield_fs env s)
     else let now = CURRENT_TIME (fk s) in
       Some (Inr (upd_inode p (\<lambda>i. i\<lparr>i_size := 0, i_mtime := now, i_ctime := now\<rparr>) s)))"

definition truncate :: "environment \<Rightarrow> u32 \<Rightarrow> fsys \<Rightarrow> fsys kres option" where
  "truncate env p s =
     (let m = i_mode (inodes s p) in
      if \<not> (S_ISREG m \<or> S_ISDIR m \<or> S_ISLNK m) then Some (Inr s) else truncate_loop env p s)"

end
