(* ===== verification/Inode.thy ===== *)
theory Inode
  imports Truncate Memory
begin

text \<open>
  The i-nodes, \<open>fs/inode.c\<close>, with \<open>new_inode\<close> of \<open>fs/bitmap.c\<close> and the functions that write everything back,
  \<open>sys_sync\<close> and \<open>sync_dev\<close> of \<open>fs/buffer.c\<close>: locking, reading and writing an i-node, the table
  of i-nodes in memory, mapping the blocks of a file to zones, allocating an i-node.
\<close>

definition NR_INODE :: nat where "NR_INODE = 32"
definition INODES_PER_BLOCK :: u32 where "INODES_PER_BLOCK = 32"

section \<open>Locking\<close>

partial_function (option) wait_on_inode :: "environment \<Rightarrow> u32 \<Rightarrow> fsys \<Rightarrow> fsys kres option" where
  "wait_on_inode env p s =
     (if i_lock (inodes s p) \<noteq> 0 then obind (sleep_fs env (i_wait p) s) (\<lambda>s. wait_on_inode env p s)
      else Some (Inr s))"

definition lock_inode :: "environment \<Rightarrow> u32 \<Rightarrow> fsys \<Rightarrow> fsys kres option" where
  "lock_inode env p s =
     obind (wait_on_inode env p s) (\<lambda>s. Some (Inr (upd_inode p (\<lambda>i. i\<lparr>i_lock := 1\<rparr>) s)))"

definition unlock_inode :: "u32 \<Rightarrow> fsys \<Rightarrow> fsys" where
  "unlock_inode p s = wake_fs (i_wait p) (upd_inode p (\<lambda>i. i\<lparr>i_lock := 0\<rparr>) s)"

section \<open>I-nodes on the disk\<close>

text \<open>The 32 bytes of a \<open>struct d_inode\<close>, which are also the first 32 bytes of a \<open>struct m_inode\<close>.\<close>

definition le16 :: "u16 \<Rightarrow> u8 list" where
  "le16 v = [ucast v, ucast (drop_bit 8 v)]"

definition le32 :: "u32 \<Rightarrow> u8 list" where
  "le32 v = [ucast v, ucast (drop_bit 8 v), ucast (drop_bit 16 v), ucast (drop_bit 24 v)]"

definition encode_inode :: "m_inode \<Rightarrow> u8 list" where
  "encode_inode i = le16 (i_mode i) @ le16 (i_uid i) @ le32 (i_size i) @ le32 (i_mtime i) @ [i_gid i, i_nlinks i] @
     concat (map le16 (i_zone i))"

definition decode_inode :: "u8 list \<Rightarrow> m_inode \<Rightarrow> m_inode" where
  "decode_inode ds i = i\<lparr>i_mode := short_at ds 0, i_uid := short_at ds 1, i_size := long_at ds 4, i_mtime := long_at ds 8,
     i_gid := ds ! 12, i_nlinks := ds ! 13, i_zone := map (\<lambda>k. short_at ds (7 + k)) [0..<9]\<rparr>"

text \<open>Storing bytes into the data of a buffer.\<close>

definition overwrite :: "nat \<Rightarrow> u8 list \<Rightarrow> u8 list \<Rightarrow> u8 list" where
  "overwrite off bs ds = take off ds @ bs @ drop (off + length bs) ds"

definition inode_block :: "u32 \<Rightarrow> fsys \<Rightarrow> u32" where
  "inode_block p s = 2 + ucast (s_imap_blocks (sb s)) + ucast (s_zmap_blocks (sb s)) +
     (ucast (i_num (inodes s p)) - 1) div INODES_PER_BLOCK"

definition inode_offset :: "u32 \<Rightarrow> fsys \<Rightarrow> nat" where
  "inode_offset p s = 32 * unat ((ucast (i_num (inodes s p)) - 1) mod INODES_PER_BLOCK)"

text \<open>After the message that the block cannot be read both functions go on with a null pointer.\<close>

definition read_inode :: "environment \<Rightarrow> u32 \<Rightarrow> fsys \<Rightarrow> fsys kres option" where
  "read_inode env p s =
     obind (lock_inode env p s) (\<lambda>s.
     obind (bread env (dev_of p s) (inode_block p s) s) (\<lambda>(b, s).
     if b = 0 then Some (Inl NullDeref)
     else
       let s = upd_inode p (decode_inode (take 32 (drop (inode_offset p s) (b_data (bhs s b))))) s
       in obind (brelse env b s) (\<lambda>s. Some (Inr (unlock_inode p s)))))"

definition write_inode :: "environment \<Rightarrow> u32 \<Rightarrow> fsys \<Rightarrow> fsys kres option" where
  "write_inode env p s =
     obind (lock_inode env p s) (\<lambda>s.
     if i_dirt (inodes s p) = 0 \<or> i_dev (inodes s p) = 0 then Some (Inr (unlock_inode p s))
     else
       obind (bread env (dev_of p s) (inode_block p s) s) (\<lambda>(b, s).
       if b = 0 then Some (Inl NullDeref)
       else
         let s = upd_bh b (\<lambda>h. h\<lparr>b_data := overwrite (inode_offset p s) (encode_inode (inodes s p)) (b_data h),
                                 b_dirt := 1\<rparr>) s;
             s = upd_inode p (\<lambda>i. i\<lparr>i_dirt := 0\<rparr>) s
         in obind (brelse env b s) (\<lambda>s. Some (Inr (unlock_inode p s)))))"

section \<open>The table of i-nodes\<close>

partial_function (option) iput_loop :: "environment \<Rightarrow> u32 \<Rightarrow> fsys \<Rightarrow> fsys kres option" where
  "iput_loop env p s =
     (let drop = Some (Inr (upd_inode p (\<lambda>i. i\<lparr>i_count := i_count i - 1\<rparr>) s)) in
      if 1 < i_count (inodes s p) then drop
      else if i_nlinks (inodes s p) = 0 then obind (truncate env p s) (\<lambda>s. Some (free_inode p s))
      else if i_dirt (inodes s p) \<noteq> 0 then
        obind (write_inode env p s) (\<lambda>s. obind (wait_on_inode env p s) (\<lambda>s. iput_loop env p s))
      else drop)"

definition iput :: "environment \<Rightarrow> u32 \<Rightarrow> fsys \<Rightarrow> fsys kres option" where
  "iput env p s =
     (if p = 0 then Some (Inr s)
      else
        obind (wait_on_inode env p s) (\<lambda>s.
        let s = (if i_count (inodes s p) = 0 then log_fs ''iput: trying to free free inode'' s else s) in
        if i_dev (inodes s p) = 0 then Some (Inr (upd_inode p (\<lambda>i. i\<lparr>i_count := i_count i - 1\<rparr>) s))
        else iput_loop env p s))"

fun sync_list :: "environment \<Rightarrow> u32 list \<Rightarrow> fsys \<Rightarrow> fsys kres option" where
  "sync_list env [] s = Some (Inr s)"
| "sync_list env (p # ps) s =
     obind (wait_on_inode env p s) (\<lambda>s.
     obind (if i_dirt (inodes s p) \<noteq> 0 \<and> i_pipe (inodes s p) = 0 then write_inode env p s else Some (Inr s))
       (sync_list env ps))"

definition sync_inodes :: "environment \<Rightarrow> fsys \<Rightarrow> fsys kres option" where
  "sync_inodes env s = sync_list env (inode_table s) s"

text \<open>The search of \<open>get_empty_inode\<close>: at most \<open>n\<close> entries behind \<open>last_inode\<close>, an unused one that is also clean and not
  locked ends it.\<close>

fun empty_scan :: "nat \<Rightarrow> u32 \<Rightarrow> fsys \<Rightarrow> u32 \<times> fsys" where
  "empty_scan 0 cand s = (cand, s)"
| "empty_scan (Suc n) cand s =
     (let s = s\<lparr>last_inode := if NR_INODE \<le> last_inode s + 1 then 0 else last_inode s + 1\<rparr>;
          p = inode_table s ! last_inode s; i = inodes s p
      in if i_count i = 0 then
           if i_dirt i = 0 \<and> i_lock i = 0 then (p, s) else empty_scan n p s
         else empty_scan n cand s)"

partial_function (option) clean_inode :: "environment \<Rightarrow> u32 \<Rightarrow> fsys \<Rightarrow> fsys kres option" where
  "clean_inode env p s =
     (if i_dirt (inodes s p) = 0 then Some (Inr s)
      else obind (write_inode env p s) (\<lambda>s. obind (wait_on_inode env p s) (\<lambda>s. clean_inode env p s)))"

text \<open>With no unused entry the code prints a message and goes on with a null pointer.\<close>

partial_function (option) get_empty_inode :: "environment \<Rightarrow> fsys \<Rightarrow> (u32 \<times> fsys) kres option" where
  "get_empty_inode env s =
     (case empty_scan NR_INODE 0 s of (p, s) \<Rightarrow>
        if p = 0 then Some (Inl NullDeref)
        else
          obind (wait_on_inode env p s) (\<lambda>s.
          obind (clean_inode env p s) (\<lambda>s.
          if i_count (inodes s p) \<noteq> 0 then get_empty_inode env s
          else Some (Inr (p, upd_inode p (\<lambda>i. i\<lparr>i_count := 1\<rparr>) (zero_inode p s))))))"

text \<open>The page of a pipe; its address is kept in \<open>i_size\<close>.\<close>

definition get_pipe_inode :: "environment \<Rightarrow> fsys \<Rightarrow> (u32 \<times> fsys) kres option" where
  "get_pipe_inode env s =
     obind (get_empty_inode env s) (\<lambda>(p, s).
     obind (Some (get_free_page (fm s))) (\<lambda>(page, m).
     let s = upd_inode p (\<lambda>i. i\<lparr>i_size := page\<rparr>) (s\<lparr>fm := m\<rparr>) in
     if page = 0 then Some (Inr (0, upd_inode p (\<lambda>i. i\<lparr>i_count := 0\<rparr>) s))
     else Some (Inr (p, upd_inode p (\<lambda>i. i\<lparr>i_count := 2, i_zone := (i_zone i)[0 := 0, 1 := 0], i_pipe := 1\<rparr>) s))))"

definition is_inode :: "u32 \<Rightarrow> u32 \<Rightarrow> fsys \<Rightarrow> u32 \<Rightarrow> bool" where
  "is_inode dev nr s p \<longleftrightarrow> dev_of p s = dev \<and> ucast (i_num (inodes s p)) = nr"

text \<open>The first pass: an entry cand is waited for and looked at again, and the search goes on behind it when it has
  changed.\<close>

fun iget_scan :: "environment \<Rightarrow> u32 \<Rightarrow> u32 \<Rightarrow> u32 list \<Rightarrow> fsys \<Rightarrow> (u32 \<times> fsys) kres option" where
  "iget_scan env dev nr [] s = Some (Inr (0, s))"
| "iget_scan env dev nr (p # ps) s =
     (if \<not> is_inode dev nr s p then iget_scan env dev nr ps s
      else obind (wait_on_inode env p s) (\<lambda>s.
        if \<not> is_inode dev nr s p then iget_scan env dev nr ps s
        else Some (Inr (p, upd_inode p (\<lambda>i. i\<lparr>i_count := i_count i + 1\<rparr>) s))))"

definition iget :: "environment \<Rightarrow> u32 \<Rightarrow> u32 \<Rightarrow> fsys \<Rightarrow> (u32 \<times> fsys) kres option" where
  "iget env dev nr s =
     (let s = (if dev = 0 then log_fs ''iget with dev==0'' s else s) in
      obind (iget_scan env dev nr (inode_table s) s) (\<lambda>(p, s).
      if p \<noteq> 0 then Some (Inr (p, s))
      else
        obind (get_empty_inode env s) (\<lambda>(p, s).
        obind (read_inode env p (upd_inode p (\<lambda>i. i\<lparr>i_dev := ucast dev, i_num := ucast nr\<rparr>) s)) (\<lambda>s.
        Some (Inr (p, s))))))"

section \<open>The zones of a file\<close>

text \<open>An entry of \<open>i_zone\<close>, filled when it is empty and \<open>create\<close> is set; then an entry of a table of zones.\<close>

definition fill_zone :: "environment \<Rightarrow> u32 \<Rightarrow> nat \<Rightarrow> bool \<Rightarrow> fsys \<Rightarrow> fsys kres option" where
  "fill_zone env p k create s =
     (if create \<and> zone p k s = 0 then
        obind (new_block env (dev_of p s) s) (\<lambda>(z, s).
        let s = set_zone p k (ucast z) s in
        Some (Inr (if zone p k s \<noteq> 0 then upd_inode p (\<lambda>i. i\<lparr>i_ctime := CURRENT_TIME (fk s), i_dirt := 1\<rparr>) s else s)))
      else Some (Inr s))"

definition table_zone :: "environment \<Rightarrow> u32 \<Rightarrow> u32 \<Rightarrow> nat \<Rightarrow> bool \<Rightarrow> fsys \<Rightarrow> (u32 \<times> fsys) kres option" where
  "table_zone env p table i create s =
     (if table = 0 then Some (Inr (0, s))
      else
        obind (bread env (dev_of p s) table s) (\<lambda>(b, s).
        if b = 0 then Some (Inr (0, s))
        else if 512 \<le> i then Some (Inl OutOfBounds)
        else
          obind (if create \<and> entry_of b i s = 0 then
                   obind (new_block env (dev_of p s) s) (\<lambda>(z, s).
                   Some (Inr (z, if z \<noteq> 0 then set_entry b i (ucast z) s else s)))
                 else Some (Inr (ucast (entry_of b i s), s))) (\<lambda>(z, s).
          obind (brelse env b s) (\<lambda>s. Some (Inr (z, s))))))"

text \<open>\<open>_bmap\<close>: the messages about a block that is negative or too large do not end it.\<close>

definition do_bmap :: "environment \<Rightarrow> u32 \<Rightarrow> u32 \<Rightarrow> bool \<Rightarrow> fsys \<Rightarrow> (u32 \<times> fsys) kres option" where
  "do_bmap env p block create s =
     (let s = (if block <s 0 then log_fs ''_bmap: block<0'' s else s);
          s = (if 7 + 512 + 512 * 512 \<le>s block then log_fs ''_bmap: block>big'' s else s)
      in if block <s 0 then Some (Inl OutOfBounds)
         else if block < 7 then
           obind (fill_zone env p (unat block) create s) (\<lambda>s. Some (Inr (ucast (zone p (unat block) s), s)))
         else if block < 7 + 512 then
           obind (fill_zone env p 7 create s) (\<lambda>s.
           table_zone env p (ucast (zone p 7 s)) (unat (block - 7)) create s)
         else
           let block = block - 7 - 512 in
           obind (fill_zone env p 8 create s) (\<lambda>s.
           obind (table_zone env p (ucast (zone p 8 s)) (unat (drop_bit 9 block)) create s) (\<lambda>(z, s).
           table_zone env p z (unat (block AND 511)) create s)))"

definition bmap :: "environment \<Rightarrow> u32 \<Rightarrow> u32 \<Rightarrow> fsys \<Rightarrow> (u32 \<times> fsys) kres option" where
  "bmap env p block s = do_bmap env p block False s"

definition create_block :: "environment \<Rightarrow> u32 \<Rightarrow> u32 \<Rightarrow> fsys \<Rightarrow> (u32 \<times> fsys) kres option" where
  "create_block env p block s = do_bmap env p block True s"

section \<open>A new i-node\<close>

definition new_inode :: "environment \<Rightarrow> u32 \<Rightarrow> fsys \<Rightarrow> (u32 \<times> fsys) kres option" where
  "new_inode env dev s =
     obind (get_empty_inode env s) (\<lambda>(p, s).
     case map_scan (s_imap (sb s)) 0 s of
       None \<Rightarrow> obind (iput env p s) (\<lambda>s. Some (Inr (0, s)))
     | Some (i, b, j) \<Rightarrow>
         if unat (s_ninodes (sb s)) < j + i * 8192 then obind (iput env p s) (\<lambda>s. Some (Inr (0, s)))
         else if fst (set_bit j (b_data (bhs s b))) then Some (Inl (Panic ''new_inode: bit already set''))
         else
           let s = mark_bit j b s; now = CURRENT_TIME (fk s) in
           Some (Inr (p, upd_inode p (\<lambda>q. q\<lparr>i_count := 1, i_nlinks := 1, i_dev := ucast dev, i_uid := 0, i_gid := 0,
              i_dirt := 1, i_num := of_nat (j + i * 8192), i_mtime := now, i_atime := now, i_ctime := now\<rparr>) s)))"

section \<open>Writing everything back\<close>

fun write_back :: "environment \<Rightarrow> u32 list \<Rightarrow> (buffer_head \<Rightarrow> bool) \<Rightarrow> fsys \<Rightarrow> fsys kres option" where
  "write_back env [] P s = Some (Inr s)"
| "write_back env (b # bs) P s =
     (if \<not> P (bhs s b) then write_back env bs P s
      else
        obind (wait_on_buffer env b s) (\<lambda>s.
        obind (if P (bhs s b) \<and> b_dirt (bhs s b) \<noteq> 0 then ll_rw_block env WRITE b s else Some (Inr s))
          (write_back env bs P)))"

definition sys_sync :: "environment \<Rightarrow> fsys \<Rightarrow> (u32 \<times> fsys) kres option" where
  "sys_sync env s =
     obind (sync_inodes env s) (\<lambda>s. obind (write_back env (buffers s) (\<lambda>_. True) s) (\<lambda>s. Some (Inr (0, s))))"

definition sync_dev :: "environment \<Rightarrow> u32 \<Rightarrow> fsys \<Rightarrow> (u32 \<times> fsys) kres option" where
  "sync_dev env dev s =
     (let mine = (\<lambda>h. ucast (b_dev h) = dev) in
      obind (write_back env (buffers s) mine s) (\<lambda>s.
      obind (sync_inodes env s) (\<lambda>s.
      obind (write_back env (buffers s) mine s) (\<lambda>s. Some (Inr (0, s))))))"

end
