(* ===== verification/Super.thy ===== *)
theory Super
  imports Inode
begin

text \<open>
  The super block, \<open>fs/super.c\<close>: reading it with the buffers of the two bitmaps, and mounting the root file
  system.
\<close>

definition SUPER_MAGIC :: u16 where "SUPER_MAGIC = 0x137F"
definition ROOT_INO :: u32 where "ROOT_INO = 1"
definition I_MAP_SLOTS :: nat where "I_MAP_SLOTS = 8"
definition Z_MAP_SLOTS :: nat where "Z_MAP_SLOTS = 8"

text \<open>The \<open>struct d_super_block\<close> at the start of a block.\<close>

definition decode_super :: "u8 list \<Rightarrow> super_block \<Rightarrow> super_block" where
  "decode_super ds p = p\<lparr>s_ninodes := short_at ds 0, s_nzones := short_at ds 1, s_imap_blocks := short_at ds 2,
     s_zmap_blocks := short_at ds 3, s_firstdatazone := short_at ds 4, s_log_zone_size := short_at ds 5,
     s_max_size := long_at ds 12, s_magic := short_at ds 8\<rparr>"

text \<open>The two loops over the slots of a map, the one of the i-nodes or the one of the zones; an index beyond the slots is
  outside the array.\<close>

definition set_slot :: "bool \<Rightarrow> nat \<Rightarrow> u32 \<Rightarrow> fsys \<Rightarrow> fsys kres" where
  "set_slot zones i b s =
     (if (if zones then Z_MAP_SLOTS else I_MAP_SLOTS) \<le> i then Inl OutOfBounds
      else Inr (s\<lparr>sb := (if zones then (sb s)\<lparr>s_zmap := (s_zmap (sb s))[i := b]\<rparr>
                         else (sb s)\<lparr>s_imap := (s_imap (sb s))[i := b]\<rparr>)\<rparr>))"

fun load_map :: "environment \<Rightarrow> u32 \<Rightarrow> bool \<Rightarrow> nat list \<Rightarrow> u32 \<Rightarrow> fsys \<Rightarrow> (u32 \<times> fsys) kres option" where
  "load_map env dev zones [] block s = Some (Inr (block, s))"
| "load_map env dev zones (i # is) block s =
     obind (bread env dev block s) (\<lambda>(b, s).
     obind (Some (set_slot zones i b s)) (\<lambda>s.
     if b = 0 then Some (Inr (block, s)) else load_map env dev zones is (block + 1) s))"

fun release_all :: "environment \<Rightarrow> u32 list \<Rightarrow> fsys \<Rightarrow> fsys kres option" where
  "release_all env [] s = Some (Inr s)"
| "release_all env (b # bs) s = obind (brelse env b s) (release_all env bs)"

text \<open>\<open>b_data[0] |= 1\<close> of the first buffer of a map.\<close>

definition take_bit0 :: "u32 \<Rightarrow> fsys \<Rightarrow> fsys kres" where
  "take_bit0 b s =
     (if b = 0 then Inl NullDeref else Inr (upd_bh b (\<lambda>h. h\<lparr>b_data := (b_data h)[0 := b_data h ! 0 OR 1]\<rparr>) s))"

text \<open>The result says whether there is a super block. When its block cannot be read the code goes on with a null
  pointer.\<close>

definition read_super :: "environment \<Rightarrow> u32 \<Rightarrow> fsys \<Rightarrow> (bool \<times> fsys) kres option" where
  "read_super env dev s =
     obind (bread env dev 1 s) (\<lambda>(b, s).
     if b = 0 then Some (Inl NullDeref)
     else
       obind (brelse env b s) (\<lambda>s.
       let s = s\<lparr>sb := decode_super (b_data (bhs s b)) (sb s)\<rparr> in
       if s_magic (sb s) \<noteq> SUPER_MAGIC then Some (Inr (False, log_fs ''read super error!'' s))
       else
         let s = log_fs ''check magic ok!'' s;
             s = s\<lparr>sb := (sb s)\<lparr>s_imap := replicate I_MAP_SLOTS 0, s_zmap := replicate Z_MAP_SLOTS 0\<rparr>\<rparr> in
         obind (load_map env dev False [0..<unat (s_imap_blocks (sb s))] 2 s) (\<lambda>(block, s).
         obind (load_map env dev True [0..<unat (s_zmap_blocks (sb s))] block s) (\<lambda>(block, s).
         if block \<noteq> 2 + ucast (s_imap_blocks (sb s)) + ucast (s_zmap_blocks (sb s)) then
           obind (release_all env (s_imap (sb s)) s) (\<lambda>s.
           obind (release_all env (s_zmap (sb s)) s) (\<lambda>s.
           Some (Inr (False, s\<lparr>sb := (sb s)\<lparr>s_dev := 0\<rparr>\<rparr>))))
         else
           obind (Some (take_bit0 (s_imap (sb s) ! 0) s)) (\<lambda>s.
           obind (Some (take_bit0 (s_zmap (sb s) ! 0) s)) (\<lambda>s.
           Some (Inr (True, log_fs ''read super successfully! %d, %d'' s))))))))"

text \<open>The loop that counts the bits that are clear, from bit \<open>n - 1\<close> of a map down.\<close>

fun count_free :: "u32 list \<Rightarrow> nat \<Rightarrow> u32 \<Rightarrow> fsys \<Rightarrow> u32 kres" where
  "count_free bs 0 free s = Inr free"
| "count_free bs (Suc n) free s =
     (let b = bs ! (n div 8192) in
      if b = 0 then Inl NullDeref
      else count_free bs n (if test_bit (n mod 8192) (b_data (bhs s b)) then free else free + 1) s)"

definition set_cur :: "(task_struct \<Rightarrow> task_struct) \<Rightarrow> fsys \<Rightarrow> fsys" where
  "set_cur f s = set_fk (upd (current (fk s)) f (fk s)) s"

definition mount_root :: "environment \<Rightarrow> fsys \<Rightarrow> fsys kres option" where
  "mount_root env s =
     (let s = fold (\<lambda>f. upd_file f (\<lambda>o'. o'\<lparr>f_count := 0\<rparr>)) (file_table s) s in
      obind (read_super env (root_dev s) s) (\<lambda>(ok, s).
      let s = (if ok then s else log_fs ''Unable to mount root'' s) in
      obind (iget env (root_dev s) ROOT_INO s) (\<lambda>(mi, s).
      let s = upd_inode mi (\<lambda>i. i\<lparr>i_count := i_count i + 3\<rparr>) s in
      if \<not> ok then Some (Inl NullDeref)
      else
        let s = s\<lparr>sb := (sb s)\<lparr>s_isup := mi, s_imount := mi\<rparr>\<rparr>;
            s = set_cur (\<lambda>t. t\<lparr>t_pwd := mi, t_root := mi\<rparr>) s in
        obind (Some (count_free (s_zmap (sb s)) (unat (s_nzones (sb s))) 0 s)) (\<lambda>zones.
        let s = log_fs ''%d/%d free blocks'' s in
        obind (Some (count_free (s_imap (sb s)) (unat (s_ninodes (sb s)) + 1) 0 s)) (\<lambda>nodes.
        Some (Inr (log_fs ''%d/%d free inodes'' s)))))))"

end
