(* ===== verification/Fcntl.thy ===== *)
theory Fcntl
  imports Super
begin

text \<open>
  File descriptors: the table \<open>filp\<close> of the running task, \<open>fs/fcntl.c\<close> with \<open>dup\<close> and \<open>fcntl\<close>, closing a file and
  the structure \<open>fstat\<close> fills (\<open>fs/stat.c\<close>).
\<close>

definition O_ACCMODE :: u32 where "O_ACCMODE = 3"
definition O_WRONLY :: u32 where "O_WRONLY = 1"
definition O_TRUNC :: u32 where "O_TRUNC = 0x200"
definition O_APPEND :: u32 where "O_APPEND = 0x400"
definition O_NONBLOCK :: u32 where "O_NONBLOCK = 0x800"

datatype fcntl_cmd = F_DUPFD | F_GETFD | F_SETFD | F_GETFL | F_SETFL | F_GETLK | F_SETLK | F_SETLKW

fun fcntl_of :: "u32 \<Rightarrow> fcntl_cmd option" where
  "fcntl_of cmd =
     (if cmd < 8 then Some ([F_DUPFD, F_GETFD, F_SETFD, F_GETFL, F_SETFL, F_GETLK, F_SETLK, F_SETLKW] ! unat cmd)
      else None)"

section \<open>The descriptors of the running task\<close>

definition filp :: "nat \<Rightarrow> fsys \<Rightarrow> u32" where
  "filp i s = t_filp (cur (fk s)) ! i"

definition set_filp :: "nat \<Rightarrow> u32 \<Rightarrow> fsys \<Rightarrow> fsys" where
  "set_filp i f s = set_cur (\<lambda>t. t\<lparr>t_filp := (t_filp t)[i := f]\<rparr>) s"

text \<open>\<open>close_on_exec &= ~(1 << fd)\<close> and \<open>close_on_exec |= 1 << fd\<close>.\<close>

definition keep_on_exec :: "nat \<Rightarrow> fsys \<Rightarrow> fsys" where
  "keep_on_exec i s = set_cur (\<lambda>t. t\<lparr>t_close_on_exec := t_close_on_exec t AND NOT (push_bit i 1)\<rparr>) s"

definition drop_on_exec :: "nat \<Rightarrow> fsys \<Rightarrow> fsys" where
  "drop_on_exec i s = set_cur (\<lambda>t. t\<lparr>t_close_on_exec := t_close_on_exec t OR push_bit i 1\<rparr>) s"

text \<open>The first free descriptor from \<open>i\<close> on, of \<open>n\<close>.\<close>

fun free_fd :: "nat \<Rightarrow> nat \<Rightarrow> fsys \<Rightarrow> nat option" where
  "free_fd 0 i s = None"
| "free_fd (Suc n) i s = (if filp i s \<noteq> 0 then free_fd n (Suc i) s else Some i)"

definition dupfd :: "u32 \<Rightarrow> u32 \<Rightarrow> fsys \<Rightarrow> u32 \<times> fsys" where
  "dupfd fd arg s =
     (if NR_OPEN \<le> unat fd \<or> filp (unat fd) s = 0 then (neg_errno EBADF, s)
      else if NR_OPEN \<le> unat arg then (neg_errno EINVAL, s)
      else case free_fd (NR_OPEN - unat arg) (unat arg) s of
             None \<Rightarrow> (neg_errno EMFILE, s)
           | Some i \<Rightarrow>
               let s = set_filp i (filp (unat fd) s) (keep_on_exec i s)
               in (of_nat i, upd_file (filp (unat fd) s) (\<lambda>f. f\<lparr>f_count := f_count f + 1\<rparr>) s))"

definition sys_dup :: "u32 \<Rightarrow> fsys \<Rightarrow> u32 \<times> fsys" where
  "sys_dup fildes s = dupfd fildes 0 s"

definition sys_fcntl :: "u32 \<Rightarrow> u32 \<Rightarrow> u32 \<Rightarrow> fsys \<Rightarrow> u32 \<times> fsys" where
  "sys_fcntl fd cmd arg s =
     (if NR_OPEN \<le> unat fd \<or> filp (unat fd) s = 0 then (neg_errno EBADF, s)
      else
        let f = filp (unat fd) s; mask = O_APPEND OR O_NONBLOCK in
        case fcntl_of cmd of
          Some F_DUPFD \<Rightarrow> dupfd fd arg s
        | Some F_GETFD \<Rightarrow> (drop_bit (unat fd) (t_close_on_exec (cur (fk s))) AND 1, s)
        | Some F_SETFD \<Rightarrow> (0, if arg AND 1 \<noteq> 0 then drop_on_exec (unat fd) s else keep_on_exec (unat fd) s)
        | Some F_GETFL \<Rightarrow> (ucast (f_flags (files s f)), s)
        | Some F_SETFL \<Rightarrow>
            (0, upd_file f (\<lambda>f. f\<lparr>f_flags := (f_flags f AND NOT (ucast mask)) OR ucast (arg AND mask)\<rparr>) s)
        | _ \<Rightarrow> (- 1, s))"

text \<open>\<open>sys_close\<close>, \<open>fs/open.c\<close>.\<close>

definition sys_close :: "environment \<Rightarrow> u32 \<Rightarrow> fsys \<Rightarrow> (u32 \<times> fsys) kres option" where
  "sys_close env fd s =
     (if NR_OPEN \<le> unat fd then Some (Inr (neg_errno EINVAL, s))
      else
        let s = keep_on_exec (unat fd) s; f = filp (unat fd) s in
        if f = 0 then Some (Inr (neg_errno EINVAL, s))
        else
          let s = set_filp (unat fd) 0 s in
          if f_count (files s f) = 0 then Some (Inl (Panic ''Close: file count is 0''))
          else
            let s = upd_file f (\<lambda>f. f\<lparr>f_count := f_count f - 1\<rparr>) s in
            if f_count (files s f) \<noteq> 0 then Some (Inr (0, s))
            else obind (iput env (f_inode (files s f)) s) (\<lambda>s. Some (Inr (0, s))))"

section \<open>The status of a file\<close>

text \<open>\<open>struct stat\<close> as the program sees it; one byte behind \<open>st_nlink\<close> and two behind \<open>st_rdev\<close> are padding, which
  \<open>cp_stat\<close> copies from its stack.\<close>

definition stat_bytes :: "u8 \<Rightarrow> m_inode \<Rightarrow> u8 list" where
  "stat_bytes pad i = le16 (i_dev i) @ le16 (i_num i) @ le16 (i_mode i) @ [i_nlinks i, pad] @ le16 (i_uid i) @
     le16 (ucast (i_gid i)) @ le16 (i_zone i ! 0) @ [pad, pad] @ le32 (i_size i) @ le32 (i_atime i) @
     le32 (i_mtime i) @ le32 (i_ctime i)"

definition verify_fs :: "u32 \<Rightarrow> u32 \<Rightarrow> fsys \<Rightarrow> fsys" where
  "verify_fs a n s = s\<lparr>fverified := fverified s @ [(a, n)]\<rparr>"

definition cp_stat :: "environment \<Rightarrow> u32 \<Rightarrow> u32 \<Rightarrow> fsys \<Rightarrow> fsys" where
  "cp_stat env p statbuf s =
     (let s = verify_fs statbuf 32 s
      in s\<lparr>fu := store_bytes (stat_bytes (io_pad env) (inodes s p)) statbuf (fu s)\<rparr>)"

definition sys_fstat :: "environment \<Rightarrow> u32 \<Rightarrow> u32 \<Rightarrow> fsys \<Rightarrow> u32 \<times> fsys" where
  "sys_fstat env fd statbuf s =
     (if NR_OPEN \<le> unat fd \<or> filp (unat fd) s = 0 \<or> f_inode (files s (filp (unat fd) s)) = 0
      then (neg_errno EBADF, s)
      else (0, cp_stat env (f_inode (files s (filp (unat fd) s))) statbuf s))"

end
