(* ===== verification/Pipe.thy ===== *)
theory Pipe
  imports Fcntl
begin

text \<open>
  Pipes, \<open>fs/pipe.c\<close>: a page used as a ring of 4096 bytes, whose head and tail are in the first two zones of an
  i-node and whose address is in \<open>i_size\<close>. Readers sleep on \<open>i_wait\<close>, writers on \<open>i_wait2\<close>.
\<close>

definition PIPE_HEAD :: "m_inode \<Rightarrow> u16" where "PIPE_HEAD i = i_zone i ! 0"
definition PIPE_TAIL :: "m_inode \<Rightarrow> u16" where "PIPE_TAIL i = i_zone i ! 1"

definition PIPE_SIZE :: "m_inode \<Rightarrow> u32" where
  "PIPE_SIZE i = (ucast (PIPE_HEAD i) - ucast (PIPE_TAIL i)) AND 4095"

definition PIPE_READ_WAIT :: "u32 \<Rightarrow> u32" where "PIPE_READ_WAIT p = i_wait p"
definition PIPE_WRITE_WAIT :: "u32 \<Rightarrow> u32" where "PIPE_WRITE_WAIT p = i_wait2 p"

text \<open>How many bytes one round moves: up to the end of the page, what the caller asks for, what there is. Then the rounds
  of \<open>while (chars-- > 0)\<close>.\<close>

definition pipe_chars :: "u16 \<Rightarrow> u32 \<Rightarrow> u32 \<Rightarrow> u32" where
  "pipe_chars pos cnt sz =
     (let chars = 4096 - ucast pos;
          chars = (if cnt <s chars then cnt else chars)
      in if sz <s chars then sz else chars)"

definition rounds :: "u32 \<Rightarrow> nat" where
  "rounds n = (if 0 <s n then unat n else 0)"

definition load_bytes :: "u32 \<Rightarrow> nat \<Rightarrow> bmem \<Rightarrow> u8 list" where
  "load_bytes a n m = map (\<lambda>k. m (a + of_nat k)) [0..<n]"

definition take_from_pipe :: "u32 \<Rightarrow> u32 \<Rightarrow> u32 \<Rightarrow> fsys \<Rightarrow> fsys" where
  "take_from_pipe p buf chars s =
     (let i = inodes s p; tail = PIPE_TAIL i;
          s = upd_inode p (\<lambda>i. i\<lparr>i_zone := (i_zone i)[1 := (tail + ucast chars) AND 4095]\<rparr>) s
      in s\<lparr>fu := store_bytes (load_bytes (i_size i + ucast tail) (rounds chars) (phys (fm s))) buf (fu s)\<rparr>)"

definition put_into_pipe :: "u32 \<Rightarrow> u32 \<Rightarrow> u32 \<Rightarrow> fsys \<Rightarrow> fsys" where
  "put_into_pipe p buf chars s =
     (let i = inodes s p; head = PIPE_HEAD i;
          s = upd_inode p (\<lambda>i. i\<lparr>i_zone := (i_zone i)[0 := (head + ucast chars) AND 4095]\<rparr>) s
      in s\<lparr>fm := (fm s)\<lparr>phys := store_bytes (load_bytes buf (rounds chars) (fu s)) (i_size i + ucast head) (phys (fm s))\<rparr>\<rparr>)"

partial_function (option) read_pipe_loop ::
    "environment \<Rightarrow> u32 \<Rightarrow> u32 \<Rightarrow> u32 \<Rightarrow> u32 \<Rightarrow> fsys \<Rightarrow> (u32 \<times> fsys) kres option" where
  "read_pipe_loop env p buf cnt sofar s =
     (if \<not> 0 <s cnt then Some (Inr (sofar, wake_fs (PIPE_WRITE_WAIT p) s))
      else if PIPE_SIZE (inodes s p) = 0 then
        (let s = wake_fs (PIPE_WRITE_WAIT p) s; t = cur (fk s) in
         if i_count (inodes s p) \<noteq> 2 then Some (Inr (sofar, s))
         else if t_signal t AND NOT (t_blocked t) \<noteq> 0
         then Some (Inr (if sofar \<noteq> 0 then sofar else neg_errno ERESTARTSYS, s))
         else obind (isleep_fs env (PIPE_READ_WAIT p) s) (\<lambda>s. read_pipe_loop env p buf cnt sofar s))
      else
        let chars = pipe_chars (PIPE_TAIL (inodes s p)) cnt (PIPE_SIZE (inodes s p))
        in read_pipe_loop env p (buf + of_nat (rounds chars)) (cnt - chars) (sofar + chars) (take_from_pipe p buf chars s))"

definition read_pipe :: "environment \<Rightarrow> u32 \<Rightarrow> u32 \<Rightarrow> u32 \<Rightarrow> fsys \<Rightarrow> (u32 \<times> fsys) kres option" where
  "read_pipe env p buf cnt s = read_pipe_loop env p buf cnt 0 s"

partial_function (option) write_pipe_loop ::
    "environment \<Rightarrow> u32 \<Rightarrow> u32 \<Rightarrow> u32 \<Rightarrow> u32 \<Rightarrow> fsys \<Rightarrow> (u32 \<times> fsys) kres option" where
  "write_pipe_loop env p buf cnt sofar s =
     (if \<not> 0 <s cnt then Some (Inr (sofar, wake_fs (PIPE_READ_WAIT p) s))
      else if 4095 - PIPE_SIZE (inodes s p) = 0 then
        (let s = wake_fs (PIPE_READ_WAIT p) s in
         if i_count (inodes s p) \<noteq> 2
         then Some (Inr (if sofar \<noteq> 0 then sofar else - 1,
                         set_cur (\<lambda>t. t\<lparr>t_signal := t_signal t OR sigbit (signo SIGPIPE)\<rparr>) s))
         else obind (sleep_fs env (PIPE_WRITE_WAIT p) s) (\<lambda>s. write_pipe_loop env p buf cnt sofar s))
      else
        let chars = pipe_chars (PIPE_HEAD (inodes s p)) cnt (4095 - PIPE_SIZE (inodes s p))
        in write_pipe_loop env p (buf + of_nat (rounds chars)) (cnt - chars) (sofar + chars) (put_into_pipe p buf chars s))"

definition write_pipe :: "environment \<Rightarrow> u32 \<Rightarrow> u32 \<Rightarrow> u32 \<Rightarrow> fsys \<Rightarrow> (u32 \<times> fsys) kres option" where
  "write_pipe env p buf cnt s = write_pipe_loop env p buf cnt 0 s"

section \<open>Making a pipe\<close>

text \<open>The two loops: the first free entries of the table of files, at most \<open>n\<close>, each counted at once; a descriptor for
  each of the files.\<close>

fun claim_files :: "nat \<Rightarrow> u32 list \<Rightarrow> fsys \<Rightarrow> u32 list \<times> fsys" where
  "claim_files 0 fs s = ([], s)"
| "claim_files (Suc n) [] s = ([], s)"
| "claim_files (Suc n) (f # fs) s =
     (if f_count (files s f) \<noteq> 0 then claim_files (Suc n) fs s
      else let (gs, s) = claim_files n fs (upd_file f (\<lambda>f. f\<lparr>f_count := f_count f + 1\<rparr>) s) in (f # gs, s))"

fun claim_fds :: "u32 list \<Rightarrow> nat list \<Rightarrow> fsys \<Rightarrow> nat list \<times> fsys" where
  "claim_fds [] is s = ([], s)"
| "claim_fds (f # fs) [] s = ([], s)"
| "claim_fds (f # fs) (i # is) s =
     (if filp i s \<noteq> 0 then claim_fds (f # fs) is s
      else let (js, s) = claim_fds fs is (set_filp i f s) in (i # js, s))"

definition drop_file :: "u32 \<Rightarrow> fsys \<Rightarrow> fsys" where
  "drop_file f s = upd_file f (\<lambda>f. f\<lparr>f_count := 0\<rparr>) s"

definition sys_pipe :: "environment \<Rightarrow> u32 \<Rightarrow> fsys \<Rightarrow> (u32 \<times> fsys) kres option" where
  "sys_pipe env fildes s =
     (let (fs, s) = claim_files 2 (file_table s) s in
      if length fs < 2 then Some (Inr (- 1, fold drop_file fs s))
      else
        let (js, s) = claim_fds fs [0..<NR_OPEN] s in
        if length js < 2 then Some (Inr (- 1, fold drop_file fs (fold (\<lambda>i. set_filp i 0) js s)))
        else
          obind (get_pipe_inode env s) (\<lambda>(p, s).
          if p = 0 then Some (Inr (- 1, fold drop_file fs (fold (\<lambda>i. set_filp i 0) js s)))
          else
            let s = upd_file (fs ! 0) (\<lambda>f. f\<lparr>f_inode := p, f_pos := 0, f_mode := 1\<rparr>) s;
                s = upd_file (fs ! 1) (\<lambda>f. f\<lparr>f_inode := p, f_pos := 0, f_mode := 2\<rparr>) s
            in Some (Inr (0, s\<lparr>fu := put_fs_long (of_nat (js ! 1)) (fildes + 4) (put_fs_long (of_nat (js ! 0)) fildes (fu s))\<rparr>))))"

end
