(* ===== verification/Rw.thy ===== *)
theory Rw
  imports Pipe
begin

text \<open>
  Reading and writing: character devices (\<open>fs/char_dev.c\<close>), files (\<open>fs/file_dev.c\<close>), \<open>read\<close> and \<open>write\<close>
  (\<open>fs/read_write.c\<close>) and \<open>ioctl\<close> (\<open>fs/ioctl.c\<close>). The terminal of theory Tty is the part of the state these
  functions pass to it; what the others do while a reader sleeps they do to the whole state.
\<close>

section \<open>The terminal\<close>

record ttyfs = ttysys +
  t_fs :: fsys

definition tty_of :: "fsys \<Rightarrow> ttysys" where
  "tty_of s = \<lparr>s_tty = sys_tty s, s_con = sys_con s, s_w = fw s, s_user = fu s, s_verified = fverified s,
     s_cr_flag = sys_cr_flag s\<rparr>"

definition with_tty :: "'a ttysys_scheme \<Rightarrow> fsys \<Rightarrow> fsys" where
  "with_tty t s = s\<lparr>sys_tty := s_tty t, sys_con := s_con t, fw := s_w t, fu := s_user t, fverified := s_verified t,
     sys_cr_flag := s_cr_flag t\<rparr>"

definition to_ttyfs :: "fsys \<Rightarrow> ttyfs" where
  "to_ttyfs s = ttysys.extend (tty_of s) (ttyfs.fields s)"

definition of_ttyfs :: "ttyfs \<Rightarrow> fsys" where
  "of_ttyfs t = with_tty t (t_fs t)"

definition tty_env :: "environment \<Rightarrow> ttyfs \<Rightarrow> ttyfs" where
  "tty_env env t = to_ttyfs (others env (of_ttyfs t))"

lemma of_to_ttyfs [simp]: "of_ttyfs (to_ttyfs s) = s"
  by (simp add: of_ttyfs_def to_ttyfs_def with_tty_def tty_of_def ttysys.defs ttyfs.defs)

definition rw_ttyx :: "environment \<Rightarrow> u32 \<Rightarrow> u32 \<Rightarrow> u32 \<Rightarrow> u32 \<Rightarrow> fsys \<Rightarrow> (u32 \<times> fsys) kres option" where
  "rw_ttyx env rw minor buf cnt s =
     (if rw = WRITE then
        obind (tty_write (con_fuel env) minor buf cnt (tty_of s)) (\<lambda>(r, t). Some (Inr (r, with_tty t s)))
      else if rw = READ then
        obind (tty_read (tty_env env) minor buf cnt (to_ttyfs s)) (\<lambda>(r, t). Some (Inr (r, of_ttyfs t)))
      else Some (Inr (neg_errno EINVAL, s)))"

definition rw_tty :: "environment \<Rightarrow> u32 \<Rightarrow> u32 \<Rightarrow> u32 \<Rightarrow> u32 \<Rightarrow> fsys \<Rightarrow> (u32 \<times> fsys) kres option" where
  "rw_tty env rw minor buf cnt s =
     (if t_tty (cur (fk s)) <s 0 then Some (Inr (neg_errno EPERM, s))
      else rw_ttyx env rw (t_tty (cur (fk s))) buf cnt s)"

datatype crw_ptr = No_crw | Rw_ttyx | Rw_tty

definition crw_table :: "crw_ptr list" where
  "crw_table = [No_crw, No_crw, No_crw, No_crw, Rw_ttyx, Rw_tty, No_crw, No_crw]"

definition rw_char :: "environment \<Rightarrow> u32 \<Rightarrow> u32 \<Rightarrow> u32 \<Rightarrow> u32 \<Rightarrow> fsys \<Rightarrow> (u32 \<times> fsys) kres option" where
  "rw_char env rw dev buf cnt s =
     (if length crw_table \<le> unat (MAJOR dev) then Some (Inr (neg_errno ENODEV, s))
      else case crw_table ! unat (MAJOR dev) of
             No_crw \<Rightarrow> Some (Inr (neg_errno ENODEV, s))
           | Rw_ttyx \<Rightarrow> rw_ttyx env rw (MINOR dev) buf cnt s
           | Rw_tty \<Rightarrow> rw_tty env rw (MINOR dev) buf cnt s)"

text \<open>\<open>sys_ioctl\<close> drops the result of \<open>tty_ioctl\<close>.\<close>

definition sys_ioctl :: "environment \<Rightarrow> u32 \<Rightarrow> u32 \<Rightarrow> u32 \<Rightarrow> fsys \<Rightarrow> (u32 \<times> fsys) kres option" where
  "sys_ioctl env fd cmd arg s =
     (if fd = 0 \<or> fd = 1 then
        obind (tty_ioctl (con_fuel env) (io_pad env) 0 cmd arg (tty_of s)) (\<lambda>(r, t). Some (Inr (0, with_tty t s)))
      else Some (Inr (0, s)))"

section \<open>Files\<close>

text \<open>A position is signed: \<open>pos / BLOCK_SIZE\<close> and \<open>pos % BLOCK_SIZE\<close>.\<close>

definition pos_block :: "u32 \<Rightarrow> u32" where
  "pos_block pos = (if pos <s 0 then - (- pos div 1024) else pos div 1024)"

definition pos_offset :: "u32 \<Rightarrow> u32" where
  "pos_offset pos = pos - 1024 * pos_block pos"

definition at_most :: "u32 \<Rightarrow> u32 \<Rightarrow> u32" where
  "at_most a b = (if a <s b then a else b)"

text \<open>The bytes of one round of \<open>file_read\<close>: zeros for a block the file does not have.\<close>

definition block_bytes :: "u32 \<Rightarrow> u32 \<Rightarrow> u32 \<Rightarrow> fsys \<Rightarrow> u8 list" where
  "block_bytes b nr chars s =
     (if b = 0 then replicate (rounds chars) 0 else take (rounds chars) (drop (unat nr) (b_data (bhs s b))))"

partial_function (option) file_read_loop ::
    "environment \<Rightarrow> u32 \<Rightarrow> u32 \<Rightarrow> u32 \<Rightarrow> u32 \<Rightarrow> fsys \<Rightarrow> (u32 \<times> fsys) kres option" where
  "file_read_loop env p f buf left s =
     (if left = 0 then Some (Inr (left, s))
      else
        obind (bmap env p (pos_block (f_pos (files s f))) s) (\<lambda>(z, s).
        obind (if z = 0 then Some (Inr (0, s))
               else bread env (dev_of p s) z (log_fs ''block index is %d'' s)) (\<lambda>(b, s).
        if z \<noteq> 0 \<and> b = 0 then Some (Inr (left, s))
        else
          let nr = pos_offset (f_pos (files s f)); chars = at_most (1024 - nr) left in
          if nr <s 0 \<and> b \<noteq> 0 then Some (Inl OutOfBounds)
          else
            let s = upd_file f (\<lambda>f. f\<lparr>f_pos := f_pos f + chars\<rparr>) s;
                bs = block_bytes b nr chars s;
                s = s\<lparr>fu := store_bytes bs buf (fu s)\<rparr>
            in obind (brelse env b s) (\<lambda>s.
               file_read_loop env p f (buf + of_nat (rounds chars)) (left - chars) s))))"

definition file_read :: "environment \<Rightarrow> u32 \<Rightarrow> u32 \<Rightarrow> u32 \<Rightarrow> u32 \<Rightarrow> fsys \<Rightarrow> (u32 \<times> fsys) kres option" where
  "file_read env p f buf cnt s =
     (if cnt \<le>s 0 then Some (Inr (0, s))
      else obind (file_read_loop env p f buf cnt s) (\<lambda>(left, s).
        Some (Inr (if cnt - left \<noteq> 0 then cnt - left else neg_errno ERROR, s))))"

text \<open>The loop of \<open>file_write\<close> with the bytes written so far and the position.\<close>

partial_function (option) file_write_loop ::
    "environment \<Rightarrow> u32 \<Rightarrow> u32 \<Rightarrow> u32 \<Rightarrow> u32 \<Rightarrow> u32 \<Rightarrow> fsys \<Rightarrow> (u32 \<times> u32 \<times> fsys) kres option" where
  "file_write_loop env p buf cnt i pos s =
     (if \<not> i <s cnt then Some (Inr (i, pos, s))
      else
        obind (create_block env p (pos_block pos) s) (\<lambda>(z, s).
        if z = 0 then Some (Inr (i, pos, s))
        else
          obind (bread env (dev_of p s) z s) (\<lambda>(b, s).
          if b = 0 then Some (Inr (i, pos, s))
          else
            let off = pos_offset pos; c = at_most (1024 - off) (cnt - i); pos = pos + c in
            if off <s 0 then Some (Inl OutOfBounds)
            else
              let s = upd_bh b (\<lambda>h. h\<lparr>b_dirt := 1\<rparr>) s;
                  s = (if i_size (inodes s p) < pos then upd_inode p (\<lambda>q. q\<lparr>i_size := pos, i_dirt := 1\<rparr>) s else s);
                  s = upd_bh b (\<lambda>h. h\<lparr>b_data := overwrite (unat off) (load_bytes buf (rounds c) (fu s)) (b_data h)\<rparr>) s
              in obind (brelse env b s) (\<lambda>s.
                 file_write_loop env p (buf + of_nat (rounds c)) cnt (i + c) pos s))))"

definition file_write :: "environment \<Rightarrow> u32 \<Rightarrow> u32 \<Rightarrow> u32 \<Rightarrow> u32 \<Rightarrow> fsys \<Rightarrow> (u32 \<times> fsys) kres option" where
  "file_write env p f buf cnt s =
     (let append = ucast (f_flags (files s f)) AND O_APPEND \<noteq> 0;
          pos = (if append then i_size (inodes s p) else f_pos (files s f))
      in obind (file_write_loop env p buf cnt 0 pos s) (\<lambda>(i, pos, s).
         let s = (if ucast (f_flags (files s f)) AND O_APPEND = 0 then upd_file f (\<lambda>f. f\<lparr>f_pos := pos\<rparr>) s else s)
         in Some (Inr (if i \<noteq> 0 then i else - 1, s))))"

section \<open>The system calls\<close>

text \<open>What both calls do first: the descriptor, then the kind of the file.\<close>

definition sys_read :: "environment \<Rightarrow> u32 \<Rightarrow> u32 \<Rightarrow> u32 \<Rightarrow> fsys \<Rightarrow> (u32 \<times> fsys) kres option" where
  "sys_read env fd buf cnt s =
     (if NR_OPEN \<le> unat fd \<or> cnt <s 0 \<or> filp (unat fd) s = 0 then Some (Inr (neg_errno EINVAL, s))
      else if cnt = 0 then Some (Inr (0, s))
      else
        let f = filp (unat fd) s; p = f_inode (files s f); i = inodes s p in
        if p = 0 then Some (Inl NullDeref)
        else if i_pipe i \<noteq> 0 then
          if f_mode (files s f) AND 1 \<noteq> 0 then read_pipe env p buf cnt s else Some (Inr (neg_errno EIO, s))
        else if S_ISCHR (i_mode i) then rw_char env READ (ucast (i_zone i ! 0)) buf cnt s
        else if S_ISDIR (i_mode i) \<or> S_ISREG (i_mode i) then
          let pos = f_pos (files s f);
              cnt = (if i_size i < cnt + pos then i_size i - pos else cnt)
          in if cnt \<le>s 0 then Some (Inr (0, s)) else file_read env p f buf cnt s
        else Some (Inr (neg_errno EINVAL, log_fs ''(Read)inode->i_mode=%06o'' s)))"

definition sys_write :: "environment \<Rightarrow> u32 \<Rightarrow> u32 \<Rightarrow> u32 \<Rightarrow> fsys \<Rightarrow> (u32 \<times> fsys) kres option" where
  "sys_write env fd buf cnt s =
     (if NR_OPEN \<le> unat fd \<or> cnt <s 0 \<or> filp (unat fd) s = 0 then Some (Inr (neg_errno EINVAL, s))
      else if cnt = 0 then Some (Inr (0, s))
      else
        let f = filp (unat fd) s; p = f_inode (files s f); i = inodes s p in
        if p = 0 then Some (Inl NullDeref)
        else if i_pipe i \<noteq> 0 then
          if f_mode (files s f) AND 2 \<noteq> 0 then write_pipe env p buf cnt s else Some (Inr (neg_errno EIO, s))
        else if S_ISCHR (i_mode i) then rw_char env WRITE (ucast (i_zone i ! 0)) buf cnt s
        else if S_ISREG (i_mode i) then file_write env p f buf cnt s
        else Some (Inr (neg_errno EINVAL, log_fs ''(Write)inode->i_mode=%06o'' s)))"

end
