(* ===== verification/Namei.thy ===== *)
theory Namei
  imports Rw
begin

text \<open>
  Pathnames and directories, \<open>fs/namei.c\<close>: permissions, the entries of a directory, symbolic links, looking up a
  path, opening, and the calls that change directories.

  A pathname is read through the segment register \<open>fs\<close>. While the kernel follows a symbolic link \<open>fs\<close> is its own data
  segment and the pathname is the data of a buffer; then no further link is followed. The functions therefore take a
  parameter \<open>deep\<close>: how the text of a link is looked up when \<open>fs\<close> is the user's segment, and nothing otherwise.
\<close>

definition NAME_LEN :: nat where "NAME_LEN = 14"
definition DIR_ENTRIES_PER_BLOCK :: nat where "DIR_ENTRIES_PER_BLOCK = 64"

definition MAY_EXEC :: u32 where "MAY_EXEC = 1"
definition MAY_WRITE :: u32 where "MAY_WRITE = 2"
definition MAY_READ :: u32 where "MAY_READ = 4"

text \<open>The last character of the string is \<open>-1\<close> as a signed \<open>char\<close>.\<close>

definition ACC_MODE :: "u32 \<Rightarrow> u32" where
  "ACC_MODE x = [4, 2, 6, - 1] ! unat (x AND O_ACCMODE)"

definition S_ISVTX :: u16 where "S_ISVTX = 0x200"
definition I_DIRECTORY :: u16 where "I_DIRECTORY = 0x4000"

section \<open>Pathnames\<close>

datatype pathname = User u32 | Link u32 nat

fun path_next :: "pathname \<Rightarrow> pathname" where
  "path_next (User a) = User (a + 1)"
| "path_next (Link b i) = Link b (i + 1)"

fun path_char :: "pathname \<Rightarrow> fsys \<Rightarrow> u8 kres" where
  "path_char (User a) s = Inr (fu s a)"
| "path_char (Link b i) s = (if i < length (b_data (bhs s b)) then Inr (b_data (bhs s b) ! i) else Inl OutOfBounds)"

abbreviation slash :: u8 where "slash \<equiv> 47"
abbreviation dot :: u8 where "dot \<equiv> 46"

text \<open>To the end of a component: the character that ends it, the rest behind it, its length.\<close>

partial_function (option) name_end :: "pathname \<Rightarrow> u32 \<Rightarrow> fsys \<Rightarrow> (u8 \<times> pathname \<times> u32) kres option" where
  "name_end p n s =
     obind (Some (path_char p s)) (\<lambda>c.
     if c \<noteq> 0 \<and> c \<noteq> slash then name_end (path_next p) (n + 1) s else Some (Inr (c, path_next p, n)))"

text \<open>The last component: \<open>base\<close> is behind the last slash so far, \<open>n\<close> characters back.\<close>

partial_function (option) last_name :: "pathname \<Rightarrow> pathname \<Rightarrow> u32 \<Rightarrow> fsys \<Rightarrow> (pathname \<times> u32) kres option" where
  "last_name p base n s =
     obind (Some (path_char p s)) (\<lambda>c.
     if c = 0 then Some (Inr (base, n))
     else if c = slash then last_name (path_next p) (path_next p) 0 s
     else last_name (path_next p) base (n + 1) s)"

section \<open>Permissions\<close>

definition permission :: "u32 \<Rightarrow> u32 \<Rightarrow> fsys \<Rightarrow> bool" where
  "permission p want s =
     (let i = inodes s p; k = fk s; mode = (ucast (i_mode i) :: u32) in
      if i_dev i \<noteq> 0 \<and> i_nlinks i = 0 then False
      else
        let mode = (if t_euid (cur k) = i_uid i then drop_bit 6 mode
                    else if in_group_p (ucast (i_gid i)) k \<noteq> 0 then drop_bit 3 mode else mode)
        in mode AND want AND 7 = want \<or> suser k)"

section \<open>Entries of directories\<close>

text \<open>A directory entry: the 16 bytes at an offset in the data of a buffer, the number of the i-node and the name.\<close>

definition de_bytes :: "u32 \<Rightarrow> nat \<Rightarrow> fsys \<Rightarrow> u8 list" where
  "de_bytes b off s = take 16 (drop off (b_data (bhs s b)))"

definition de_inode :: "u32 \<Rightarrow> nat \<Rightarrow> fsys \<Rightarrow> u16" where
  "de_inode b off s = short_at (de_bytes b off s) 0"

definition set_de_inode :: "u32 \<Rightarrow> nat \<Rightarrow> u16 \<Rightarrow> fsys \<Rightarrow> fsys" where
  "set_de_inode b off v s = upd_bh b (\<lambda>h. h\<lparr>b_data := overwrite off (le16 v) (b_data h)\<rparr>) s"

definition dirty :: "u32 \<Rightarrow> fsys \<Rightarrow> fsys" where
  "dirty b s = upd_bh b (\<lambda>h. h\<lparr>b_dirt := 1\<rparr>) s"

text \<open>\<open>repe cmpsb\<close> reads the pathname as long as the bytes agree; with nothing to compare the names agree.\<close>

fun same_name :: "pathname \<Rightarrow> u8 list \<Rightarrow> fsys \<Rightarrow> bool kres" where
  "same_name p [] s = Inr True"
| "same_name p (c # cs) s =
     kbind (path_char p s) (\<lambda>d. if d = c then same_name (path_next p) cs s else Inr False)"

definition match :: "u32 \<Rightarrow> pathname \<Rightarrow> u8 list \<Rightarrow> fsys \<Rightarrow> bool kres" where
  "match len name de s =
     (let nm = drop 2 de in
      if short_at de 0 = 0 \<or> of_nat NAME_LEN <s len then Inr False
      else if len = 0 \<and> nm ! 0 = dot \<and> nm ! 1 = 0 then Inr True
      else if len <s of_nat NAME_LEN \<and> nm ! unat len \<noteq> 0 then Inr False
      else same_name name (take (unat len) nm) s)"

text \<open>The loop of \<open>find_entry\<close> with the number of entries left, the index, the buffer and the offset in it; without a
  buffer the test of the next round reads through a null pointer.\<close>

function find_loop ::
    "environment \<Rightarrow> u32 \<Rightarrow> pathname \<Rightarrow> u32 \<Rightarrow> nat \<Rightarrow> nat \<Rightarrow> u32 \<Rightarrow> nat \<Rightarrow> fsys \<Rightarrow> (u32 \<times> nat \<times> fsys) kres option" where
  "find_loop env dir name len 0 i b off s = obind (brelse env b s) (\<lambda>s. Some (Inr (0, 0, s)))"
| "find_loop env dir name len (Suc n) i b off s =
     (if b = 0 then Some (Inl NullDeref)
      else if BLOCK_SIZE \<le> off then
        obind (brelse env b s) (\<lambda>s.
        obind (bmap env dir (of_nat (i div DIR_ENTRIES_PER_BLOCK)) s) (\<lambda>(z, s).
        obind (if z = 0 then Some (Inr (0, s)) else bread env (dev_of dir s) z s) (\<lambda>(b, s).
        if b = 0 then find_loop env dir name len (Suc n - DIR_ENTRIES_PER_BLOCK) (i + DIR_ENTRIES_PER_BLOCK) 0 off s
        else find_loop env dir name len (Suc n) i b 0 s)))
      else
        obind (Some (match len name (de_bytes b off s) s)) (\<lambda>m.
        if m then Some (Inr (b, off, s)) else find_loop env dir name len n (i + 1) b (off + 16) s))"
  by pat_completeness auto
termination
  by (relation "measure (\<lambda>(env, dir, name, len, n, i, b, off, s). 2 * n + (if BLOCK_SIZE \<le> off then 1 else 0))")
    (auto simp: BLOCK_SIZE_def DIR_ENTRIES_PER_BLOCK_def)

text \<open>The buffer and the offset of the entry, or no buffer. In the root directory \<open>..\<close> is taken as \<open>.\<close>.\<close>

definition find_entry :: "environment \<Rightarrow> u32 \<Rightarrow> pathname \<Rightarrow> u32 \<Rightarrow> fsys \<Rightarrow> (u32 \<times> nat \<times> fsys) kres option" where
  "find_entry env dir name len s =
     obind (if len \<noteq> 2 then Some (Inr False)
            else obind (Some (path_char name s)) (\<lambda>c.
                 if c \<noteq> dot then Some (Inr False)
                 else obind (Some (path_char (path_next name) s)) (\<lambda>c. Some (Inr (c = dot))))) (\<lambda>up.
     let len = (if up \<and> dir = t_root (cur (fk s)) then 1 else len) in
     if zone dir 0 s = 0 then Some (Inr (0, 0, s))
     else
       let entries = unat (i_size (inodes s dir) div 16) in
       obind (bread env (dev_of dir s) (ucast (zone dir 0 s)) s) (\<lambda>(b, s).
       if b = 0 then Some (Inr (0, 0, s)) else find_loop env dir name len entries 0 b 0 s))"

fun padded_name :: "nat \<Rightarrow> u32 \<Rightarrow> pathname \<Rightarrow> fsys \<Rightarrow> u8 list kres" where
  "padded_name 0 len p s = Inr []"
| "padded_name (Suc k) len p s =
     kbind (if 0 <s len then path_char p s else Inr 0) (\<lambda>c.
     kbind (padded_name k (len - 1) (path_next p) s) (\<lambda>cs. Inr (c # cs)))"

text \<open>A new entry at the end of the directory.\<close>

definition grow_dir :: "u32 \<Rightarrow> nat \<Rightarrow> u32 \<Rightarrow> nat \<Rightarrow> fsys \<Rightarrow> fsys" where
  "grow_dir dir i b off s =
     upd_inode dir (\<lambda>d. d\<lparr>i_size := of_nat ((i + 1) * 16), i_dirt := 1, i_ctime := CURRENT_TIME (fk s)\<rparr>)
       (set_de_inode b off 0 s)"

partial_function (option) add_loop ::
    "environment \<Rightarrow> u32 \<Rightarrow> pathname \<Rightarrow> u32 \<Rightarrow> nat \<Rightarrow> u32 \<Rightarrow> nat \<Rightarrow> fsys \<Rightarrow> (u32 \<times> nat \<times> fsys) kres option" where
  "add_loop env dir name len i b off s =
     (if b = 0 then Some (Inl NullDeref)
      else if BLOCK_SIZE \<le> off then
        obind (brelse env b s) (\<lambda>s.
        obind (create_block env dir (of_nat (i div DIR_ENTRIES_PER_BLOCK)) s) (\<lambda>(z, s).
        if z = 0 then Some (Inr (0, 0, s))
        else
          obind (bread env (dev_of dir s) z s) (\<lambda>(b, s).
          if b = 0 then add_loop env dir name len (i + DIR_ENTRIES_PER_BLOCK) 0 off s
          else add_loop env dir name len i b 0 s)))
      else
        let s = (if i_size (inodes s dir) \<le> of_nat (i * 16) then grow_dir dir i b off s else s) in
        if de_inode b off s = 0 then
          obind (Some (padded_name NAME_LEN len name s)) (\<lambda>cs.
          let s = dirty b (upd_bh b (\<lambda>h. h\<lparr>b_data := overwrite (off + 2) cs (b_data h)\<rparr>) s);
              s = upd_inode dir (\<lambda>d. d\<lparr>i_mtime := CURRENT_TIME (fk s)\<rparr>) s
          in Some (Inr (b, off, s)))
        else add_loop env dir name len (i + 1) b (off + 16) s)"

definition add_entry :: "environment \<Rightarrow> u32 \<Rightarrow> pathname \<Rightarrow> u32 \<Rightarrow> fsys \<Rightarrow> (u32 \<times> nat \<times> fsys) kres option" where
  "add_entry env dir name len s =
     (if len = 0 \<or> zone dir 0 s = 0 then Some (Inr (0, 0, s))
      else
        obind (bread env (dev_of dir s) (ucast (zone dir 0 s)) s) (\<lambda>(b, s).
        if b = 0 then Some (Inr (0, 0, s)) else add_loop env dir name len 0 b 0 s))"

section \<open>Looking up a path\<close>

type_synonym lookup = "u32 \<Rightarrow> u32 \<Rightarrow> fsys \<Rightarrow> (u32 \<times> fsys) kres option"

text \<open>\<open>inode->i_count++\<close>; giving back several i-nodes, then a buffer.\<close>

definition grab :: "u32 \<Rightarrow> fsys \<Rightarrow> fsys kres" where
  "grab p s = (if p = 0 then Inl NullDeref else Inr (upd_inode p (\<lambda>i. i\<lparr>i_count := i_count i + 1\<rparr>) s))"

fun leave :: "environment \<Rightarrow> u32 list \<Rightarrow> u32 \<Rightarrow> 'a \<Rightarrow> fsys \<Rightarrow> ('a \<times> fsys) kres option" where
  "leave env [] b r s = obind (brelse env b s) (\<lambda>s. Some (Inr (r, s)))"
| "leave env (p # ps) b r s = obind (iput env p s) (leave env ps b r)"

definition follow_link :: "environment \<Rightarrow> lookup option \<Rightarrow> u32 \<Rightarrow> u32 \<Rightarrow> fsys \<Rightarrow> (u32 \<times> fsys) kres option" where
  "follow_link env deep dir p s =
     obind (if dir \<noteq> 0 then Some (Inr (dir, s))
            else obind (Some (grab (t_root (cur (fk s))) s)) (\<lambda>s. Some (Inr (t_root (cur (fk s)), s)))) (\<lambda>(dir, s).
     if p = 0 then leave env [dir] 0 0 s
     else if \<not> S_ISLNK (i_mode (inodes s p)) then leave env [dir] 0 p s
     else case deep of
       None \<Rightarrow> leave env [dir, p] 0 0 s
     | Some look \<Rightarrow>
         if zone p 0 s = 0 then leave env [dir, p] 0 0 s
         else
           obind (bread env (dev_of p s) (ucast (zone p 0 s)) s) (\<lambda>(b, s).
           if b = 0 then leave env [dir, p] 0 0 s
           else
             obind (iput env p s) (\<lambda>s.
             obind (look b dir s) (\<lambda>(p, s). leave env [] b p s))))"

partial_function (option) get_dir_loop ::
    "environment \<Rightarrow> lookup option \<Rightarrow> pathname \<Rightarrow> u32 \<Rightarrow> fsys \<Rightarrow> (u32 \<times> fsys) kres option" where
  "get_dir_loop env deep path p s =
     (if \<not> S_ISDIR (i_mode (inodes s p)) \<or> \<not> permission p MAY_EXEC s then leave env [p] 0 0 s
      else
        obind (name_end path 0 s) (\<lambda>(c, rest, len).
        if c = 0 then Some (Inr (p, s))
        else
          obind (find_entry env p path len s) (\<lambda>(b, off, s).
          if b = 0 then leave env [p] 0 0 s
          else
            let inr = de_inode b off s in
            obind (brelse env b s) (\<lambda>s.
            obind (iget env (dev_of p s) (ucast inr) s) (\<lambda>(q, s).
            if q = 0 then leave env [p] 0 0 s
            else
              obind (follow_link env deep p q s) (\<lambda>(q, s).
              if q = 0 then Some (Inr (0, s)) else get_dir_loop env deep rest q s))))))"

definition get_dir :: "environment \<Rightarrow> lookup option \<Rightarrow> pathname \<Rightarrow> u32 \<Rightarrow> fsys \<Rightarrow> (u32 \<times> fsys) kres option" where
  "get_dir env deep path base s =
     obind (if base \<noteq> 0 then Some (Inr (base, s))
            else obind (Some (grab (t_pwd (cur (fk s))) s)) (\<lambda>s. Some (Inr (t_pwd (cur (fk s)), s)))) (\<lambda>(p, s).
     obind (Some (path_char path s)) (\<lambda>c.
     if c \<noteq> slash then get_dir_loop env deep path p s
     else
       obind (iput env p s) (\<lambda>s.
       obind (Some (grab (t_root (cur (fk s))) s)) (\<lambda>s.
       get_dir_loop env deep (path_next path) (t_root (cur (fk s))) s))))"

text \<open>The directory, or 0, and the last component with its length.\<close>

definition dir_namei ::
    "environment \<Rightarrow> lookup option \<Rightarrow> pathname \<Rightarrow> u32 \<Rightarrow> fsys \<Rightarrow> (u32 \<times> pathname \<times> u32 \<times> fsys) kres option" where
  "dir_namei env deep path base s =
     obind (get_dir env deep path base s) (\<lambda>(dir, s).
     if dir = 0 then Some (Inr (0, path, 0, s))
     else obind (last_name path path 0 s) (\<lambda>(name, len). Some (Inr (dir, name, len, s))))"

text \<open>\<open>_namei\<close>: the time of access is set through a null pointer when a link leads nowhere.\<close>

definition do_namei ::
    "environment \<Rightarrow> lookup option \<Rightarrow> pathname \<Rightarrow> u32 \<Rightarrow> bool \<Rightarrow> fsys \<Rightarrow> (u32 \<times> fsys) kres option" where
  "do_namei env deep path base follow s =
     obind (dir_namei env deep path base s) (\<lambda>(dir, name, len, s).
     if dir = 0 then Some (Inr (0, s))
     else if len = 0 then Some (Inr (dir, s))
     else
       obind (find_entry env dir name len s) (\<lambda>(b, off, s).
       if b = 0 then leave env [dir] 0 0 s
       else
         let inr = de_inode b off s in
         obind (brelse env b s) (\<lambda>s.
         obind (iget env (dev_of dir s) (ucast inr) s) (\<lambda>(p, s).
         if p = 0 then leave env [dir] 0 0 s
         else
           obind (if follow then follow_link env deep dir p s else leave env [dir] 0 p s) (\<lambda>(p, s).
           if p = 0 then Some (Inl NullDeref)
           else Some (Inr (p, upd_inode p (\<lambda>i. i\<lparr>i_atime := CURRENT_TIME (fk s), i_dirt := 1\<rparr>) s)))))))"

definition link_namei :: "environment \<Rightarrow> lookup" where
  "link_namei env b dir s = do_namei env None (Link b 0) dir False s"

definition user_fs :: "environment \<Rightarrow> lookup option" where
  "user_fs env = Some (link_namei env)"

definition namei :: "environment \<Rightarrow> u32 \<Rightarrow> fsys \<Rightarrow> (u32 \<times> fsys) kres option" where
  "namei env path s = do_namei env (user_fs env) (User path) 0 True s"

abbreviation user_dir :: "environment \<Rightarrow> u32 \<Rightarrow> fsys \<Rightarrow> (u32 \<times> pathname \<times> u32 \<times> fsys) kres option" where
  "user_dir env path s \<equiv> dir_namei env (user_fs env) (User path) 0 s"

text \<open>The result is the error number or 0, and the i-node. What the code computes for \<open>mode\<close> is not used.\<close>

definition open_namei :: "environment \<Rightarrow> u32 \<Rightarrow> u32 \<Rightarrow> fsys \<Rightarrow> (u32 \<times> u32 \<times> fsys) kres option" where
  "open_namei env path flag s =
     (let flag = (if flag AND O_TRUNC \<noteq> 0 \<and> flag AND O_ACCMODE = 0 then flag OR O_WRONLY else flag) in
      obind (user_dir env path s) (\<lambda>(dir, name, len, s).
      if dir = 0 then Some (Inr (neg_errno ENOENT, 0, s))
      else
        obind (find_entry env dir name len s) (\<lambda>(b, off, s).
        if b = 0 then Some (Inr (neg_errno EINVAL, 0, s))
        else
          let inr = de_inode b off s; dev = dev_of dir s in
          obind (brelse env b s) (\<lambda>s.
          obind (iget env dev (ucast inr) s) (\<lambda>(p, s).
          obind (follow_link env (user_fs env) dir p s) (\<lambda>(p, s).
          if p = 0 then Some (Inr (neg_errno EACCES, 0, s))
          else if S_ISDIR (i_mode (inodes s p)) \<and> flag AND O_ACCMODE \<noteq> 0 \<or> \<not> permission p (ACC_MODE flag) s then
            obind (iput env p s) (\<lambda>s. Some (Inr (neg_errno EPERM, 0, s)))
          else
            obind (if flag AND O_TRUNC \<noteq> 0 then Truncate.truncate env p s else Some (Inr s)) (\<lambda>s.
            obind (iget env dev (ucast inr) s) (\<lambda>(p, s).
            Some (Inr (0, p, upd_inode p (\<lambda>i. i\<lparr>i_atime := CURRENT_TIME (fk s)\<rparr>) s))))))))))"

end
