(* ===== verification/Dirs.thy ===== *)
theory Dirs
  imports Namei
begin

text \<open>
  The system calls that take pathnames: \<open>mkdir\<close>, \<open>rmdir\<close>, \<open>symlink\<close>, \<open>link\<close> and \<open>unlink\<close> (\<open>fs/namei.c\<close>), \<open>utime\<close>,
  \<open>ls\<close>, \<open>open\<close> and \<open>chdir\<close> (\<open>fs/open.c\<close>), \<open>stat\<close> (\<open>fs/stat.c\<close>).
\<close>

section \<open>Making and removing directories\<close>

text \<open>\<open>inode->i_nlinks--\<close>; entering an i-node into a directory entry that \<open>add_entry\<close> found.\<close>

definition unlink_inode :: "u32 \<Rightarrow> fsys \<Rightarrow> fsys" where
  "unlink_inode p s = upd_inode p (\<lambda>i. i\<lparr>i_nlinks := i_nlinks i - 1\<rparr>) s"

definition enter_inode :: "u32 \<Rightarrow> u32 \<Rightarrow> nat \<Rightarrow> fsys \<Rightarrow> fsys" where
  "enter_inode p b off s = dirty b (set_de_inode b off (i_num (inodes s p)) s)"

text \<open>\<open>strcpy\<close> writes the dots and the zero behind them.\<close>

definition dot_entries :: "u16 \<Rightarrow> u16 \<Rightarrow> u8 list \<Rightarrow> u8 list" where
  "dot_entries self up ds =
     overwrite 16 (le16 up @ [dot, dot, 0]) (overwrite 0 (le16 self @ [dot, 0]) ds)"

definition new_mode :: "u16 \<Rightarrow> u32 \<Rightarrow> fsys \<Rightarrow> u16" where
  "new_mode kind mode s = kind OR (ucast mode AND 0x1FF AND NOT (t_umask (cur (fk s))))"

definition sys_mkdir :: "environment \<Rightarrow> u32 \<Rightarrow> u32 \<Rightarrow> fsys \<Rightarrow> (u32 \<times> fsys) kres option" where
  "sys_mkdir env path mode s =
     obind (user_dir env path s) (\<lambda>(dir, name, len, s).
     if dir = 0 then Some (Inr (neg_errno ENOENT, s))
     else if len = 0 then leave env [dir] 0 (neg_errno ENOENT) s
     else if \<not> permission dir MAY_WRITE s then leave env [dir] 0 (neg_errno EPERM) s
     else
       obind (find_entry env dir name len s) (\<lambda>(b, off, s).
       if b \<noteq> 0 then obind (brelse env b s) (leave env [dir] 0 (neg_errno EEXIST))
       else
         obind (new_inode env (dev_of dir s) s) (\<lambda>(p, s).
         if p = 0 then leave env [dir] 0 (neg_errno ENOSPC) s
         else
           let now = CURRENT_TIME (fk s);
               s = upd_inode p (\<lambda>i. i\<lparr>i_size := 32, i_dirt := 1, i_atime := now, i_mtime := now\<rparr>) s in
           obind (new_block env (dev_of p s) s) (\<lambda>(z, s).
           let s = set_zone p 0 (ucast z) s in
           if zone p 0 s = 0 then
             obind (iput env dir s) (\<lambda>s. leave env [p] 0 (neg_errno ENOSPC) (unlink_inode p s))
           else
             let s = upd_inode p (\<lambda>i. i\<lparr>i_dirt := 1\<rparr>) s in
             obind (bread env (dev_of p s) (ucast (zone p 0 s)) s) (\<lambda>(b, s).
             if b = 0 then obind (iput env dir s) (\<lambda>s. leave env [p] 0 (neg_errno ERROR) (unlink_inode p s))
             else
               let s = upd_bh b (\<lambda>h. h\<lparr>b_data := dot_entries (i_num (inodes s p)) (i_num (inodes s dir)) (b_data h)\<rparr>) s;
                   s = dirty b (upd_inode p (\<lambda>i. i\<lparr>i_nlinks := 2\<rparr>) s) in
               obind (brelse env b s) (\<lambda>s.
               let s = upd_inode p (\<lambda>i. i\<lparr>i_mode := new_mode I_DIRECTORY mode s, i_dirt := 1\<rparr>) s in
               obind (add_entry env dir name len s) (\<lambda>(b, off, s).
               if b = 0 then obind (iput env dir s) (\<lambda>s. leave env [p] 0 (neg_errno ENOSPC) (unlink_inode p s))
               else
                 let s = upd_inode dir (\<lambda>d. d\<lparr>i_nlinks := i_nlinks d + 1, i_dirt := 1\<rparr>) (enter_inode p b off s)
                 in leave env [dir, p] b 0 s)))))))"

text \<open>The loop of \<open>empty_dir\<close>. A block that is missing ends it, and the buffer that was just released is released again.\<close>

function empty_loop :: "environment \<Rightarrow> u32 \<Rightarrow> nat \<Rightarrow> nat \<Rightarrow> u32 \<Rightarrow> nat \<Rightarrow> fsys \<Rightarrow> (bool \<times> fsys) kres option" where
  "empty_loop env p 0 nr b off s = leave env [] b True s"
| "empty_loop env p (Suc n) nr b off s =
     (if BLOCK_SIZE \<le> off then
        obind (brelse env b s) (\<lambda>s.
        obind (bmap env p (of_nat (nr div DIR_ENTRIES_PER_BLOCK)) s) (\<lambda>(z, s).
        if z = 0 then leave env [] b True s
        else
          obind (bread env (dev_of p s) z s) (\<lambda>(b, s).
          if b = 0 then Some (Inr (False, s)) else empty_loop env p (Suc n) nr b 0 s)))
      else if de_inode b off s \<noteq> 0 then leave env [] b False s
      else empty_loop env p n (nr + 1) b (off + 16) s)"
  by pat_completeness auto
termination
  by (relation "measure (\<lambda>(env, p, n, nr, b, off, s). 2 * n + (if BLOCK_SIZE \<le> off then 1 else 0))")
    (auto simp: BLOCK_SIZE_def)

definition bad_directory :: "u32 \<Rightarrow> u32 \<Rightarrow> fsys \<Rightarrow> bool" where
  "bad_directory p b s \<longleftrightarrow>
     (let de0 = de_bytes b 0 s; de1 = de_bytes b 16 s in
      short_at de0 0 \<noteq> i_num (inodes s p) \<or> short_at de1 0 = 0 \<or> \<not> (de0 ! 2 = dot \<and> de0 ! 3 = 0) \<or>
      \<not> (de1 ! 2 = dot \<and> de1 ! 3 = dot \<and> de1 ! 4 = 0))"

definition empty_dir :: "environment \<Rightarrow> u32 \<Rightarrow> fsys \<Rightarrow> (bool \<times> fsys) kres option" where
  "empty_dir env p s =
     (let len = unat (i_size (inodes s p) div 16); bad = log_fs ''warning - bad directory on dev %04x'' in
      if len < 2 \<or> zone p 0 s = 0 then Some (Inr (False, bad s))
      else
        obind (bread env (dev_of p s) (ucast (zone p 0 s)) s) (\<lambda>(b, s).
        if b = 0 \<or> bad_directory p b s then Some (Inr (False, bad s))
        else empty_loop env p (len - 2) 2 b 32 s))"

definition sys_rmdir :: "environment \<Rightarrow> u32 \<Rightarrow> fsys \<Rightarrow> (u32 \<times> fsys) kres option" where
  "sys_rmdir env path s =
     obind (user_dir env path s) (\<lambda>(dir, name, len, s).
     if dir = 0 then Some (Inr (neg_errno ENOENT, s))
     else if len = 0 then leave env [dir] 0 (neg_errno ENOENT) s
     else if \<not> permission dir MAY_WRITE s then leave env [dir] 0 (neg_errno EPERM) s
     else
       obind (find_entry env dir name len s) (\<lambda>(b, off, s).
       if b = 0 then leave env [dir] 0 (neg_errno ENOENT) s
       else
         obind (iget env (dev_of dir s) (ucast (de_inode b off s)) s) (\<lambda>(p, s).
         if p = 0 then leave env [dir] b (neg_errno EPERM) s
         else if i_dev (inodes s p) \<noteq> i_dev (inodes s dir) \<or> 1 < i_count (inodes s p)
         then leave env [dir, p] b (neg_errno EPERM) s
         else if p = dir then leave env [dir, p] b (neg_errno EPERM) s
         else if \<not> S_ISDIR (i_mode (inodes s p)) then leave env [dir, p] b (neg_errno ENOTDIR) s
         else
           obind (empty_dir env p s) (\<lambda>(empty, s).
           if \<not> empty then leave env [p, dir] b (neg_errno ENOTEMPTY) s
           else
             let s = (if i_nlinks (inodes s p) \<noteq> 2 then log_fs ''empty directory has nlink!=2 (%d)'' s else s);
                 s = dirty b (set_de_inode b off 0 s) in
             obind (brelse env b s) (\<lambda>s.
             let s = upd_inode p (\<lambda>i. i\<lparr>i_nlinks := 0, i_dirt := 1\<rparr>) s;
                 s = upd_inode dir (\<lambda>d. d\<lparr>i_dirt := 1\<rparr>) (unlink_inode dir s)
             in leave env [dir, p] 0 0 s)))))"

section \<open>Links\<close>

text \<open>At most 1023 characters of a string of the user.\<close>

definition link_text :: "u32 \<Rightarrow> fsys \<Rightarrow> u8 list" where
  "link_text a s = takeWhile (\<lambda>c. c \<noteq> 0) (load_bytes a 1023 (fu s))"

definition sys_symlink :: "environment \<Rightarrow> u32 \<Rightarrow> u32 \<Rightarrow> fsys \<Rightarrow> (u32 \<times> fsys) kres option" where
  "sys_symlink env old new s =
     obind (user_dir env new s) (\<lambda>(dir, name, len, s).
     if dir = 0 then Some (Inr (neg_errno EACCES, s))
     else if len = 0 then leave env [dir] 0 (neg_errno EPERM) s
     else if \<not> permission dir MAY_WRITE s then leave env [dir] 0 (neg_errno EACCES) s
     else
       obind (new_inode env (dev_of dir s) s) (\<lambda>(p, s).
       if p = 0 then leave env [dir] 0 (neg_errno ENOSPC) s
       else
         let s = upd_inode p (\<lambda>i. i\<lparr>i_mode := new_mode S_IFLNK 0x1FF s, i_dirt := 1\<rparr>) s in
         obind (new_block env (dev_of p s) s) (\<lambda>(z, s).
         let s = set_zone p 0 (ucast z) s in
         if zone p 0 s = 0 then
           obind (iput env dir s) (\<lambda>s. leave env [p] 0 (neg_errno ENOSPC) (unlink_inode p s))
         else
           let s = upd_inode p (\<lambda>i. i\<lparr>i_dirt := 1\<rparr>) s in
           obind (bread env (dev_of p s) (ucast (zone p 0 s)) s) (\<lambda>(b, s).
           if b = 0 then obind (iput env dir s) (\<lambda>s. leave env [p] 0 (neg_errno ERROR) (unlink_inode p s))
           else
             let txt = link_text old s;
                 s = dirty b (upd_bh b (\<lambda>h. h\<lparr>b_data := overwrite 0 (txt @ [0]) (b_data h)\<rparr>) s) in
             obind (brelse env b s) (\<lambda>s.
             let s = upd_inode p (\<lambda>i. i\<lparr>i_size := of_nat (length txt), i_dirt := 1\<rparr>) s in
             obind (find_entry env dir name len s) (\<lambda>(b, off, s).
             if b \<noteq> 0 then
               obind (iput env p (unlink_inode p s)) (\<lambda>s. obind (brelse env b s) (leave env [dir] 0 (neg_errno EEXIST)))
             else
               obind (add_entry env dir name len s) (\<lambda>(b, off, s).
               if b = 0 then leave env [p, dir] 0 (neg_errno ENOSPC) (unlink_inode p s)
               else obind (brelse env b (enter_inode p b off s)) (leave env [dir, p] 0 0))))))))"

definition sys_link :: "environment \<Rightarrow> u32 \<Rightarrow> u32 \<Rightarrow> fsys \<Rightarrow> (u32 \<times> fsys) kres option" where
  "sys_link env old new s =
     obind (namei env old s) (\<lambda>(p, s).
     if p = 0 then Some (Inr (neg_errno ENOENT, s))
     else if S_ISDIR (i_mode (inodes s p)) then leave env [p] 0 (neg_errno EPERM) s
     else
       obind (user_dir env new s) (\<lambda>(dir, name, len, s).
       if dir = 0 then leave env [p] 0 (neg_errno EACCES) s
       else if len = 0 then leave env [p, dir] 0 (neg_errno EPERM) s
       else if i_dev (inodes s dir) \<noteq> i_dev (inodes s p) then leave env [dir, p] 0 (neg_errno EXDEV) s
       else if \<not> permission dir MAY_WRITE s then leave env [dir, p] 0 (neg_errno EACCES) s
       else
         obind (find_entry env dir name len s) (\<lambda>(b, off, s).
         if b \<noteq> 0 then obind (brelse env b s) (leave env [dir, p] 0 (neg_errno EEXIST))
         else
           obind (add_entry env dir name len s) (\<lambda>(b, off, s).
           if b = 0 then leave env [dir, p] 0 (neg_errno ENOSPC) s
           else
             obind (brelse env b (enter_inode p b off s)) (\<lambda>s.
             obind (iput env dir s) (\<lambda>s.
             leave env [p] 0 0 (upd_inode p (\<lambda>i. i\<lparr>i_nlinks := i_nlinks i + 1, i_dirt := 1\<rparr>) s)))))))"

definition sys_unlink :: "environment \<Rightarrow> u32 \<Rightarrow> fsys \<Rightarrow> (u32 \<times> fsys) kres option" where
  "sys_unlink env path s =
     obind (user_dir env path s) (\<lambda>(dir, name, len, s).
     if dir = 0 then Some (Inr (neg_errno ENOENT, s))
     else if len = 0 then leave env [dir] 0 (neg_errno ENOENT) s
     else if \<not> permission dir MAY_WRITE s then leave env [dir] 0 (neg_errno EPERM) s
     else
       obind (find_entry env dir name len s) (\<lambda>(b, off, s).
       if b = 0 then leave env [dir] 0 (neg_errno ENOENT) s
       else
         obind (iget env (dev_of dir s) (ucast (de_inode b off s)) s) (\<lambda>(p, s).
         let euid = t_euid (cur (fk s)) in
         if p = 0 then leave env [dir] b (neg_errno ENOENT) s
         else if i_mode (inodes s dir) AND S_ISVTX \<noteq> 0 \<and> \<not> suser (fk s) \<and> euid \<noteq> i_uid (inodes s p) \<and>
             euid \<noteq> i_uid (inodes s dir) then leave env [dir, p] b (neg_errno EPERM) s
         else if S_ISDIR (i_mode (inodes s p)) then leave env [p, dir] b (neg_errno EPERM) s
         else
           let s = (if i_nlinks (inodes s p) = 0
                    then upd_inode p (\<lambda>i. i\<lparr>i_nlinks := 1\<rparr>) (log_fs ''Deleting nonexistent file (%04x:%d), %d'' s) else s);
               s = dirty b (set_de_inode b off 0 s) in
           obind (brelse env b s) (\<lambda>s.
           leave env [p, dir] 0 0 (upd_inode p (\<lambda>i. i\<lparr>i_dirt := 1\<rparr>) (unlink_inode p s))))))"

section \<open>Opening\<close>

fun free_file :: "u32 list \<Rightarrow> fsys \<Rightarrow> u32 option" where
  "free_file [] s = None"
| "free_file (f # fs) s = (if f_count (files s f) = 0 then Some f else free_file fs s)"

definition sys_open :: "environment \<Rightarrow> u32 \<Rightarrow> u32 \<Rightarrow> fsys \<Rightarrow> (u32 \<times> fsys) kres option" where
  "sys_open env path flag s =
     (case free_fd NR_OPEN 0 s of
        None \<Rightarrow> Some (Inr (neg_errno EINVAL, s))
      | Some fd \<Rightarrow>
          let s = keep_on_exec fd s in
          case free_file (file_table s) s of
            None \<Rightarrow> Some (Inr (neg_errno EINVAL, s))
          | Some f \<Rightarrow>
              let s = upd_file f (\<lambda>f. f\<lparr>f_count := f_count f + 1\<rparr>) (set_filp fd f s) in
              obind (open_namei env path flag s) (\<lambda>(i, p, s).
              if i <s 0 then Some (Inr (i, drop_file f (set_filp fd 0 s)))
              else
                let s = (if S_ISCHR (i_mode (inodes s p)) then log_fs ''open char dev %d'' s else s)
                in Some (Inr (of_nat fd, upd_file f (\<lambda>f. f\<lparr>f_mode := i_mode (inodes s p), f_flags := ucast flag, f_count := 1,
                     f_inode := p, f_pos := 0\<rparr>) s))))"

definition sys_chdir :: "environment \<Rightarrow> u32 \<Rightarrow> fsys \<Rightarrow> (u32 \<times> fsys) kres option" where
  "sys_chdir env path s =
     obind (namei env path s) (\<lambda>(p, s).
     if p = 0 then Some (Inr (neg_errno ENOENT, s))
     else if \<not> S_ISDIR (i_mode (inodes s p)) then leave env [p] 0 (neg_errno ENOTDIR) s
     else obind (iput env (t_pwd (cur (fk s))) s) (\<lambda>s. Some (Inr (0, set_cur (\<lambda>t. t\<lparr>t_pwd := p\<rparr>) s))))"

definition sys_utime :: "environment \<Rightarrow> u32 \<Rightarrow> u32 \<Rightarrow> fsys \<Rightarrow> (u32 \<times> fsys) kres option" where
  "sys_utime env path tbuf s =
     obind (namei env path s) (\<lambda>(p, s).
     if p = 0 then Some (Inr (neg_errno ENOENT, s))
     else
       let (actime, modtime) = (if tbuf \<noteq> 0 then (get_fs_long tbuf (fu s), get_fs_long (tbuf + 4) (fu s))
                                else (CURRENT_TIME (fk s), CURRENT_TIME (fk s)))
       in leave env [p] 0 0 (upd_inode p (\<lambda>i. i\<lparr>i_atime := actime, i_mtime := modtime, i_dirt := 1\<rparr>) s))"

definition sys_stat :: "environment \<Rightarrow> u32 \<Rightarrow> u32 \<Rightarrow> fsys \<Rightarrow> (u32 \<times> fsys) kres option" where
  "sys_stat env path statbuf s =
     obind (namei env path s) (\<lambda>(p, s).
     if p = 0 then Some (Inr (neg_errno ENOENT, s)) else leave env [p] 0 0 (cp_stat env p statbuf s))"

text \<open>The listing of the root directory: \<open>de\<close> does not move on over an unused entry, so that the loop stays at the
  first one; the entries are read from one buffer and one behind its end is outside. Each name is one message.\<close>

fun list_entries :: "nat \<Rightarrow> u32 \<Rightarrow> nat \<Rightarrow> fsys \<Rightarrow> fsys kres" where
  "list_entries 0 b off s = Inr s"
| "list_entries (Suc n) b off s =
     (if BLOCK_SIZE \<le> off then Inl OutOfBounds
      else if de_inode b off s = 0 then list_entries n b off s
      else list_entries n b (off + 16) (log_fs (map (\<lambda>c. char_of (unat c)) (drop 2 (de_bytes b off s))) s))"

definition sys_ls :: "environment \<Rightarrow> fsys \<Rightarrow> (u32 \<times> fsys) kres option" where
  "sys_ls env s =
     (let s = log_fs ''in sys_ls'' s; p = t_root (cur (fk s)) in
      if p = 0 then Some (Inl NullDeref)
      else
        let s = log_fs ''mode is %d'' s in
        if \<not> S_ISDIR (i_mode (inodes s p)) then Some (Inr (0, s))
        else
          let entries = unat (i_size (inodes s p) div 16); s = log_fs ''there are %d files in root.'' s in
          if zone p 0 s = 0 then Some (Inr (- 1, log_fs ''empty i_zone'' s))
          else
            obind (bread env (dev_of p s) (ucast (zone p 0 s)) s) (\<lambda>(b, s).
            if b = 0 then Some (Inr (- 1, log_fs ''can not read block %d'' s))
            else obind (Some (list_entries entries b 0 s)) (\<lambda>s. Some (Inr (0, s)))))"

end
