(* ===== verification/Exec.thy ===== *)
theory Exec
  imports Dirs
begin

text \<open>
  Executing a program, \<open>fs/exec.c\<close>, and the page fault that loads it on demand, \<open>do_no_page\<close> of \<open>mm/memory.c\<close>.

  \<open>mmu\<close> stands for the paging hardware: what the program reads in its segment once its page tables are those of the
  state. A string that never ends makes the functions that look for its end not return.
\<close>

definition MAX_ARG_PAGES :: nat where "MAX_ARG_PAGES = 32"
definition LIBRARY_SIZE :: u32 where "LIBRARY_SIZE = 0x00400000"
definition LIBRARY_OFFSET :: u32 where "LIBRARY_OFFSET = TASK_SIZE - LIBRARY_SIZE"
definition ZMAGIC :: u32 where "ZMAGIC = 0x10B"

definition S_ISUID :: u16 where "S_ISUID = 0x800"
definition S_ISGID :: u16 where "S_ISGID = 0x400"

section \<open>Arguments\<close>

text \<open>\<open>while (get_fs_byte(p++))\<close>: the address behind the zero.\<close>

partial_function (option) skip_string :: "bmem \<Rightarrow> u32 \<Rightarrow> u32 kres option" where
  "skip_string m p = (if m p = 0 then Some (Inr (p + 1)) else skip_string m (p + 1))"

text \<open>The pointers to \<open>n\<close> strings, the next place and the address behind the last string.\<close>

fun pointer_table :: "nat \<Rightarrow> u32 \<Rightarrow> u32 \<Rightarrow> bmem \<Rightarrow> (u32 \<times> u32 \<times> bmem) kres option" where
  "pointer_table 0 place p m = Some (Inr (place, p, m))"
| "pointer_table (Suc n) place p m =
     (let m = put_fs_long p place m in
      obind (skip_string m p) (\<lambda>p. pointer_table n (place + 4) p m))"

definition create_tables :: "u32 \<Rightarrow> u32 \<Rightarrow> u32 \<Rightarrow> bmem \<Rightarrow> (u32 \<times> bmem) kres option" where
  "create_tables p argc envc m =
     (let envp = (0xfffffffc AND p) - 4 * (envc + 1);
          argv = envp - 4 * (argc + 1);
          m = put_fs_long argc (argv - 12) (put_fs_long argv (argv - 8) (put_fs_long envp (argv - 4) m))
      in obind (pointer_table (rounds argc) argv p m) (\<lambda>(place, p, m).
         obind (pointer_table (rounds envc) envp p (put_fs_long 0 place m)) (\<lambda>(place, p, m).
         Some (Inr (argv - 12, put_fs_long 0 place m)))))"

partial_function (option) count_args :: "bmem \<Rightarrow> u32 \<Rightarrow> u32 \<Rightarrow> u32 kres option" where
  "count_args m tmp i = (if get_fs_long tmp m = 0 then Some (Inr i) else count_args m (tmp + 4) (i + 1))"

definition arg_count :: "u32 \<Rightarrow> bmem \<Rightarrow> u32 kres option" where
  "arg_count argv m = (if argv = 0 then Some (Inr 0) else count_args m argv 0)"

text \<open>The inner loop of \<open>copy_strings\<close> copies a string backwards, with a page for every 4096 bytes of the argument area:
  \<open>p\<close> is the place in the area, \<open>off\<close> the place in the page at \<open>pag\<close>. The first component says whether there was a page.
  With \<open>from_kmem\<close> 1 the pointers are in kernel memory, with 2 also the strings.\<close>

definition arg_memory :: "bool \<Rightarrow> fsys \<Rightarrow> bmem" where
  "arg_memory kmem s = (if kmem then phys (fm s) else fu s)"

type_synonym arg_area = "u32 \<times> u32 \<times> u32 \<times> u32 list"

fun copy_down :: "nat \<Rightarrow> u32 \<Rightarrow> u32 \<Rightarrow> arg_area \<Rightarrow> fsys \<Rightarrow> (bool \<times> arg_area \<times> fsys) kres" where
  "copy_down 0 from_kmem tmp a s = Inr (True, a, s)"
| "copy_down (Suc len) from_kmem tmp (p, off, pag, page) s =
     (let p = p - 1; tmp = tmp - 1; off = off - 1;
          store = (\<lambda>(off, pag, page) s. copy_down len from_kmem tmp (p, off, pag, page)
                     (s\<lparr>fm := (fm s)\<lparr>phys := (phys (fm s))(pag + off := arg_memory (from_kmem = 2) s tmp)\<rparr>\<rparr>))
      in if \<not> off <s 0 then store (off, pag, page) s
         else
           let off = p mod 4096; i = unat (p div 4096) in
           if MAX_ARG_PAGES \<le> i then Inl OutOfBounds
           else if page ! i \<noteq> 0 then store (off, page ! i, page) s
           else
             kbind (get_free_page (fm s)) (\<lambda>(pag, m).
             let s = s\<lparr>fm := m\<rparr>; page = page[i := pag] in
             if pag = 0 then Inr (False, (p, off, pag, page), s) else store (off, pag, page) s))"

text \<open>\<open>p - len < 0\<close> compares unsigned numbers: the test for the end of the area never succeeds.\<close>

fun copy_args :: "nat \<Rightarrow> u32 \<Rightarrow> u32 \<Rightarrow> arg_area \<Rightarrow> fsys \<Rightarrow> (bool \<times> arg_area \<times> fsys) kres option" where
  "copy_args 0 argv from_kmem a s = Some (Inr (True, a, s))"
| "copy_args (Suc n) argv from_kmem a s =
     (let tmp = get_fs_long (argv + 4 * of_nat n) (arg_memory (from_kmem = 1 \<or> from_kmem = 2) s) in
      if tmp = 0 then Some (Inl (Panic ''argc is wrong''))
      else
        obind (skip_string (arg_memory (from_kmem = 2) s) tmp) (\<lambda>end'.
        obind (Some (copy_down (unat (end' - tmp)) from_kmem end' a s)) (\<lambda>(ok, a, s).
        if \<not> ok then Some (Inr (False, a, s)) else copy_args n argv from_kmem a s)))"

definition copy_strings ::
    "u32 \<Rightarrow> u32 \<Rightarrow> u32 list \<Rightarrow> u32 \<Rightarrow> u32 \<Rightarrow> fsys \<Rightarrow> (u32 \<times> u32 list \<times> fsys) kres option" where
  "copy_strings argc argv page p from_kmem s =
     (if p = 0 then Some (Inr (0, page, s))
      else obind (copy_args (rounds argc) argv from_kmem (p, 0, 0, page) s) (\<lambda>(ok, (p, off, pag, page), s).
        Some (Inr (if ok then p else 0, page, s))))"

section \<open>The address space\<close>

fun put_pages :: "u32 list \<Rightarrow> u32 \<Rightarrow> mem \<Rightarrow> mem kres" where
  "put_pages [] base m = Inr m"
| "put_pages (pg # pgs) base m =
     (let base = base - 4096 in
      kbind (if pg = 0 then Inr m else kbind (put_dirty_page pg base m) (\<lambda>(r, m). Inr m)) (put_pages pgs base))"

definition change_ldt :: "u32 list \<Rightarrow> fsys \<Rightarrow> (u32 \<times> fsys) kres" where
  "change_ldt page s =
     (let base = get_base (t_ldt (cur (fk s)) ! 1);
          desc = (\<lambda>d. set_limit (set_base d base) TASK_SIZE);
          s = set_cur (\<lambda>t. t\<lparr>t_ldt := (t_ldt t)[1 := desc (t_ldt t ! 1), 2 := desc (t_ldt t ! 2)]\<rparr>) s
      in kbind (put_pages (rev page) (base + TASK_SIZE - LIBRARY_SIZE) (fm s)) (\<lambda>m. Inr (TASK_SIZE, s\<lparr>fm := m\<rparr>)))"

definition free_space :: "fsys \<Rightarrow> fsys kres" where
  "free_space s =
     (let ldt = t_ldt (cur (fk s)) in
      kbind (free_page_tables (get_base (ldt ! 1)) (get_limit (ldt ! 1)) (fm s)) (\<lambda>(r, m).
      kbind (free_page_tables (get_base (ldt ! 2)) (get_limit (ldt ! 2)) m) (\<lambda>(r, m). Inr (s\<lparr>fm := m\<rparr>))))"

section \<open>Executing\<close>

record exec_header =
  a_magic :: u32
  a_text :: u32
  a_data :: u32
  a_bss :: u32
  a_syms :: u32
  a_entry :: u32
  a_trsize :: u32
  a_drsize :: u32

definition decode_exec :: "u8 list \<Rightarrow> exec_header" where
  "decode_exec ds = \<lparr>a_magic = long_at ds 0, a_text = long_at ds 4, a_data = long_at ds 8, a_bss = long_at ds 12,
     a_syms = long_at ds 16, a_entry = long_at ds 20, a_trsize = long_at ds 24, a_drsize = long_at ds 28\<rparr>"

definition N_TXTOFF :: "exec_header \<Rightarrow> u32" where
  "N_TXTOFF ex = (if a_magic ex = ZMAGIC then 1024 else 32)"

definition bad_header :: "exec_header \<Rightarrow> m_inode \<Rightarrow> bool" where
  "bad_header ex i \<longleftrightarrow> a_magic ex \<noteq> ZMAGIC \<or> a_trsize ex \<noteq> 0 \<or> a_drsize ex \<noteq> 0 \<or>
     0x3000000 < a_text ex + a_data ex + a_bss ex \<or> i_size i < a_text ex + a_syms ex + N_TXTOFF ex"

definition may_execute :: "m_inode \<Rightarrow> kern \<Rightarrow> bool" where
  "may_execute i k \<longleftrightarrow>
     (let m = (if t_euid (cur k) = i_uid i then drop_bit 6 (i_mode i)
               else if in_group_p (ucast (i_gid i)) k \<noteq> 0 then drop_bit 3 (i_mode i) else i_mode i)
      in m AND 1 \<noteq> 0 \<or> i_mode i AND 0x49 \<noteq> 0 \<and> suser k)"

text \<open>The two error exits.\<close>

fun free_pages :: "u32 list \<Rightarrow> fsys \<Rightarrow> fsys kres" where
  "free_pages [] s = Inr s"
| "free_pages (pg # pgs) s = kbind (free_page pg (fm s)) (\<lambda>m. free_pages pgs (s\<lparr>fm := m\<rparr>))"

definition exec_error :: "environment \<Rightarrow> u32 \<Rightarrow> u32 list \<Rightarrow> errno \<Rightarrow> u32 list \<Rightarrow> fsys \<Rightarrow> (u32 \<times> u32 list \<times> fsys) kres option" where
  "exec_error env p page e eip s =
     obind (iput env p s) (\<lambda>s. obind (Some (free_pages page s)) (\<lambda>s. Some (Inr (neg_errno e, eip, s))))"

fun close_marked :: "environment \<Rightarrow> nat list \<Rightarrow> fsys \<Rightarrow> fsys kres option" where
  "close_marked env [] s = Some (Inr s)"
| "close_marked env (i # is) s =
     obind (if bit (t_close_on_exec (cur (fk s))) i then obind (sys_close env (of_nat i) s) (\<lambda>(r, s). Some (Inr s))
            else Some (Inr s)) (close_marked env is)"

text \<open>From the point of no return on.\<close>

definition exec_switch ::
    "environment \<Rightarrow> (fsys \<Rightarrow> bmem) \<Rightarrow> u32 \<Rightarrow> exec_header \<Rightarrow> u16 \<Rightarrow> u16 \<Rightarrow> u32 \<Rightarrow> u32 \<Rightarrow> u32 list \<Rightarrow> u32 \<Rightarrow> u32 list \<Rightarrow> fsys \<Rightarrow>
      (u32 \<times> u32 list \<times> fsys) kres option" where
  "exec_switch env mmu p ex e_uid e_gid argc envc page sp eip s =
     obind (iput env (t_executable (cur (fk s))) s) (\<lambda>s.
     obind (close_marked env [0..<NR_OPEN] (set_cur (\<lambda>t. t\<lparr>t_executable := p\<rparr>) s)) (\<lambda>s.
     obind (Some (free_space (set_cur (\<lambda>t. t\<lparr>t_close_on_exec := 0\<rparr>) s))) (\<lambda>s.
     obind (Some (change_ldt page s)) (\<lambda>(limit, s).
     let sp = sp + limit - (LIBRARY_SIZE + of_nat MAX_ARG_PAGES * 4096) in
     obind (create_tables sp argc envc (mmu s)) (\<lambda>(sp, m).
     let s = set_cur (\<lambda>t. t\<lparr>t_end_code := a_text ex, t_end_data := a_data ex + a_text ex,
               t_brk := a_bss ex + (a_data ex + a_text ex), t_start_stack := sp AND 0xfffff000,
               t_suid := e_uid, t_euid := e_uid, t_sgid := e_gid, t_egid := e_gid\<rparr>) (s\<lparr>fu := m\<rparr>)
     in Some (Inr (0, eip[0 := a_entry ex, 3 := sp], s)))))))"

definition do_execve ::
    "environment \<Rightarrow> (fsys \<Rightarrow> bmem) \<Rightarrow> u32 list \<Rightarrow> u32 \<Rightarrow> u32 \<Rightarrow> u32 \<Rightarrow> fsys \<Rightarrow> (u32 \<times> u32 list \<times> fsys) kres option" where
  "do_execve env mmu eip filename argv envp s =
     (let page = replicate MAX_ARG_PAGES 0 in
      if 0xffff AND eip ! 1 \<noteq> 0xf then Some (Inl (Panic ''execve called from supervisor mode''))
      else
        obind (namei env filename s) (\<lambda>(p, s).
        if p = 0 then Some (Inr (neg_errno ENOENT, eip, s))
        else
          obind (arg_count argv (fu s)) (\<lambda>argc.
          obind (arg_count envp (fu s)) (\<lambda>envc.
          let i = inodes s p; t = cur (fk s);
              e_uid = (if i_mode i AND S_ISUID \<noteq> 0 then i_uid i else t_euid t);
              e_gid = (if i_mode i AND S_ISGID \<noteq> 0 then ucast (i_gid i) else t_egid t)
          in
          if \<not> S_ISREG (i_mode i) then exec_error env p page EACCES eip s
          else if \<not> may_execute i (fk s) then exec_error env p page ENOEXEC eip s
          else
            obind (bread env (dev_of p s) (ucast (zone p 0 s)) s) (\<lambda>(b, s).
            if b = 0 then exec_error env p page EACCES eip s
            else
              let ex = decode_exec (b_data (bhs s b)) in
              obind (brelse env b s) (\<lambda>s.
              if bad_header ex (inodes s p) then exec_error env p page ENOEXEC eip s
              else if N_TXTOFF ex \<noteq> of_nat BLOCK_SIZE then
                exec_error env p page ENOEXEC eip (log_fs ''%s: N_TXTOFF != BLOCK_SIZE. See a.out.h.'' s)
              else
                obind (copy_strings envc envp page (4096 * of_nat MAX_ARG_PAGES - 4) 0 s) (\<lambda>(sp, page, s).
                obind (copy_strings argc argv page sp 0 s) (\<lambda>(sp, page, s).
                if sp = 0 then exec_error env p page ENOMEM eip s
                else exec_switch env mmu p ex e_uid e_gid argc envc page sp eip s))))))))"

section \<open>Loading a page\<close>

fun bmap_all :: "environment \<Rightarrow> u32 \<Rightarrow> u32 list \<Rightarrow> fsys \<Rightarrow> (u32 list \<times> fsys) kres option" where
  "bmap_all env p [] s = Some (Inr ([], s))"
| "bmap_all env p (b # bs) s =
     obind (bmap env p b s) (\<lambda>(z, s). obind (bmap_all env p bs s) (\<lambda>(zs, s). Some (Inr (z # zs, s))))"

text \<open>The bytes behind the end of the data are cleared, from the end of the page down.\<close>

definition clear_tail :: "u32 \<Rightarrow> nat \<Rightarrow> fsys \<Rightarrow> fsys" where
  "clear_tail page n s = s\<lparr>fm := (fm s)\<lparr>phys := fold (\<lambda>k m. m(page + 4095 - of_nat k := 0)) [0..<n] (phys (fm s))\<rparr>\<rparr>"

definition oom_fs :: "fsys \<Rightarrow> fsys" where
  "oom_fs s = s\<lparr>fm := oom (fm s)\<rparr>"

text \<open>\<open>oom\<close> only prints, so that without a free page the page at address 0 is loaded and then refused.\<close>

definition load_page :: "environment \<Rightarrow> u32 \<Rightarrow> u32 \<Rightarrow> u32 \<Rightarrow> u32 \<Rightarrow> fsys \<Rightarrow> fsys kres option" where
  "load_page env p block tmp address s =
     obind (Some (get_free_page (fm s))) (\<lambda>(page, m).
     let s = (if page = 0 then oom_fs (s\<lparr>fm := m\<rparr>) else s\<lparr>fm := m\<rparr>) in
     obind (bmap_all env p (map (\<lambda>k. block + of_nat k) [0..<4]) s) (\<lambda>(nrs, s).
     obind (bread_page env page (dev_of p s) nrs s) (\<lambda>s.
     let i = tmp + 4096 - t_end_data (cur (fk s)); i = (if 4095 <s i then 0 else i);
         s = clear_tail page (rounds i) s in
     obind (Some (put_page page address (fm s))) (\<lambda>(r, m).
     if r \<noteq> 0 then Some (Inr (s\<lparr>fm := m\<rparr>))
     else obind (Some (free_page page m)) (\<lambda>m. Some (Inr (oom_fs (s\<lparr>fm := m\<rparr>))))))))"

definition do_no_page :: "environment \<Rightarrow> u32 \<Rightarrow> fsys \<Rightarrow> fsys kres option" where
  "do_no_page env address s =
     (let t = cur (fk s) in
      if address < TASK_SIZE then Some (Inl (Panic ''BAD!! KERNEL PAGE MISSING''))
      else if TASK_SIZE < address - t_start_code t
      then Some (Inl (Panic ''Bad things happen: nonexistent page error in do_no_page''))
      else
        let address = address AND 0xfffff000; tmp = address - t_start_code t;
            (p, block) = (if LIBRARY_OFFSET \<le> tmp then (t_library t, 1 + (tmp - LIBRARY_OFFSET) div 1024)
                          else if tmp < t_end_data t then (t_executable t, 1 + tmp div 1024) else (0, 0))
        in if p = 0 then obind (Some (get_empty_page address (fm s))) (\<lambda>m. Some (Inr (s\<lparr>fm := m\<rparr>)))
           else
             obind (Some (share_page (\<lambda>q. i_count (inodes s q)) p tmp (fk s) (fm s))) (\<lambda>(r, m).
             if r \<noteq> 0 then Some (Inr (s\<lparr>fm := m\<rparr>)) else load_page env p block tmp address (s\<lparr>fm := m\<rparr>)))"

end
