(* ===== verification/Exits.thy ===== *)
theory Exits
  imports Exec
begin

text \<open>
  The end of a process, \<open>do_exit\<close> and \<open>sys_exit\<close> of \<open>kernel/exit.c\<close>: memory, files and i-nodes are given back, process
  groups that become orphaned are told, the children go to init, a session leader frees its terminal.
\<close>

definition lift_kern :: "(kern \<Rightarrow> kern kres) \<Rightarrow> fsys \<Rightarrow> fsys kres" where
  "lift_kern f s = kbind (f (fk s)) (\<lambda>k. Inr (set_fk k s))"

section \<open>Process groups\<close>

text \<open>The stopped jobs of a group that has become orphaned get a hang-up and are continued.\<close>

definition hup_group :: "u32 \<Rightarrow> kern \<Rightarrow> kern kres" where
  "hup_group pgrp k =
     kbind (is_orphaned_pgrp pgrp k) (\<lambda>orphaned.
     if orphaned = 0 then Inr k
     else
       kbind (has_stopped_jobs pgrp k) (\<lambda>stopped.
       if stopped = 0 then Inr k
       else
         kbind (kill_pg pgrp (signo SIGHUP) True k) (\<lambda>(r, k).
         kbind (kill_pg pgrp (signo SIGCONT) True k) (\<lambda>(r, k). Inr k))))"

text \<open>\<open>p\<close> and \<open>q\<close> are in the same session but in different groups.\<close>

definition connects :: "tptr \<Rightarrow> tptr \<Rightarrow> kern \<Rightarrow> bool" where
  "connects p q k \<longleftrightarrow> t_pgrp (tcb k p) \<noteq> t_pgrp (tcb k q) \<and> t_session (tcb k p) = t_session (tcb k q)"

definition post_chld :: "tptr \<Rightarrow> kern \<Rightarrow> kern" where
  "post_chld p k = upd p (\<lambda>t. t\<lparr>t_signal := t_signal t OR sigbit (signo SIGCHLD)\<rparr>) k"

section \<open>The children\<close>

text \<open>The loop along the list of children; at its end the whole list is put before the children of init.\<close>

definition adopt_child :: "tptr \<Rightarrow> kern \<Rightarrow> kern kres" where
  "adopt_child p k =
     (let init = task k ! 1;
          k = upd p (\<lambda>t. t\<lparr>t_p_pptr := init\<rparr>) k in
      kbind (if t_state (tcb k p) \<noteq> TASK_ZOMBIE then Inr k
             else if init = 0 then Inl NullDeref else Inr (post_chld init k)) (\<lambda>k.
      if connects p (current k) k then hup_group (t_pgrp (tcb k p)) k else Inr k))"

definition join_children :: "tptr \<Rightarrow> kern \<Rightarrow> kern kres" where
  "join_children p k =
     (let init = task k ! 1 in
      if init = 0 then Inl NullDeref
      else
        let k = upd p (\<lambda>t. t\<lparr>t_p_osptr := t_p_cptr (tcb k init)\<rparr>) k in
        if t_p_cptr (tcb k init) = 0 then Inl NullDeref
        else
          let k = upd (t_p_cptr (tcb k init)) (\<lambda>t. t\<lparr>t_p_ysptr := p\<rparr>) k;
              k = upd init (\<lambda>t. t\<lparr>t_p_cptr := t_p_cptr (cur k)\<rparr>) k
          in Inr (upd (current k) (\<lambda>t. t\<lparr>t_p_cptr := 0\<rparr>) k))"

partial_function (option) adopt_loop :: "tptr \<Rightarrow> kern \<Rightarrow> kern kres option" where
  "adopt_loop p k =
     obind (Some (adopt_child p k)) (\<lambda>k.
     if t_p_osptr (tcb k p) \<noteq> 0 then adopt_loop (t_p_osptr (tcb k p)) k else Some (join_children p k))"

section \<open>The session\<close>

fun drop_terminal :: "tptr list \<Rightarrow> kern \<Rightarrow> kern kres" where
  "drop_terminal [] k = Inr k"
| "drop_terminal (p # ps) k =
     (if p = 0 then Inl NullDeref
      else drop_terminal ps
        (if t_session (tcb k p) = t_session (cur k) then upd p (\<lambda>t. t\<lparr>t_tty := - 1\<rparr>) k else k))"

definition leave_session :: "fsys \<Rightarrow> fsys kres" where
  "leave_session s =
     (let t = cur (fk s) in
      if t_leader t = 0 then Inr s
      else
        kbind (if t_tty t <s 0 then Inr s
               else if t_tty t \<noteq> 0 then Inl OutOfBounds
               else
                 kbind (if 0 <s tt_pgrp (sys_tty s)
                        then kbind (kill_pg (tt_pgrp (sys_tty s)) (signo SIGHUP) True (fk s)) (\<lambda>(r, k). Inr (set_fk k s))
                        else Inr s) (\<lambda>s.
                 Inr (s\<lparr>sys_tty := (sys_tty s)\<lparr>tt_pgrp := 0, tt_session := 0\<rparr>\<rparr>))) (\<lambda>s.
        lift_kern (\<lambda>k. drop_terminal (tasks_down k) k) s))"

section \<open>Exit\<close>

fun close_all :: "environment \<Rightarrow> nat list \<Rightarrow> fsys \<Rightarrow> fsys kres option" where
  "close_all env [] s = Some (Inr s)"
| "close_all env (i # is) s =
     obind (if filp i s \<noteq> 0 then obind (sys_close env (of_nat i) s) (\<lambda>(r, s). Some (Inr s)) else Some (Inr s)) (close_all env is)"

text \<open>The four i-nodes a process holds.\<close>

definition drop_inodes :: "environment \<Rightarrow> fsys \<Rightarrow> fsys kres option" where
  "drop_inodes env s =
     obind (iput env (t_pwd (cur (fk s))) s) (\<lambda>s. let s = set_cur (\<lambda>t. t\<lparr>t_pwd := 0\<rparr>) s in
     obind (iput env (t_root (cur (fk s))) s) (\<lambda>s. let s = set_cur (\<lambda>t. t\<lparr>t_root := 0\<rparr>) s in
     obind (iput env (t_executable (cur (fk s))) s) (\<lambda>s. let s = set_cur (\<lambda>t. t\<lparr>t_executable := 0\<rparr>) s in
     obind (iput env (t_library (cur (fk s))) s) (\<lambda>s. Some (Inr (set_cur (\<lambda>t. t\<lparr>t_library := 0\<rparr>) s))))))"

definition tell_family :: "kern \<Rightarrow> kern kres option" where
  "tell_family k =
     (let father = t_p_pptr (cur k) in
      if father = 0 then Some (Inl NullDeref)
      else
        obind (Some (if connects father (current k) k then hup_group (t_pgrp (cur k)) k else Inr k)) (\<lambda>k.
        let k = post_chld (t_p_pptr (cur k)) k in
        if t_p_cptr (cur k) = 0 then Some (Inr k) else adopt_loop (t_p_cptr (cur k)) k))"

text \<open>The call never returns to the process: the result is the state in which \<open>schedule\<close> has chosen the next task.\<close>

definition do_exit :: "environment \<Rightarrow> u32 \<Rightarrow> fsys \<Rightarrow> fsys kres option" where
  "do_exit env code s =
     obind (Some (free_space s)) (\<lambda>s.
     obind (close_all env [0..<NR_OPEN] s) (\<lambda>s.
     obind (drop_inodes env s) (\<lambda>s.
     let s = set_cur (\<lambda>t. t\<lparr>t_state := TASK_ZOMBIE, t_exit_code := code\<rparr>) s in
     obind (tell_family (fk s)) (\<lambda>k.
     obind (Some (leave_session (set_fk k s))) (\<lambda>s.
     case schedule (fk s) of None \<Rightarrow> None | Some k \<Rightarrow> Some (Inr (set_fk k s)))))))"

definition sys_exit :: "environment \<Rightarrow> u32 \<Rightarrow> fsys \<Rightarrow> fsys kres option" where
  "sys_exit env code s = do_exit env (push_bit 8 (code AND 0xff)) s"

end
