(* ===== verification/Hd.thy ===== *)
theory Hd
  imports Blk
begin

text \<open>
  The driver of the hard disk, \<open>kernel/blk_drv/hd.c\<close>, with the part of \<open>hd_interrupt\<close> that picks the
  handler. What the controller says on its status port and the words it delivers are the streams
  \<open>hd_status\<close> and \<open>hd_words\<close>; everything sent to it is recorded in \<open>hd_log\<close>. The variable \<open>hd_timeout\<close> is
  written and never read, and is left out.
\<close>

definition MAJOR_HD :: nat where "MAJOR_HD = 3"

definition ERR_STAT :: u8 where "ERR_STAT = 0x01"
definition DRQ_STAT :: u8 where "DRQ_STAT = 0x08"
definition SEEK_STAT :: u8 where "SEEK_STAT = 0x10"
definition WRERR_STAT :: u8 where "WRERR_STAT = 0x20"
definition READY_STAT :: u8 where "READY_STAT = 0x40"
definition BUSY_STAT :: u8 where "BUSY_STAT = 0x80"

definition WIN_READ :: u8 where "WIN_READ = 0x20"
definition WIN_WRITE :: u8 where "WIN_WRITE = 0x30"

definition outb :: "u32 \<Rightarrow> u8 \<Rightarrow> fsys \<Rightarrow> fsys" where
  "outb port v s = s\<lparr>hd_log := hd_log s @ [Out port v]\<rparr>"

definition inb_status :: "fsys \<Rightarrow> u8 \<times> fsys" where
  "inb_status s = (hd_status s (hd_reads s), s\<lparr>hd_reads := hd_reads s + 1\<rparr>)"

definition hd_out :: "nat \<Rightarrow> u32 \<Rightarrow> u32 \<Rightarrow> u32 \<Rightarrow> u32 \<Rightarrow> u8 \<Rightarrow> hd_intr \<Rightarrow> fsys \<Rightarrow> fsys" where
  "hd_out drive nsect sec head cyl cmd intr s =
     (let g = hd_info s ! drive in
      outb 0x1f7 cmd (outb 0x1f6 (ucast (0xA0 OR push_bit 4 (of_nat drive) OR head)) (outb 0x1f5 (ucast (drop_bit 8 cyl))
        (outb 0x1f4 (ucast cyl) (outb 0x1f3 (ucast sec) (outb 0x1f2 (ucast nsect)
          (outb 0x1f1 (ucast (signed_drop_bit 2 (hd_wpcom g))) (outb 0x3f6 (ucast (hd_ctl g)) (s\<lparr>hd_fn := intr\<rparr>)))))))))"

definition win_result :: "fsys \<Rightarrow> u32 \<times> fsys" where
  "win_result s =
     (let (i, s) = inb_status s in
      if i AND (BUSY_STAT OR READY_STAT OR WRERR_STAT OR SEEK_STAT OR ERR_STAT) = READY_STAT OR SEEK_STAT
      then (0, s) else (1, s))"

text \<open>\<open>port_read\<close> and \<open>port_write\<close> of 256 words at the place the current request's \<open>buffer\<close> points to, which has to be
  inside the buffer.\<close>

definition port_read :: "nat \<Rightarrow> fsys \<Rightarrow> fsys kres" where
  "port_read r s =
     (let q = request s ! r; off = r_offset q; w = map (hd_words s (hd_sectors s)) [0..<512] in
      if length (b_data (bhs s (r_bh q))) < off + 512 then Inl OutOfBounds
      else Inr ((upd_bh (r_bh q) (\<lambda>h. h\<lparr>b_data := take off (b_data h) @ w @ drop (off + 512) (b_data h)\<rparr>) s)
                  \<lparr>hd_sectors := hd_sectors s + 1\<rparr>))"

definition port_write :: "nat \<Rightarrow> fsys \<Rightarrow> fsys kres" where
  "port_write r s =
     (let q = request s ! r; off = r_offset q; ds = b_data (bhs s (r_bh q)) in
      if length ds < off + 512 then Inl OutOfBounds
      else Inr (s\<lparr>hd_log := hd_log s @ [Out_words (take 512 (drop off ds))]\<rparr>))"

fun drq_wait :: "nat \<Rightarrow> fsys \<Rightarrow> fsys" where
  "drq_wait 0 s = s"
| "drq_wait (Suc n) s = (let (i, s) = inb_status s in if i AND DRQ_STAT \<noteq> 0 then s else drq_wait n s)"

text \<open>Sector, head and cylinder of a block: the two divisions, which trap when they divide by zero.\<close>

definition chs :: "hd_geometry \<Rightarrow> u32 \<Rightarrow> (u32 \<times> u32 \<times> u32) kres" where
  "chs g block =
     (if hd_sect g = 0 \<or> hd_head g = 0 then Inl DivZero
      else let sec = block mod hd_sect g; track = block div hd_sect g
        in Inr (sec + 1, track mod hd_head g, track div hd_head g))"

definition hd_start :: "nat \<Rightarrow> fsys \<Rightarrow> fsys kres" where
  "hd_start r s =
     (let q = request s ! r;
          dev = unat (MINOR (r_dev q));
          block = r_sector q + fst (hd_parts s ! dev);
          drive = dev div 5
      in kbind (chs (hd_info s ! drive) block) (\<lambda>(sec, head, cyl).
           if r_cmd q = WRITE then
             port_write r (drq_wait 10000 (hd_out drive (r_nr_sectors q) sec head cyl WIN_WRITE Write_intr s))
           else if r_cmd q = READ then Inr (hd_out drive (r_nr_sectors q) sec head cyl WIN_READ Read_intr s)
           else Inr (log_fs ''unknown hd-command'' s)))"

text \<open>The messages of \<open>INIT_REQUEST\<close>; the loop goes round after a request that is refused.\<close>

definition check_request :: "nat \<Rightarrow> fsys \<Rightarrow> fsys" where
  "check_request r s =
     (let q = request s ! r;
          s = (if MAJOR (r_dev q) \<noteq> of_nat MAJOR_HD then log_fs ''harddisk: request list destroyed'' s else s)
      in if r_bh q \<noteq> 0 \<and> b_lock (bhs s (r_bh q)) = 0 then log_fs ''harddisk: block not locked'' s else s)"

partial_function (option) do_hd_request :: "fsys \<Rightarrow> fsys kres option" where
  "do_hd_request s =
     (case current_request s ! MAJOR_HD of None \<Rightarrow> Some (Inr (s\<lparr>hd_fn := No_intr\<rparr>))
      | Some r \<Rightarrow>
          let s = check_request r s; q = request s ! r; dev = MINOR (r_dev q) in
          if 5 * nr_hd s \<le> dev \<or> snd (hd_parts s ! unat dev) < r_sector q + 2 then
            obind (Some (end_request MAJOR_HD 0 s)) (\<lambda>s. do_hd_request s)
          else Some (hd_start r s))"

definition read_intr :: "fsys \<Rightarrow> fsys kres option" where
  "read_intr s =
     (let (bad, s) = win_result s in
      if bad \<noteq> 0 then do_hd_request (log_fs ''hd read error.'' s)
      else case current_request s ! MAJOR_HD of None \<Rightarrow> Some (Inl NullDeref)
      | Some r \<Rightarrow>
          obind (Some (port_read r s)) (\<lambda>s.
          let s = upd_req r (\<lambda>q. q\<lparr>r_errors := 0, r_offset := r_offset q + 512, r_sector := r_sector q + 1,
                                   r_nr_sectors := r_nr_sectors q - 1\<rparr>) s
          in if r_nr_sectors (request s ! r) \<noteq> 0 then Some (Inr (s\<lparr>hd_fn := Read_intr\<rparr>))
             else obind (Some (end_request MAJOR_HD 1 s)) do_hd_request))"

text \<open>After an error \<open>write_intr\<close> starts the request again and then goes on as if all were well.\<close>

definition write_intr :: "fsys \<Rightarrow> fsys kres option" where
  "write_intr s =
     (let (bad, s) = win_result s in
      obind (if bad \<noteq> 0 then do_hd_request s else Some (Inr s)) (\<lambda>s.
      case current_request s ! MAJOR_HD of None \<Rightarrow> Some (Inl NullDeref)
      | Some r \<Rightarrow>
          let s = upd_req r (\<lambda>q. q\<lparr>r_nr_sectors := r_nr_sectors q - 1\<rparr>) s in
          if r_nr_sectors (request s ! r) \<noteq> 0 then
            let s = upd_req r (\<lambda>q. q\<lparr>r_sector := r_sector q + 1, r_offset := r_offset q + 512\<rparr>) s
            in Some (port_write r (s\<lparr>hd_fn := Write_intr\<rparr>))
          else obind (Some (end_request MAJOR_HD 1 s)) do_hd_request))"

text \<open>The interrupt takes the handler and leaves none.\<close>

definition hd_interrupt :: "fsys \<Rightarrow> fsys kres option" where
  "hd_interrupt s =
     (let f = hd_fn s; s = s\<lparr>hd_fn := No_intr\<rparr> in
      case f of No_intr \<Rightarrow> Some (Inr (log_fs ''Unexpected HD interrupt'' s))
      | Read_intr \<Rightarrow> read_intr s
      | Write_intr \<Rightarrow> write_intr s)"

definition hd_init :: "environment \<Rightarrow> environment" where
  "hd_init env = env\<lparr>request_fn := (request_fn env)(MAJOR_HD \<mapsto> do_hd_request)\<rparr>"

end
