(* ===== verification/Floppy.thy ===== *)
theory Floppy
  imports Hd Buffer
begin

text \<open>
  The floppy driver, \<open>kernel/blk_drv/floppy.c\<close>, with the part of \<open>floppy_interrupt\<close> that picks the handler. The driver
  talks to its controller byte by byte and waits for interrupts and timers in between; its routines call each other
  through \<open>do_fd_request\<close>, which they take as the parameter \<open>again\<close>.

  What the controller answers are the streams \<open>fd_status\<close> and \<open>fd_data\<close>, what it is sent is recorded in \<open>fd_log\<close>, the
  bytes for \<open>FD_DOR\<close> in \<open>fd_out\<close> of the motors. The transfer itself is the work of the DMA controller: it leaves the
  sectors read in \<open>tmp_floppy_area\<close>, or in the buffer when that is below one megabyte. A timer that is set for no ticks
  calls its function at once.
\<close>

definition MAJOR_FD :: nat where "MAJOR_FD = 2"
definition MAX_ERRORS :: u32 where "MAX_ERRORS = 8"
definition MAX_REPLIES :: nat where "MAX_REPLIES = 7"

definition FD_DATA :: u32 where "FD_DATA = 0x3f5"
definition FD_DCR :: u32 where "FD_DCR = 0x3f7"

definition STATUS_BUSY :: u8 where "STATUS_BUSY = 0x10"
definition STATUS_DIR :: u8 where "STATUS_DIR = 0x40"
definition STATUS_READY :: u8 where "STATUS_READY = 0x80"

definition FD_RECALIBRATE :: u8 where "FD_RECALIBRATE = 0x07"
definition FD_SEEK :: u8 where "FD_SEEK = 0x0F"
definition FD_READ :: u8 where "FD_READ = 0xE6"
definition FD_WRITE :: u8 where "FD_WRITE = 0xC5"
definition FD_SENSEI :: u8 where "FD_SENSEI = 0x08"
definition FD_SPECIFY :: u8 where "FD_SPECIFY = 0x03"
definition DMA_READ :: u8 where "DMA_READ = 0x46"
definition DMA_WRITE :: u8 where "DMA_WRITE = 0x4A"

record floppy_struct =
  fl_size :: u32
  fl_sect :: u32
  fl_head :: u32
  fl_track :: u32
  fl_stretch :: u32
  fl_gap :: u8
  fl_rate :: u8
  fl_spec1 :: u8

definition floppy_type :: "floppy_struct list" where
  "floppy_type =
    [\<lparr>fl_size = 0, fl_sect = 0, fl_head = 0, fl_track = 0, fl_stretch = 0, fl_gap = 0, fl_rate = 0, fl_spec1 = 0\<rparr>,
     \<lparr>fl_size = 720, fl_sect = 9, fl_head = 2, fl_track = 40, fl_stretch = 0, fl_gap = 0x2A, fl_rate = 2, fl_spec1 = 0xDF\<rparr>,
     \<lparr>fl_size = 2400, fl_sect = 15, fl_head = 2, fl_track = 80, fl_stretch = 0, fl_gap = 0x1B, fl_rate = 0, fl_spec1 = 0xDF\<rparr>,
     \<lparr>fl_size = 720, fl_sect = 9, fl_head = 2, fl_track = 40, fl_stretch = 1, fl_gap = 0x2A, fl_rate = 2, fl_spec1 = 0xDF\<rparr>,
     \<lparr>fl_size = 1440, fl_sect = 9, fl_head = 2, fl_track = 80, fl_stretch = 0, fl_gap = 0x2A, fl_rate = 2, fl_spec1 = 0xDF\<rparr>,
     \<lparr>fl_size = 720, fl_sect = 9, fl_head = 2, fl_track = 40, fl_stretch = 1, fl_gap = 0x23, fl_rate = 1, fl_spec1 = 0xDF\<rparr>,
     \<lparr>fl_size = 1440, fl_sect = 9, fl_head = 2, fl_track = 80, fl_stretch = 0, fl_gap = 0x23, fl_rate = 1, fl_spec1 = 0xDF\<rparr>,
     \<lparr>fl_size = 2880, fl_sect = 18, fl_head = 2, fl_track = 80, fl_stretch = 0, fl_gap = 0x1B, fl_rate = 0, fl_spec1 = 0xCF\<rparr>]"

section \<open>The state of the driver\<close>

definition upd_fd :: "(fd_state \<Rightarrow> fd_state) \<Rightarrow> fsys \<Rightarrow> fsys" where
  "upd_fd f s = s\<lparr>sys_fd := f (sys_fd s)\<rparr>"

definition floppy_of :: "fsys \<Rightarrow> floppy_struct" where
  "floppy_of s = floppy_type ! fd_type (sys_fd s)"

definition ST :: "nat \<Rightarrow> fsys \<Rightarrow> u8" where
  "ST i s = fd_reply (sys_fd s) ! i"

text \<open>\<open>CURRENT\<close>, and the address \<open>CURRENT->buffer\<close>.\<close>

definition fd_current :: "fsys \<Rightarrow> nat kres" where
  "fd_current s = (case current_request s ! MAJOR_FD of None \<Rightarrow> Inl NullDeref | Some r \<Rightarrow> Inr r)"

definition buffer_addr :: "nat \<Rightarrow> fsys \<Rightarrow> u32" where
  "buffer_addr r s = fd_place (sys_fd s) (r_bh (request s ! r)) + of_nat (r_offset (request s ! r))"

definition fd_reset_on :: "string \<Rightarrow> fsys \<Rightarrow> fsys" where
  "fd_reset_on txt s = log_fs txt (upd_fd (\<lambda>f. f\<lparr>fd_reset := True\<rparr>) s)"

definition fd_outb :: "u32 \<Rightarrow> u8 \<Rightarrow> fsys \<Rightarrow> fsys" where
  "fd_outb port v s = upd_fd (\<lambda>f. f\<lparr>fd_log := fd_log f @ [Out port v]\<rparr>) s"

definition out_DOR :: "u8 \<Rightarrow> fsys \<Rightarrow> fsys" where
  "out_DOR v s = s\<lparr>sys_motors := (sys_motors s)\<lparr>fd_out := fd_out (sys_motors s) @ [v]\<rparr>\<rparr>"

definition fd_inb_status :: "fsys \<Rightarrow> u8 \<times> fsys" where
  "fd_inb_status s = (fd_status (sys_fd s) (fd_reads (sys_fd s)), upd_fd (\<lambda>f. f\<lparr>fd_reads := fd_reads f + 1\<rparr>) s)"

definition fd_inb_data :: "fsys \<Rightarrow> u8 \<times> fsys" where
  "fd_inb_data s = (fd_data (sys_fd s) (fd_bytes (sys_fd s)), upd_fd (\<lambda>f. f\<lparr>fd_bytes := fd_bytes f + 1\<rparr>) s)"

definition floppy_deselect :: "u32 \<Rightarrow> fsys \<Rightarrow> fsys" where
  "floppy_deselect nr s =
     (let s = (if nr \<noteq> ucast (current_DOR (sys_motors s) AND 3) then log_fs ''floppy_deselect: drive not selected'' s else s);
          s = s\<lparr>sys_motors := (sys_motors s)\<lparr>selected := 0\<rparr>\<rparr>
      in wake_fs (wait_on_floppy_select (sys_fd s)) s)"

section \<open>Bytes from and to the controller\<close>

text \<open>The number of answers, or -1.\<close>

fun result_loop :: "nat \<Rightarrow> nat \<Rightarrow> fsys \<Rightarrow> int \<times> fsys" where
  "result_loop 0 i s = (- 1, fd_reset_on ''Getstatus times out'' s)"
| "result_loop (Suc n) i s =
     (let (st, s) = fd_inb_status s; st = st AND (STATUS_DIR OR STATUS_READY OR STATUS_BUSY) in
      if st = STATUS_READY then (int i, s)
      else if st = STATUS_DIR OR STATUS_READY OR STATUS_BUSY then
        if MAX_REPLIES \<le> i then (- 1, fd_reset_on ''Getstatus times out'' s)
        else let (d, s) = fd_inb_data s in result_loop n (i + 1) (upd_fd (\<lambda>f. f\<lparr>fd_reply := (fd_reply f)[i := d]\<rparr>) s)
      else result_loop n i s)"

definition result :: "fsys \<Rightarrow> int \<times> fsys" where
  "result s = (if fd_reset (sys_fd s) then (- 1, s) else result_loop 10000 0 s)"

fun output_loop :: "nat \<Rightarrow> u8 \<Rightarrow> fsys \<Rightarrow> fsys" where
  "output_loop 0 v s = fd_reset_on ''Unable to send byte to FDC'' s"
| "output_loop (Suc n) v s =
     (let (st, s) = fd_inb_status s in
      if st AND (STATUS_READY OR STATUS_DIR) = STATUS_READY then fd_outb FD_DATA v s else output_loop n v s)"

definition output_byte :: "u8 \<Rightarrow> fsys \<Rightarrow> fsys" where
  "output_byte v s = (if fd_reset (sys_fd s) then s else output_loop 10000 v s)"

text \<open>After more than eight errors the request is given up, and the errors of the next one are looked at.\<close>

definition bad_flp_intr :: "fsys \<Rightarrow> fsys kres" where
  "bad_flp_intr s =
     kbind (fd_current s) (\<lambda>r.
     let s = upd_req r (\<lambda>q. q\<lparr>r_errors := r_errors q + 1\<rparr>) s in
     kbind (if MAX_ERRORS <s r_errors (request s ! r)
            then end_request MAJOR_FD 0 (floppy_deselect (ucast (current_drive (sys_fd s))) s) else Inr s) (\<lambda>s.
     kbind (fd_current s) (\<lambda>r.
     Inr (upd_fd (\<lambda>f. if MAX_ERRORS div 2 <s r_errors (request s ! r) then f\<lparr>fd_reset := True\<rparr> else f\<lparr>fd_recalibrate := True\<rparr>) s))))"

text \<open>The DMA controller is given the address of the kilobyte, which it reaches below one megabyte only.\<close>

definition setup_DMA :: "fsys \<Rightarrow> fsys kres" where
  "setup_DMA s =
     kbind (fd_current s) (\<lambda>r.
     let q = request s ! r; addr = buffer_addr r s; high = 0x100000 \<le>s addr; mode = fd_command (sys_fd s);
         ds = drop (r_offset q) (b_data (bhs s (r_bh q)))
     in if high \<and> mode = FD_WRITE \<and> length ds < BLOCK_SIZE then Inl OutOfBounds
        else
     let s = upd_fd (\<lambda>f. if high \<and> mode = FD_WRITE then f\<lparr>tmp_floppy_area := take BLOCK_SIZE ds\<rparr> else f) s;
         addr = (if high then fd_area_addr (sys_fd s) else addr);
         d = (if mode = FD_READ then DMA_READ else DMA_WRITE)
     in Inr (fold (\<lambda>(p, v). fd_outb p v)
          [(10, 6), (12, d), (11, d), (4, ucast addr), (4, ucast (signed_drop_bit 8 addr)), (0x81, ucast (signed_drop_bit 16 addr)),
           (5, 0xff), (5, 3), (10, 2)] s))"

section \<open>Transfers\<close>

definition fd_again :: "(fsys \<Rightarrow> fsys kres option) \<Rightarrow> fsys \<Rightarrow> fsys kres option" where
  "fd_again again s = (if fd_reset (sys_fd s) then again s else Some (Inr s))"

definition head_drive :: "fsys \<Rightarrow> u8" where
  "head_drive s = push_bit 2 (fd_head (sys_fd s)) OR current_drive (sys_fd s)"

definition setup_rw_floppy :: "(fsys \<Rightarrow> fsys kres option) \<Rightarrow> fsys \<Rightarrow> fsys kres option" where
  "setup_rw_floppy again s =
     obind (Some (setup_DMA s)) (\<lambda>s.
     let s = upd_fd (\<lambda>f. f\<lparr>fd_do := Fd_rw\<rparr>) s; f = sys_fd s; t = floppy_of s
     in fd_again again (fold output_byte [fd_command f, head_drive s, fd_track f, fd_head f, fd_sector f, 2,
          ucast (fl_sect t), fl_gap t, 0xFF] s))"

definition transfer :: "(fsys \<Rightarrow> fsys kres option) \<Rightarrow> fsys \<Rightarrow> fsys kres option" where
  "transfer again s =
     (let t = floppy_of s;
          s = (if cur_spec1 (sys_fd s) \<noteq> ucast (fl_spec1 t)
               then fold output_byte [FD_SPECIFY, fl_spec1 t, 6] (upd_fd (\<lambda>f. f\<lparr>cur_spec1 := ucast (fl_spec1 t)\<rparr>) s) else s);
          s = (if cur_rate (sys_fd s) \<noteq> ucast (fl_rate t)
               then fd_outb FD_DCR (fl_rate t) (upd_fd (\<lambda>f. f\<lparr>cur_rate := ucast (fl_rate t)\<rparr>) s) else s)
      in if fd_reset (sys_fd s) then again s
         else if \<not> fd_seek (sys_fd s) then setup_rw_floppy again s
         else
           let s = upd_fd (\<lambda>f. f\<lparr>fd_do := Fd_seek\<rparr>) s; to = seek_track (sys_fd s)
           in fd_again again (fold output_byte
                (if to \<noteq> 0 then [FD_SEEK, head_drive s, to] else [FD_RECALIBRATE, head_drive s]) s))"

definition recalibrate_floppy :: "(fsys \<Rightarrow> fsys kres option) \<Rightarrow> fsys \<Rightarrow> fsys kres option" where
  "recalibrate_floppy again s =
     (let s = upd_fd (\<lambda>f. f\<lparr>fd_recalibrate := False, current_track := 0, fd_do := Fd_recal\<rparr>) s
      in fd_again again (fold output_byte [FD_RECALIBRATE, head_drive s] s))"

definition reset_floppy :: "fsys \<Rightarrow> fsys" where
  "reset_floppy s =
     (let s = log_fs ''Reset-floppy called'' (upd_fd (\<lambda>f. f\<lparr>fd_reset := False, cur_spec1 := - 1, cur_rate := - 1,
            fd_recalibrate := True, fd_do := Fd_reset\<rparr>) s);
          dor = current_DOR (sys_motors s)
      in out_DOR dor (out_DOR (dor AND NOT 4) s))"

text \<open>\<open>add_timer\<close> with one of the driver's functions, which is called at once when there is no tick to wait.\<close>

definition fd_timer :: "u32 \<Rightarrow> u32 \<Rightarrow> (fsys \<Rightarrow> fsys kres option) \<Rightarrow> fsys \<Rightarrow> fsys kres option" where
  "fd_timer ticks fn call s =
     obind (add_timer ticks fn (sys_timers s)) (\<lambda>tm.
     let s = s\<lparr>sys_timers := tm\<rparr> in if fn \<noteq> 0 \<and> ticks \<le>s 0 then call s else Some (Inr s))"

definition floppy_on_interrupt :: "(fsys \<Rightarrow> fsys kres option) \<Rightarrow> fsys \<Rightarrow> fsys kres option" where
  "floppy_on_interrupt again s =
     (let s = s\<lparr>sys_motors := (sys_motors s)\<lparr>selected := 1\<rparr>\<rparr>; drive = current_drive (sys_fd s);
          dor = current_DOR (sys_motors s)
      in if drive \<noteq> dor AND 3 then
           let dor = dor AND 0xFC OR drive
           in fd_timer 2 (fd_transfer_fn (sys_fd s)) (transfer again)
                (out_DOR dor (s\<lparr>sys_motors := (sys_motors s)\<lparr>current_DOR := dor\<rparr>\<rparr>))
         else transfer again s)"

section \<open>Requests\<close>

text \<open>Sector, head, track and command of a request.\<close>

definition fd_place_request :: "nat \<Rightarrow> floppy_struct \<Rightarrow> fsys \<Rightarrow> fsys kres" where
  "fd_place_request r t s =
     (let q = request s ! r; block = r_sector q in
      if fl_sect t = 0 \<or> fl_head t = 0 then Inl DivZero
      else
        let sec = (ucast (block mod fl_sect t) :: u8); block = block div fl_sect t; trk = (ucast (block div fl_head t) :: u8);
            to = (ucast (push_bit (unat (fl_stretch t)) (ucast trk :: u32)) :: u8);
            s = upd_fd (\<lambda>f. f\<lparr>fd_sector := sec + 1, fd_head := ucast (block mod fl_head t), fd_track := trk, seek_track := to,
                  fd_seek := fd_seek f \<or> to \<noteq> current_track f\<rparr>) s
        in Inr (if r_cmd q = READ then upd_fd (\<lambda>f. f\<lparr>fd_command := FD_READ\<rparr>) s
                else if r_cmd q = WRITE then upd_fd (\<lambda>f. f\<lparr>fd_command := FD_WRITE\<rparr>) s
                else log_fs ''do_fd_request: unknown command'' s))"

definition fd_check_request :: "nat \<Rightarrow> fsys \<Rightarrow> fsys" where
  "fd_check_request r s =
     (let q = request s ! r;
          s = (if MAJOR (r_dev q) \<noteq> of_nat MAJOR_FD then log_fs ''floppy: request list destroyed'' s else s)
      in if r_bh q \<noteq> 0 \<and> b_lock (bhs s (r_bh q)) = 0 then log_fs ''floppy: block not locked'' s else s)"

text \<open>The timer of the request that is served: the motor first has to come up to speed.\<close>

definition fd_turn_on :: "(fsys \<Rightarrow> fsys kres option) \<Rightarrow> fsys \<Rightarrow> fsys kres option" where
  "fd_turn_on again s =
     obind (Some (ticks_to_floppy_on (ucast (current_drive (sys_fd s))) (sys_motors s))) (\<lambda>(ticks, m).
     let s = s\<lparr>sys_motors := m\<rparr> in
     fd_timer ticks (fd_on_fn (sys_fd s)) (floppy_on_interrupt again) s)"

lemma fd_again_mono [partial_function_mono]:
  assumes "\<And>y. mono_option (\<lambda>f. again f y)"
  shows "mono_option (\<lambda>f. fd_again (again f) s)"
  unfolding fd_again_def using assms by (intro partial_function_mono)

lemma setup_rw_floppy_mono [partial_function_mono]:
  assumes "\<And>y. mono_option (\<lambda>f. again f y)"
  shows "mono_option (\<lambda>f. setup_rw_floppy (again f) s)"
  unfolding setup_rw_floppy_def Let_def by (intro partial_function_mono assms)

lemma transfer_mono [partial_function_mono]:
  assumes "\<And>y. mono_option (\<lambda>f. again f y)"
  shows "mono_option (\<lambda>f. transfer (again f) s)"
  unfolding transfer_def Let_def by (intro partial_function_mono assms)

lemma recalibrate_floppy_mono [partial_function_mono]:
  assumes "\<And>y. mono_option (\<lambda>f. again f y)"
  shows "mono_option (\<lambda>f. recalibrate_floppy (again f) s)"
  unfolding recalibrate_floppy_def Let_def by (intro partial_function_mono assms)

lemma fd_timer_mono [partial_function_mono]:
  assumes "\<And>y. mono_option (\<lambda>f. call f y)"
  shows "mono_option (\<lambda>f. fd_timer ticks fn (call f) s)"
  unfolding fd_timer_def Let_def by (intro partial_function_mono assms)

lemma floppy_on_interrupt_mono [partial_function_mono]:
  assumes "\<And>y. mono_option (\<lambda>f. again f y)"
  shows "mono_option (\<lambda>f. floppy_on_interrupt (again f) s)"
  unfolding floppy_on_interrupt_def Let_def by (intro partial_function_mono assms)

lemma fd_turn_on_mono [partial_function_mono]:
  assumes "\<And>y. mono_option (\<lambda>f. again f y)"
  shows "mono_option (\<lambda>f. fd_turn_on (again f) s)"
  unfolding fd_turn_on_def Let_def split_def by (intro partial_function_mono assms)

text \<open>The routine from its start, and from the label \<open>repeat\<close>, where it goes on after a request that does not fit the
  disk.\<close>

partial_function (option) fd_request_loop :: "bool \<Rightarrow> fsys \<Rightarrow> fsys kres option" where
  "fd_request_loop start s =
     (if start then
        let s = upd_fd (\<lambda>f. f\<lparr>fd_seek := False\<rparr>) s in
        if fd_reset (sys_fd s) then Some (Inr (reset_floppy s))
        else if fd_recalibrate (sys_fd s) then recalibrate_floppy (fd_request_loop True) s
        else fd_request_loop False s
      else case current_request s ! MAJOR_FD of None \<Rightarrow> Some (Inr (upd_fd (\<lambda>f. f\<lparr>fd_do := Fd_none\<rparr>) s))
      | Some r \<Rightarrow>
          let s = fd_check_request r s; q = request s ! r; ty = unat (drop_bit 2 (MINOR (r_dev q))) in
          if length floppy_type \<le> ty then Some (Inl OutOfBounds)
          else
            let drive = ucast (r_dev q AND 3); t = floppy_type ! ty;
                s = upd_fd (\<lambda>f. f\<lparr>fd_type := ty, fd_seek := fd_seek f \<or> current_drive f \<noteq> drive, current_drive := drive\<rparr>) s
            in if fl_size t < r_sector q + 2 then obind (Some (end_request MAJOR_FD 0 s)) (fd_request_loop False)
               else obind (Some (fd_place_request r t s)) (fd_turn_on (fd_request_loop True)))"

definition do_fd_request :: "fsys \<Rightarrow> fsys kres option" where
  "do_fd_request s = fd_request_loop True s"

section \<open>Interrupts\<close>

text \<open>\<open>copy_buffer(tmp_floppy_area,CURRENT->buffer)\<close>.\<close>

definition copy_from_area :: "nat \<Rightarrow> fsys \<Rightarrow> fsys kres" where
  "copy_from_area r s =
     (let q = request s ! r; off = r_offset q; area = tmp_floppy_area (sys_fd s) in
      if length (b_data (bhs s (r_bh q))) < off + length area then Inl OutOfBounds
      else Inr (upd_bh (r_bh q) (\<lambda>h. h\<lparr>b_data := take off (b_data h) @ area @ drop (off + length area) (b_data h)\<rparr>) s))"

definition rw_interrupt :: "fsys \<Rightarrow> fsys kres option" where
  "rw_interrupt s =
     (let (n, s) = result s in
      if n \<noteq> 7 \<or> ST 0 s AND 0xf8 \<noteq> 0 \<or> ST 1 s AND 0xbf \<noteq> 0 \<or> ST 2 s AND 0x73 \<noteq> 0 then
        obind (Some (if ST 1 s AND 2 \<noteq> 0
                     then end_request MAJOR_FD 0 (floppy_deselect (ucast (current_drive (sys_fd s)))
                            (log_fs ''Drive %d is write protected'' s))
                     else bad_flp_intr s)) do_fd_request
      else
        obind (if fd_command (sys_fd s) \<noteq> FD_READ then Some (Inr s)
               else obind (Some (fd_current s)) (\<lambda>r.
                 if 0x100000 \<le> buffer_addr r s then Some (copy_from_area r s) else Some (Inr s))) (\<lambda>s.
        obind (Some (end_request MAJOR_FD 1 (floppy_deselect (ucast (current_drive (sys_fd s))) s))) do_fd_request))"

definition seek_interrupt :: "fsys \<Rightarrow> fsys kres option" where
  "seek_interrupt s =
     (let (n, s) = result (output_byte FD_SENSEI s) in
      if n \<noteq> 2 \<or> ST 0 s AND 0xF8 \<noteq> 0x20 \<or> ST 1 s \<noteq> seek_track (sys_fd s)
      then obind (Some (bad_flp_intr s)) do_fd_request
      else setup_rw_floppy do_fd_request (upd_fd (\<lambda>f. f\<lparr>current_track := ST 1 s\<rparr>) s))"

definition recal_interrupt :: "fsys \<Rightarrow> fsys kres option" where
  "recal_interrupt s =
     (let (n, s) = result (output_byte FD_SENSEI s) in
      do_fd_request (upd_fd (\<lambda>f. if n \<noteq> 2 \<or> ST 0 s AND 0xE0 = 0x60 then f\<lparr>fd_reset := True\<rparr>
                                 else f\<lparr>fd_recalibrate := False\<rparr>) s))"

definition reset_interrupt :: "fsys \<Rightarrow> fsys kres option" where
  "reset_interrupt s =
     (let (n, s) = result (output_byte FD_SENSEI s)
      in do_fd_request (fold output_byte [FD_SPECIFY, ucast (cur_spec1 (sys_fd s)), 6] s))"

definition unexpected_floppy_interrupt :: "fsys \<Rightarrow> fsys" where
  "unexpected_floppy_interrupt s =
     (let (n, s) = result (output_byte FD_SENSEI s); s = log_fs ''unexpected floppy interrupt %d, %d'' s
      in upd_fd (\<lambda>f. if n \<noteq> 2 \<or> ST 0 s AND 0xE0 = 0x60 then f\<lparr>fd_reset := True\<rparr> else f\<lparr>fd_recalibrate := True\<rparr>) s)"

definition floppy_interrupt :: "fsys \<Rightarrow> fsys kres option" where
  "floppy_interrupt s =
     (let h = fd_do (sys_fd s); s = upd_fd (\<lambda>f. f\<lparr>fd_do := Fd_none\<rparr>) s in
      case h of
        Fd_none \<Rightarrow> Some (Inr (unexpected_floppy_interrupt s))
      | Fd_rw \<Rightarrow> rw_interrupt s
      | Fd_seek \<Rightarrow> seek_interrupt s
      | Fd_recal \<Rightarrow> recal_interrupt s
      | Fd_reset \<Rightarrow> reset_interrupt s)"

text \<open>What a timer of the driver calls when its ticks are over.\<close>

definition floppy_timeout :: "u32 \<Rightarrow> fsys \<Rightarrow> fsys kres option" where
  "floppy_timeout fn s =
     (if fn = fd_on_fn (sys_fd s) then floppy_on_interrupt do_fd_request s
      else if fn = fd_transfer_fn (sys_fd s) then transfer do_fd_request s
      else Some (Inr s))"

definition floppy_init :: "environment \<Rightarrow> environment" where
  "floppy_init env = env\<lparr>request_fn := (request_fn env)(MAJOR_FD \<mapsto> do_fd_request)\<rparr>"

section \<open>Where a block is on the disk\<close>

text \<open>The types that have sectors.\<close>

lemma floppy_types: "1 \<le> ty \<Longrightarrow> ty < 8 \<Longrightarrow> floppy_type ! ty \<in> set (tl floppy_type)"
  by (auto simp: floppy_type_def nth_Cons' less_Suc_eq numeral_eq_Suc)

lemma floppy_size: "t \<in> set (tl floppy_type) \<Longrightarrow>
    unat (fl_size t) = unat (fl_sect t) * (unat (fl_head t) * unat (fl_track t)) \<and> 0 < unat (fl_sect t) \<and> unat (fl_sect t) < 255 \<and>
    0 < unat (fl_head t) \<and> unat (fl_head t) < 255 \<and> unat (fl_track t) * 2 ^ unat (fl_stretch t) < 256"
  by (auto simp: floppy_type_def)

lemma unat_byte: "unat (x :: u32) < 256 \<Longrightarrow> unat (ucast x :: u8) = unat x"
  by (simp add: unsigned_ucast_eq take_bit_nat_eq_self)

lemma unat_push: "unat (w :: u8) * 2 ^ n < 256 \<Longrightarrow> unat (push_bit n (ucast w :: u32)) = unat w * 2 ^ n"
proof -
  assume a: "unat w * 2 ^ n < 256"
  have "unat w * 2 ^ n mod 2 ^ 32 = unat w * 2 ^ n" using a by (intro mod_less) simp
  moreover have "unat (push_bit n (ucast w :: u32)) = take_bit 32 (push_bit n (unat w))"
    using unsigned_less [of w, where ?'a = nat]
    by (simp only: unsigned_push_bit_eq unsigned_ucast_eq) (simp add: take_bit_nat_eq_self)
  ultimately show ?thesis by (simp add: take_bit_eq_mod push_bit_eq_mult)
qed

lemma div_bound: "b < (s :: nat) * (h * t) \<Longrightarrow> b div s div h < t"
  by (metis div_mult2_eq less_mult_imp_div_less mult.commute mult.assoc)

text \<open>C40: On every kind of floppy disk a block inside the disk is read from a sector, head and track the disk has, and
  these three numbers give the block back; the head is moved to the track, or to twice its number on a disk with
  half the tracks.\<close>

theorem floppy_place_fits:
  assumes "1 \<le> ty" "ty < 8" "t = floppy_type ! ty" "unat (r_sector (request s ! r)) + 2 \<le> unat (fl_size t)"
  shows "\<exists>s'. fd_place_request r t s = Inr s' \<and> unat (fd_head (sys_fd s')) < unat (fl_head t) \<and>
    unat (fd_track (sys_fd s')) < unat (fl_track t) \<and> 1 \<le> unat (fd_sector (sys_fd s')) \<and>
    unat (fd_sector (sys_fd s')) \<le> unat (fl_sect t) \<and>
    unat (seek_track (sys_fd s')) = unat (fd_track (sys_fd s')) * 2 ^ unat (fl_stretch t) \<and>
    (unat (fd_track (sys_fd s')) * unat (fl_head t) + unat (fd_head (sys_fd s'))) * unat (fl_sect t) +
      (unat (fd_sector (sys_fd s')) - 1) = unat (r_sector (request s ! r))"
proof -
  define b S H T where d: "b = unat (r_sector (request s ! r))" "S = unat (fl_sect t)" "H = unat (fl_head t)" "T = unat (fl_track t)"
  let ?p = "2 ^ unat (fl_stretch t) :: nat"
  have z: "unat (fl_size t) = S * (H * T)" "0 < S" "S < 255" "0 < H" "H < 255" "T * ?p < 256"
    using floppy_size [OF floppy_types [OF assms(1,2)]] unfolding d assms(3) by auto
  have b: "b < S * (H * T)" using assms(4) z(1) by (simp add: d)
  have t: "b div S div H < T" using div_bound [OF b] .
  let ?bl = "r_sector (request s ! r)"
  have "(b div S div H) * ?p \<le> T * ?p" using t by (intro mult_le_mono1) simp
  then have q: "(b div S div H) * ?p < 256" using z(6) by (rule le_less_trans)
  have "b div S div H \<le> (b div S div H) * ?p" by simp
  then have t1: "b div S div H < 256" using q by (rule le_less_trans)
  have ms: "b mod S < 256" using mod_less_divisor [OF z(2), of b] z(3) by linarith
  have mh: "b div S mod H < 256" using mod_less_divisor [OF z(4), of "b div S"] z(5) by linarith
  have u: "unat (ucast (?bl mod fl_sect t) :: u8) = b mod S"
    "unat (ucast (?bl div fl_sect t mod fl_head t) :: u8) = b div S mod H"
    "unat (ucast (?bl div fl_sect t div fl_head t) :: u8) = b div S div H"
    using t1 ms mh by (simp_all add: unat_byte unat_mod unat_div d)
  define sec hd tr where w: "sec = (ucast (?bl mod fl_sect t) :: u8)" "hd = (ucast (?bl div fl_sect t mod fl_head t) :: u8)"
    "tr = (ucast (?bl div fl_sect t div fl_head t) :: u8)"
  have un: "unat sec = b mod S" "unat hd = b div S mod H" "unat tr = b div S div H" using u by (simp_all add: w)
  have "b mod S + 1 < 256" using mod_less_divisor [OF z(2), of b] z(3) by linarith
  then have s1: "unat (sec + 1) = b mod S + 1" using un(1) by (simp add: unat_word_ariths)
  have sk: "unat (ucast (push_bit (unat (fl_stretch t)) (ucast tr :: u32)) :: u8) = unat tr * ?p"
    using q un(3) by (simp add: unat_byte unat_push)
  have nz: "fl_sect t \<noteq> 0" "fl_head t \<noteq> 0" using z(2,4) by (auto simp: d)
  have whole: "(b div S div H * H + b div S mod H) * S + b mod S = b" by simp
  have le: "Suc (b mod S) \<le> S" using mod_less_divisor [OF z(2), of b] by (simp add: Suc_le_eq)
  show ?thesis
    using nz t s1 un sk whole le z(2,4) mod_less_divisor [of H "b div S"]
    by (simp add: fd_place_request_def Let_def upd_fd_def flip: w d)
qed

theorem floppy_place_fits_witness:
  "\<exists>s'. fd_place_request 0 (floppy_type ! 7) (upd_req 0 (\<lambda>q. q\<lparr>r_sector := 100\<rparr>) fs0) = Inr s' \<and>
    unat (fd_sector (sys_fd s')) = 11 \<and> unat (fd_track (sys_fd s')) = 2"
proof -
  let ?s = "upd_req 0 (\<lambda>q. q\<lparr>r_sector := 100\<rparr>) fs0"
  have r: "r_sector (request ?s ! 0) = 100" by (simp add: fs0_def)
  have t: "fl_size (floppy_type ! 7) = 2880" "fl_sect (floppy_type ! 7) = 18" "fl_head (floppy_type ! 7) = 2"
    by (simp_all add: floppy_type_def)
  have arith: "sc = 11 \<and> tr = 2" if "hd < 2" "1 \<le> sc" "sc \<le> 18" "(tr * 2 + hd) * 18 + (sc - 1) = 100" for sc tr hd :: nat
  proof -
    define x k where "x = tr * 2 + hd" and "k = sc - 1"
    then have "x * 18 + k = 100" "k < 18" "sc = k + 1" using that by auto
    moreover from this have "x = 5" by linarith
    ultimately have "x = 5" "sc = 11" by simp_all
    then show ?thesis using that(1) \<open>x = tr * 2 + hd\<close> by linarith
  qed
  have "unat (r_sector (request ?s ! 0)) + 2 \<le> unat (fl_size (floppy_type ! 7))" by (simp only: r t) simp
  then obtain s' where p: "fd_place_request 0 (floppy_type ! 7) ?s = Inr s'" and
    k: "unat (fd_head (sys_fd s')) < unat (fl_head (floppy_type ! 7))" "1 \<le> unat (fd_sector (sys_fd s'))"
      "unat (fd_sector (sys_fd s')) \<le> unat (fl_sect (floppy_type ! 7))"
      "(unat (fd_track (sys_fd s')) * unat (fl_head (floppy_type ! 7)) + unat (fd_head (sys_fd s'))) * unat (fl_sect (floppy_type ! 7)) +
        (unat (fd_sector (sys_fd s')) - 1) = unat (r_sector (request ?s ! 0))"
    using floppy_place_fits [of 7 "floppy_type ! 7" ?s 0] by auto
  have n: "unat (2 :: u32) = 2" "unat (18 :: u32) = 18" "unat (100 :: u32) = 100" by simp_all
  show ?thesis using p arith [OF k [unfolded t r n]] by blast
qed

end
