(* ===== verification/Setup.thy ===== *)
theory Setup
  imports Super Floppy
begin

text \<open>
  \<open>sys_setup\<close> of \<open>kernel/blk_drv/hd.c\<close>: the first system call of the first process. It takes the geometry of the disks from
  the table of the BIOS, asks the CMOS how many there are, reads the partition tables and mounts the root. The tables
  of sizes (\<open>hd_sizes\<close>, \<open>blk_size\<close>) are written and never read, and are left out, as is \<open>hd_identity\<close>, which nothing calls.
\<close>

definition bios_short :: "u32 \<Rightarrow> bmem \<Rightarrow> u32" where
  "bios_short a m = ucast (m a) OR push_bit 8 (ucast (m (a + 1)))"

definition read_geometry :: "u32 \<Rightarrow> bmem \<Rightarrow> hd_geometry" where
  "read_geometry a m = \<lparr>hd_head = ucast (m (2 + a)), hd_sect = ucast (m (14 + a)), hd_cyl = bios_short a m,
     hd_wpcom = bios_short (5 + a) m, hd_lzone = bios_short (12 + a) m, hd_ctl = ucast (m (8 + a))\<rparr>"

text \<open>The whole disk \<open>i\<close> is the partition \<open>5 i\<close>.\<close>

definition whole_disk :: "nat \<Rightarrow> fsys \<Rightarrow> fsys" where
  "whole_disk i s =
     (let g = hd_info s ! i
      in log_fs ''disk %d has %d sects'' (s\<lparr>hd_parts := (hd_parts s)[i * 5 := (0, hd_head g * hd_sect g * hd_cyl g)]\<rparr>))"

definition no_disk :: "nat \<Rightarrow> fsys \<Rightarrow> fsys" where
  "no_disk i s = s\<lparr>hd_parts := (hd_parts s)[i * 5 := (0, 0)]\<rparr>"

definition cmos_disks :: "u8 \<Rightarrow> u32" where
  "cmos_disks d = (if d AND 0xf0 = 0 then 0 else if d AND 0x0f = 0 then 1 else 2)"

text \<open>The four entries of a partition table start at \<open>0x1BE\<close> and have 16 bytes each.\<close>

definition set_partition :: "nat \<Rightarrow> u8 list \<Rightarrow> nat \<Rightarrow> fsys \<Rightarrow> fsys" where
  "set_partition drive ds i s =
     (let p = 0x1BE + 16 * (i - 1)
      in log_fs ''table %d: start at %d, has %d sects''
           (s\<lparr>hd_parts := (hd_parts s)[i + 5 * drive := (long_at ds (p + 8), long_at ds (p + 12))]\<rparr>))"

fun read_partitions :: "environment \<Rightarrow> nat list \<Rightarrow> fsys \<Rightarrow> fsys kres option" where
  "read_partitions env [] s = Some (Inr s)"
| "read_partitions env (d # ds) s =
     obind (bread env (0x300 + of_nat d * 5) 0 s) (\<lambda>(b, s).
     if b = 0 then Some (Inl NullDeref)
     else
       let data = b_data (bhs s b);
           s = (if data ! 510 \<noteq> 0x55 \<or> data ! 511 \<noteq> 0xAA then log_fs ''Bad partition table on drive %d'' s else s)
       in read_partitions env ds (fold (set_partition d data) [1..<5] s))"

definition sys_setup :: "environment \<Rightarrow> u32 \<Rightarrow> fsys \<Rightarrow> (u32 \<times> fsys) kres option" where
  "sys_setup env BIOS s =
     (let m = phys (fm s);
          s = s\<lparr>hd_info := [read_geometry BIOS m, read_geometry (BIOS + 16) m]\<rparr>;
          s = log_fs ''computer has %d disks'' (s\<lparr>nr_hd := (if hd_cyl (hd_info s ! 1) \<noteq> 0 then 2 else 1)\<rparr>);
          s = fold whole_disk [0..<unat (nr_hd s)] s;
          s = s\<lparr>nr_hd := cmos_disks (cmos env 0x12)\<rparr>;
          s = fold no_disk [unat (nr_hd s)..<2] s;
          s = fold (\<lambda>i. log_fs ''sectors for hd %d is %d'') [0..<unat (nr_hd s)] s
      in obind (read_partitions env [0..<unat (nr_hd s)] s) (\<lambda>s.
         obind (add_timer 300 (test_c env) (sys_timers s)) (\<lambda>tm.
         obind (mount_root env (s\<lparr>sys_timers := tm\<rparr>)) (\<lambda>s. Some (Inr (0, s))))))"

end
