(* ===== verification/Vsprintf.thy ===== *)
theory Vsprintf
  imports Strings Segment
begin

text \<open>
  Formatted output, \<open>kernel/vsprintf.c\<close>. The format string is the list of its characters without the
  terminating zero, so \<open>*fmt\<close> is the head of the list and the end of the string is the empty list; the
  characters stored through \<open>str\<close> are collected in a list, in the order they are stored (the buffer is an
  area of its own). The arguments lie in memory, where \<open>va_arg\<close> reads them one long after the other, and so
  do the strings printed with \<open>%s\<close> and the integers stored by \<open>%n\<close>.
\<close>

definition is_digit :: "u8 \<Rightarrow> bool" where
  "is_digit c \<longleftrightarrow> 48 \<le>s c \<and> c \<le>s 57"

text \<open>The characters are promoted to \<open>int\<close>.\<close>

fun skip_atoi_loop :: "u8 list \<Rightarrow> u32 \<Rightarrow> u32 \<times> u8 list" where
  "skip_atoi_loop [] i = (i, [])"
| "skip_atoi_loop (c # cs) i = (if is_digit c then skip_atoi_loop cs (i * 10 + scast c - 48) else (i, c # cs))"

definition skip_atoi :: "u8 list \<Rightarrow> u32 \<times> u8 list" where
  "skip_atoi s = skip_atoi_loop s 0"

definition ZEROPAD :: u32 where "ZEROPAD = 1"
definition SIGN :: u32 where "SIGN = 2"
definition PLUS :: u32 where "PLUS = 4"
definition SPACE :: u32 where "SPACE = 8"
definition LEFT_ADJ :: u32 where "LEFT_ADJ = 16"
definition SPECIAL :: u32 where "SPECIAL = 32"
definition SMALL :: u32 where "SMALL = 64"

section \<open>Numbers\<close>

lemma sint_dec: "sint (b :: u32) < sint n \<Longrightarrow> sint (n - 1 :: u32) = sint n - 1"
proof -
  assume "sint b < sint n"
  moreover have "- (2 ^ 31) \<le> sint b" "sint n < 2 ^ 31" using sint_ge [of b] sint_lt [of n] by simp_all
  ultimately have "signed_take_bit 31 (sint n - 1) = sint n - 1"
    by (intro signed_take_bit_int_eq_self) linarith+
  then show ?thesis by (simp add: sint_word_ariths)
qed

text \<open>\<open>while (size-- > 0) *str++ = c\<close>: what is stored, and \<open>size\<close> afterwards.\<close>

function pad :: "u8 \<Rightarrow> u32 \<Rightarrow> u8 list \<times> u32" where
  "pad c n = (if 0 <s n then (let (cs, n') = pad c (n - 1) in (c # cs, n')) else ([], n - 1))"
  by pat_completeness auto
termination
  by (relation "measure (\<lambda>(c, n). nat (sint n))") (auto simp: sint_dec [of 0, simplified] word_sless_alt)

text \<open>\<open>do_div\<close> divides without sign; a base below two does not come here.\<close>

function digit_loop :: "u8 list \<Rightarrow> u32 \<Rightarrow> u32 \<Rightarrow> u8 list" where
  "digit_loop digits n base =
     (if n = 0 \<or> base \<le> 1 then [] else digits ! unat (n mod base) # digit_loop digits (n div base) base)"
  by pat_completeness auto
termination
  by (relation "measure (\<lambda>(digits, n, base). unat n)")
    (auto simp: unat_div word_less_nat_alt word_le_nat_alt not_le unat_gt_0 intro!: div_less_dividend)

declare pad.simps [simp del] digit_loop.simps [simp del]

definition upper_digits :: "u8 list" where
  "upper_digits = map of_char ''0123456789ABCDEFGHIJKLMNOPQRSTUVWXYZ''"

definition lower_digits :: "u8 list" where
  "lower_digits = map of_char ''0123456789abcdefghijklmnopqrstuvwxyz''"

definition number :: "u32 \<Rightarrow> u32 \<Rightarrow> u32 \<Rightarrow> u32 \<Rightarrow> u32 \<Rightarrow> u8 list option" where
  "number n base sz precision type =
     (let digits = (if type AND SMALL \<noteq> 0 then lower_digits else upper_digits);
          type = (if type AND LEFT_ADJ \<noteq> 0 then type AND NOT ZEROPAD else type)
      in if base <s 2 \<or> 36 <s base then None
      else
        let c = (if type AND ZEROPAD \<noteq> 0 then 48 else 32);
            neg = (type AND SIGN \<noteq> 0 \<and> n <s 0);
            sign = (if neg then 45 else if type AND PLUS \<noteq> 0 then 43 else if type AND SPACE \<noteq> 0 then 32 else 0);
            n = (if neg then - n else n);
            sz = (if sign \<noteq> 0 then sz - 1 else sz);
            sz = (if type AND SPECIAL \<noteq> 0 then (if base = 16 then sz - 2 else if base = 8 then sz - 1 else sz) else sz);
            tmp = (if n = 0 then [48] else digit_loop digits n base);
            i = of_nat (length tmp);
            precision = (if precision <s i then i else precision);
            sz = sz - precision;
            (left, sz) = (if type AND (ZEROPAD + LEFT_ADJ) = 0 then pad 32 sz else ([], sz));
            special = (if type AND SPECIAL \<noteq> 0 then
                (if base = 8 then [48] else if base = 16 then [48, digits ! 33] else []) else []);
            (fill, sz) = (if type AND LEFT_ADJ = 0 then pad c sz else ([], sz));
            (zeros, _) = pad 48 (precision - i);
            (right, _) = pad 32 sz
        in Some (left @ (if sign \<noteq> 0 then [sign] else []) @ special @ fill @ zeros @ rev tmp @ right))"

section \<open>The format\<close>

fun parse_flags :: "u8 list \<Rightarrow> u32 \<Rightarrow> u32 \<times> u8 list" where
  "parse_flags [] flags = (flags, [])"
| "parse_flags (c # cs) flags =
     (if c = 45 then parse_flags cs (flags OR LEFT_ADJ)
      else if c = 43 then parse_flags cs (flags OR PLUS)
      else if c = 32 then parse_flags cs (flags OR SPACE)
      else if c = 35 then parse_flags cs (flags OR SPECIAL)
      else if c = 48 then parse_flags cs (flags OR ZEROPAD)
      else (flags, c # cs))"

definition va_arg :: "bmem \<Rightarrow> u32 \<Rightarrow> u32 \<times> u32" where
  "va_arg m args = (get_fs_long args m, args + 4)"

text \<open>The field width (a star is not skipped), the flags with it and the arguments left.\<close>

definition parse_width :: "bmem \<Rightarrow> u8 list \<Rightarrow> u32 \<Rightarrow> u32 \<Rightarrow> u32 \<times> u32 \<times> u8 list \<times> u32" where
  "parse_width m fmt flags args =
     (case fmt of [] \<Rightarrow> (- 1, flags, [], args)
      | c # cs \<Rightarrow>
          if is_digit c then (let (w, rest) = skip_atoi (c # cs) in (w, flags, rest, args))
          else if c = 42 then
            (let (w, args) = va_arg m args in
             if w <s 0 then (- w, flags OR LEFT_ADJ, c # cs, args) else (w, flags, c # cs, args))
          else (- 1, flags, c # cs, args))"

definition parse_precision :: "bmem \<Rightarrow> u8 list \<Rightarrow> u32 \<Rightarrow> u32 \<times> u8 list \<times> u32" where
  "parse_precision m fmt args =
     (case fmt of [] \<Rightarrow> (- 1, [], args)
      | c # cs \<Rightarrow>
          if c = 46 then
            (let (p, rest, args) =
               (case cs of [] \<Rightarrow> (- 1, [], args)
                | d # ds \<Rightarrow>
                    if is_digit d then (let (p, rest) = skip_atoi (d # ds) in (p, rest, args))
                    else if d = 42 then (let (p, args) = va_arg m args in (p, d # ds, args))
                    else (- 1, d # ds, args))
             in (if p <s 0 then 0 else p, rest, args))
          else (- 1, c # cs, args))"

definition skip_qualifier :: "u8 list \<Rightarrow> u8 list" where
  "skip_qualifier fmt =
     (case fmt of [] \<Rightarrow> [] | c # cs \<Rightarrow> if c = 104 \<or> c = 108 \<or> c = 76 then cs else c # cs)"

text \<open>The two loops around \<open>--field_width > 0\<close> of a character, and those around \<open>len < field_width--\<close> of a
  string: the number of blanks and the width afterwards.\<close>

definition char_pad :: "u32 \<Rightarrow> u8 list \<times> u32" where
  "char_pad w = (let (cs, n) = pad 32 (w - 1) in (cs, n + 1))"

function string_pad :: "u32 \<Rightarrow> u32 \<Rightarrow> u8 list \<times> u32" where
  "string_pad len w = (if len <s w then (let (cs, w') = string_pad len (w - 1) in (32 # cs, w')) else ([], w - 1))"
  by pat_completeness auto
termination
  by (relation "measure (\<lambda>(len, w). nat (sint w - sint len))") (auto simp: sint_dec word_sless_alt)

declare string_pad.simps [simp del]

text \<open>One conversion, from the character after the qualifier on: what is printed, the arguments left and the
  memory (\<open>count\<close> is how many characters have been stored so far). \<open>None\<close> is a string that does not end, or
  the null pointer \<open>number\<close> returns for a bad base.\<close>

definition print_char :: "bmem \<Rightarrow> u32 \<Rightarrow> u32 \<Rightarrow> u32 \<Rightarrow> u8 list \<times> u32" where
  "print_char m flags w args =
     (let (left, w) = (if flags AND LEFT_ADJ = 0 then char_pad w else ([], w));
          (v, args) = va_arg m args;
          (right, _) = char_pad w
      in (left @ [ucast v] @ right, args))"

definition print_string :: "bmem \<Rightarrow> u32 \<Rightarrow> u32 \<Rightarrow> u32 \<Rightarrow> u32 \<Rightarrow> (u8 list \<times> u32) option" where
  "print_string m flags w precision args =
     (let (s, args) = va_arg m args in
      map_option (\<lambda>len.
        let len = (if precision <s 0 then len else if precision <s len then precision else len);
            (left, w) = (if flags AND LEFT_ADJ = 0 then string_pad len w else ([], w));
            body = (if len <s 0 then [] else rd m s (unat len));
            (right, _) = string_pad len w
        in (left @ body @ right, args)) (strlen m s))"

definition print_number :: "bmem \<Rightarrow> u32 \<Rightarrow> u32 \<Rightarrow> u32 \<Rightarrow> u32 \<Rightarrow> u32 \<Rightarrow> (u8 list \<times> u32) option" where
  "print_number m base flags w precision args =
     (let (v, args) = va_arg m args in map_option (\<lambda>cs. (cs, args)) (number v base w precision flags))"

definition convert :: "bmem \<Rightarrow> u8 \<Rightarrow> u32 \<Rightarrow> u32 \<Rightarrow> u32 \<Rightarrow> u32 \<Rightarrow> u32 \<Rightarrow> (u8 list \<times> u32 \<times> bmem) option" where
  "convert m c flags w precision args count =
     (let keep = map_option (\<lambda>(cs, args). (cs, args, m)) in
      if c = 99 then keep (Some (print_char m flags w args))
      else if c = 115 then keep (print_string m flags w precision args)
      else if c = 111 then keep (print_number m 8 flags w precision args)
      else if c = 112 then
        (if w = - 1 then keep (print_number m 16 (flags OR ZEROPAD) 8 precision args)
         else keep (print_number m 16 flags w precision args))
      else if c = 120 then keep (print_number m 16 (flags OR SMALL) w precision args)
      else if c = 88 then keep (print_number m 16 flags w precision args)
      else if c = 100 \<or> c = 105 then keep (print_number m 10 (flags OR SIGN) w precision args)
      else if c = 117 then keep (print_number m 10 flags w precision args)
      else if c = 110 then (let (ip, args) = va_arg m args in Some ([], args, put_fs_long count ip m))
      else Some ((if c \<noteq> 37 then [37] else []) @ [c], args, m))"

text \<open>Everything between a percent sign and the conversion character.\<close>

definition parse_spec :: "bmem \<Rightarrow> u8 list \<Rightarrow> u32 \<Rightarrow> u32 \<times> u32 \<times> u32 \<times> u8 list \<times> u32" where
  "parse_spec m fmt args =
     (let (flags, fmt) = parse_flags fmt 0;
          (w, flags, fmt, args) = parse_width m fmt flags args;
          (p, fmt, args) = parse_precision m fmt args
      in (flags, w, p, skip_qualifier fmt, args))"

lemma skip_atoi_length: "length (snd (skip_atoi_loop cs i)) \<le> length cs"
  by (induction cs i rule: skip_atoi_loop.induct) auto

lemma parse_flags_length: "length (snd (parse_flags cs f)) \<le> length cs"
  by (induction cs f rule: parse_flags.induct) auto

lemma parse_width_length: "length (fst (snd (snd (parse_width m fmt f args)))) \<le> length fmt"
  using skip_atoi_length [of fmt 0]
  by (auto simp: parse_width_def skip_atoi_def va_arg_def Let_def case_prod_beta simp del: skip_atoi_loop.simps split: list.split)

lemma parse_precision_length: "length (fst (snd (parse_precision m fmt args))) \<le> length fmt"
  using skip_atoi_length [of "tl fmt" 0]
  by (auto simp: parse_precision_def skip_atoi_def va_arg_def Let_def case_prod_beta simp del: skip_atoi_loop.simps split: list.split)

lemma skip_qualifier_length: "length (skip_qualifier fmt) \<le> length fmt"
  by (simp add: skip_qualifier_def split: list.split)

lemma parse_spec_length:
  assumes "parse_spec m fmt args = (flags, w, p, rest, args')"
  shows "length rest \<le> length fmt"
  using assms parse_flags_length [of fmt 0] parse_width_length [of m "snd (parse_flags fmt 0)" "fst (parse_flags fmt 0)" args]
    parse_precision_length [of m "fst (snd (snd (parse_width m (snd (parse_flags fmt 0)) (fst (parse_flags fmt 0)) args)))"
      "snd (snd (snd (parse_width m (snd (parse_flags fmt 0)) (fst (parse_flags fmt 0)) args)))"]
    skip_qualifier_length
  by (auto simp: parse_spec_def Let_def case_prod_beta dest: order_trans)

function vsprintf_loop :: "bmem \<Rightarrow> u8 list \<Rightarrow> u32 \<Rightarrow> u8 list \<Rightarrow> (u8 list \<times> bmem) option" where
  "vsprintf_loop m [] args out = Some (out, m)"
| "vsprintf_loop m (c # fmt) args out =
     (if c \<noteq> 37 then vsprintf_loop m fmt args (out @ [c])
      else
        case parse_spec m fmt args of (flags, w, p, rest, args) \<Rightarrow>
          (case rest of [] \<Rightarrow> Some (out @ [37], m)
           | d # rest' \<Rightarrow>
               (case convert m d flags w p args (of_nat (length out)) of None \<Rightarrow> None
                | Some (cs, args, m) \<Rightarrow> vsprintf_loop m rest' args (out @ cs))))"
  by pat_completeness auto
termination
  by (relation "measure (\<lambda>(m, fmt, args, out). length fmt)") (auto dest: parse_spec_length [OF sym])

text \<open>\<open>vsprintf\<close> returns the number of characters before the terminating zero it stores.\<close>

definition vsprintf :: "u8 list \<Rightarrow> u32 \<Rightarrow> bmem \<Rightarrow> (u32 \<times> u8 list \<times> bmem) option" where
  "vsprintf fmt args m = map_option (\<lambda>(out, m). (of_nat (length out), out @ [0], m)) (vsprintf_loop m fmt args [])"

section \<open>What \<open>number\<close> prints\<close>

lemma pad_eq: "pad c n = (replicate (nat (sint n)) c, if 0 <s n then - 1 else n - 1)"
proof (induction c n rule: pad.induct)
  case (1 c n)
  show ?case
  proof (cases "0 <s n")
    case True
    then have s: "sint (n - 1) = sint n - 1" "0 < sint n" using sint_dec [of 0 n] by (simp_all add: word_sless_alt)
    then obtain k where k: "nat (sint n) = Suc k" "nat (sint (n - 1)) = k" by (cases "nat (sint n)") auto
    have "\<not> 0 <s n - 1 \<Longrightarrow> n = 1"
    proof -
      assume "\<not> 0 <s n - 1"
      then have "sint n = sint (1 :: u32)" using s by (simp add: word_sless_alt)
      then show "n = 1" by (rule signed_word_eqI)
    qed
    with True 1 [OF True] k show ?thesis by (subst pad.simps) auto
  qed (subst pad.simps, auto simp: word_sless_alt)
qed

text \<open>The digits of a number, least significant first.\<close>

fun digits_of :: "nat \<Rightarrow> nat \<Rightarrow> nat list" where
  "digits_of b n = (if n = 0 \<or> b \<le> 1 then [] else n mod b # digits_of b (n div b))"

declare digits_of.simps [simp del]

lemma digits_of_rec: "digits_of b 0 = []" "1 < b \<Longrightarrow> n \<noteq> 0 \<Longrightarrow> digits_of b n = n mod b # digits_of b (n div b)"
  by (subst digits_of.simps, simp)+

lemma digits_of_value: "1 < b \<Longrightarrow> foldr (\<lambda>d v. d + b * v) (digits_of b n) 0 = n \<and> (\<forall>d \<in> set (digits_of b n). d < b)"
proof (induction b n rule: digits_of.induct)
  case (1 b n)
  show ?case
  proof (cases "n = 0")
    case False
    then have r: "digits_of b n = n mod b # digits_of b (n div b)" using 1 by (intro digits_of_rec(2)) auto
    show ?thesis unfolding r using 1 False by simp
  qed (simp add: digits_of_rec(1))
qed

lemma digits_of_last: "1 < b \<Longrightarrow> n \<noteq> 0 \<Longrightarrow> digits_of b n \<noteq> [] \<and> last (digits_of b n) \<noteq> 0"
proof (induction b n rule: digits_of.induct)
  case (1 b n)
  then show ?case
  proof (cases "n div b = 0")
    case True
    then have "n mod b = n" using mult_div_mod_eq [of b n] by simp
    then show ?thesis using 1 True by (simp add: digits_of_rec(1) digits_of_rec(2) [of b n])
  next
    case False
    then have r: "digits_of b n = n mod b # digits_of b (n div b)" using 1 by (intro digits_of_rec(2)) auto
    show ?thesis unfolding r using 1 False by simp
  qed
qed

lemma digit_loop_digits: "1 < base \<Longrightarrow> digit_loop ds n base = map (\<lambda>d. ds ! d) (digits_of (unat base) (unat n))"
proof (induction ds n base rule: digit_loop.induct)
  case (1 ds n base)
  show ?case
  proof (cases "n = 0")
    case False
    then have "1 < unat base" "unat n \<noteq> 0" using 1(2) by (simp_all add: word_less_nat_alt unat_eq_0)
    then show ?thesis using 1 False
      by (subst digit_loop.simps) (simp add: not_le unat_mod unat_div digits_of_rec(2) [of "unat base" "unat n"])
  qed (simp add: digit_loop.simps digits_of_rec(1))
qed

lemma digits_of_length: "2 \<le> b \<Longrightarrow> n < 2 ^ k \<Longrightarrow> length (digits_of b n) \<le> k"
proof (induction k arbitrary: n)
  case 0
  then show ?case by (simp add: digits_of_rec(1))
next
  case (Suc k)
  show ?case
  proof (cases "n = 0")
    case False
    have "n div b \<le> n div 2" using Suc.prems(1) by (intro div_le_mono2) simp_all
    also have "\<dots> < 2 ^ k" using Suc.prems(2) by simp
    finally have "length (digits_of b (n div b)) \<le> k" using Suc by simp
    moreover have "digits_of b n = n mod b # digits_of b (n div b)" using Suc.prems False by (intro digits_of_rec(2)) auto
    ultimately show ?thesis by simp
  qed (simp add: digits_of_rec(1))
qed

lemma sint_sub_small:
  "- (2 ^ 31) \<le> sint a - sint b \<Longrightarrow> sint a - sint b < 2 ^ 31 \<Longrightarrow> sint (a - b :: u32) = sint a - sint b"
  by (simp add: sint_word_ariths signed_take_bit_int_eq_self)

text \<open>The number as a text: sign, prefix, zeros up to the precision, digits, and blanks or zeros up to the width.\<close>

definition digit_text :: "u32 \<Rightarrow> nat \<Rightarrow> nat \<Rightarrow> u8 list" where
  "digit_text type base n =
     (if n = 0 then [48]
      else map (\<lambda>d. (if type AND SMALL \<noteq> 0 then lower_digits else upper_digits) ! d) (rev (digits_of base n)))"

definition sign_text :: "u32 \<Rightarrow> u32 \<Rightarrow> u8 list" where
  "sign_text type n =
     (if type AND SIGN \<noteq> 0 \<and> n <s 0 then [45] else if type AND PLUS \<noteq> 0 then [43]
      else if type AND SPACE \<noteq> 0 then [32] else [])"

definition prefix_text :: "u32 \<Rightarrow> u32 \<Rightarrow> u8 list" where
  "prefix_text type base =
     (if type AND SPECIAL = 0 then [] else if base = 8 then [48]
      else if base = 16 then [48, (if type AND SMALL \<noteq> 0 then lower_digits else upper_digits) ! 33] else [])"

definition magnitude :: "u32 \<Rightarrow> u32 \<Rightarrow> nat" where
  "magnitude type n = unat (if type AND SIGN \<noteq> 0 \<and> n <s 0 then - n else n)"

definition number_text :: "u32 \<Rightarrow> u32 \<Rightarrow> int \<Rightarrow> int \<Rightarrow> u32 \<Rightarrow> u8 list" where
  "number_text n base w p type =
     (let ds = digit_text type (unat base) (magnitude type n);
          sgn = sign_text type n; pre = prefix_text type base;
          zeros = replicate (nat (p - int (length ds))) 48;
          room = nat (w - int (length sgn) - int (length pre) - max p (int (length ds)))
      in if type AND LEFT_ADJ \<noteq> 0 then sgn @ pre @ zeros @ ds @ replicate room 32
         else if type AND ZEROPAD \<noteq> 0 then sgn @ pre @ replicate room 48 @ zeros @ ds
         else replicate room 32 @ sgn @ pre @ zeros @ ds)"

lemma type_bits:
  fixes type :: u32
  shows "(type AND NOT ZEROPAD) AND SIGN = type AND SIGN" "(type AND NOT ZEROPAD) AND PLUS = type AND PLUS"
    "(type AND NOT ZEROPAD) AND SPACE = type AND SPACE" "(type AND NOT ZEROPAD) AND SPECIAL = type AND SPECIAL"
    "(type AND NOT ZEROPAD) AND LEFT_ADJ = type AND LEFT_ADJ" "(type AND NOT ZEROPAD) AND ZEROPAD = 0"
    "type AND (ZEROPAD + LEFT_ADJ) = 0 \<longleftrightarrow> type AND ZEROPAD = 0 \<and> type AND LEFT_ADJ = 0"
proof -
  show "(type AND NOT ZEROPAD) AND SIGN = type AND SIGN" "(type AND NOT ZEROPAD) AND PLUS = type AND PLUS"
    "(type AND NOT ZEROPAD) AND SPACE = type AND SPACE" "(type AND NOT ZEROPAD) AND SPECIAL = type AND SPECIAL"
    "(type AND NOT ZEROPAD) AND LEFT_ADJ = type AND LEFT_ADJ" "(type AND NOT ZEROPAD) AND ZEROPAD = 0"
    by (simp_all add: ZEROPAD_def SIGN_def PLUS_def SPACE_def SPECIAL_def LEFT_ADJ_def and.assoc)
  have "ZEROPAD + LEFT_ADJ = ZEROPAD OR LEFT_ADJ" by (simp add: ZEROPAD_def LEFT_ADJ_def)
  then show "type AND (ZEROPAD + LEFT_ADJ) = 0 \<longleftrightarrow> type AND ZEROPAD = 0 \<and> type AND LEFT_ADJ = 0"
    by (simp add: bit.conj_disj_distrib or_eq_0_iff)
qed

text \<open>\<open>number\<close> up to the padding.\<close>

lemma sign_length: "(sz :: u32) - of_nat (length (sign_text type n)) = (if sign_text type n = [] then sz else sz - 1)"
  by (simp add: sign_text_def)

lemma prefix_length: "(sz :: u32) - of_nat (length (prefix_text type base)) =
    (if type AND SPECIAL \<noteq> 0 then (if base = 16 then sz - 2 else if base = 8 then sz - 1 else sz) else sz)"
  by (simp add: prefix_text_def)

lemma number_parts:
  fixes n base sz p type :: u32
  assumes "2 \<le>s base" "base \<le>s 36"
  defines "ds \<equiv> digit_text type (unat base) (magnitude type n)"
  defines "i \<equiv> of_nat (length ds) :: u32"
  defines "sz1 \<equiv> sz - of_nat (length (sign_text type n)) - of_nat (length (prefix_text type base)) - (if p <s i then i else p)"
  defines "left \<equiv> if type AND LEFT_ADJ = 0 \<and> type AND ZEROPAD = 0 then pad 32 sz1 else ([], sz1)"
  defines "fill \<equiv> if type AND LEFT_ADJ = 0 then pad (if type AND ZEROPAD = 0 then 32 else 48) (snd left) else ([], snd left)"
  shows "number n base sz p type =
    Some (fst left @ sign_text type n @ prefix_text type base @ fst fill @
      fst (pad 48 ((if p <s i then i else p) - i)) @ ds @ fst (pad 32 (snd fill)))"
proof -
  have b: "\<not> (base <s 2 \<or> 36 <s base)" using assms(1,2) by (auto simp: word_sless_alt word_sle_eq)
  have "2 \<le> sint base" using assms(1) by (simp add: word_sle_eq)
  then have "2 \<le> unat base" using sint_nonneg [of base] by linarith
  then have "1 < base" by (simp add: word_less_nat_alt)
  then have ds: "ds = rev (if (if type AND SIGN \<noteq> 0 \<and> n <s 0 then - n else n) = 0 then [48]
      else digit_loop (if type AND SMALL \<noteq> 0 then lower_digits else upper_digits)
        (if type AND SIGN \<noteq> 0 \<and> n <s 0 then - n else n) base)"
    unfolding ds_def digit_text_def magnitude_def by (simp add: digit_loop_digits unat_eq_0 rev_map)
  define t where "t = (if type AND LEFT_ADJ \<noteq> 0 then type AND NOT ZEROPAD else type)"
  have t: "t AND SIGN = type AND SIGN" "t AND PLUS = type AND PLUS" "t AND SPACE = type AND SPACE"
    "t AND SPECIAL = type AND SPECIAL" "t AND LEFT_ADJ = type AND LEFT_ADJ"
    "t AND (ZEROPAD + LEFT_ADJ) = 0 \<longleftrightarrow> type AND LEFT_ADJ = 0 \<and> type AND ZEROPAD = 0"
    "type AND LEFT_ADJ = 0 \<Longrightarrow> t = type"
    by (auto simp: t_def type_bits)
  define tmp where "tmp = (if (if type AND SIGN \<noteq> 0 \<and> n <s 0 then - n else n) = 0 then [48]
      else digit_loop (if type AND SMALL \<noteq> 0 then lower_digits else upper_digits)
        (if type AND SIGN \<noteq> 0 \<and> n <s 0 then - n else n) base)"
  have i: "of_nat (length tmp) = i" "rev tmp = ds" unfolding i_def ds tmp_def by simp_all
  define sign :: u8 where "sign = (if type AND SIGN \<noteq> 0 \<and> n <s 0 then 45 else if type AND PLUS \<noteq> 0 then 43
      else if type AND SPACE \<noteq> 0 then 32 else 0)"
  have sign: "(if sign \<noteq> 0 then [sign] else []) = sign_text type n"
    "(if sign \<noteq> 0 then sz - 1 else sz) = sz - of_nat (length (sign_text type n))"
    by (auto simp: sign_def sign_text_def)
  have pre: "(if type AND SPECIAL \<noteq> 0 then (if base = 8 then [48] else if base = 16 then [48,
      (if type AND SMALL \<noteq> 0 then lower_digits else upper_digits) ! 33] else []) else []) = prefix_text type base"
    by (simp add: prefix_text_def)
  show ?thesis
    unfolding number_def Let_def t_def [symmetric] t(1-6) if_not_P [OF b] tmp_def [symmetric] sign_def [symmetric] i sign pre
      prefix_length [of _ type base, symmetric]
    by (cases "type AND LEFT_ADJ = 0"; cases "type AND ZEROPAD = 0"; simp add: left_def fill_def sz1_def case_prod_beta t(7))
qed

text \<open>What a padding loop leaves behind is not positive.\<close>

lemma pad_out: "fst (pad c n) = replicate (nat (sint n)) c"
  by (simp add: pad_eq)

lemma pad_after: "- (2 ^ 31) < sint n \<Longrightarrow> sint (snd (pad c n)) = (if 0 < sint n then - 1 else sint n - 1)"
  using sint_sub_small [of n 1] sint_lt [of n] by (simp add: pad_eq word_sless_alt)

lemma number_text_eq:
  fixes n base sz p type :: u32
  assumes b: "2 \<le>s base" "base \<le>s 36" and sz: "\<bar>sint sz\<bar> \<le> 2 ^ 29" and p: "\<bar>sint p\<bar> \<le> 2 ^ 29"
  shows "number n base sz p type = Some (number_text n base (sint sz) (sint p) type)"
proof -
  define ds where "ds = digit_text type (unat base) (magnitude type n)"
  define i :: u32 where "i = of_nat (length ds)"
  have "2 \<le> sint base" using b(1) by (simp add: word_sle_eq)
  then have ub: "2 \<le> unat base" using sint_nonneg [of base] by linarith
  have "magnitude type n < 2 ^ 32" unfolding magnitude_def using unsigned_less [where ?'b = 32 and ?'a = nat] by simp
  then have len: "1 \<le> length ds" "length ds \<le> 32"
    using digits_of_length [OF ub, of "magnitude type n" 32] digits_of_last [of "unat base" "magnitude type n"] ub
    by (auto simp: ds_def digit_text_def Suc_le_eq)
  then have i: "sint i = int (length ds)" unfolding i_def by (intro sint_of_nat_small) simp
  define q where "q = (if p <s i then i else p)"
  have q: "sint q = max (sint p) (int (length ds))" by (simp add: q_def i word_sless_alt)
  have sl: "length (sign_text type n) \<le> 1" by (simp add: sign_text_def)
  have pl: "length (prefix_text type base) \<le> 2" by (simp add: prefix_text_def)
  define r where "r = sint sz - int (length (sign_text type n)) - int (length (prefix_text type base)) - max (sint p) (int (length ds))"
  define sz1 where "sz1 = sz - of_nat (length (sign_text type n)) - of_nat (length (prefix_text type base)) - q"
  have s1: "sint (of_nat (length (sign_text type n)) :: u32) = int (length (sign_text type n))"
    "sint (of_nat (length (prefix_text type base)) :: u32) = int (length (prefix_text type base))"
    using sl pl by (intro sint_of_nat_small; simp)+
  have a1: "sint (sz - of_nat (length (sign_text type n))) = sint sz - int (length (sign_text type n))"
    using sint_sub_small [of sz "of_nat (length (sign_text type n))"] sz sl unfolding s1 by simp
  have a2: "sint (sz - of_nat (length (sign_text type n)) - of_nat (length (prefix_text type base))) =
      sint sz - int (length (sign_text type n)) - int (length (prefix_text type base))"
    using sint_sub_small [of "sz - of_nat (length (sign_text type n))" "of_nat (length (prefix_text type base))"] sz sl pl
    unfolding s1 a1 by simp
  have mb: "max (sint p) (int (length ds)) \<le> 2 ^ 29" "1 \<le> max (sint p) (int (length ds))" using p len by auto
  have r1: "sint sz1 = r" "- (2 ^ 31) + 2 < r" "r < 2 ^ 31"
  proof -
    have "- (2 ^ 29) \<le> sint sz" "sint sz \<le> 2 ^ 29" using sz by linarith+
    moreover have "int (length (sign_text type n)) \<le> 1" "int (length (prefix_text type base)) \<le> 2" using sl pl by simp_all
    ultimately have "- (2 ^ 31) + 2 < r \<and> r < 2 ^ 31" using mb unfolding r_def by auto
    then have "- (2 ^ 31) + 2 < r" "r < 2 ^ 31" by simp_all
    then show "sint sz1 = r" "- (2 ^ 31) + 2 < r" "r < 2 ^ 31"
      using sint_sub_small [of "sz - of_nat (length (sign_text type n)) - of_nat (length (prefix_text type base))" q]
      unfolding sz1_def a2 q r_def by simp_all
  qed
  have z: "fst (pad 48 (q - i)) = replicate (nat (sint p - int (length ds))) 48"
  proof -
    have "sint (q - i) = max (sint p) (int (length ds)) - int (length ds)"
      using sint_sub_small [of q i] mb len unfolding q i by simp
    then show ?thesis by (auto simp: pad_out max_def)
  qed
  have pa: "sint (snd (pad c sz1)) = (if 0 < r then - 1 else r - 1)" for c using pad_after [of sz1 c] r1 by simp
  have paa: "fst (pad d (snd (pad c sz1))) = []" "fst (pad e (snd (pad d (snd (pad c sz1))))) = []" for c d e
    using pa [of c] pad_after [of "snd (pad c sz1)" d] r1 by (simp_all add: pad_out split: if_splits)
  show ?thesis
    unfolding number_parts [OF b] ds_def [symmetric] i_def [symmetric] q_def [symmetric] sz1_def [symmetric] z number_text_def Let_def
      r_def [symmetric]
    by (cases "type AND LEFT_ADJ = 0"; cases "type AND ZEROPAD = 0"; simp add: paa pad_out [of _ sz1] r1(1))
qed

text \<open>
  What the C standard asks of the conversions \<open>d\<close>, \<open>i\<close>, \<open>u\<close>, \<open>o\<close>, \<open>x\<close> and \<open>X\<close>, for a value
  \<open>x\<close>, a width \<open>w\<close> and a precision, negative when none is given. The precision is the least number
  of digits, 1 by default, so that 0 with precision 0 has none; \<open>#\<close> makes the first octal digit
  a zero and puts \<open>0x\<close> before a value that is not zero; \<open>+\<close> and blank count for signed
  conversions only; the flag \<open>0\<close> is ignored with \<open>-\<close> and with a precision.
\<close>

definition digit_char :: "bool \<Rightarrow> nat \<Rightarrow> u8" where
  "digit_char small d = (if d < 10 then 48 else if small then 87 else 55) + of_nat d"

definition c_digits :: "bool \<Rightarrow> nat \<Rightarrow> int \<Rightarrow> nat \<Rightarrow> u8 list" where
  "c_digits small base prec v =
     (let ds = map (digit_char small) (rev (digits_of base v)); least = (if prec < 0 then 1 else nat prec)
      in replicate (least - length ds) 48 @ ds)"

definition printf_text :: "u32 \<Rightarrow> nat \<Rightarrow> int \<Rightarrow> int \<Rightarrow> int \<Rightarrow> u8 list" where
  "printf_text type base w prec x =
     (let small = (type AND SMALL \<noteq> 0); v = nat \<bar>x\<bar>;
          digits = c_digits small base prec v;
          digits = (if type AND SPECIAL \<noteq> 0 \<and> base = 8 \<and> (digits = [] \<or> hd digits \<noteq> 48) then 48 # digits else digits);
          prefix = (if type AND SPECIAL \<noteq> 0 \<and> base = 16 \<and> v \<noteq> 0 then [48, if small then 120 else 88] else []);
          sign = (if type AND SIGN = 0 then [] else if x < 0 then [45] else if type AND PLUS \<noteq> 0 then [43]
                  else if type AND SPACE \<noteq> 0 then [32] else []);
          room = nat w - length (sign @ prefix @ digits)
      in if type AND LEFT_ADJ \<noteq> 0 then sign @ prefix @ digits @ replicate room 32
         else if type AND ZEROPAD \<noteq> 0 \<and> prec < 0 then sign @ prefix @ replicate room 48 @ digits
         else replicate room 32 @ sign @ prefix @ digits)"

text \<open>Where the code follows the standard: the cases it gets wrong are left out one by one.\<close>

definition standard_case :: "u32 \<Rightarrow> nat \<Rightarrow> int \<Rightarrow> nat \<Rightarrow> bool" where
  "standard_case type base prec v \<longleftrightarrow>
     (prec = 0 \<longrightarrow> v \<noteq> 0) \<and> (type AND SPECIAL \<noteq> 0 \<and> base = 16 \<longrightarrow> v \<noteq> 0) \<and>
     (type AND SPECIAL \<noteq> 0 \<and> base = 8 \<longrightarrow> v \<noteq> 0 \<and> prec \<le> int (length (digits_of base v))) \<and>
     (type AND ZEROPAD \<noteq> 0 \<longrightarrow> prec < 0 \<or> type AND LEFT_ADJ \<noteq> 0) \<and>
     (type AND SIGN = 0 \<longrightarrow> type AND PLUS = 0 \<and> type AND SPACE = 0)"

lemma digit_chars:
  assumes "d < 36"
  shows "lower_digits ! d = digit_char True d" "upper_digits ! d = digit_char False d"
proof -
  have "list_all (\<lambda>d. lower_digits ! d = digit_char True d \<and> upper_digits ! d = digit_char False d) [0..<36]"
    by code_simp
  then show "lower_digits ! d = digit_char True d" "upper_digits ! d = digit_char False d"
    using assms by (simp_all only: list_all_iff set_upt) simp_all
qed

lemma digits_char:
  assumes "2 \<le> b" "b \<le> 36" "v \<noteq> 0"
  shows "digit_text type b v = map (digit_char (type AND SMALL \<noteq> 0)) (rev (digits_of b v))"
proof -
  have "d < 36" if "d \<in> set (digits_of b v)" for d
    using digits_of_value [of b v] assms(1,2) that by fastforce
  then show ?thesis using assms(3) by (auto simp: digit_text_def digit_chars)
qed

lemma c_digits_text:
  fixes type :: u32
  assumes "2 \<le> b" "b \<le> 36" "prec = 0 \<longrightarrow> v \<noteq> 0"
  defines "ds \<equiv> digit_text type b v"
  shows "c_digits (type AND SMALL \<noteq> 0) b prec v = replicate (nat (prec - int (length ds))) 48 @ ds"
proof (cases "v = 0")
  case True
  have "replicate (nat prec) (48 :: u8) = replicate (nat (prec - 1)) 48 @ [48]" if "0 < prec"
  proof -
    have "nat prec = Suc (nat (prec - 1))" using that by simp
    then show ?thesis by (simp only: replicate_Suc replicate_append_same)
  qed
  with True assms(3) show ?thesis by (auto simp: c_digits_def ds_def digit_text_def digits_of_rec(1))
next
  case False
  have "digits_of b v \<noteq> []" using digits_of_rec(2) [of b v] assms(1) False by simp
  then have "1 \<le> length (digits_of b v)" by (simp add: Suc_le_eq)
  moreover have "nat (prec - int l) = (if prec < 0 then 1 else nat prec) - l" if "1 \<le> l" for l
    using that by (cases "prec < 0"; simp only: if_True if_False; linarith)
  ultimately show ?thesis
    unfolding ds_def digits_char [OF assms(1,2) False] c_digits_def Let_def by simp
qed

lemma first_digit: "2 \<le> b \<Longrightarrow> b \<le> 36 \<Longrightarrow> v \<noteq> 0 \<Longrightarrow> digit_text type b v \<noteq> [] \<and> hd (digit_text type b v) \<noteq> 48"
proof -
  assume b: "2 \<le> b" "b \<le> 36" "v \<noteq> 0"
  let ?D = "digits_of b v"
  have D: "?D \<noteq> []" using digits_of_rec(2) [of b v] b by simp
  then have "last ?D \<noteq> 0" "last ?D < 36"
    using digits_of_last [of b v] digits_of_value [of b v] b last_in_set [OF D] by fastforce+
  moreover have "list_all (\<lambda>d. d \<noteq> 0 \<longrightarrow> digit_char s d \<noteq> 48) [0..<36]" for s
    by (cases s; simp only:; code_simp)
  ultimately have "digit_char s (last ?D) \<noteq> 48" for s
    by (simp only: list_all_iff set_upt) simp
  then show "digit_text type b v \<noteq> [] \<and> hd (digit_text type b v) \<noteq> 48"
    unfolding digits_char [OF b] using D by (simp add: hd_map hd_rev)
qed

lemma magnitude_value: "magnitude type n = nat \<bar>if type AND SIGN \<noteq> 0 then sint n else uint n\<bar>"
proof (cases "type AND SIGN \<noteq> 0 \<and> n <s 0")
  case True
  then have neg: "sint n < 0" by (simp add: word_sless_alt)
  have "uint (- n) = uint (word_of_int (- sint n) :: u32)" by simp
  also have "\<dots> = - sint n"
    using neg sint_ge [of n] by (simp only: uint_word_of_int) (simp add: take_bit_eq_mod)
  finally show ?thesis using True neg by (simp add: magnitude_def unat_eq_nat_uint)
next
  case False
  show ?thesis
  proof (cases "type AND SIGN = 0")
    case False
    with \<open>\<not> (type AND SIGN \<noteq> 0 \<and> n <s 0)\<close> have "0 \<le> sint n" by (simp add: word_sless_alt)
    moreover then have "sint n = int (unat n)" by (rule sint_nonneg)
    ultimately show ?thesis using False \<open>\<not> (type AND SIGN \<noteq> 0 \<and> n <s 0)\<close> by (simp add: magnitude_def)
  qed (simp add: magnitude_def)
qed

text \<open>C34: \<open>number\<close> prints a number as the C standard asks of \<open>printf\<close>, for every base from 2 to 36,
  every width and precision up to half a billion and every set of flags, in all cases but these:
  zero with precision 0 (the code prints a digit); zero in hexadecimal with \<open>#\<close> (it prints
  \<open>0x0\<close>); octal with \<open>#\<close> where the digits start with a zero already (it adds one more); the flag
  \<open>0\<close> together with a precision and without \<open>-\<close> (it fills with zeros); \<open>+\<close> or blank with an
  unsigned conversion (it prints them). The digits, read in the base, are the absolute value.\<close>

theorem number_prints:
  fixes n base sz p type :: u32
  defines "x \<equiv> if type AND SIGN \<noteq> 0 then sint n else uint n"
  assumes "2 \<le>s base" "base \<le>s 36" "\<bar>sint sz\<bar> \<le> 2 ^ 29" "\<bar>sint p\<bar> \<le> 2 ^ 29"
    "standard_case type (unat base) (sint p) (nat \<bar>x\<bar>)"
  shows "number n base sz p type = Some (printf_text type (unat base) (sint sz) (sint p) x) \<and>
    foldr (\<lambda>d v. d + unat base * v) (digits_of (unat base) (nat \<bar>x\<bar>)) 0 = nat \<bar>x\<bar>"
proof -
  have b: "2 \<le> sint base" "sint base \<le> 36" using assms(2,3) by (simp_all add: word_sle_eq)
  then have ub: "2 \<le> unat base" "unat base \<le> 36" using sint_nonneg [of base] by linarith+
  have base: "base = 8 \<longleftrightarrow> unat base = 8" "base = 16 \<longleftrightarrow> unat base = 16"
    by (simp_all add: word_unat_eq_iff)
  define v where "v = nat \<bar>x\<bar>"
  have m: "magnitude type n = v" unfolding v_def x_def by (rule magnitude_value)
  define ds where "ds = digit_text type (unat base) v"
  have ok: "standard_case type (unat base) (sint p) v" using assms(6) by (simp add: v_def)
  then have cd: "c_digits (type AND SMALL \<noteq> 0) (unat base) (sint p) v =
      replicate (nat (sint p - int (length ds))) 48 @ ds"
    unfolding ds_def using c_digits_text [OF ub] by (simp add: standard_case_def)
  have neg: "n <s 0 \<longleftrightarrow> sint n < 0" by (simp add: word_sless_alt)
  have sgn: "sign_text type n = (if type AND SIGN = 0 then [] else if x < 0 then [45]
      else if type AND PLUS \<noteq> 0 then [43] else if type AND SPACE \<noteq> 0 then [32] else [])"
    using ok by (simp add: sign_text_def x_def neg standard_case_def)
  have x33: "lower_digits ! 33 = 120" "upper_digits ! 33 = 88" by (simp_all add: lower_digits_def upper_digits_def)
  have fd: "v \<noteq> 0 \<Longrightarrow> ds \<noteq> [] \<and> hd ds \<noteq> 48" unfolding ds_def using first_digit [OF ub] by blast
  have len: "v \<noteq> 0 \<Longrightarrow> length ds = length (digits_of (unat base) v)"
    unfolding ds_def using digits_char [OF ub] by simp
  define zs :: "u8 list" where "zs = replicate (nat (sint p - int (length ds))) 48"
  have hd: "v \<noteq> 0 \<Longrightarrow> sint p \<le> int (length ds) \<Longrightarrow> zs @ ds \<noteq> [] \<and> hd (zs @ ds) \<noteq> 48"
    using fd by (simp add: zs_def)
  have zl: "int (length zs) + int (length ds) = max (sint p) (int (length ds))" by (simp add: zs_def)
  have "nat (w - int a - int b - (int c + int d)) = nat w - (a + (b + (c + d)))" for w a b c d by linarith
  then have room: "nat (sint sz - int (length a) - int (length b) - max (sint p) (int (length ds))) =
      nat (sint sz) - length (a @ b @ zs @ ds)" for a b :: "u8 list"
    unfolding zl [symmetric] by simp
  define pre where "pre = prefix_text type base"
  define px :: "u8 list" where "px = (if type AND SPECIAL \<noteq> 0 \<and> unat base = 16 \<and> v \<noteq> 0 then [48, if type AND SMALL \<noteq> 0 then 120 else 88] else [])"
  define dg where "dg = (if type AND SPECIAL \<noteq> 0 \<and> unat base = 8 \<and> (zs @ ds = [] \<or> hd (zs @ ds) \<noteq> 48) then 48 # zs @ ds else zs @ ds)"
  have parts: "px @ replicate k 48 @ dg = pre @ replicate k 48 @ zs @ ds" for k
    using ok hd len unfolding px_def dg_def pre_def prefix_text_def base standard_case_def
    by (cases "type AND SPECIAL = 0"; cases "unat base = 8"; cases "unat base = 16")
      (auto simp: x33 replicate_app_Cons_same)
  have parts0: "px @ dg = pre @ zs @ ds" using parts [of 0] by simp
  have room': "nat (sint sz) - length (a @ px @ dg) = nat (sint sz) - length (a @ pre @ zs @ ds)" for a :: "u8 list"
    unfolding parts0 ..
  have "number_text n base (sint sz) (sint p) type = printf_text type (unat base) (sint sz) (sint p) x"
    unfolding number_text_def printf_text_def Let_def m ds_def [symmetric] v_def [symmetric] cd zs_def [symmetric]
      px_def [symmetric] dg_def [symmetric] sgn [symmetric] pre_def [symmetric] room room'
    using ok parts parts0 by (auto simp: standard_case_def)
  then show ?thesis using number_text_eq [OF assms(2-5), of n type] digits_of_value [of "unat base" v] ub
    by (simp add: v_def)
qed

text \<open>\<open>%+08d\<close> of -42 and \<open>%#-6x\<close> of 255.\<close>

theorem number_prints_witness:
  "number (- 42) 10 8 (- 1) (PLUS OR SIGN OR ZEROPAD) = Some ([45] @ replicate 5 48 @ [52, 50]) \<and>
   number 255 16 6 (- 1) (SPECIAL OR LEFT_ADJ OR SMALL) = Some ([48, 120, 102, 102] @ replicate 2 32)"
proof -
  have d: "digits_of 10 42 = [2, 4]" "digits_of 16 255 = [15, 15]"
    by (simp_all add: digits_of.simps [of 10 42] digits_of.simps [of 10 4] digits_of.simps [of 10 0]
      digits_of.simps [of 16 255] digits_of.simps [of 16 15] digits_of.simps [of 16 0])
  show ?thesis
    using number_prints [of 10 8 "- 1" "PLUS OR SIGN OR ZEROPAD" "- 42"]
      number_prints [of 16 6 "- 1" "SPECIAL OR LEFT_ADJ OR SMALL" 255]
    by (simp add: standard_case_def printf_text_def c_digits_def digit_char_def d ZEROPAD_def SIGN_def PLUS_def
      SPACE_def SPECIAL_def LEFT_ADJ_def SMALL_def word_sle_eq word_sless_alt)
qed

text \<open>The cases left out are wrong: \<open>%#x\<close> of 0 is \<open>0x0\<close>, and \<open>%08.3d\<close> of 5 is filled with zeros.\<close>

lemma number_deviates:
  "number 0 16 (- 1) (- 1) (SPECIAL OR SMALL) = Some [48, 120, 48]"
  "printf_text (SPECIAL OR SMALL) 16 (- 1) (- 1) 0 = [48]"
  "number 5 10 8 3 (SIGN OR ZEROPAD) = Some (replicate 7 48 @ [53])"
  "printf_text (SIGN OR ZEROPAD) 10 8 3 5 = replicate 5 32 @ [48, 48, 53]"
proof -
  have d: "digits_of 16 0 = []" "digits_of 10 5 = [5]"
    by (simp_all add: digits_of.simps [of 10 5] digits_of.simps [of 10 0] digits_of.simps [of 16 0])
  note defs = number_text_def magnitude_def digit_text_def sign_text_def prefix_text_def d ZEROPAD_def SIGN_def PLUS_def
    SPACE_def SPECIAL_def LEFT_ADJ_def SMALL_def lower_digits_def upper_digits_def word_sle_eq word_sless_alt max_def
  show "number 0 16 (- 1) (- 1) (SPECIAL OR SMALL) = Some [48, 120, 48]"
    using number_text_eq [of 16 "- 1" "- 1" 0 "SPECIAL OR SMALL"] by (simp add: defs)
  show "number 5 10 8 3 (SIGN OR ZEROPAD) = Some (replicate 7 48 @ [53])"
    using number_text_eq [of 10 8 3 5 "SIGN OR ZEROPAD"] by (simp add: defs, simp add: numeral_eq_Suc)
  show "printf_text (SPECIAL OR SMALL) 16 (- 1) (- 1) 0 = [48]"
    "printf_text (SIGN OR ZEROPAD) 10 8 3 5 = replicate 5 32 @ [48, 48, 53]"
    by (simp_all add: printf_text_def c_digits_def digit_char_def d SIGN_def SPECIAL_def SMALL_def ZEROPAD_def
      PLUS_def SPACE_def LEFT_ADJ_def) (simp_all add: numeral_eq_Suc)
qed

section \<open>Printing and reading back\<close>

lemma decimal_digit: "d < 10 \<Longrightarrow> is_digit (upper_digits ! d) \<and>
    (scast (upper_digits ! d) :: u32) - 48 = of_nat d"
proof -
  assume "d < 10"
  then have "d \<in> {0, 1, 2, 3, 4, 5, 6, 7, 8, 9}" by auto
  then show ?thesis by (auto simp: upper_digits_def is_digit_def word_sle_eq)
qed

lemma skip_digits:
  "\<forall>d \<in> set ds. d < 10 \<Longrightarrow>
   skip_atoi_loop (map (\<lambda>d. upper_digits ! d) ds @ rest) (of_nat i) =
   skip_atoi_loop rest (of_nat (foldl (\<lambda>v d. v * 10 + d) i ds))"
proof (induction ds arbitrary: i)
  case (Cons d ds)
  have d: "is_digit (upper_digits ! d)" "(scast (upper_digits ! d) :: u32) - 48 = of_nat d"
    using decimal_digit [of d] Cons.prems by auto
  then have e: "of_nat i * 10 + scast (upper_digits ! d) - 48 = (of_nat (i * 10 + d) :: u32)"
    by (simp add: add_diff_eq [symmetric])
  have "skip_atoi_loop (map (\<lambda>d. upper_digits ! d) (d # ds) @ rest) (of_nat i) =
      skip_atoi_loop (map (\<lambda>d. upper_digits ! d) ds @ rest) (of_nat i * 10 + scast (upper_digits ! d) - 48)"
    using d(1) by simp
  also have "\<dots> = skip_atoi_loop rest (of_nat (foldl (\<lambda>v d. v * 10 + d) (i * 10 + d) ds))"
    unfolding e using Cons.prems by (intro Cons.IH) simp
  finally show ?case by simp
qed simp

text \<open>C35: What \<open>%u\<close> prints \<open>skip_atoi\<close> reads back: the same number, and the text after it untouched.\<close>

theorem print_read:
  assumes "rest = [] \<or> \<not> is_digit (hd rest)"
  shows "\<exists>cs. number n 10 (- 1) (- 1) 0 = Some cs \<and> skip_atoi (cs @ rest) = (n, rest)"
proof -
  have "number n 10 (- 1) (- 1) 0 = Some (number_text n 10 (- 1) (- 1) 0)"
    using number_text_eq [of 10 "- 1" "- 1" n 0] by (simp add: word_sle_eq)
  moreover have "number_text n 10 (- 1) (- 1) 0 = digit_text 0 10 (unat n)"
    by (simp add: number_text_def sign_text_def prefix_text_def magnitude_def Let_def)
  moreover have "skip_atoi (digit_text 0 10 (unat n) @ rest) = (n, rest)"
  proof -
    have stop: "skip_atoi_loop rest v = (v, rest)" for v using assms by (cases rest) auto
    have dt: "digit_text 0 10 (unat n) = map (\<lambda>d. upper_digits ! d) (if unat n = 0 then [0] else rev (digits_of 10 (unat n)))"
      by (simp add: digit_text_def upper_digits_def)
    have "foldl (\<lambda>v d. v * 10 + d) 0 (if unat n = 0 then [0] else rev (digits_of 10 (unat n))) = unat n"
      using digits_of_value [of 10 "unat n"] by (simp add: foldl_conv_foldr add.commute mult.commute)
    then show ?thesis
      using skip_digits [of "if unat n = 0 then [0] else rev (digits_of 10 (unat n))" rest 0] digits_of_value [of 10 "unat n"]
      unfolding skip_atoi_def dt by (simp add: stop)
  qed
  ultimately show ?thesis by simp
qed

theorem print_read_witness: "\<exists>cs. number 1992 10 (- 1) (- 1) 0 = Some cs \<and> skip_atoi (cs @ [32, 49]) = (1992, [32, 49])"
  using print_read [of "[32, 49]" 1992] by (simp add: is_digit_def word_sle_eq)

end
