(* ===== verification/Syscalls.thy ===== *)
theory Syscalls
  imports Exits Setup Vsprintf
begin

text \<open>
  The system calls as a whole: the numbers of \<open>include/unistd.h\<close>, the table of \<open>include/linux/sys.h\<close>, the entry
  \<open>system_call\<close> of \<open>kernel/sys_call.S\<close> with \<open>sys_fork\<close> and \<open>sys_execve\<close>, and the stubs of the library through which a
  program gets there (\<open>lib/*.c\<close>). Here the processes, the memory and the files work on one state.
\<close>

section \<open>Numbers and table\<close>

datatype sysfun = Setup | Exit | Fork | Read | Write | Open | Close | Waitpid | Link | Unlink | Execve | Chdir | Time | Stat
  | Getpid | Setuid | Getuid | Alarm | Fstat | Utime | Sync | Kill | Mkdir | Rmdir | Dup | Pipe | Signal | Geteuid | Getegid
  | Ioctl | Fcntl | Getppid | Sigaction | Symlink | Ls

text \<open>The names of \<open>unistd.h\<close> in the order of their numbers, and the number \<open>__NR_name\<close>.\<close>

definition unistd :: "string list" where
  "unistd = [
     ''setup'', ''exit'', ''fork'', ''read'', ''write'', ''open'', ''close'', ''waitpid'', ''creat'',
     ''link'', ''unlink'', ''execve'', ''chdir'', ''time'', ''mknod'', ''chmod'', ''chown'', ''break'',
     ''stat'', ''lseek'', ''getpid'', ''mount'', ''umount'', ''setuid'', ''getuid'', ''stime'', ''ptrace'',
     ''alarm'', ''fstat'', ''pause'', ''utime'', ''stty'', ''gtty'', ''access'', ''nice'', ''ftime'',
     ''sync'', ''kill'', ''rename'', ''mkdir'', ''rmdir'', ''dup'', ''pipe'', ''times'', ''prof'', ''brk'',
     ''setgid'', ''getgid'', ''signal'', ''geteuid'', ''getegid'', ''acct'', ''phys'', ''lock'', ''ioctl'',
     ''fcntl'', ''mpx'', ''setpgid'', ''ulimit'', ''uname'', ''umask'', ''chroot'', ''ustat'', ''dup2'',
     ''getppid'', ''getpgrp'', ''setsid'', ''sigaction'', ''sgetmask'', ''ssetmask'', ''setreuid'',
     ''setregid'', ''sigsuspend'', ''sigpending'', ''sethostname'', ''setrlimit'', ''getrlimit'',
     ''getrusage'', ''gettimeofday'', ''settimeofday'', ''getgroups'', ''setgroups'', ''select'',
     ''symlink'', ''lstat'', ''readlink'', ''uselib'', ''ls'']"

definition NR :: "string \<Rightarrow> nat" where
  "NR name = length (takeWhile (\<lambda>n. n \<noteq> name) unistd)"

text \<open>The calls of the kernel by the name of their function, \<open>sys_\<close> left out.\<close>

fun call_name :: "sysfun \<Rightarrow> string" where
  "call_name Setup = ''setup''" | "call_name Exit = ''exit''" | "call_name Fork = ''fork''" | "call_name Read = ''read''"
| "call_name Write = ''write''" | "call_name Open = ''open''" | "call_name Close = ''close''"
| "call_name Waitpid = ''waitpid''" | "call_name Link = ''link''" | "call_name Unlink = ''unlink''"
| "call_name Execve = ''execve''" | "call_name Chdir = ''chdir''" | "call_name Time = ''time''"
| "call_name Stat = ''stat''" | "call_name Getpid = ''getpid''" | "call_name Setuid = ''setuid''"
| "call_name Getuid = ''getuid''" | "call_name Alarm = ''alarm''" | "call_name Fstat = ''fstat''"
| "call_name Utime = ''utime''" | "call_name Sync = ''sync''" | "call_name Kill = ''kill''"
| "call_name Mkdir = ''mkdir''" | "call_name Rmdir = ''rmdir''" | "call_name Dup = ''dup''" | "call_name Pipe = ''pipe''"
| "call_name Signal = ''signal''" | "call_name Geteuid = ''geteuid''" | "call_name Getegid = ''getegid''"
| "call_name Ioctl = ''ioctl''" | "call_name Fcntl = ''fcntl''" | "call_name Getppid = ''getppid''"
| "call_name Sigaction = ''sigaction''" | "call_name Symlink = ''symlink''" | "call_name Ls = ''ls''"

definition sys_call_table :: "sysfun option list" where
  "sys_call_table = [
     Some Setup, Some Exit, Some Fork, Some Read, Some Write, Some Open, Some Close, Some Waitpid, None, Some Link,
     Some Unlink, Some Execve, Some Chdir, Some Time, None, None,
     None, None, Some Stat, None, Some Getpid, None,
     None, Some Setuid, Some Getuid, None, None, Some Alarm,
     Some Fstat, None, Some Utime, None, None, None,
     None, None, Some Sync, Some Kill, None, Some Mkdir,
     Some Rmdir, Some Dup, Some Pipe, None, None, None, None,
     None, Some Signal, Some Geteuid, Some Getegid, None, None,
     None, Some Ioctl, Some Fcntl, None, None, None,
     None, None, None, None, None, Some Getppid,
     None, None, Some Sigaction, None, None,
     None, None, None, None, None, None, None, None, None, None, None, None, None, Some Symlink, None, None, None, Some Ls]"

section \<open>The calls on the common state\<close>

text \<open>The registers of the caller: those \<open>copy_process\<close> sees and \<open>eax\<close>.\<close>

record call_frame = frame_regs +
  fr_eax :: u32

definition on_kern :: "(kern \<Rightarrow> u32 \<times> kern) \<Rightarrow> fsys \<Rightarrow> (u32 \<times> fsys) kres option" where
  "on_kern f s = (case f (fk s) of (v, k) \<Rightarrow> Some (Inr (v, set_fk k s)))"

definition on_kres :: "(kern \<Rightarrow> (u32 \<times> kern) kres) \<Rightarrow> fsys \<Rightarrow> (u32 \<times> fsys) kres option" where
  "on_kres f s = obind (Some (f (fk s))) (\<lambda>(v, k). Some (Inr (v, set_fk k s)))"

definition on_user :: "(usys \<Rightarrow> u32 \<times> usys) \<Rightarrow> fsys \<Rightarrow> (u32 \<times> fsys) kres option" where
  "on_user f s =
     (case f \<lparr>uk = fk s, um = fu s, uv = fverified s\<rparr> of (v, u) \<Rightarrow>
        Some (Inr (v, set_fk (uk u) (s\<lparr>fu := um u, fverified := uv u\<rparr>))))"

definition store_time :: "u32 \<Rightarrow> fsys \<Rightarrow> (u32 \<times> fsys) kres option" where
  "store_time tloc s =
     (case sys_time tloc (fk s) of (v, ws) \<Rightarrow> Some (Inr (v, s\<lparr>fu := fold (\<lambda>(a, w). put_fs_long w a) ws (fu s)\<rparr>)))"

text \<open>The processes are a part of the state; while \<open>waitpid\<close> sleeps all of it may change.\<close>

record procfs = proc +
  p_fs :: fsys

definition to_procfs :: "fsys \<Rightarrow> procfs" where
  "to_procfs s = \<lparr>pu = \<lparr>uk = fk s, um = fu s, uv = fverified s\<rparr>, pm = fm s, p_fs = s\<rparr>"

definition of_procfs :: "procfs \<Rightarrow> fsys" where
  "of_procfs p = set_fk (uk (pu p)) ((p_fs p)\<lparr>fu := um (pu p), fverified := uv (pu p), fm := pm p\<rparr>)"

definition waitpid_fs :: "environment \<Rightarrow> u32 \<Rightarrow> u32 \<Rightarrow> u32 \<Rightarrow> fsys \<Rightarrow> (u32 \<times> fsys) kres option" where
  "waitpid_fs env pid stat_addr options s =
     obind (sys_waitpid (\<lambda>n p. to_procfs (others env (of_procfs p))) pid stat_addr options (to_procfs s))
       (\<lambda>(v, p). Some (Inr (v, of_procfs p)))"

text \<open>\<open>sys_fork\<close> passes the slot it found and the registers; a negative slot is the result.\<close>

definition sys_fork :: "call_frame \<Rightarrow> fsys \<Rightarrow> (u32 \<times> fsys) kres option" where
  "sys_fork r s =
     (case find_empty_process (fk s) of None \<Rightarrow> None
      | Some (nr, k) \<Rightarrow>
          let s = set_fk k s in
          if nr <s 0 then Some (Inr (nr, s))
          else
            obind (Some (copy_process (unat nr) (frame_regs.truncate r)
                \<lparr>fp = \<lparr>pu = \<lparr>uk = fk s, um = fu s, uv = fverified s\<rparr>, pm = fm s\<rparr>,
                 f_counts = (\<lambda>f. f_count (files s f)), i_counts = (\<lambda>p. i_count (inodes s p)), gdt = sys_gdt s\<rparr>)) (\<lambda>(v, c).
            Some (Inr (v, set_fk (pk (fp c)) (s\<lparr>fu := um (pu (fp c)), fverified := uv (pu (fp c)), fm := pm (fp c),
              files := (\<lambda>f. (files s f)\<lparr>f_count := f_counts c f\<rparr>),
              inodes := (\<lambda>p. (inodes s p)\<lparr>i_count := i_counts c p\<rparr>), sys_gdt := gdt c\<rparr>)))))"

section \<open>The entry\<close>

text \<open>Back to the caller with the result in \<open>eax\<close>; a process that exits does not come back.\<close>

type_synonym outcome = "call_frame option \<times> fsys"

definition resume :: "call_frame \<Rightarrow> (u32 \<times> fsys) kres option \<Rightarrow> outcome kres option" where
  "resume r m = obind m (\<lambda>(v, s). Some (Inr (Some (r\<lparr>fr_eax := v\<rparr>), s)))"

definition sys_execve :: "environment \<Rightarrow> (fsys \<Rightarrow> bmem) \<Rightarrow> call_frame \<Rightarrow> fsys \<Rightarrow> outcome kres option" where
  "sys_execve env mmu r s =
     obind (do_execve env mmu [fr_eip r, fr_cs r, fr_eflags r, fr_esp r, fr_ss r] (fr_ebx r) (fr_ecx r) (fr_edx r) s)
       (\<lambda>(v, e, s). Some (Inr (Some (r\<lparr>fr_eax := v, fr_eip := e ! 0, fr_esp := e ! 3\<rparr>), s)))"

fun run_call :: "environment \<Rightarrow> (fsys \<Rightarrow> bmem) \<Rightarrow> sysfun \<Rightarrow> call_frame \<Rightarrow> fsys \<Rightarrow> outcome kres option" where
  "run_call env mmu Setup r s = resume r (sys_setup env (fr_ebx r) s)"
| "run_call env mmu Exit r s = obind (sys_exit env (fr_ebx r) s) (\<lambda>s. Some (Inr (None, s)))"
| "run_call env mmu Fork r s = resume r (sys_fork r s)"
| "run_call env mmu Read r s = resume r (sys_read env (fr_ebx r) (fr_ecx r) (fr_edx r) s)"
| "run_call env mmu Write r s = resume r (sys_write env (fr_ebx r) (fr_ecx r) (fr_edx r) s)"
| "run_call env mmu Open r s = resume r (sys_open env (fr_ebx r) (fr_ecx r) s)"
| "run_call env mmu Close r s = resume r (sys_close env (fr_ebx r) s)"
| "run_call env mmu Waitpid r s = resume r (waitpid_fs env (fr_ebx r) (fr_ecx r) (fr_edx r) s)"
| "run_call env mmu Link r s = resume r (sys_link env (fr_ebx r) (fr_ecx r) s)"
| "run_call env mmu Unlink r s = resume r (sys_unlink env (fr_ebx r) s)"
| "run_call env mmu Execve r s = sys_execve env mmu r s"
| "run_call env mmu Chdir r s = resume r (sys_chdir env (fr_ebx r) s)"
| "run_call env mmu Time r s = resume r (store_time (fr_ebx r) s)"
| "run_call env mmu Stat r s = resume r (sys_stat env (fr_ebx r) (fr_ecx r) s)"
| "run_call env mmu Getpid r s = resume r (on_kern (\<lambda>k. (sys_getpid k, k)) s)"
| "run_call env mmu Setuid r s = resume r (on_kern (sys_setuid (fr_ebx r)) s)"
| "run_call env mmu Getuid r s = resume r (on_kern (\<lambda>k. (sys_getuid k, k)) s)"
| "run_call env mmu Alarm r s = resume r (on_kern (sys_alarm (fr_ebx r)) s)"
| "run_call env mmu Fstat r s = resume r (Some (Inr (sys_fstat env (fr_ebx r) (fr_ecx r) s)))"
| "run_call env mmu Utime r s = resume r (sys_utime env (fr_ebx r) (fr_ecx r) s)"
| "run_call env mmu Sync r s = resume r (sys_sync env s)"
| "run_call env mmu Kill r s = resume r (on_kres (sys_kill (fr_ebx r) (fr_ecx r)) s)"
| "run_call env mmu Mkdir r s = resume r (sys_mkdir env (fr_ebx r) (fr_ecx r) s)"
| "run_call env mmu Rmdir r s = resume r (sys_rmdir env (fr_ebx r) s)"
| "run_call env mmu Dup r s = resume r (Some (Inr (sys_dup (fr_ebx r) s)))"
| "run_call env mmu Pipe r s = resume r (sys_pipe env (fr_ebx r) s)"
| "run_call env mmu Signal r s = resume r (on_kern (sys_signal (fr_ebx r) (fr_ecx r) (fr_edx r)) s)"
| "run_call env mmu Geteuid r s = resume r (on_kern (\<lambda>k. (sys_geteuid k, k)) s)"
| "run_call env mmu Getegid r s = resume r (on_kern (\<lambda>k. (sys_getegid k, k)) s)"
| "run_call env mmu Ioctl r s = resume r (sys_ioctl env (fr_ebx r) (fr_ecx r) (fr_edx r) s)"
| "run_call env mmu Fcntl r s = resume r (Some (Inr (sys_fcntl (fr_ebx r) (fr_ecx r) (fr_edx r) s)))"
| "run_call env mmu Getppid r s = resume r (on_kres (\<lambda>k. kbind (sys_getppid k) (\<lambda>v. Inr (v, k))) s)"
| "run_call env mmu Sigaction r s = resume r (on_user (sys_sigaction (fr_ebx r) (fr_ecx r) (fr_edx r)) s)"
| "run_call env mmu Symlink r s = resume r (sys_symlink env (fr_ebx r) (fr_ecx r) s)"
| "run_call env mmu Ls r s = resume r (sys_ls env s)"

text \<open>\<open>eax\<close> is not compared with the length of the table, and an empty entry is called as it is; the address of
  the entry, four times \<open>eax\<close> behind the table, wraps around.\<close>

definition system_call :: "environment \<Rightarrow> (fsys \<Rightarrow> bmem) \<Rightarrow> call_frame \<Rightarrow> fsys \<Rightarrow> outcome kres option" where
  "system_call env mmu r s =
     (let i = unat (fr_eax r AND 0x3fffffff) in
      if length sys_call_table \<le> i then Some (Inl OutOfBounds)
      else case sys_call_table ! i of None \<Rightarrow> Some (Inl NullDeref) | Some f \<Rightarrow> run_call env mmu f r s)"

section \<open>The library\<close>

text \<open>The macros \<open>_syscall0\<close> to \<open>_syscall3\<close>: the arguments go to \<open>ebx\<close>, \<open>ecx\<close>, \<open>edx\<close>, the other registers keep what they
  hold. A negative result becomes -1 and its negation the new value of \<open>errno\<close>.\<close>

fun load_args :: "u32 list \<Rightarrow> call_frame \<Rightarrow> call_frame" where
  "load_args [b] r = r\<lparr>fr_ebx := b\<rparr>"
| "load_args [b, c] r = r\<lparr>fr_ebx := b, fr_ecx := c\<rparr>"
| "load_args [b, c, d] r = r\<lparr>fr_ebx := b, fr_ecx := c, fr_edx := d\<rparr>"
| "load_args _ r = r"

definition stub_result :: "u32 \<Rightarrow> u32 \<times> u32 option" where
  "stub_result v = (if 0 \<le>s v then (v, None) else (- 1, Some (- v)))"

type_synonym returned = "((u32 \<times> u32 option) option \<times> fsys) kres option"

definition syscall_stub :: "environment \<Rightarrow> (fsys \<Rightarrow> bmem) \<Rightarrow> nat \<Rightarrow> u32 list \<Rightarrow> call_frame \<Rightarrow> fsys \<Rightarrow> returned" where
  "syscall_stub env mmu nr args r s =
     obind (system_call env mmu (load_args args (r\<lparr>fr_eax := of_nat nr\<rparr>)) s) (\<lambda>(r, s).
     Some (Inr (map_option (\<lambda>r. stub_result (fr_eax r)) r, s)))"

definition lib_exit :: "environment \<Rightarrow> (fsys \<Rightarrow> bmem) \<Rightarrow> u32 \<Rightarrow> call_frame \<Rightarrow> fsys \<Rightarrow> returned" where
  "lib_exit env mmu code r s = syscall_stub env mmu (NR ''exit'') [code] r s"

definition lib_close :: "environment \<Rightarrow> (fsys \<Rightarrow> bmem) \<Rightarrow> u32 \<Rightarrow> call_frame \<Rightarrow> fsys \<Rightarrow> returned" where
  "lib_close env mmu fd r s = syscall_stub env mmu (NR ''close'') [fd] r s"

definition lib_dup :: "environment \<Rightarrow> (fsys \<Rightarrow> bmem) \<Rightarrow> u32 \<Rightarrow> call_frame \<Rightarrow> fsys \<Rightarrow> returned" where
  "lib_dup env mmu fd r s = syscall_stub env mmu (NR ''dup'') [fd] r s"

definition lib_execve :: "environment \<Rightarrow> (fsys \<Rightarrow> bmem) \<Rightarrow> u32 \<Rightarrow> u32 \<Rightarrow> u32 \<Rightarrow> call_frame \<Rightarrow> fsys \<Rightarrow> returned" where
  "lib_execve env mmu file argv envp r s = syscall_stub env mmu (NR ''execve'') [file, argv, envp] r s"

definition lib_read :: "environment \<Rightarrow> (fsys \<Rightarrow> bmem) \<Rightarrow> u32 \<Rightarrow> u32 \<Rightarrow> u32 \<Rightarrow> call_frame \<Rightarrow> fsys \<Rightarrow> returned" where
  "lib_read env mmu fd buf cnt r s = syscall_stub env mmu (NR ''read'') [fd, buf, cnt] r s"

definition lib_write :: "environment \<Rightarrow> (fsys \<Rightarrow> bmem) \<Rightarrow> u32 \<Rightarrow> u32 \<Rightarrow> u32 \<Rightarrow> call_frame \<Rightarrow> fsys \<Rightarrow> returned" where
  "lib_write env mmu fd buf cnt r s = syscall_stub env mmu (NR ''write'') [fd, buf, cnt] r s"

definition lib_ioctl :: "environment \<Rightarrow> (fsys \<Rightarrow> bmem) \<Rightarrow> u32 \<Rightarrow> u32 \<Rightarrow> u32 \<Rightarrow> call_frame \<Rightarrow> fsys \<Rightarrow> returned" where
  "lib_ioctl env mmu fd cmd arg r s = syscall_stub env mmu (NR ''ioctl'') [fd, cmd, arg] r s"

definition lib_fstat :: "environment \<Rightarrow> (fsys \<Rightarrow> bmem) \<Rightarrow> u32 \<Rightarrow> u32 \<Rightarrow> call_frame \<Rightarrow> fsys \<Rightarrow> returned" where
  "lib_fstat env mmu fd buf r s = syscall_stub env mmu (NR ''fstat'') [fd, buf] r s"

definition lib_mkdir :: "environment \<Rightarrow> (fsys \<Rightarrow> bmem) \<Rightarrow> u32 \<Rightarrow> u32 \<Rightarrow> call_frame \<Rightarrow> fsys \<Rightarrow> returned" where
  "lib_mkdir env mmu path mode r s = syscall_stub env mmu (NR ''mkdir'') [path, mode] r s"

definition lib_rmdir :: "environment \<Rightarrow> (fsys \<Rightarrow> bmem) \<Rightarrow> u32 \<Rightarrow> call_frame \<Rightarrow> fsys \<Rightarrow> returned" where
  "lib_rmdir env mmu path r s = syscall_stub env mmu (NR ''rmdir'') [path] r s"

definition lib_ls :: "environment \<Rightarrow> (fsys \<Rightarrow> bmem) \<Rightarrow> call_frame \<Rightarrow> fsys \<Rightarrow> returned" where
  "lib_ls env mmu r s = syscall_stub env mmu (NR ''ls'') [] r s"

text \<open>\<open>open\<close> takes the mode as an optional argument, whether it was given or not.\<close>

definition lib_open :: "environment \<Rightarrow> (fsys \<Rightarrow> bmem) \<Rightarrow> u32 \<Rightarrow> u32 \<Rightarrow> u32 \<Rightarrow> call_frame \<Rightarrow> fsys \<Rightarrow> returned" where
  "lib_open env mmu filename flag arg r s = syscall_stub env mmu (NR ''open'') [filename, flag, arg] r s"

definition lib_setsid :: "environment \<Rightarrow> (fsys \<Rightarrow> bmem) \<Rightarrow> call_frame \<Rightarrow> fsys \<Rightarrow> returned" where
  "lib_setsid env mmu r s = syscall_stub env mmu (NR ''setsid'') [] r s"

definition lib_waitpid :: "environment \<Rightarrow> (fsys \<Rightarrow> bmem) \<Rightarrow> u32 \<Rightarrow> u32 \<Rightarrow> u32 \<Rightarrow> call_frame \<Rightarrow> fsys \<Rightarrow> returned" where
  "lib_waitpid env mmu pid wait_stat options r s = syscall_stub env mmu (NR ''waitpid'') [pid, wait_stat, options] r s"

definition lib_wait :: "environment \<Rightarrow> (fsys \<Rightarrow> bmem) \<Rightarrow> u32 \<Rightarrow> call_frame \<Rightarrow> fsys \<Rightarrow> returned" where
  "lib_wait env mmu wait_stat r s = lib_waitpid env mmu (- 1) wait_stat 0 r s"

text \<open>\<open>printf\<close> formats into \<open>printbuf\<close>, which it does not bound, and returns the length
  (\<open>args\<close> is the address of its further arguments) whatever \<open>write\<close> returned.\<close>

definition lib_printf ::
    "environment \<Rightarrow> (fsys \<Rightarrow> bmem) \<Rightarrow> u32 \<Rightarrow> u8 list \<Rightarrow> u32 \<Rightarrow> call_frame \<Rightarrow> fsys \<Rightarrow> (u32 \<times> fsys) kres option" where
  "lib_printf env mmu printbuf fmt args r s =
     (case vsprintf fmt args (fu s) of None \<Rightarrow> None
      | Some (n, out, m) \<Rightarrow>
          obind (lib_write env mmu 1 printbuf n r (s\<lparr>fu := store_bytes out printbuf m\<rparr>)) (\<lambda>(v, s). Some (Inr (n, s))))"

section \<open>Numbers, table and results\<close>

text \<open>The numbers of \<open>unistd.h\<close> and the table of the kernel agree: a number has the entry of its name, or none.\<close>

lemma table_length: "length sys_call_table = 88" "length unistd = 88" "distinct unistd"
  by (simp add: sys_call_table_def, simp add: unistd_def, code_simp)

lemma table_agrees:
  assumes "i < 88"
  shows "NR (unistd ! i) = i" "sys_call_table ! i = Some f \<Longrightarrow> NR (call_name f) = i"
proof -
  have "list_all (\<lambda>i. NR (unistd ! i) = i \<and>
      (case sys_call_table ! i of None \<Rightarrow> True | Some f \<Rightarrow> NR (call_name f) = i)) [0..<88]" by code_simp
  then have "NR (unistd ! i) = i \<and> (case sys_call_table ! i of None \<Rightarrow> True | Some f \<Rightarrow> NR (call_name f) = i)"
    using assms by (simp only: list_all_iff set_upt) simp
  then show "NR (unistd ! i) = i" "sys_call_table ! i = Some f \<Longrightarrow> NR (call_name f) = i" by auto
qed

lemma table_entry: "sys_call_table ! NR (call_name f) = Some f \<and> NR (call_name f) < 88"
proof -
  have "list_all (\<lambda>f. sys_call_table ! NR (call_name f) = Some f \<and> NR (call_name f) < 88)
    [Setup, Exit, Fork, Read, Write, Open, Close, Waitpid, Link, Unlink, Execve, Chdir, Time, Stat, Getpid, Setuid,
     Getuid, Alarm, Fstat, Utime, Sync, Kill, Mkdir, Rmdir, Dup, Pipe, Signal, Geteuid, Getegid, Ioctl, Fcntl, Getppid,
     Sigaction, Symlink, Ls]" by code_simp
  then show ?thesis by (cases f) simp_all
qed

lemma system_call_known:
  "fr_eax r = of_nat (NR (call_name f)) \<Longrightarrow> system_call env mmu r s = run_call env mmu f r s"
proof -
  assume r: "fr_eax r = of_nat (NR (call_name f))"
  define i where "i = NR (call_name f)"
  have i: "i < 88" "sys_call_table ! i = Some f" using table_entry [of f] by (simp_all add: i_def)
  have "(of_nat i :: u32) AND 0x3fffffff = take_bit 30 (of_nat i)" by (simp add: take_bit_eq_mask mask_eq_exp_minus_1)
  also have "\<dots> = of_nat i" using i(1) by (simp add: take_bit_of_nat take_bit_nat_eq_self)
  finally have "unat (fr_eax r AND 0x3fffffff) = i" using i(1) by (simp add: r i_def [symmetric] unat_of_nat_small)
  then show "system_call env mmu r s = run_call env mmu f r s"
    using i by (simp add: system_call_def table_length)
qed

text \<open>A system call whose number has no function is not refused: the kernel calls through an empty entry, or reads
  behind the table. The library's \<open>setsid\<close> does so.\<close>

lemma unknown_call_stops:
  assumes "\<And>f. NR (call_name f) \<noteq> unat (fr_eax r AND 0x3fffffff)"
  shows "system_call env mmu r s = Some (Inl (if unat (fr_eax r AND 0x3fffffff) < 88 then NullDeref else OutOfBounds))"
proof -
  have "sys_call_table ! unat (fr_eax r AND 0x3fffffff) = None" if "unat (fr_eax r AND 0x3fffffff) < 88"
    using table_agrees(2) [OF that] assms by (cases "sys_call_table ! unat (fr_eax r AND 0x3fffffff)") auto
  then show ?thesis by (auto simp: system_call_def Let_def table_length)
qed

lemma stub_known:
  "nr = NR (call_name f) \<Longrightarrow> syscall_stub env mmu nr args r s =
    obind (run_call env mmu f (load_args args (r\<lparr>fr_eax := of_nat (NR (call_name f))\<rparr>)) s) (\<lambda>(r, s).
      Some (Inr (map_option (\<lambda>r. stub_result (fr_eax r)) r, s)))"
proof -
  have "fr_eax (load_args args (r\<lparr>fr_eax := v\<rparr>)) = v" for v
    by (induction args "r\<lparr>fr_eax := v\<rparr>" rule: load_args.induct) simp_all
  then show "nr = NR (call_name f) \<Longrightarrow> ?thesis" by (simp add: syscall_stub_def system_call_known)
qed

lemma obind_assoc: "obind (obind m f) g = obind m (\<lambda>x. obind (f x) g)"
  by (auto simp: obind_def split: option.splits sum.splits)

text \<open>What a program sees of a function of the kernel: its result, or -1 and the error number.\<close>

definition seen :: "(u32 \<times> fsys) kres option \<Rightarrow> returned" where
  "seen m = obind m (\<lambda>(v, s). Some (Inr (Some (if v <s 0 then (- 1, Some (- v)) else (v, None)), s)))"

lemma stub_resume:
  "nr = NR (call_name f) \<Longrightarrow> run_call env mmu f (load_args args (r\<lparr>fr_eax := of_nat (NR (call_name f))\<rparr>)) s =
      resume (load_args args (r\<lparr>fr_eax := of_nat (NR (call_name f))\<rparr>)) m \<Longrightarrow>
    syscall_stub env mmu nr args r s = seen m"
  by (simp add: stub_known resume_def obind_assoc seen_def stub_result_def signed.not_less case_prod_unfold)
    (auto simp: obind_def word_sle_eq word_sless_alt split: option.splits sum.splits)

text \<open>C37: A function of the library is the function of the kernel it is named after. Whatever the registers hold,
  the number of \<open>unistd.h\<close>, the table of the kernel, and the registers the stub and the kernel use for the arguments bring
  each call to its function with its arguments in their order; the program gets the result, or -1 and the negated result
  in \<open>errno\<close> when the result is negative. \<open>wait\<close> is \<open>waitpid\<close> of -1 without options, and \<open>exit\<close> does not
  come back. (\<open>setsid\<close> has a number and a stub, but an empty entry in the table.)\<close>

theorem library_calls:
  "lib_read env mmu fd buf cnt r s = seen (sys_read env fd buf cnt s) \<and>
   lib_write env mmu fd buf cnt r s = seen (sys_write env fd buf cnt s) \<and>
   lib_open env mmu path flag arg r s = seen (sys_open env path flag s) \<and>
   lib_close env mmu fd r s = seen (sys_close env fd s) \<and>
   lib_dup env mmu fd r s = seen (Some (Inr (sys_dup fd s))) \<and>
   lib_ioctl env mmu fd cmd arg r s = seen (sys_ioctl env fd cmd arg s) \<and>
   lib_fstat env mmu fd buf r s = seen (Some (Inr (sys_fstat env fd buf s))) \<and>
   lib_mkdir env mmu path mode r s = seen (sys_mkdir env path mode s) \<and>
   lib_rmdir env mmu path r s = seen (sys_rmdir env path s) \<and>
   lib_ls env mmu r s = seen (sys_ls env s) \<and>
   lib_waitpid env mmu pid buf options r s = seen (waitpid_fs env pid buf options s) \<and>
   lib_wait env mmu buf r s = seen (waitpid_fs env (- 1) buf 0 s) \<and>
   lib_execve env mmu path argv envp r s =
     seen (obind (do_execve env mmu [fr_eip r, fr_cs r, fr_eflags r, fr_esp r, fr_ss r] path argv envp s)
       (\<lambda>(v, e, s). Some (Inr (v, s)))) \<and>
   lib_exit env mmu code r s = obind (sys_exit env code s) (\<lambda>s. Some (Inr (None, s))) \<and>
   lib_setsid env mmu r s = Some (Inl NullDeref)"
proof (intro conjI)
  show "lib_exit env mmu code r s = obind (sys_exit env code s) (\<lambda>s. Some (Inr (None, s)))"
    using stub_known [of "NR ''exit''" Exit env mmu "[code]" r s]
    by (simp add: lib_exit_def obind_assoc)
  show "lib_execve env mmu path argv envp r s =
      seen (obind (do_execve env mmu [fr_eip r, fr_cs r, fr_eflags r, fr_esp r, fr_ss r] path argv envp s)
        (\<lambda>(v, e, s). Some (Inr (v, s))))"
    using stub_known [of "NR ''execve''" Execve env mmu "[path, argv, envp]" r s]
    by (simp add: lib_execve_def sys_execve_def obind_assoc seen_def stub_result_def case_prod_unfold)
      (auto simp: obind_def word_sle_eq word_sless_alt split: option.splits sum.splits)
  have "NR ''setsid'' = 66" by code_simp
  moreover have "sys_call_table ! 66 = None" by (simp add: sys_call_table_def)
  ultimately show "lib_setsid env mmu r s = Some (Inl NullDeref)"
    by (simp add: lib_setsid_def syscall_stub_def system_call_def table_length)
qed (simp_all add: lib_read_def lib_write_def lib_open_def lib_close_def lib_dup_def lib_ioctl_def lib_fstat_def lib_mkdir_def
  lib_rmdir_def lib_ls_def lib_waitpid_def lib_wait_def,
  (rule stub_resume [where f = Read] stub_resume [where f = Write] stub_resume [where f = Open] stub_resume [where f = Close]
    stub_resume [where f = Dup] stub_resume [where f = Ioctl] stub_resume [where f = Fstat] stub_resume [where f = Mkdir]
    stub_resume [where f = Rmdir] stub_resume [where f = Ls] stub_resume [where f = Waitpid]; simp; fail)+)

end
