(* ===== verification/Keeps.thy ===== *)
theory Keeps
  imports Syscalls
begin

text \<open>
  Invariants of the file system through all system calls. The proofs are a calculus of triples: \<open>ok P m\<close> says that a
  computation that returns without an error returns something \<open>P\<close> holds of. An invariant that depends on little of the state
  and survives the elementary steps (locale \<open>fs_frame\<close>), the getting of a buffer and what the other tasks do
  meanwhile (locale \<open>fs_inv\<close>) survives every system call.
\<close>

named_theorems ok_rules

section \<open>Triples\<close>

definition ok :: "('a \<Rightarrow> bool) \<Rightarrow> 'a kres option \<Rightarrow> bool" where
  "ok P m \<longleftrightarrow> (\<forall>r. m = Some r \<longrightarrow> returns P r)"

lemma ok_simps [simp]: "ok P None" "ok P (Some (Inl e))" "ok P (Some (Inr a)) = P a"
  by (simp_all add: ok_def)

lemma ok_obind: "ok Q m \<Longrightarrow> (\<And>a. Q a \<Longrightarrow> ok P (f a)) \<Longrightarrow> ok P (obind m f)"
  by (cases m) (auto simp: obind_def returns_def split: sum.splits)

lemma ok_Some [simp]: "ok P (Some r) \<longleftrightarrow> returns P r"
  by (simp add: ok_def)

lemma ok_adm: "option.admissible (\<lambda>f. ok P (f x))"
  using option_admissible [of "\<lambda>y r. y = x \<longrightarrow> returns P r"] by (simp add: ok_def)

lemma adm_imp: "option.admissible P \<Longrightarrow> option.admissible (\<lambda>f. A \<longrightarrow> P f)"
  by (cases A) (simp_all add: admissible_const)

lemmas adm_rules = admissible_all adm_imp ok_adm

text \<open>What does not touch the state.\<close>

lemma ok_any: "(\<And>a. ok P (f a)) \<Longrightarrow> ok P (obind m f)"
  by (rule ok_obind [where Q = "\<lambda>_. True"]) (auto simp: ok_def returns_def)

lemmas ok_values [ok_rules] = ok_any [where ?'a = "'b word" for b] ok_any [where ?'a = bool] ok_any [where ?'a = "'b list" for b]
  ok_any [where ?'a = "'b word \<times> 'c word"] ok_any [where ?'a = "u32 \<times> mem"] ok_any [where ?'a = "u32 \<times> bmem"] ok_any [where ?'a = mem]
  ok_any [where ?'a = "u8 \<times> pathname \<times> u32"] ok_any [where ?'a = "pathname \<times> u32"]

lemma ret_kbind: "returns Q m \<Longrightarrow> (\<And>a. Q a \<Longrightarrow> returns P (f a)) \<Longrightarrow> returns P (kbind m f)"
  by (cases m) (auto simp: kbind_def)

lemma ret_if [ok_rules]: "(c \<Longrightarrow> returns P a) \<Longrightarrow> (\<not> c \<Longrightarrow> returns P b) \<Longrightarrow> returns P (if c then a else b)"
  by simp

lemma ok_if [ok_rules]: "(c \<Longrightarrow> ok P a) \<Longrightarrow> (\<not> c \<Longrightarrow> ok P b) \<Longrightarrow> ok P (if c then a else b)"
  by simp

lemma ok_option [ok_rules]:
  "(x = None \<Longrightarrow> ok P a) \<Longrightarrow> (\<And>y. x = Some y \<Longrightarrow> ok P (f y)) \<Longrightarrow> ok P (case x of None \<Rightarrow> a | Some y \<Rightarrow> f y)"
  by (cases x) simp_all

text \<open>The rules for sequences, for functions that give a state and for those that also give a value.\<close>

abbreviation on2 :: "('s \<Rightarrow> bool) \<Rightarrow> 'a \<times> 's \<Rightarrow> bool" where "on2 I r \<equiv> I (snd r)"
abbreviation on3 :: "('s \<Rightarrow> bool) \<Rightarrow> 'a \<times> 'b \<times> 's \<Rightarrow> bool" where "on3 I r \<equiv> I (snd (snd r))"
abbreviation on4 :: "('s \<Rightarrow> bool) \<Rightarrow> 'a \<times> 'b \<times> 'c \<times> 's \<Rightarrow> bool" where "on4 I r \<equiv> I (snd (snd (snd r)))"

lemma ok_seq2: "ok (on2 I) m \<Longrightarrow> (\<And>a s. I s \<Longrightarrow> ok P (f (a, s))) \<Longrightarrow> ok P (obind m f)"
  by (rule ok_obind [where Q = "on2 I"]) auto

lemma ok_seq3: "ok (on3 I) m \<Longrightarrow> (\<And>a b s. I s \<Longrightarrow> ok P (f (a, b, s))) \<Longrightarrow> ok P (obind m f)"
  by (rule ok_obind [where Q = "on3 I"]) auto

lemma ok_seq4: "ok (on4 I) m \<Longrightarrow> (\<And>a b c s. I s \<Longrightarrow> ok P (f (a, b, c, s))) \<Longrightarrow> ok P (obind m f)"
  by (rule ok_obind [where Q = "on4 I"]) auto

text \<open>A directory entry lies inside its block.\<close>

definition entry_fits :: "(fsys \<Rightarrow> bool) \<Rightarrow> u32 \<times> nat \<times> fsys \<Rightarrow> bool" where
  "entry_fits I r \<longleftrightarrow> (case r of (b, off, s) \<Rightarrow> I s \<and> (b \<noteq> 0 \<longrightarrow> off + 16 \<le> BLOCK_SIZE))"

lemma entry_fits_simp [simp]: "entry_fits I (b, off, s) \<longleftrightarrow> I s \<and> (b \<noteq> 0 \<longrightarrow> off + 16 \<le> BLOCK_SIZE)"
  by (simp add: entry_fits_def)

lemma ok_entry:
  "ok (entry_fits I) m \<Longrightarrow> (\<And>b off s. I s \<Longrightarrow> (b \<noteq> 0 \<longrightarrow> off + 16 \<le> BLOCK_SIZE) \<Longrightarrow> ok P (f (b, off, s))) \<Longrightarrow> ok P (obind m f)"
  by (rule ok_obind [where Q = "entry_fits I"]) auto

section \<open>The sizes of the structures\<close>

record sizes =
  z_inodes :: "u32 list"
  z_files :: "u32 list"
  z_requests :: nat
  z_buffers :: "u32 list"

text \<open>Device numbers have 16 bits.\<close>

definition small :: "u32 \<Rightarrow> bool" where
  "small dev \<longleftrightarrow> dev = ucast (ucast dev :: u16)"

lemma small_ucast [simp]: "small (ucast (d :: u16))"
  by (simp add: small_def ucast_back)

lemma small_const [simp]: "small 0x300" "small 0x305"
  by (simp_all add: small_def)

definition shaped :: "sizes \<Rightarrow> fsys \<Rightarrow> bool" where
  "shaped z s \<longleftrightarrow> (\<forall>b. length (b_data (bhs s b)) = BLOCK_SIZE) \<and> (\<forall>p. length (i_zone (inodes s p)) = 9) \<and>
     length (hash_table s) = NR_HASH \<and> length (s_imap (sb s)) = I_MAP_SLOTS \<and> length (s_zmap (sb s)) = Z_MAP_SLOTS \<and>
     last_inode s < NR_INODE \<and> inode_table s = z_inodes z \<and> file_table s = z_files z \<and> length (request s) = z_requests z \<and>
     buffers s = z_buffers z \<and> small (root_dev s)"

text \<open>What a buffer holds and where it is linked.\<close>

definition place :: "buffer_head \<Rightarrow> u16 \<times> u32 \<times> u32 \<times> u32 \<times> u32 \<times> u32" where
  "place h = (b_dev h, b_blocknr h, b_next h, b_prev h, b_next_free h, b_prev_free h)"

lemma place_simps [simp]:
  "place (h\<lparr>b_count := a\<rparr>) = place h" "place (h\<lparr>b_data := d\<rparr>) = place h" "place (h\<lparr>b_dirt := v\<rparr>) = place h"
  "place (h\<lparr>b_uptodate := v\<rparr>) = place h" "place (h\<lparr>b_lock := v\<rparr>) = place h"
  by (simp_all add: place_def)

section \<open>Sizes of what is written\<close>

lemma length_bit_data [simp]: "length (snd (set_bit j ds)) = length ds" "length (snd (clear_bit j ds)) = length ds"
  by (simp_all add: set_bit_def clear_bit_def)

lemma length_put_short [simp]: "length (put_short_at v i ds) = length ds"
  by (simp add: put_short_at_def)

lemma length_overwrite [simp]: "off + length bs \<le> length ds \<Longrightarrow> length (overwrite off bs ds) = length ds"
  by (simp add: overwrite_def)

lemma length_le [simp]: "length (le16 v) = 2" "length (le32 w) = 4"
  by (simp_all add: le16_def le32_def)

lemma length_encode: "length (encode_inode i) = 14 + 2 * length (i_zone i)"
proof -
  have "length (concat (map le16 zs)) = 2 * length zs" for zs by (induction zs) simp_all
  then show ?thesis by (simp add: encode_inode_def)
qed

lemma inode_offset_bound: "inode_offset p s + 32 \<le> BLOCK_SIZE"
proof -
  have "unat (x mod INODES_PER_BLOCK) < 32" for x
    using word_mod_less_divisor [of INODES_PER_BLOCK x] by (simp add: word_less_nat_alt INODES_PER_BLOCK_def)
  from this [of "ucast (i_num (inodes s p)) - 1"] show ?thesis by (simp add: inode_offset_def BLOCK_SIZE_def)
qed

lemma length_load_bytes [simp]: "length (load_bytes a n m) = n"
  by (simp add: load_bytes_def)

lemma sint_sign: "(x :: u32) <s 0 \<longleftrightarrow> 2 ^ 31 \<le> unat x" "sint (x :: u32) = (if 2 ^ 31 \<le> unat x then int (unat x) - 2 ^ 32 else int (unat x))"
proof -
  have u: "unat x < 2 ^ 32" using unsigned_less [of x, where ?'a = nat] by simp
  show s: "sint x = (if 2 ^ 31 \<le> unat x then int (unat x) - 2 ^ 32 else int (unat x))"
  proof -
    define n where "n = unat x"
    have n: "uint x = int n" "n < 2 ^ 32" using u by (simp_all add: n_def)
    have "sint x = (uint x + 2 ^ 31) mod 2 ^ 32 - 2 ^ 31"
      by (simp add: sint_uint signed_take_bit_eq_take_bit_shift take_bit_eq_mod)
    moreover have "(int n + 2 ^ 31) mod 2 ^ 32 - 2 ^ 31 = (if 2 ^ 31 \<le> n then int n - 2 ^ 32 else int n)"
    proof (cases "2 ^ 31 \<le> n")
      case True
      then have "(int n + 2 ^ 31) mod 2 ^ 32 = (int n - 2 ^ 31 + 2 ^ 32) mod 2 ^ 32" by (simp add: add.commute)
      also have "\<dots> = int n - 2 ^ 31" unfolding mod_add_self2 by (rule mod_pos_pos_trivial) (use n(2) True in simp_all)
      finally show ?thesis using True by simp
    qed simp
    ultimately show ?thesis unfolding n(1) by (simp add: n_def)
  qed
  then show "x <s 0 \<longleftrightarrow> 2 ^ 31 \<le> unat x" using u unsigned_less [of x, where ?'a = int] by (simp add: word_sless_alt)
qed

lemma pos_offset_bound: "\<not> pos_offset pos <s 0 \<Longrightarrow> unat (pos_offset pos) < 1024"
proof (cases "pos <s 0")
  case False
  then show ?thesis by (simp add: pos_offset_def pos_block_def minus_mult_div_eq_mod unat_mod)
next
  case True
  let ?k = "- pos mod 1024"
  have p: "pos_offset pos = - ?k" using True by (simp add: pos_offset_def pos_block_def flip: minus_mult_div_eq_mod)
  have k: "unat ?k < 1024" by (simp add: unat_mod)
  assume "\<not> pos_offset pos <s 0"
  then have "?k = 0" using k unfolding p sint_sign
    by (simp add: unat_sub_if' [of 0 ?k, simplified diff_0] word_unat_eq_iff split: if_splits)
  then show ?thesis using p by simp
qed

lemma rounds_bound: "x \<le>s a \<Longrightarrow> unat (a :: u32) < 2 ^ 31 \<Longrightarrow> rounds x \<le> unat a"
  using sint_nonneg [of x] sint_sign(2) [of a] 
  by (auto simp: rounds_def word_sless_alt word_sle_eq word_le_def simp flip: word_le_nat_alt)

lemma kbind_Inr: "kbind m f = Inr r \<longleftrightarrow> (\<exists>a. m = Inr a \<and> f a = Inr r)"
  by (cases m) simp_all

lemma length_padded: "padded_name n len p s = Inr cs \<Longrightarrow> length cs = n"
  by (induction n arbitrary: len p cs) (auto simp: kbind_Inr)

lemma length_dot_entries [simp]: "length ds = BLOCK_SIZE \<Longrightarrow> length (dot_entries a b ds) = BLOCK_SIZE"
  by (simp add: dot_entries_def BLOCK_SIZE_def)

lemma length_link_text: "length (link_text a s) \<le> 1023"
  using length_takeWhile_le [of "\<lambda>c. c \<noteq> 0" "load_bytes a 1023 (fu s)"] by (simp add: link_text_def)

lemma aligned_fits: "16 dvd off \<Longrightarrow> off < BLOCK_SIZE \<Longrightarrow> off + 16 \<le> BLOCK_SIZE"
  unfolding BLOCK_SIZE_def by presburger

lemma length_aligned [simp]:
  "16 dvd off \<Longrightarrow> off < BLOCK_SIZE \<Longrightarrow> length ds = BLOCK_SIZE \<Longrightarrow> length cs = 14 \<Longrightarrow>
    length (overwrite (Suc (Suc off)) cs ds) = BLOCK_SIZE"
  using aligned_fits [of off] by simp

section \<open>Invariants\<close>

locale fs_frame =
  fixes z :: sizes and I :: "fsys \<Rightarrow> bool"
  assumes sized: "I s \<Longrightarrow> shaped z s"
    and same: "bhs s' = bhs s \<Longrightarrow> hash_table s' = hash_table s \<Longrightarrow> free_list s' = free_list s \<Longrightarrow> buffers s' = buffers s \<Longrightarrow>
      inodes s' = inodes s \<Longrightarrow> sb s' = sb s \<Longrightarrow> last_inode s' = last_inode s \<Longrightarrow> inode_table s' = inode_table s \<Longrightarrow>
      file_table s' = file_table s \<Longrightarrow> length (request s') = length (request s) \<Longrightarrow> root_dev s' = root_dev s \<Longrightarrow> I s' = I s"
    and upd_buffer [simp]: "I s \<Longrightarrow> (\<And>h. length (b_data h) = BLOCK_SIZE \<Longrightarrow> length (b_data (f h)) = BLOCK_SIZE) \<Longrightarrow>
      (\<And>h. place (f h) = place h) \<Longrightarrow> I (upd_bh b f s)"
    and set_inodes: "I s \<Longrightarrow> (\<And>p. length (i_zone (g p)) = 9) \<Longrightarrow> I (s\<lparr>inodes := g\<rparr>)"
    and set_super: "I s \<Longrightarrow> length (s_imap sp) = I_MAP_SLOTS \<Longrightarrow> length (s_zmap sp) = Z_MAP_SLOTS \<Longrightarrow> I (s\<lparr>sb := sp\<rparr>)"
    and set_last: "I s \<Longrightarrow> n < NR_INODE \<Longrightarrow> I (s\<lparr>last_inode := n\<rparr>)"
begin

lemma I_frame [simp]:
  "I (s\<lparr>fw := w\<rparr>) = I s" "I (s\<lparr>fm := m\<rparr>) = I s" "I (s\<lparr>fu := u\<rparr>) = I s"
  "I (s\<lparr>fverified := v\<rparr>) = I s"
  "I (s\<lparr>current_request := q\<rparr>) = I s" "I (s\<lparr>sys_tty := t\<rparr>) = I s"
  "I (s\<lparr>hd_fn := hf\<rparr>) = I s" "I (s\<lparr>hd_log := hl\<rparr>) = I s"
  "I (s\<lparr>sys_con := sc\<rparr>) = I s" "I (s\<lparr>sys_cr_flag := cf\<rparr>) = I s"
  "I (set_fk k s) = I s" "I (wake_fs p s) = I s" "I (log_fs msg s) = I s"
  "I (upd_file p g s) = I s" "I (set_cur h s) = I s" "I (set_filp i f s) = I s"
  "I (keep_on_exec i s) = I s" "I (drop_on_exec i s) = I s"
  "I (drop_file f s) = I s" "I (verify_fs a n s) = I s"
  "I (set_current major q' s) = I s" "I (upd_req i g' s) = I s"
  by (rule same; simp add: set_cur_def set_filp_def keep_on_exec_def drop_on_exec_def drop_file_def verify_fs_def)+

lemma upd_inode_safe [simp]:
  "I s \<Longrightarrow> (\<And>i. length (i_zone i) = 9 \<Longrightarrow> length (i_zone (f i)) = 9) \<Longrightarrow> I (upd_inode p f s)"
  unfolding upd_inode_def by (rule set_inodes) (use sized in \<open>auto simp: shaped_def\<close>)

lemma safe_data: "I s \<Longrightarrow> length (b_data (bhs s b)) = BLOCK_SIZE"
  using sized by (simp add: shaped_def)

lemma small_root [simp]: "I s \<Longrightarrow> small (root_dev s)"
  using sized by (simp add: shaped_def)

lemma mark_bit_safe [simp]: "I s \<Longrightarrow> I (mark_bit j b s)"
  by (simp add: mark_bit_def)

lemma clear_block_safe [simp]: "I s \<Longrightarrow> I (clear_block b s)"
  by (simp add: clear_block_def)

lemma zero_inode_safe [simp]: "I s \<Longrightarrow> I (zero_inode p s)"
  by (simp add: zero_inode_def inode0_def)

lemma set_entry_safe [simp]: "I s \<Longrightarrow> I (set_entry b i v s)"
  by (simp add: set_entry_def)

lemma set_zone_safe [simp]: "I s \<Longrightarrow> I (set_zone p k v s)"
  by (simp add: set_zone_def)

lemma unlock_inode_safe [simp]: "I s \<Longrightarrow> I (unlock_inode p s)"
  by (simp add: unlock_inode_def)

lemma empty_scan_safe: "I s \<Longrightarrow> I (snd (empty_scan n cand s))"
proof (induction n arbitrary: cand s)
  case (Suc n)
  have "I (s\<lparr>last_inode := if NR_INODE \<le> last_inode s + 1 then 0 else last_inode s + 1\<rparr>)"
    using Suc.prems by (intro set_last) (simp_all add: NR_INODE_def)
  then show ?case using Suc.IH by (simp add: Let_def)
qed simp

lemma empty_scan_keeps: "empty_scan n cand s = (p, s') \<Longrightarrow> I s \<Longrightarrow> I s'"
  using empty_scan_safe [of s n cand] by simp

lemma chunk_fits:
  assumes "\<not> pos_offset pos <s 0" "I s"
  shows "unat (pos_offset pos) + rounds (at_most (1024 - pos_offset pos) c) \<le> BLOCK_SIZE"
proof -
  let ?o = "pos_offset pos"
  have o: "unat ?o < 1024" using pos_offset_bound [OF assms(1)] .
  have u: "unat (1024 - ?o) = 1024 - unat ?o" using o by (subst unat_sub) (simp_all add: word_le_nat_alt)
  have "at_most (1024 - ?o) c \<le>s 1024 - ?o" by (auto simp: at_most_def word_sless_alt word_sle_eq)
  then have "rounds (at_most (1024 - ?o) c) \<le> unat (1024 - ?o)" by (rule rounds_bound) (use u in simp)
  then show ?thesis using o u by (simp add: BLOCK_SIZE_def)
qed

lemma set_de_inode_safe [simp]: "I s \<Longrightarrow> off + 16 \<le> BLOCK_SIZE \<Longrightarrow> I (set_de_inode b off v s)"
  by (simp add: set_de_inode_def)

lemma dirty_safe [simp]: "I s \<Longrightarrow> I (dirty b s)"
  by (simp add: dirty_def)

lemma enter_inode_safe [simp]: "I s \<Longrightarrow> off + 16 \<le> BLOCK_SIZE \<Longrightarrow> I (enter_inode p b off s)"
  by (simp add: enter_inode_def)

lemma unlink_inode_safe [simp]: "I s \<Longrightarrow> I (unlink_inode p s)"
  by (simp add: unlink_inode_def)

lemma grow_dir_safe [simp]: "I s \<Longrightarrow> off + 16 \<le> BLOCK_SIZE \<Longrightarrow> I (grow_dir dir i b off s)"
  by (simp add: grow_dir_def)

lemma unlock_buffer_safe [simp]: "I s \<Longrightarrow> I (unlock_buffer b s)"
  by (simp add: unlock_buffer_def Let_def)

lemma end_request_safe [ok_rules]: "I s \<Longrightarrow> returns I (end_request major v s)"
  by (auto simp: end_request_def Let_def split: option.split)

lemma outb_frame [simp]: "I (outb p v s) = I s" "I (s\<lparr>hd_reads := n\<rparr>) = I s" "I (s\<lparr>hd_sectors := n\<rparr>) = I s"
  by (rule same; simp add: outb_def)+

lemma drq_wait_frame [simp]: "I (drq_wait n s) = I s"
  by (induction n arbitrary: s) (simp_all add: inb_status_def Let_def)

lemma port_safe [ok_rules]: "I s \<Longrightarrow> returns I (port_write r s)" "I s \<Longrightarrow> returns I (port_read r s)"
  using safe_data [of s "r_bh (request s ! r)"] by (simp_all add: port_write_def port_read_def Let_def not_less)

lemma hd_start_safe [ok_rules]: "I s \<Longrightarrow> returns I (hd_start r s)"
  by (auto simp: hd_start_def hd_out_def Let_def kbind_def port_safe split: sum.split)

lemma check_request_frame [simp]: "I (check_request r s) = I s" "I (fd_check_request r s) = I s"
  by (simp_all add: check_request_def fd_check_request_def Let_def)

lemma do_hd_request_safe: "I s \<Longrightarrow> ok I (do_hd_request s)"
proof -
  have "\<forall>s. I s \<longrightarrow> ok I (do_hd_request s)"
    by (rule do_hd_request.fixp_induct, unfold curry_def Let_def, intro adm_rules)
      (auto intro!: ok_rules ok_obind [where Q = I])
  then show "I s \<Longrightarrow> ?thesis" by blast
qed

text \<open>The floppy driver touches buffers only when a transfer is over.\<close>

lemma fd_frame [simp]:
  "I (upd_fd f s) = I s" "I (s\<lparr>sys_motors := m\<rparr>) = I s" "I (s\<lparr>sys_timers := tm\<rparr>) = I s"
  by (rule same; simp add: upd_fd_def)+

lemma fd_ports_frame [simp]:
  "I (fd_outb p v s) = I s" "I (out_DOR v s) = I s" "I (fd_reset_on t s) = I s"
  "I (reset_floppy s) = I s"
  by (simp_all add: fd_outb_def out_DOR_def fd_reset_on_def reset_floppy_def Let_def)

lemma output_byte_frame [simp]: "I (output_byte v s) = I s"
proof -
  have "I (output_loop n v s) = I s" for n s
    by (induction n arbitrary: s) (simp_all add: fd_inb_status_def Let_def)
  then show ?thesis by (simp add: output_byte_def)
qed

lemma fold_frame: "(\<And>x s. I (f x s) = I s) \<Longrightarrow> I (fold f xs s) = I s"
  by (induction xs arbitrary: s) auto

lemma output_bytes_frame [simp]: "I (fold output_byte vs s) = I s"
  by (rule fold_frame) simp

lemma setup_DMA_safe [ok_rules]: "I s \<Longrightarrow> returns I (setup_DMA s)"
  by (auto simp: setup_DMA_def Let_def kbind_def fold_frame split: sum.split)

lemma fd_again_safe:
  assumes "\<And>s. I s \<Longrightarrow> ok I (again s)" "I s"
  shows "ok I (fd_again again s)"
  using assms by (simp add: fd_again_def)

lemma setup_rw_floppy_safe:
  assumes "\<And>s. I s \<Longrightarrow> ok I (again s)" "I s"
  shows "ok I (setup_rw_floppy again s)"
  unfolding setup_rw_floppy_def Let_def using assms
  by (auto intro!: ok_obind [where Q = I] fd_again_safe ok_rules simp del: fold.simps)

lemma transfer_safe:
  assumes "\<And>s. I s \<Longrightarrow> ok I (again s)" "I s"
  shows "ok I (transfer again s)"
  unfolding transfer_def Let_def using assms
  by (auto intro!: setup_rw_floppy_safe fd_again_safe ok_rules simp del: fold.simps)

lemma fd_timer_safe:
  assumes "\<And>s. I s \<Longrightarrow> ok I (call s)" "I s"
  shows "ok I (fd_timer ticks fn call s)"
  unfolding fd_timer_def using assms by (auto simp: Let_def intro!: ok_any)

lemma floppy_on_safe:
  assumes "\<And>s. I s \<Longrightarrow> ok I (again s)" "I s"
  shows "ok I (floppy_on_interrupt again s)"
  unfolding floppy_on_interrupt_def Let_def using assms
  by (auto intro!: transfer_safe fd_timer_safe ok_rules)

lemma fd_turn_on_safe:
  assumes "\<And>s. I s \<Longrightarrow> ok I (again s)" "I s"
  shows "ok I (fd_turn_on again s)"
  unfolding fd_turn_on_def Let_def using assms
  by (auto intro!: ok_any floppy_on_safe fd_timer_safe ok_rules)

lemma fd_place_safe [ok_rules]: "I s \<Longrightarrow> returns I (fd_place_request r t s)"
  by (simp add: fd_place_request_def Let_def)

lemma do_fd_request_safe: "I s \<Longrightarrow> ok I (do_fd_request s)"
proof -
  have "\<forall>start s. I s \<longrightarrow> ok I (fd_request_loop start s)"
    by (rule fd_request_loop.fixp_induct, unfold curry_def Let_def, intro adm_rules)
      (auto simp: recalibrate_floppy_def Let_def intro!: ok_rules ok_obind [where Q = I] fd_turn_on_safe fd_again_safe)
  then show "I s \<Longrightarrow> ?thesis" by (simp add: do_fd_request_def)
qed

end

text \<open>What the other tasks promise while one sleeps.\<close>

locale fs_sleep = fs_frame +
  fixes env :: environment
  assumes others_safe [simp]: "I s \<Longrightarrow> I (others env s)"
begin

lemmas ok_seqs [ok_rules] = ok_obind [where Q = I] ok_seq2 [where I = I] ok_seq3 [where I = I and ?'b = "'b word" for b]
  ok_seq3 [where I = I and ?'b = "'b list" for b] ok_seq3 [where I = I and ?'b = arg_area] ok_entry [where I = I] ok_seq4 [where I = I]
  ret_kbind [where Q = I]

lemma sleep_fs_safe [ok_rules]: "I s \<Longrightarrow> ok I (sleep_fs env p s)"
  by (auto simp: sleep_fs_def split: sum.splits)

lemma wait_on_buffer_safe_all: "\<forall>p s. I s \<longrightarrow> ok I (wait_on_buffer env p s)"
  by (rule wait_on_buffer.fixp_induct, unfold curry_def, intro adm_rules) (auto intro!: ok_rules)

lemmas wait_on_buffer_safe [ok_rules] = wait_on_buffer_safe_all [rule_format]

lemma get_hash_table_safe_all: "\<forall>dev block s. I s \<longrightarrow> ok (on2 I) (get_hash_table env dev block s)"
  by (rule get_hash_table.fixp_induct, unfold curry_def, intro adm_rules) (auto intro!: ok_rules)

lemmas get_hash_table_safe [ok_rules] = get_hash_table_safe_all [rule_format]

end

text \<open>What the drivers promise when they are given a request, and the cache when a buffer is asked for.\<close>

locale fs_inv = fs_sleep +
  assumes request_safe: "request_fn env n = Some f \<Longrightarrow> I s \<Longrightarrow> ok I (f s)"
    and getblk_safe: "small dev \<Longrightarrow> I s \<Longrightarrow> ok (on2 I) (getblk env dev block s)"
begin

declare getblk_safe [ok_rules]

lemma brelse_safe [ok_rules]: "I s \<Longrightarrow> ok I (brelse env b s)"
  unfolding brelse_def by (auto intro!: ok_rules)

lemma get_request_safe_all: "\<forall>rw s. I s \<longrightarrow> ok (on2 I) (get_request env rw s)"
  by (rule get_request.fixp_induct, unfold curry_def, intro adm_rules) (auto intro!: ok_rules)

lemmas get_request_safe [ok_rules] = get_request_safe_all [rule_format]

lemma add_request_safe [ok_rules]: "I s \<Longrightarrow> ok I (add_request env major r s)"
  unfolding add_request_def Let_def by (auto intro!: ok_rules intro: request_safe split: option.split)

lemma ll_rw_block_safe [ok_rules]: "I s \<Longrightarrow> ok I (ll_rw_block env rw b s)"
  unfolding ll_rw_block_def make_request_def lock_buffer_def unlock_buffer_def
  by (auto simp: Let_def intro!: ok_rules)

lemma bread_safe [ok_rules]: "small dev \<Longrightarrow> I s \<Longrightarrow> ok (on2 I) (bread env dev block s)"
  unfolding bread_def by (auto intro!: ok_rules)

section \<open>Zones and i-nodes\<close>

lemma new_block_safe [ok_rules]: "small dev \<Longrightarrow> I s \<Longrightarrow> ok (on2 I) (new_block env dev s)"
  unfolding new_block_def Let_def by (auto intro!: ok_rules split: prod.split)

lemma free_bit_safe [ok_rules]: "I s \<Longrightarrow> returns (on2 I) (free_bit block s)"
  unfolding free_bit_def Let_def by auto

lemma free_block_safe [ok_rules]: "I s \<Longrightarrow> ok (on2 I) (free_block env dev block s)"
  unfolding free_block_def Let_def by (auto intro!: ok_rules)

lemma free_inode_safe [ok_rules]: "I s \<Longrightarrow> returns I (free_inode p s)"
  unfolding free_inode_def Let_def by auto

lemma free_zones_safe:
  assumes "\<And>b s. I s \<Longrightarrow> ok (on2 I) (f b s)"
  shows "I s \<Longrightarrow> ok (on2 I) (free_zones f b is busy s)"
  by (induction "is" arbitrary: busy s) (auto intro!: ok_rules assms)

lemma free_table_safe:
  assumes "\<And>b s. I s \<Longrightarrow> ok (on2 I) (f b s)" "I s" "small dev"
  shows "ok (on2 I) (free_table f env dev block s)"
  unfolding free_table_def using assms(2,3) by (auto intro!: ok_rules free_zones_safe assms(1))

lemma free_ind_safe [ok_rules]: "small dev \<Longrightarrow> I s \<Longrightarrow> ok (on2 I) (free_ind env dev block s)"
  unfolding free_ind_def by (auto intro!: ok_rules free_table_safe)

lemma free_dind_safe [ok_rules]: "small dev \<Longrightarrow> I s \<Longrightarrow> ok (on2 I) (free_dind env dev block s)"
  unfolding free_dind_def by (auto intro!: ok_rules free_table_safe)

lemma free_direct_safe [ok_rules]: "I s \<Longrightarrow> ok (on2 I) (free_direct env p ks busy s)"
  by (induction ks arbitrary: busy s) (auto intro!: ok_rules)

lemma truncate_round_safe [ok_rules]: "I s \<Longrightarrow> ok (on2 I) (truncate_round env p s)"
  unfolding truncate_round_def Let_def by (auto intro!: ok_rules)

lemma yield_fs_safe [simp]: "I s \<Longrightarrow> I (yield_fs env s)"
  by (simp add: yield_fs_def)

lemma truncate_loop_safe_all: "\<forall>p s. I s \<longrightarrow> ok I (truncate_loop env p s)"
  by (rule truncate_loop.fixp_induct, unfold curry_def Let_def, intro adm_rules) (auto intro!: ok_rules)

lemmas truncate_loop_safe [ok_rules] = truncate_loop_safe_all [rule_format]

lemma truncate_safe [ok_rules]: "I s \<Longrightarrow> ok I (Truncate.truncate env p s)"
  unfolding Truncate.truncate_def Let_def by (auto intro!: ok_rules)

lemma wait_on_inode_safe_all: "\<forall>p s. I s \<longrightarrow> ok I (wait_on_inode env p s)"
  by (rule wait_on_inode.fixp_induct, unfold curry_def, intro adm_rules) (auto intro!: ok_rules)

lemmas wait_on_inode_safe [ok_rules] = wait_on_inode_safe_all [rule_format]

lemma lock_inode_safe [ok_rules]: "I s \<Longrightarrow> ok I (lock_inode env p s)"
  unfolding lock_inode_def by (auto intro!: ok_rules)

lemma read_inode_safe [ok_rules]: "I s \<Longrightarrow> ok I (read_inode env p s)"
  unfolding read_inode_def Let_def by (auto simp: decode_inode_def intro!: ok_rules)

lemma encode_safe: "I s \<Longrightarrow> length (encode_inode (inodes s p)) = 32"
  using sized by (simp add: length_encode shaped_def)

lemma write_inode_safe [ok_rules]: "I s \<Longrightarrow> ok I (write_inode env p s)"
  unfolding write_inode_def Let_def
  by (auto simp: encode_safe inode_offset_bound intro!: ok_rules)

lemma iput_loop_safe_all: "\<forall>p s. I s \<longrightarrow> ok I (iput_loop env p s)"
  by (rule iput_loop.fixp_induct, unfold curry_def Let_def, intro adm_rules) (auto intro!: ok_rules)

lemmas iput_loop_safe [ok_rules] = iput_loop_safe_all [rule_format]

lemma iput_safe [ok_rules]: "I s \<Longrightarrow> ok I (iput env p s)"
  unfolding iput_def Let_def by (auto intro!: ok_rules)

lemma clean_inode_safe_all: "\<forall>p s. I s \<longrightarrow> ok I (clean_inode env p s)"
  by (rule clean_inode.fixp_induct, unfold curry_def, intro adm_rules) (auto intro!: ok_rules)

lemmas clean_inode_safe [ok_rules] = clean_inode_safe_all [rule_format]

lemma get_empty_inode_safe_all: "\<forall>s. I s \<longrightarrow> ok (on2 I) (get_empty_inode env s)"
  by (rule get_empty_inode.fixp_induct, unfold curry_def, intro adm_rules)
    (auto intro!: ok_rules split: prod.split dest: empty_scan_keeps)

lemmas get_empty_inode_safe [ok_rules] = get_empty_inode_safe_all [rule_format]

lemma get_pipe_inode_safe [ok_rules]: "I s \<Longrightarrow> ok (on2 I) (get_pipe_inode env s)"
  unfolding get_pipe_inode_def Let_def by (auto intro!: ok_rules)

lemma iget_scan_safe [ok_rules]: "I s \<Longrightarrow> ok (on2 I) (iget_scan env dev nr ps s)"
  by (induction ps arbitrary: s) (auto intro!: ok_rules)

lemma iget_safe [ok_rules]: "I s \<Longrightarrow> ok (on2 I) (iget env dev nr s)"
  unfolding iget_def Let_def by (auto intro!: ok_rules)

lemma fill_zone_safe [ok_rules]: "I s \<Longrightarrow> ok I (fill_zone env p k create s)"
  unfolding fill_zone_def Let_def by (auto intro!: ok_rules)

lemma table_zone_safe [ok_rules]: "I s \<Longrightarrow> ok (on2 I) (table_zone env p table i create s)"
  unfolding table_zone_def by (auto intro!: ok_rules)

lemma do_bmap_safe [ok_rules]: "I s \<Longrightarrow> ok (on2 I) (do_bmap env p block create s)"
  unfolding do_bmap_def Let_def by (auto intro!: ok_rules)

lemma bmap_safe [ok_rules]: "I s \<Longrightarrow> ok (on2 I) (bmap env p block s)"
  unfolding bmap_def by (rule do_bmap_safe)

lemma create_block_safe [ok_rules]: "I s \<Longrightarrow> ok (on2 I) (create_block env p block s)"
  unfolding create_block_def by (rule do_bmap_safe)

lemma new_inode_safe [ok_rules]: "I s \<Longrightarrow> ok (on2 I) (new_inode env dev s)"
  unfolding new_inode_def Let_def by (auto intro!: ok_rules split: prod.split)

lemma sync_list_safe [ok_rules]: "I s \<Longrightarrow> ok I (sync_list env ps s)"
  by (induction ps arbitrary: s) (auto intro!: ok_rules)

lemma write_back_safe [ok_rules]: "I s \<Longrightarrow> ok I (write_back env bs P s)"
  by (induction bs arbitrary: s) (auto intro!: ok_rules)

lemma sys_sync_safe [ok_rules]: "I s \<Longrightarrow> ok (on2 I) (sys_sync env s)"
  unfolding sys_sync_def sync_inodes_def by (auto intro!: ok_rules)

section \<open>The super block\<close>

lemma set_slot_safe [ok_rules]: "I s \<Longrightarrow> returns I (set_slot zones i b s)"
  unfolding set_slot_def using sized [of s] by (auto simp: shaped_def intro!: set_super)

lemma load_map_safe [ok_rules]: "small dev \<Longrightarrow> I s \<Longrightarrow> ok (on2 I) (load_map env dev zones is block s)"
  by (induction "is" arbitrary: block s) (auto intro!: ok_rules)

lemma release_all_safe [ok_rules]: "I s \<Longrightarrow> ok I (release_all env bs s)"
  by (induction bs arbitrary: s) (auto intro!: ok_rules)

lemma take_bit0_safe [ok_rules]: "I s \<Longrightarrow> returns I (take_bit0 b s)"
  unfolding take_bit0_def by auto

lemma read_super_safe [ok_rules]: "small dev \<Longrightarrow> I s \<Longrightarrow> ok (on2 I) (read_super env dev s)"
proof -
  have d: "I (s\<lparr>sb := decode_super ds (sb s)\<rparr>)" if "I s" for s ds
    using that sized [of s] by (intro set_super) (simp_all add: shaped_def decode_super_def)
  have m: "I (s\<lparr>sb := (sb s)\<lparr>s_imap := replicate I_MAP_SLOTS 0, s_zmap := replicate Z_MAP_SLOTS 0\<rparr>\<rparr>)"
    "I (s\<lparr>sb := (sb s)\<lparr>s_dev := v\<rparr>\<rparr>)" if "I s" for s v
    using that sized [of s] by (auto intro!: set_super simp: shaped_def)
  show "small dev \<Longrightarrow> I s \<Longrightarrow> ok (on2 I) (read_super env dev s)"
    unfolding read_super_def Let_def by (auto intro!: ok_rules d m)
qed

section \<open>Descriptors, pipes, reading and writing\<close>

lemma dupfd_safe: "I s \<Longrightarrow> I (snd (dupfd fd arg s))"
  by (auto simp: dupfd_def Let_def split: option.split)

lemma sys_close_safe [ok_rules]: "I s \<Longrightarrow> ok (on2 I) (sys_close env fd s)"
  unfolding sys_close_def Let_def by (auto intro!: ok_rules)

lemma take_from_pipe_safe [simp]: "I s \<Longrightarrow> I (take_from_pipe p buf chars s)"
  by (simp add: take_from_pipe_def Let_def)

lemma put_into_pipe_safe [simp]: "I s \<Longrightarrow> I (put_into_pipe p buf chars s)"
  by (simp add: put_into_pipe_def Let_def)

lemma isleep_fs_safe [ok_rules]: "I s \<Longrightarrow> ok I (isleep_fs env p s)"
  by (auto simp: isleep_fs_def split: sum.splits)

lemma read_pipe_safe_all: "\<forall>p buf cnt sofar s. I s \<longrightarrow> ok (on2 I) (read_pipe_loop env p buf cnt sofar s)"
  by (rule read_pipe_loop.fixp_induct, unfold curry_def Let_def, intro adm_rules) (auto intro!: ok_rules)

lemma write_pipe_safe_all: "\<forall>p buf cnt sofar s. I s \<longrightarrow> ok (on2 I) (write_pipe_loop env p buf cnt sofar s)"
  by (rule write_pipe_loop.fixp_induct, unfold curry_def Let_def, intro adm_rules) (auto intro!: ok_rules)

lemma pipe_safe [ok_rules]:
  "I s \<Longrightarrow> ok (on2 I) (read_pipe env p buf cnt s)" "I s \<Longrightarrow> ok (on2 I) (write_pipe env p buf cnt s)"
  unfolding read_pipe_def write_pipe_def using read_pipe_safe_all write_pipe_safe_all by blast+

lemma claim_files_safe: "I s \<Longrightarrow> I (snd (claim_files n fs s))"
  by (induction n fs s rule: claim_files.induct) (auto simp: Let_def split: prod.split)

lemma claim_fds_safe: "I s \<Longrightarrow> I (snd (claim_fds fs is s))"
  by (induction fs "is" s rule: claim_fds.induct) (auto simp: Let_def split: prod.split)

lemma fold_safe: "(\<And>x s. I s \<Longrightarrow> I (f x s)) \<Longrightarrow> I s \<Longrightarrow> I (fold f xs s)"
  by (induction xs arbitrary: s) auto

lemma sys_pipe_safe [ok_rules]: "I s \<Longrightarrow> ok (on2 I) (sys_pipe env fildes s)"
proof -
  assume s: "I s"
  obtain fs s1 where 1: "claim_files 2 (file_table s) s = (fs, s1)" by fastforce
  obtain js s2 where 2: "claim_fds fs [0..<NR_OPEN] s1 = (js, s2)" by fastforce
  have 3: "I s1" using claim_files_safe [OF s, of 2 "file_table s"] 1 by simp
  have "I s2" using claim_fds_safe [OF 3, of fs "[0..<NR_OPEN]"] 2 by simp
  with 3 show ?thesis unfolding sys_pipe_def 1 prod.case Let_def 2 by (auto intro!: ok_rules fold_safe)
qed

lemma of_ttyfs_safe [simp]: "I (of_ttyfs t) = I (t_fs t)" "I (with_tty u s) = I s"
  by (simp_all add: of_ttyfs_def with_tty_def)

lemma to_ttyfs_safe [simp]: "t_fs (to_ttyfs s) = s"
  by (simp add: to_ttyfs_def ttysys.defs ttyfs.defs)

lemma tty_env_safe [simp]: "I (t_fs t) \<Longrightarrow> I (t_fs (tty_env env t))"
  by (simp add: tty_env_def)

lemma read_loop_safe:
  "\<forall>buf nr b t. I (t_fs t) \<longrightarrow> ok (\<lambda>r. I (t_fs (snd r))) (read_loop (tty_env env) buf nr b t)"
  by (rule read_loop.fixp_induct, unfold curry_def, intro adm_rules)
    (auto split: sum.split prod.split)

lemma rw_ttyx_safe [ok_rules]: "I s \<Longrightarrow> ok (on2 I) (rw_ttyx env rw minor buf cnt s)"
proof -
  assume s: "I s"
  have "ok (\<lambda>r. I (t_fs (snd r))) (tty_read (tty_env env) minor buf cnt (to_ttyfs s))"
    unfolding tty_read_def using read_loop_safe s by simp
  then have "ok (on2 I) (obind (tty_read (tty_env env) minor buf cnt (to_ttyfs s)) (\<lambda>(r, t). Some (Inr (r, of_ttyfs t))))"
    by (rule ok_obind) auto
  moreover have "ok (on2 I) (obind (tty_write (con_fuel env) minor buf cnt (tty_of s)) (\<lambda>(r, t). Some (Inr (r, with_tty t s))))"
    using s by (intro ok_any) auto
  ultimately show ?thesis unfolding rw_ttyx_def using s by simp
qed

lemma rw_char_safe [ok_rules]: "I s \<Longrightarrow> ok (on2 I) (rw_char env rw dev buf cnt s)"
  unfolding rw_char_def rw_tty_def by (auto intro!: ok_rules split: crw_ptr.split)

lemma sys_ioctl_safe [ok_rules]: "I s \<Longrightarrow> ok (on2 I) (sys_ioctl env fd cmd arg s)"
  unfolding sys_ioctl_def by (auto intro: ok_any)

lemma file_read_loop_safe_all: "\<forall>p f buf left s. I s \<longrightarrow> ok (on2 I) (file_read_loop env p f buf left s)"
  by (rule file_read_loop.fixp_induct, unfold curry_def Let_def, intro adm_rules) (auto intro!: ok_rules)

lemmas file_read_loop_safe [ok_rules] = file_read_loop_safe_all [rule_format]

lemma file_read_safe [ok_rules]: "I s \<Longrightarrow> ok (on2 I) (file_read env p f buf cnt s)"
  unfolding file_read_def by (auto intro!: ok_rules)

lemma file_write_loop_safe_all:
  "\<forall>p buf cnt i pos s. I s \<longrightarrow> ok (on3 I) (file_write_loop env p buf cnt i pos s)"
  by (rule file_write_loop.fixp_induct, unfold curry_def Let_def, intro adm_rules)
    (auto simp: chunk_fits intro!: ok_rules)

lemmas file_write_loop_safe [ok_rules] = file_write_loop_safe_all [rule_format]

lemma file_write_safe [ok_rules]: "I s \<Longrightarrow> ok (on2 I) (file_write env p f buf cnt s)"
  unfolding file_write_def Let_def by (auto intro!: ok_rules)

lemma sys_read_safe [ok_rules]: "I s \<Longrightarrow> ok (on2 I) (sys_read env fd buf cnt s)"
  unfolding sys_read_def Let_def by (auto intro!: ok_rules)

lemma sys_write_safe [ok_rules]: "I s \<Longrightarrow> ok (on2 I) (sys_write env fd buf cnt s)"
  unfolding sys_write_def Let_def by (auto intro!: ok_rules)

section \<open>Directories\<close>

lemma find_loop_safe:
  "I s \<Longrightarrow> off mod 16 = 0 \<Longrightarrow> ok (entry_fits I) (find_loop env dir name len n i b off s)"
proof (induction "2 * n + (if BLOCK_SIZE \<le> off then 1 else 0)" arbitrary: n i b off s rule: less_induct)
  case less
  note ih = less.hyps [rule_format]
  show ?case
  proof (cases n)
    case 0
    then show ?thesis using less.prems by (auto intro!: ok_rules)
  next
    case (Suc m)
    then show ?thesis using less.prems
      by (auto simp: aligned_fits BLOCK_SIZE_def DIR_ENTRIES_PER_BLOCK_def intro!: ok_rules ih)
  qed
qed

lemma find_entry_safe [ok_rules]: "I s \<Longrightarrow> ok (entry_fits I) (find_entry env dir name len s)"
  unfolding find_entry_def Let_def by (auto intro!: ok_rules find_loop_safe)

lemma ok_padded: "(\<And>cs. length cs = n \<Longrightarrow> ok P (f cs)) \<Longrightarrow> ok P (obind (Some (padded_name n len p s)) f)"
  by (rule ok_obind [where Q = "\<lambda>cs. length cs = n"]) (auto simp: returns_def length_padded split: sum.split)

lemma add_loop_safe_all:
  "\<forall>dir name len i b off s. I s \<and> off mod 16 = 0 \<longrightarrow> ok (entry_fits I) (add_loop env dir name len i b off s)"
  by (rule add_loop.fixp_induct, unfold curry_def Let_def, intro adm_rules)
    (auto simp: aligned_fits NAME_LEN_def intro!: ok_rules ok_padded)

lemma add_entry_safe [ok_rules]: "I s \<Longrightarrow> ok (entry_fits I) (add_entry env dir name len s)"
  unfolding add_entry_def by (auto intro!: ok_rules add_loop_safe_all [rule_format])

lemma grab_safe [ok_rules]: "I s \<Longrightarrow> returns I (grab p s)"
  unfolding grab_def by auto

lemma leave_safe [ok_rules]: "I s \<Longrightarrow> ok (on2 I) (leave env ps b r s)"
  by (induction ps arbitrary: s) (auto intro!: ok_rules)

text \<open>The functions that look up paths, for every way to look up the text of a link that keeps the sizes.\<close>

definition link_ok :: "lookup option \<Rightarrow> bool" where
  "link_ok deep \<longleftrightarrow> (\<forall>look b d s. deep = Some look \<longrightarrow> I s \<longrightarrow> ok (on2 I) (look b d s))"

lemma follow_link_safe [ok_rules]:
  assumes "link_ok deep" "I s"
  shows "ok (on2 I) (follow_link env deep dir p s)"
proof (cases deep)
  case None
  then show ?thesis unfolding follow_link_def using assms(2) by (auto intro!: ok_rules)
next
  case (Some look)
  then have l: "I s \<Longrightarrow> ok (on2 I) (look b d s)" for b d s using assms(1) by (simp add: link_ok_def)
  show ?thesis unfolding follow_link_def using assms(2) Some by (auto intro!: ok_rules l)
qed

lemma get_dir_loop_safe_all: "\<forall>path p s. link_ok deep \<and> I s \<longrightarrow> ok (on2 I) (get_dir_loop env deep path p s)"
  by (rule get_dir_loop.fixp_induct, unfold curry_def Let_def, intro adm_rules) (auto intro!: ok_rules)

lemma get_dir_safe [ok_rules]: "link_ok deep \<Longrightarrow> I s \<Longrightarrow> ok (on2 I) (get_dir env deep path base s)"
  unfolding get_dir_def by (auto intro!: ok_rules get_dir_loop_safe_all [rule_format])

lemma dir_namei_safe [ok_rules]: "link_ok deep \<Longrightarrow> I s \<Longrightarrow> ok (on4 I) (dir_namei env deep path base s)"
  unfolding dir_namei_def by (auto intro!: ok_rules)

lemma do_namei_safe [ok_rules]: "link_ok deep \<Longrightarrow> I s \<Longrightarrow> ok (on2 I) (do_namei env deep path base follow s)"
  unfolding do_namei_def Let_def by (auto intro!: ok_rules)

lemma user_fs_ok [simp]: "link_ok (user_fs env)"
  by (simp add: link_ok_def user_fs_def link_namei_def do_namei_safe)

lemma namei_safe [ok_rules]: "I s \<Longrightarrow> ok (on2 I) (namei env path s)"
  unfolding namei_def by (auto intro!: ok_rules)

lemma open_namei_safe [ok_rules]: "I s \<Longrightarrow> ok (on3 I) (open_namei env path flag s)"
  unfolding open_namei_def Let_def by (auto intro!: ok_rules)

section \<open>The system calls that take pathnames\<close>

lemma sys_mkdir_safe [ok_rules]: "I s \<Longrightarrow> ok (on2 I) (sys_mkdir env path mode s)"
  unfolding sys_mkdir_def Let_def by (auto simp: aligned_fits intro!: ok_rules)

lemma empty_loop_safe: "I s \<Longrightarrow> ok (on2 I) (empty_loop env p n nr b off s)"
proof (induction "2 * n + (if BLOCK_SIZE \<le> off then 1 else 0)" arbitrary: n nr b off s rule: less_induct)
  case less
  note ih = less.hyps [rule_format]
  show ?case using less.prems
    by (cases n) (auto simp: BLOCK_SIZE_def intro!: ok_rules ih)
qed

lemma empty_dir_safe [ok_rules]: "I s \<Longrightarrow> ok (on2 I) (empty_dir env p s)"
  unfolding empty_dir_def Let_def by (auto intro!: ok_rules empty_loop_safe)

lemma sys_rmdir_safe [ok_rules]: "I s \<Longrightarrow> ok (on2 I) (sys_rmdir env path s)"
  unfolding sys_rmdir_def Let_def by (auto intro!: ok_rules)

lemma link_text_fits [simp]: "length ds = BLOCK_SIZE \<Longrightarrow> length (overwrite 0 (link_text a s @ [0]) ds) = BLOCK_SIZE"
  using length_link_text [of a s] by (simp add: BLOCK_SIZE_def)

lemma sys_symlink_safe [ok_rules]: "I s \<Longrightarrow> ok (on2 I) (sys_symlink env old new s)"
  unfolding sys_symlink_def Let_def by (auto intro!: ok_rules)

lemma sys_link_safe [ok_rules]: "I s \<Longrightarrow> ok (on2 I) (sys_link env old new s)"
  unfolding sys_link_def Let_def by (auto intro!: ok_rules)

lemma sys_unlink_safe [ok_rules]: "I s \<Longrightarrow> ok (on2 I) (sys_unlink env path s)"
  unfolding sys_unlink_def Let_def by (auto intro!: ok_rules)

lemma sys_open_safe [ok_rules]: "I s \<Longrightarrow> ok (on2 I) (sys_open env path flag s)"
  unfolding sys_open_def Let_def by (auto intro!: ok_rules)

lemma sys_chdir_safe [ok_rules]: "I s \<Longrightarrow> ok (on2 I) (sys_chdir env path s)"
  unfolding sys_chdir_def by (auto intro!: ok_rules)

lemma sys_utime_safe [ok_rules]: "I s \<Longrightarrow> ok (on2 I) (sys_utime env path tbuf s)"
  unfolding sys_utime_def Let_def by (auto intro!: ok_rules)

lemma cp_stat_safe [simp]: "I s \<Longrightarrow> I (cp_stat env p a s)"
  by (simp add: cp_stat_def Let_def)

lemma sys_stat_safe [ok_rules]: "I s \<Longrightarrow> ok (on2 I) (sys_stat env path statbuf s)"
  unfolding sys_stat_def by (auto intro!: ok_rules)

lemma list_entries_safe [ok_rules]: "I s \<Longrightarrow> returns I (list_entries n b off s)"
  by (induction n arbitrary: off s) auto

lemma sys_ls_safe [ok_rules]: "I s \<Longrightarrow> ok (on2 I) (sys_ls env s)"
  unfolding sys_ls_def Let_def by (auto intro!: ok_rules)

section \<open>Programs, pages and the end of a process\<close>

lemma exec_error_safe [ok_rules]: "I s \<Longrightarrow> ok (on3 I) (exec_error env p page e eip s)"
proof -
  have f: "I s \<Longrightarrow> returns I (free_pages ps s)" for ps s
    by (induction ps arbitrary: s) (auto simp: kbind_def split: sum.split)
  show "I s \<Longrightarrow> ok (on3 I) (exec_error env p page e eip s)"
    unfolding exec_error_def by (auto intro!: ok_rules f)
qed

lemma close_marked_safe [ok_rules]: "I s \<Longrightarrow> ok I (close_marked env is s)"
  by (induction "is" arbitrary: s) (auto intro!: ok_rules)

lemma free_space_safe [ok_rules]: "I s \<Longrightarrow> returns I (free_space s)"
  unfolding free_space_def Let_def by (auto simp: kbind_def split: sum.split)

lemma change_ldt_safe [ok_rules]: "I s \<Longrightarrow> returns (on2 I) (change_ldt page s)"
  unfolding change_ldt_def Let_def by (auto simp: kbind_def split: sum.split)

lemma exec_switch_safe [ok_rules]:
  "I s \<Longrightarrow> ok (on3 I) (exec_switch env mmu p ex u g argc envc page sp eip s)"
  unfolding exec_switch_def Let_def by (auto intro!: ok_rules)

lemma copy_down_safe: "I s \<Longrightarrow> returns (on3 I) (copy_down n b tmp a s)"
proof (induction n arbitrary: tmp a s)
  case (Suc n)
  then show ?case by (cases a) (auto simp: Let_def kbind_def split: sum.split)
qed (cases a, simp)

lemma copy_args_safe [ok_rules]: "I s \<Longrightarrow> ok (on3 I) (copy_args n argv b a s)"
  by (induction n arbitrary: a s) (auto simp: Let_def copy_down_safe intro!: ok_rules)

lemma copy_strings_safe [ok_rules]: "I s \<Longrightarrow> ok (on3 I) (copy_strings argc argv page p b s)"
  unfolding copy_strings_def by (auto intro!: ok_rules)

lemma do_execve_safe [ok_rules]: "I s \<Longrightarrow> ok (on3 I) (do_execve env mmu eip filename argv envp s)"
  unfolding do_execve_def Let_def by (auto intro!: ok_rules)

lemma bmap_all_safe [ok_rules]: "I s \<Longrightarrow> ok (on2 I) (bmap_all env p bs s)"
  by (induction bs arbitrary: s) (auto intro!: ok_rules)

lemma clear_tail_safe [simp]: "I (clear_tail page n s) = I s" "I (oom_fs s) = I s"
  by (simp_all add: clear_tail_def oom_fs_def)

lemma read_ahead_safe [ok_rules]: "small dev \<Longrightarrow> I s \<Longrightarrow> ok (on2 I) (read_ahead env dev nrs s)"
  by (induction nrs arbitrary: s) (auto intro!: ok_rules)

lemma copy_blocks_safe [ok_rules]: "I s \<Longrightarrow> ok I (copy_blocks env bs a s)"
  by (induction bs arbitrary: a s) (auto simp: COPYBLK_def intro!: ok_rules)

lemma ok_page: "I s \<Longrightarrow> (\<And>r m. ok P (f (r, m))) \<Longrightarrow> ok P (obind (Some m :: (u32 \<times> mem) kres option) f)"
  by (rule ok_any) auto

lemma load_page_safe [ok_rules]: "I s \<Longrightarrow> ok I (load_page env p block tmp address s)"
  unfolding load_page_def bread_page_def Let_def by (auto intro!: ok_rules)

lemma do_no_page_safe [ok_rules]: "I s \<Longrightarrow> ok I (do_no_page env address s)"
  unfolding do_no_page_def Let_def by (auto intro!: ok_rules)

lemma close_all_safe [ok_rules]: "I s \<Longrightarrow> ok I (close_all env is s)"
  by (induction "is" arbitrary: s) (auto intro!: ok_rules)

lemma drop_inodes_safe [ok_rules]: "I s \<Longrightarrow> ok I (drop_inodes env s)"
  unfolding drop_inodes_def Let_def by (auto intro!: ok_rules)

lemma leave_session_safe [ok_rules]: "I s \<Longrightarrow> returns I (leave_session s)"
  unfolding leave_session_def lift_kern_def Let_def by (auto simp: kbind_def split: sum.split)

lemma sys_exit_safe [ok_rules]: "I s \<Longrightarrow> ok I (sys_exit env code s)"
proof -
  have k: "I s \<Longrightarrow> ok I (obind (tell_family (fk s)) (\<lambda>k.
     obind (Some (leave_session (set_fk k s))) (\<lambda>s. case schedule (fk s) of None \<Rightarrow> None | Some k \<Rightarrow> Some (Inr (set_fk k s)))))" for s
    by (rule ok_any) (auto intro!: ok_rules)
  show "I s \<Longrightarrow> ok I (sys_exit env code s)"
    unfolding sys_exit_def do_exit_def Let_def by (auto intro!: ok_rules k)
qed

section \<open>All calls\<close>

lemma setup_frame [simp]:
  "I (whole_disk i s) = I s" "I (no_disk i s) = I s" "I (set_partition d ds i s) = I s"
  "I (s\<lparr>nr_hd := n\<rparr>) = I s" "I (s\<lparr>hd_info := g\<rparr>) = I s" "I (s\<lparr>sys_timers := tm\<rparr>) = I s"
  by (rule same; simp add: whole_disk_def no_disk_def set_partition_def Let_def)+

lemma read_partitions_safe: "set ds \<subseteq> {0, 1} \<Longrightarrow> I s \<Longrightarrow> ok I (read_partitions env ds s)"
  by (induction ds arbitrary: s) (auto simp: fold_frame Let_def intro!: ok_rules)

lemma count_free_any: "(\<And>n. ok P (f n)) \<Longrightarrow> ok P (obind (Some (count_free bs n j s)) f)"
  by (rule ok_any)

lemma mount_root_safe [ok_rules]: "I s \<Longrightarrow> ok I (mount_root env s)"
proof -
  have m: "I (s\<lparr>sb := (sb s')\<lparr>s_isup := a, s_imount := b\<rparr>\<rparr>)" if "I s" "I s'" for s s' a b
    using that sized [of s'] by (auto intro!: set_super simp: shaped_def)
  have f: "I (fold (\<lambda>f. upd_file f g) fs s)" if "I s" for fs g s
    using that by (simp add: fold_frame)
  show "I s \<Longrightarrow> ok I (mount_root env s)"
    unfolding mount_root_def Let_def by (auto simp: m f intro!: ok_rules count_free_any)
qed

lemma nr_hd_frame [simp]: "nr_hd (fold no_disk xs s) = nr_hd s" "nr_hd (fold (\<lambda>i. log_fs txt) xs s) = nr_hd s"
  by (induction xs arbitrary: s) (simp_all add: no_disk_def)

lemma disks_two: "x \<in> set [0..<unat (cmos_disks d)] \<Longrightarrow> x = 0 \<or> x = Suc 0"
  by (auto simp: cmos_disks_def split: if_splits)

lemma sys_setup_safe [ok_rules]: "I s \<Longrightarrow> ok (on2 I) (sys_setup env BIOS s)"
  unfolding sys_setup_def Let_def
  by (auto simp: fold_frame simp del: set_upt dest: disks_two intro!: read_partitions_safe ok_rules ok_any [where ?'a = timers])

text \<open>\<open>waitpid\<close> works on the processes of the state.\<close>

lemma of_procfs_safe [simp]: "I (of_procfs p) = I (p_fs p)"
  by (simp add: of_procfs_def)

lemma to_procfs_safe [simp]: "p_fs (to_procfs s) = s"
  by (simp add: to_procfs_def)

abbreviation kept :: "procfs \<Rightarrow> bool" where "kept p \<equiv> I (p_fs p)"

lemma set_pk_kept [simp]: "p_fs (set_pk k p) = p_fs p"
  by (simp add: set_pk_def)

lemma release_kept:
  "(\<And>q. kept q \<Longrightarrow> kept (e q)) \<Longrightarrow> kept q \<Longrightarrow> returns kept (release e p q)"
  by (auto simp: release_def Let_def kbind_def split: option.split sum.split)

lemma reap_kept:
  assumes "\<And>q. kept q \<Longrightarrow> kept (e q)" "kept q"
  shows "returns (\<lambda>r. kept (snd r)) (kbind (release e p q) (\<lambda>q. Inr (Inr v, q)))"
  by (rule ret_kbind [OF release_kept [OF assms]]) auto

lemma wait_loop_kept:
  assumes e: "\<And>q. kept q \<Longrightarrow> kept (e q)"
  shows "kept q \<Longrightarrow> ok (\<lambda>r. kept (snd r)) (wait_loop e pid addr options flag p q)"
proof -
  have "\<forall>flag p q. kept q \<longrightarrow> ok (\<lambda>r. kept (snd r)) (wait_loop e pid addr options flag p q)"
    by (rule wait_loop.fixp_induct, unfold curry_def Let_def, intro adm_rules) (auto intro!: ok_rules reap_kept e)
  then show "kept q \<Longrightarrow> ?thesis" by blast
qed

lemma ok_bind: "ok Q m \<Longrightarrow> (\<And>r. returns Q r \<Longrightarrow> ok P (f r)) \<Longrightarrow> ok P (Option.bind m f)"
  by (cases m) auto

lemma waitpid_loop_kept:
  assumes e: "\<And>n q. kept q \<Longrightarrow> kept (e n q)"
  shows "kept q \<Longrightarrow> ok (\<lambda>r. kept (snd r)) (waitpid_loop e n pid addr options q)"
proof -
  have "\<forall>n q. kept q \<longrightarrow> ok (\<lambda>r. kept (snd r)) (waitpid_loop e n pid addr options q)"
    by (rule waitpid_loop.fixp_induct, unfold curry_def Let_def, intro adm_rules)
      (auto intro!: ok_bind [OF wait_loop_kept] e simp: e split: sum.split)
  then show "kept q \<Longrightarrow> ?thesis" by blast
qed

lemma waitpid_safe [ok_rules]: "I s \<Longrightarrow> ok (on2 I) (waitpid_fs env pid addr options s)"
  unfolding waitpid_fs_def sys_waitpid_def
  by (rule ok_obind [where Q = "\<lambda>r. kept (snd r)"]) (auto intro!: waitpid_loop_kept)

lemma fork_state:
  assumes "I s" "I t"
  shows "I (s\<lparr>fu := m, fverified := v, fm := mm, files := c, inodes := (\<lambda>p. (inodes t p)\<lparr>i_count := d p\<rparr>), sys_gdt := g\<rparr>)"
proof -
  have "I (s\<lparr>inodes := (\<lambda>p. (inodes t p)\<lparr>i_count := d p\<rparr>)\<rparr>)"
    using sized [OF assms(2)] by (intro set_inodes assms(1)) (simp add: shaped_def)
  then show ?thesis by (subst same [where s = "s\<lparr>inodes := (\<lambda>p. (inodes t p)\<lparr>i_count := d p\<rparr>)\<rparr>"]) simp_all
qed

lemma fork_safe [ok_rules]: "I s \<Longrightarrow> ok (on2 I) (sys_fork r s)"
  unfolding sys_fork_def Let_def
  by (auto intro!: ok_any [where ?'a = "u32 \<times> fproc"] fork_state split: option.split)

lemma user_frame [simp]: "I (s\<lparr>fu := m, fverified := v\<rparr>) = I s"
  by (rule same) simp_all

lemma on_parts_safe [ok_rules]:
  "I s \<Longrightarrow> ok (on2 I) (on_kern f s)" "I s \<Longrightarrow> ok (on2 I) (on_kres g s)"
  "I s \<Longrightarrow> ok (on2 I) (on_user h s)" "I s \<Longrightarrow> ok (on2 I) (store_time a s)"
  unfolding on_kern_def on_user_def store_time_def on_kres_def
  by (auto split: prod.split intro!: ok_any [where ?'a = "u32 \<times> kern"])

lemma resume_safe: "ok (on2 I) m \<Longrightarrow> ok (on2 I) (resume r m)"
  unfolding resume_def by (rule ok_seq2) auto

lemma dupfd_calls_safe [simp]:
  "I s \<Longrightarrow> I (snd (sys_dup fd s))" "I s \<Longrightarrow> I (snd (sys_fcntl fd cmd arg s))"
  "I s \<Longrightarrow> I (snd (sys_fstat env fd buf s))"
  by (auto simp: sys_dup_def sys_fcntl_def sys_fstat_def dupfd_safe Let_def split: fcntl_cmd.split)

lemma run_call_safe: "I s \<Longrightarrow> ok (on2 I) (run_call env mmu f r s)"
  by (cases f) (auto simp: sys_execve_def intro!: ok_rules resume_safe)

lemma system_call_safe: "I s \<Longrightarrow> ok (on2 I) (system_call env mmu r s)"
  unfolding system_call_def Let_def by (auto intro!: ok_rules run_call_safe)

end

end
