(* ===== verification/Traps.thy ===== *)
theory Traps
  imports Exits Vsprintf
begin

text \<open>
  What the kernel says: \<open>printk\<close> (\<open>kernel/printk.c\<close>), \<open>panic\<close> (\<open>kernel/panic.c\<close>) and the traps of the processor
  (\<open>kernel/traps.c\<close>). \<open>printk\<close> finds its arguments on the kernel's stack, formats them into a buffer of the kernel and
  writes that to the terminal as if \<open>fs\<close> were the kernel's segment. In the other theories a message is logged by its
  format string; here it is printed. \<open>panic\<close> and \<open>die\<close> never return: the result is the state in which they loop.
\<close>

section \<open>printk\<close>

text \<open>Where the buffer of \<open>printk\<close>, the arguments and a string constant are in memory.\<close>

record kernel_places =
  k_buf :: u32
  k_sp :: u32
  k_text :: u32

fun store_args :: "u32 list \<Rightarrow> u32 \<Rightarrow> bmem \<Rightarrow> bmem" where
  "store_args [] a m = m"
| "store_args (v # vs) a m = store_args vs (a + 4) (put_fs_long v a m)"

definition printk :: "environment \<Rightarrow> kernel_places \<Rightarrow> string \<Rightarrow> u32 list \<Rightarrow> fsys \<Rightarrow> (u32 \<times> fsys) kres option" where
  "printk env k fmt args s =
     (case vsprintf (map of_char fmt) (k_sp k) (store_args args (k_sp k) (phys (fm s))) of None \<Rightarrow> None
      | Some (n, out, m) \<Rightarrow>
          let m = store_bytes out (k_buf k) m in
          obind (tty_write (con_fuel env) 0 (k_buf k) n ((tty_of s)\<lparr>s_user := m\<rparr>)) (\<lambda>(r, t).
          Some (Inr (n, (with_tty t s)\<lparr>fu := fu s, fm := (fm s)\<lparr>phys := m\<rparr>\<rparr>))))"

definition nl :: string where "nl = [CHR 0x0A, CHR 0x0D]"
definition ht :: string where "ht = [CHR 0x09]"

fun print_all :: "environment \<Rightarrow> kernel_places \<Rightarrow> (string \<times> u32 list) list \<Rightarrow> fsys \<Rightarrow> fsys kres option" where
  "print_all env k [] s = Some (Inr s)"
| "print_all env k ((fmt, args) # ps) s = obind (printk env k fmt args s) (\<lambda>(n, s). print_all env k ps s)"

text \<open>A string constant of the kernel, put where \<open>%s\<close> reads it.\<close>

definition with_text :: "kernel_places \<Rightarrow> string \<Rightarrow> fsys \<Rightarrow> fsys" where
  "with_text k txt s = s\<lparr>fm := (fm s)\<lparr>phys := store_bytes (map of_char txt @ [0]) (k_text k) (phys (fm s))\<rparr>\<rparr>"

definition panic :: "environment \<Rightarrow> kernel_places \<Rightarrow> string \<Rightarrow> fsys \<Rightarrow> fsys kres option" where
  "panic env k txt s =
     obind (printk env k (''Kernel panic: %s'' @ nl) [k_text k] (with_text k txt s)) (\<lambda>(n, s).
     if current (fk s) = task (fk s) ! 0
     then obind (printk env k (''In swapper task - not syncing'' @ nl) [] s) (\<lambda>(n, s). Some (Inr s))
     else obind (sys_sync env s) (\<lambda>(r, s). Some (Inr s)))"

text \<open>A terminal that is ready to print, and text that does not ask the console for an answer.\<close>

definition ready_tty :: "fsys \<Rightarrow> bool" where
  "ready_tty s \<longleftrightarrow> queue_inv (write_q (sys_tty s)) \<and> q_list (write_q (sys_tty s)) = [] \<and> \<not> sys_cr_flag s \<and>
     c_state (sys_con s) = ESnormal"

definition plain_text :: "u8 list \<Rightarrow> bool" where
  "plain_text cs \<longleftrightarrow> (\<forall>c\<in>set cs. unat c < 128 \<and> c \<noteq> 27)"

lemma plain_text_simps [simp]:
  "plain_text []" "plain_text (c # cs) \<longleftrightarrow> unat c < 128 \<and> c \<noteq> 27 \<and> plain_text cs"
  "plain_text (cs @ ds) \<longleftrightarrow> plain_text cs \<and> plain_text ds"
  by (auto simp: plain_text_def)

lemma store_put: "store_bytes bs a m = put_bytes bs a m"
  by (induction bs arbitrary: a m) (simp_all add: put_bytes_Cons put_fs_byte_def)

lemma stored_text: "length cs < 2 ^ 32 \<Longrightarrow> get_bytes (length cs) a (store_bytes (cs @ [0]) a m) = cs"
proof -
  assume "length cs < 2 ^ 32"
  then have "get_bytes (length (cs @ [0])) a (put_bytes (cs @ [0]) a m) = cs @ [0]" by (intro put_bytes_get) simp
  then have "take (length cs) (get_bytes (length (cs @ [0])) a (put_bytes (cs @ [0]) a m)) = cs" by simp
  then show ?thesis by (simp add: store_put get_bytes_def take_map)
qed

lemma cooked_plain: "unat c < 128 \<Longrightarrow> c \<noteq> 27 \<Longrightarrow> 27 \<notin> set (cooked_out t c) \<and> length (cooked_out t c) \<le> 2"
proof -
  assume c: "unat c < 128" "c \<noteq> 27"
  define d where "d = output_char t c"
  have d: "d \<noteq> 27" using c by (simp add: d_def output_char_def)
  have "d - 32 \<noteq> 27" if "97 \<le> unat d"
  proof
    assume "d - 32 = 27"
    then have "d = 59" by (simp add: algebra_simps)
    then show False using that by simp
  qed
  then show ?thesis using c d by (auto simp: cooked_out_def Let_def d_def [symmetric])
qed

lemma cooked_texts:
  "plain_text cs \<Longrightarrow> 27 \<notin> set (concat (map (cooked_out t) cs)) \<and> length (concat (map (cooked_out t) cs)) \<le> 2 * length cs"
proof (induction cs)
  case (Cons c cs)
  then show ?case using cooked_plain [of c t] by auto
qed simp

lemma printk_returns:
  assumes v: "vsprintf_loop (store_args args (k_sp k) (phys (fm s))) (map of_char fmt) (k_sp k) [] = Some (out, m)"
    and t: "plain_text out" "length out \<le> 500" "ready_tty s" "1000 < con_fuel env"
  shows "\<exists>s'. printk env k fmt args s = Some (Inr (of_nat (length out), s')) \<and> ready_tty s'"
proof -
  define u where "u = (tty_of s)\<lparr>s_user := store_bytes (out @ [0]) (k_buf k) m\<rparr>"
  have g: "get_bytes (length out) (k_buf k) (s_user u) = out" using stored_text [of out] t(2) by (simp add: u_def)
  define cs where "cs = concat (map (cooked_out (s_tty u)) (get_bytes (length out) (k_buf k) (s_user u)))"
  have cs: "27 \<notin> set cs" "length cs \<le> 1000" using cooked_texts [OF t(1), of "s_tty u"] t(2) by (simp_all add: cs_def g)
  have st: "c_state (s_con u) = ESnormal" using t(3) by (simp add: u_def ready_tty_def tty_of_def)
  have r: "queue_inv (write_q (s_tty u))" "q_list (write_q (s_tty u)) = []" "\<not> s_cr_flag u"
    using t(3) by (simp_all add: u_def ready_tty_def tty_of_def)
  have asc: "O_LCUC (s_tty u) \<Longrightarrow> \<forall>c\<in>set (get_bytes (length out) (k_buf k) (s_user u)). unat c < 128"
    using t(1) by (simp add: g plain_text_def)
  note q = plain_quiet [OF st cs(1)]
  obtain q' where w: "tty_write (con_fuel env) 0 (k_buf k) (of_nat (length out)) u = Some (Inr (of_nat (length out),
      u\<lparr>s_tty := (s_tty u)\<lparr>write_q := q'\<rparr>, s_con := con_flush (run_chars cs (s_con u)), s_cr_flag := False\<rparr>))"
    "queue_inv q'" "q_list q' = []"
    using tty_write_quiet [OF r asc cs_def, of "con_fuel env"] cs(2) q t(4) by auto
  have "c_state (con_flush (run_chars cs (s_con u))) = ESnormal" using q by (simp add: con_flush_def set_cursor_def gotoxy_def)
  then show ?thesis using w v
    by (simp add: printk_def vsprintf_def u_def [symmetric] ready_tty_def with_tty_def)
qed

section \<open>The traps\<close>

text \<open>The memory a selector stands for: 0xf and 0x17 are the user's code and data, all others the kernel's.\<close>

definition seg_mem :: "u32 \<Rightarrow> fsys \<Rightarrow> bmem" where
  "seg_mem sel s = (if sel = 0x0f \<or> sel = 0x17 then fu s else phys (fm s))"

definition get_seg_byte :: "u32 \<Rightarrow> u32 \<Rightarrow> fsys \<Rightarrow> u8" where
  "get_seg_byte seg addr s = get_fs_byte addr (seg_mem seg s)"

definition get_seg_long :: "u32 \<Rightarrow> u32 \<Rightarrow> fsys \<Rightarrow> u32" where
  "get_seg_long seg addr s = get_fs_long addr (seg_mem seg s)"

text \<open>\<open>esp i\<close> is the word \<open>i\<close> behind the saved registers: \<open>eip\<close>, \<open>cs\<close>, the flags, the user's \<open>esp\<close> and \<open>ss\<close>. The entries
  in \<open>kernel/asm.S\<close> have set \<open>fs\<close> to 0x10.\<close>

definition die :: "environment \<Rightarrow> kernel_places \<Rightarrow> string \<Rightarrow> u32 \<Rightarrow> u32 \<Rightarrow> fsys \<Rightarrow> fsys kres option" where
  "die env k str esp_ptr nr s =
     (let esp = (\<lambda>i. get_fs_long (esp_ptr + 4 * of_nat i) (phys (fm s))); ldt = t_ldt (cur (fk s)) in
      print_all env k
        ([(nl @ ''%s: %04x'' @ nl, [k_text k, nr AND 0xffff]),
          (''EIP:'' @ ht @ ''%04x:%p'' @ nl @ ''EFLAGS:'' @ ht @ ''%p'' @ nl @ ''ESP:'' @ ht @ ''%04x:%p'' @ nl,
             [esp 1, esp 0, esp 2, esp 4, esp 3]),
          (''fs: %04x'' @ nl, [0x10]),
          (''base: %p, limit: %p'' @ nl, [get_base (ldt ! 1), get_limit (ldt ! 2)])] @
         (if esp 4 = 0x17
          then [(''Stack: '', [])] @ map (\<lambda>i. (''%p '', [get_seg_long 0x17 (esp 3 + 4 * of_nat i) s])) [0..<4] @ [(nl, [])]
          else []) @
         map (\<lambda>i. (''%02x '', [ucast (get_seg_byte (esp 1) (esp 0 + of_nat i) s)])) [0..<10] @
         [(nl, [])])
        (with_text k str s))"

datatype trap = Divide_error | Debug | Nmi | Int3 | Overflow | Bounds | Invalid_op | Double_fault
  | Coprocessor_segment_overrun | Invalid_TSS | Segment_not_present | Stack_segment | General_protection | Page_fault
  | Reserved | Alignment_check

text \<open>The message of the handler each entry of \<open>kernel/asm.S\<close> calls. Both the debug and the breakpoint trap call \<open>do_int3\<close>;
  the page fault has a handler of its own.\<close>

fun trap_message :: "trap \<Rightarrow> string option" where
  "trap_message Divide_error = Some ''divide error''"
| "trap_message Nmi = Some ''nmi''"
| "trap_message Overflow = Some ''overflow''"
| "trap_message Bounds = Some ''bounds''"
| "trap_message Invalid_op = Some ''invalid_op''"
| "trap_message Double_fault = Some ''double fault''"
| "trap_message Coprocessor_segment_overrun = Some ''coprocessor segment overrun''"
| "trap_message Invalid_TSS = Some ''invalid tss''"
| "trap_message Segment_not_present = Some ''segment not present''"
| "trap_message Stack_segment = Some ''stack segment''"
| "trap_message General_protection = Some ''general protection''"
| "trap_message Reserved = Some ''reserved (15,17-47) error''"
| "trap_message Alignment_check = Some ''alignment check''"
| "trap_message t = None"

text \<open>\<open>do_int3\<close> prints the registers and returns; \<open>tr\<close> is the processor's task register.\<close>

definition do_int3 :: "environment \<Rightarrow> kernel_places \<Rightarrow> u32 \<Rightarrow> regs \<Rightarrow> u32 \<Rightarrow> u32 \<Rightarrow> u32 \<Rightarrow> u32 \<Rightarrow> fsys \<Rightarrow> fsys kres option" where
  "do_int3 env k esp_ptr r ebp esi edi tr s =
     (let esp = (\<lambda>i. get_fs_long (esp_ptr + 4 * of_nat i) (phys (fm s))) in
      print_all env k
        [(''eax'' @ ht @ ht @ ''ebx'' @ ht @ ht @ ''ecx'' @ ht @ ht @ ''edx'' @ nl @ ''%8x'' @ ht @ ''%8x'' @ ht @
            ''%8x'' @ ht @ ''%8x'' @ nl, [r_eax r, r_ebx r, r_ecx r, r_edx r]),
         (''esi'' @ ht @ ht @ ''edi'' @ ht @ ht @ ''ebp'' @ ht @ ht @ ''esp'' @ nl @ ''%8x'' @ ht @ ''%8x'' @ ht @
            ''%8x'' @ ht @ ''%8x'' @ nl, [esi, edi, ebp, esp_ptr]),
         (nl @ ''ds'' @ ht @ ''es'' @ ht @ ''fs'' @ ht @ ''tr'' @ nl @ ''%4x'' @ ht @ ''%4x'' @ ht @ ''%4x'' @ ht @ ''%4x'' @ nl,
            [r_ds r, r_es r, r_fs r, tr]),
         (''EIP: %8x   CS: %4x  EFLAGS: %8x'' @ nl, [esp 0, esp 1, esp 2])] s)"

text \<open>\<open>page_fault\<close> of \<open>mm/page.S\<close>: bit 0 of the error code tells a missing page from a protected one.\<close>

definition page_fault :: "environment \<Rightarrow> u32 \<Rightarrow> u32 \<Rightarrow> fsys \<Rightarrow> fsys kres option" where
  "page_fault env cr2 error_code s =
     (if error_code AND 1 = 0 then do_no_page env cr2 s
      else obind (Some (do_wp_page error_code cr2 (fm s))) (\<lambda>m. Some (Inr (s\<lparr>fm := m\<rparr>))))"

definition do_trap :: "environment \<Rightarrow> kernel_places \<Rightarrow> trap \<Rightarrow> u32 \<Rightarrow> u32 \<Rightarrow> u32 \<Rightarrow> regs \<Rightarrow> u32 \<Rightarrow> u32 \<Rightarrow> u32 \<Rightarrow> u32 \<Rightarrow> fsys \<Rightarrow>
    fsys kres option" where
  "do_trap env k t esp error_code cr2 r ebp esi edi tr s =
     (case trap_message t of
        Some txt \<Rightarrow> die env k txt esp error_code s
      | None \<Rightarrow> if t = Page_fault then page_fault env cr2 error_code s else do_int3 env k esp r ebp esi edi tr s)"

section \<open>The gates\<close>

text \<open>\<open>at t\<close> is the address of the entry of a trap. The numbers 7 and 16 get no gate.\<close>

definition trap_init :: "(trap \<Rightarrow> u32) \<Rightarrow> (nat \<Rightarrow> desc) \<Rightarrow> nat \<Rightarrow> desc" where
  "trap_init at idt =
     fold (\<lambda>(n, d) idt. idt(n := d))
       ([(0, set_trap_gate (at Divide_error)), (1, set_trap_gate (at Debug)), (2, set_trap_gate (at Nmi)),
         (3, set_system_gate (at Int3)), (4, set_system_gate (at Overflow)), (5, set_system_gate (at Bounds)),
         (6, set_trap_gate (at Invalid_op)), (8, set_trap_gate (at Double_fault)),
         (9, set_trap_gate (at Coprocessor_segment_overrun)), (10, set_trap_gate (at Invalid_TSS)),
         (11, set_trap_gate (at Segment_not_present)), (12, set_trap_gate (at Stack_segment)),
         (13, set_trap_gate (at General_protection)), (14, set_trap_gate (at Page_fault)),
         (15, set_trap_gate (at Reserved)), (17, set_trap_gate (at Alignment_check))] @
        map (\<lambda>n. (n, set_trap_gate (at Reserved))) [18..<48]) idt"

section \<open>Who may raise them\<close>

text \<open>The privilege and the address in a gate.\<close>

definition gate_dpl :: "desc \<Rightarrow> u32" where "gate_dpl d = drop_bit 13 (snd d) AND 3"

definition gate_offset :: "desc \<Rightarrow> u32" where "gate_offset d = (fst d AND 0xffff) OR (snd d AND 0xffff0000)"

lemma both_parts: "(a AND 0xffff) OR (a AND 0xffff0000) = (a :: u32)"
proof -
  have "(a AND mask 16) OR (a AND push_bit 16 (mask 16)) = a"
    by (intro bit_word_eqI) (auto simp: bit_simps)
  then show ?thesis by (simp add: mask_eq_exp_minus_1 push_bit_eq_mult)
qed

lemma gate_dpl_set: "gate_dpl (set_gate 15 0 a) = 0" "gate_dpl (set_gate 15 3 a) = 3"
  by (simp_all add: gate_dpl_def set_gate_def drop_bit_or bit.conj_disj_distrib2 and.assoc)

lemma gate_offset_set: "gate_offset (set_gate 15 0 a) = a" "gate_offset (set_gate 15 3 a) = a"
  by (simp_all add: gate_offset_def set_gate_def bit.conj_disj_distrib2 both_parts and.assoc)

text \<open>The list of gates as a function.\<close>

lemma fill_gates: "fold (\<lambda>(n, d) idt. idt(n := d)) (map (\<lambda>n. (n, d)) ns) f n = (if n \<in> set ns then d else f n)"
  by (induction ns arbitrary: f) auto

lemma trap_init_high: "n < 48 \<Longrightarrow> 18 \<le> n \<Longrightarrow> trap_init at idt n = set_trap_gate (at Reserved)"
  unfolding trap_init_def fold_append o_apply fill_gates by (simp del: upt_rec_numeral)

lemma trap_init_low:
  assumes "n < 18" "n \<noteq> 7" "n \<noteq> 16"
  shows "\<exists>t. trap_init at idt n = (if n = 3 \<or> n = 4 \<or> n = 5 then set_system_gate (at t) else set_trap_gate (at t))"
proof -
  have "n \<in> {0, 1, 2, 3, 4, 5, 6, 8, 9, 10, 11, 12, 13, 14, 15, 17}" using assms by (simp, presburger)
  moreover have "n \<notin> set [18..<48]" using assms(1) by (simp del: upt_rec_numeral)
  ultimately show ?thesis
    unfolding trap_init_def fold_append o_apply fill_gates by (auto simp del: upt_rec_numeral)
qed

text \<open>C39: After \<open>trap_init\<close> the first 48 interrupts have gates, 7 and 16 excepted, and a program can raise none of them
  by itself but 3, 4 and 5.\<close>

theorem trap_gates_privilege:
  assumes "n < 48" "n \<noteq> 7" "n \<noteq> 16"
  shows "gate_dpl (trap_init at idt n) = (if n \<in> {3, 4, 5} then 3 else 0) \<and> gate_offset (trap_init at idt n) \<in> range at"
proof (cases "18 \<le> n")
  case True
  then show ?thesis using trap_init_high [of n at idt] assms(1) by (simp add: set_trap_gate_def gate_dpl_set gate_offset_set)
next
  case False
  then obtain t where "trap_init at idt n = (if n = 3 \<or> n = 4 \<or> n = 5 then set_system_gate (at t) else set_trap_gate (at t))"
    using trap_init_low [of n at idt] assms by auto
  then show ?thesis by (auto simp: set_trap_gate_def set_system_gate_def gate_dpl_set gate_offset_set)
qed

theorem trap_gates_privilege_witness:
  "gate_dpl (trap_init (\<lambda>_. 0x1234) (\<lambda>_. (0, 0)) 14) = 0 \<and> gate_dpl (trap_init (\<lambda>_. 0x1234) (\<lambda>_. (0, 0)) 3) = 3"
  using trap_gates_privilege [of 14 "\<lambda>_. 0x1234" "\<lambda>_. (0, 0)"] trap_gates_privilege [of 3 "\<lambda>_. 0x1234" "\<lambda>_. (0, 0)"] by simp

end
