(* ===== verification/Kboard.thy ===== *)
theory Kboard
  imports Tty
begin

text \<open>
  The keyboard, \<open>kernel/chr_drv/kboard.c\<close>: from the scan code of the interrupt to the characters put into
  \<open>read_q\<close>. \<open>kbd\<close> holds the variables \<open>scan_code\<close>, \<open>leds\<close>, \<open>mode\<close> and \<open>e0\<close>, the bytes written to port
  \<open>0x60\<close>, and the number of times the status port \<open>0x64\<close> has been read; what the \<open>n\<close>-th read of that port
  gives is \<open>status n\<close>, the behaviour of the keyboard controller. \<open>kb_wait\<close> polls the port and may never
  return, so the handler is partial.
\<close>

record kbd =
  scan_code :: u8
  leds :: u8
  kmode :: u8
  e0 :: u8
  kb_out :: "u8 list"
  kb_reads :: nat

datatype key_fn = Do_self | Ctrl | Unctrl | Lshift | Rshift | Unlshift | Unrshift | Alt | Unalt | Caps | Uncaps
  | Fkey | Num | Scroll | Cursor | Minus | No_key

section \<open>Tables\<close>

definition key_table :: "key_fn list" where
  "key_table =
     No_key # replicate 0x1C Do_self @ [Ctrl] @ replicate 12 Do_self @ [Lshift] @ replicate 10 Do_self @
     [Minus, Rshift, Do_self, Alt, Do_self, Caps] @ replicate 10 Fkey @ [Num, Scroll, Cursor, Cursor, Cursor,
      Do_self, Cursor, Cursor, Cursor, Do_self, Cursor, Cursor, Cursor, Cursor, Cursor, No_key, No_key, Do_self,
      Fkey, Fkey] @ replicate 0x44 No_key @ [Unctrl] @ replicate 12 No_key @ [Unlshift] @ replicate 11 No_key @
     [Unrshift, No_key, Unalt, No_key, Uncaps] @ replicate 0x45 No_key"

definition chars :: "string \<Rightarrow> u8 list" where "chars s = map of_char s"

definition key_map :: "u8 list" where
  "key_map =
     [0, 27] @ chars ''1234567890-='' @ [127, 9] @ chars ''qwertyuiop[]'' @ [10, 0] @ chars ''asdfghjkl;'' @
     [39] @ chars ''`'' @ [0, 92] @ chars ''zxcvbnm,./'' @ [0, ch CHR ''*'', 0, 32] @ replicate 16 0 @
     [ch CHR ''-'', 0, 0, 0, ch CHR ''+''] @ replicate 7 0 @ [ch CHR ''>''] @ replicate 40 0"

definition shift_map :: "u8 list" where
  "shift_map =
     [0, 27] @ chars ''!@#$%^&*()_+'' @ [127, 9] @ chars ''QWERTYUIOP{}'' @ [10, 0] @ chars ''ASDFGHJKL:'' @
     [34] @ chars ''~'' @ [0] @ chars ''|ZXCVBNM<>?'' @ [0, ch CHR ''*'', 0, 32] @ replicate 16 0 @
     [ch CHR ''-'', 0, 0, 0, ch CHR ''+''] @ replicate 7 0 @ [ch CHR ''>''] @ replicate 40 0"

lemma lengths: "length key_table = 256" "length key_map = 0x7f" "length shift_map = 0x7f"
  by (simp_all add: key_table_def key_map_def shift_map_def chars_def)

section \<open>The light-emitting diodes\<close>

partial_function (option) kb_wait :: "(nat \<Rightarrow> u8) \<Rightarrow> nat \<Rightarrow> nat option" where
  "kb_wait status n = (if status n = 2 then Some (n + 1) else kb_wait status (n + 1))"

definition set_leds :: "(nat \<Rightarrow> u8) \<Rightarrow> kbd \<Rightarrow> kbd option" where
  "set_leds status k =
     (case kb_wait status (kb_reads k) of None \<Rightarrow> None
      | Some n \<Rightarrow> (case kb_wait status n of None \<Rightarrow> None
          | Some n' \<Rightarrow> Some (k\<lparr>kb_reads := n', kb_out := kb_out k @ [0xed, leds k]\<rparr>)))"

definition caps :: "(nat \<Rightarrow> u8) \<Rightarrow> kbd \<Rightarrow> kbd option" where
  "caps status k =
     (if kmode k AND 0x80 \<noteq> 0 then Some k
      else set_leds status (k\<lparr>leds := leds k XOR 0x4, kmode := (kmode k XOR 0x40) OR 0x80\<rparr>))"

definition uncaps :: "kbd \<Rightarrow> kbd" where "uncaps k = k\<lparr>kmode := kmode k AND 0x7f\<rparr>"

definition scroll :: "(nat \<Rightarrow> u8) \<Rightarrow> kbd \<Rightarrow> kbd option" where
  "scroll status k = set_leds status (k\<lparr>leds := leds k XOR 0x1\<rparr>)"

definition num :: "(nat \<Rightarrow> u8) \<Rightarrow> kbd \<Rightarrow> kbd option" where
  "num status k = set_leds status (k\<lparr>leds := leds k XOR 0x2\<rparr>)"

section \<open>Shift and control\<close>

definition lshift :: "kbd \<Rightarrow> kbd" where "lshift k = k\<lparr>kmode := kmode k OR 0x1\<rparr>"
definition unlshift :: "kbd \<Rightarrow> kbd" where "unlshift k = k\<lparr>kmode := kmode k AND 0xfe\<rparr>"
definition rshift :: "kbd \<Rightarrow> kbd" where "rshift k = k\<lparr>kmode := kmode k OR 0x2\<rparr>"
definition unrshift :: "kbd \<Rightarrow> kbd" where "unrshift k = k\<lparr>kmode := kmode k AND 0xfd\<rparr>"

definition ctrl :: "kbd \<Rightarrow> kbd" where
  "ctrl k = (if e0 k \<noteq> 0 then k\<lparr>kmode := kmode k OR 0x8\<rparr> else k\<lparr>kmode := kmode k OR 0x4\<rparr>)"

definition unctrl :: "kbd \<Rightarrow> kbd" where
  "unctrl k = (if e0 k \<noteq> 0 then k\<lparr>kmode := kmode k AND 0xf7\<rparr> else k\<lparr>kmode := kmode k AND 0xfb\<rparr>)"

section \<open>Characters\<close>

text \<open>The character of a key with the modifiers; a zero in the map is "no character".\<close>

definition modify :: "u8 \<Rightarrow> u8 \<Rightarrow> u8" where
  "modify m c =
     (if m AND 0x4c \<noteq> 0 then
        let c = (if ch CHR ''a'' \<le>s c \<and> c \<le>s ch CHR ''}'' then c - 0x20 else c)
        in if m AND 0xc \<noteq> 0 \<and> 64 \<le>s c \<and> c <s 96 then c - 0x40 else c
      else c)"

definition self_char :: "kbd \<Rightarrow> u8 option kres" where
  "self_char k =
     (let rmap = (if kmode k AND 0x3 \<noteq> 0 then shift_map else key_map) in
      if length rmap \<le> unat (scan_code k) then Inl OutOfBounds
      else
        let c = rmap ! unat (scan_code k)
        in Inr (if c = 0 then None else Some (modify (kmode k) c)))"

definition do_self :: "kbd \<Rightarrow> ttysys \<Rightarrow> ttysys kres" where
  "do_self k s = kbind (self_char k) (\<lambda>r. Inr (case r of None \<Rightarrow> s | Some c \<Rightarrow> put_read c s))"

definition cur_table :: "u8 list" where "cur_table = chars ''HA5 DGC YB623''"
definition num_table :: "u8 list" where "num_table = chars ''789 456 1230.''"

definition cursor :: "kbd \<Rightarrow> ttysys \<Rightarrow> kbd \<times> ttysys" where
  "cursor k s =
     (let k = k\<lparr>scan_code := scan_code k - 0x47\<rparr>; i = unat (scan_code k) in
      if 12 < scan_code k then (k, s)
      else if e0 k \<noteq> 0 \<or> leds k AND 0x2 \<noteq> 0 then
        let c = cur_table ! i
        in (k, fold put_read ((if c <s ch CHR ''9'' then [ch CHR ''~''] else []) @ [0x1b, 0x5b, c]) s)
      else (k, put_read (num_table ! i) s))"

definition fkey :: "kbd \<Rightarrow> ttysys \<Rightarrow> kbd \<times> ttysys" where
  "fkey k s =
     (let i = scan_code k - 0x3b;
          i = (if 9 < i then i - 18 else i);
          k = k\<lparr>scan_code := i\<rparr>
      in if 11 < i then (k, s) else (k, fold put_read [0x1b, 0x5b, 0x5b, ch CHR ''A'' + i] s))"

definition minus_key :: "kbd \<Rightarrow> ttysys \<Rightarrow> ttysys kres" where
  "minus_key k s = (if e0 k = 1 then Inr (put_read (ch CHR ''/'') s) else do_self k s)"

section \<open>The handler\<close>

definition run_key :: "(nat \<Rightarrow> u8) \<Rightarrow> key_fn \<Rightarrow> kbd \<times> ttysys \<Rightarrow> (kbd \<times> ttysys) kres option" where
  "run_key status f ks =
     (let (k, s) = ks;
          lights = (\<lambda>r. case r of None \<Rightarrow> None | Some k \<Rightarrow> Some (Inr (k, s)))
      in case f of
        Do_self \<Rightarrow> Some (kbind (do_self k s) (\<lambda>s. Inr (k, s)))
      | Minus \<Rightarrow> Some (kbind (minus_key k s) (\<lambda>s. Inr (k, s)))
      | Ctrl \<Rightarrow> Some (Inr (ctrl k, s)) | Unctrl \<Rightarrow> Some (Inr (unctrl k, s))
      | Lshift \<Rightarrow> Some (Inr (lshift k, s)) | Unlshift \<Rightarrow> Some (Inr (unlshift k, s))
      | Rshift \<Rightarrow> Some (Inr (rshift k, s)) | Unrshift \<Rightarrow> Some (Inr (unrshift k, s))
      | Caps \<Rightarrow> lights (caps status k) | Uncaps \<Rightarrow> Some (Inr (uncaps k, s))
      | Num \<Rightarrow> lights (num status k) | Scroll \<Rightarrow> lights (scroll status k)
      | Cursor \<Rightarrow> Some (Inr (cursor k s)) | Fkey \<Rightarrow> Some (Inr (fkey k s))
      | Alt \<Rightarrow> Some (Inr ks) | Unalt \<Rightarrow> Some (Inr ks) | No_key \<Rightarrow> Some (Inr ks))"

text \<open>\<open>take_code\<close> is the handler up to its call of \<open>do_tty_interrupt\<close>.\<close>

definition take_code :: "(nat \<Rightarrow> u8) \<Rightarrow> u8 \<Rightarrow> kbd \<times> ttysys \<Rightarrow> (kbd \<times> ttysys) kres option" where
  "take_code status code ks =
     (let (k, s) = ks; k = k\<lparr>scan_code := code\<rparr> in
      if code = 0xE0 then Some (Inr (k\<lparr>e0 := 1\<rparr>, s))
      else if code = 0xE1 then Some (Inr (k\<lparr>e0 := 2\<rparr>, s))
      else run_key status (key_table ! unat code) (k, s))"

definition keyboard_handler :: "nat \<Rightarrow> (nat \<Rightarrow> u8) \<Rightarrow> u8 \<Rightarrow> kbd \<times> ttysys \<Rightarrow> (kbd \<times> ttysys) kres option" where
  "keyboard_handler n status code ks =
     obind (take_code status code ks) (\<lambda>(k, s). obind (do_tty_interrupt n 0 s) (\<lambda>s. Some (Inr (k, s))))"

section \<open>The modifiers\<close>

text \<open>What the keys pressed so far say: \<open>held p cs\<close>, the key of code \<open>p\<close> is down; \<open>caps_on cs\<close>, the capitals
  lock is on (a key that repeats while it is down counts once).\<close>

definition held :: "u8 \<Rightarrow> u8 list \<Rightarrow> bool" where
  "held p cs = fold (\<lambda>c h. if c = p then True else if c = p + 0x80 then False else h) cs False"

definition caps_on :: "u8 list \<Rightarrow> bool" where
  "caps_on cs = fst (fold (\<lambda>c (on, down). if c = 0x3A then (if down then on else \<not> on, True)
     else if c = 0xBA then (on, False) else (on, down)) cs (False, False))"

definition mode_of :: "u8 list \<Rightarrow> u8" where
  "mode_of cs =
     (if held 0x2A cs then 1 else 0) OR (if held 0x36 cs then 2 else 0) OR (if held 0x1D cs then 4 else 0)
     OR (if caps_on cs then 0x40 else 0) OR (if held 0x3A cs then 0x80 else 0)"

fun take_codes :: "(nat \<Rightarrow> u8) \<Rightarrow> u8 list \<Rightarrow> kbd \<times> ttysys \<Rightarrow> (kbd \<times> ttysys) kres option" where
  "take_codes status [] ks = Some (Inr ks)"
| "take_codes status (c # cs) ks = obind (take_code status c ks) (take_codes status cs)"

lemma caps_down: "snd (fold (\<lambda>c (on, down). if c = 0x3A then (if down then on else \<not> on, True)
     else if c = 0xBA then (on, False) else (on, down)) cs (False, False)) = held 0x3A cs"
  by (induction cs rule: rev_induct) (auto simp: held_def split: prod.split)

lemma held_snoc: "held p (cs @ [c]) = (if c = p then True else if c = p + 0x80 then False else held p cs)"
  by (simp add: held_def)

lemma caps_snoc: "caps_on (cs @ [c]) = (if c = 0x3A \<and> \<not> held 0x3A cs then \<not> caps_on cs else caps_on cs)"
  unfolding caps_on_def by (simp add: case_prod_beta caps_down)

text \<open>The entries of the table that are modifiers.\<close>

definition entry_ok :: "nat \<Rightarrow> key_fn \<Rightarrow> bool" where
  "entry_ok n f \<longleftrightarrow> (f = Lshift) = (n = 0x2A) \<and> (f = Unlshift) = (n = 0xAA) \<and> (f = Rshift) = (n = 0x36) \<and>
     (f = Unrshift) = (n = 0xB6) \<and> (f = Ctrl) = (n = 0x1D) \<and> (f = Unctrl) = (n = 0x9D) \<and>
     (f = Caps) = (n = 0x3A) \<and> (f = Uncaps) = (n = 0xBA) \<and> (f = Do_self \<or> f = Minus \<longrightarrow> n < 0x7f)"

definition entries_ok :: "nat \<Rightarrow> key_fn list \<Rightarrow> bool" where
  "entries_ok a fs \<longleftrightarrow> (\<forall>i < length fs. entry_ok (a + i) (fs ! i))"

lemma entries_ok_Cons: "entries_ok a (f # fs) \<longleftrightarrow> entry_ok a f \<and> entries_ok (Suc a) fs"
  by (auto simp: entries_ok_def less_Suc_eq_0_disj)

lemma entries_ok_append: "entries_ok a (fs @ gs) \<longleftrightarrow> entries_ok a fs \<and> entries_ok (a + length fs) gs"
  by (induction fs arbitrary: a) (simp_all add: entries_ok_Cons, simp add: entries_ok_def)

lemma entries_ok_replicate: "entries_ok a (replicate n f) \<longleftrightarrow> (\<forall>i < n. entry_ok (a + i) f)"
  by (simp add: entries_ok_def)

lemma entries_ok_Nil: "entries_ok a []"
  by (simp add: entries_ok_def)

lemma modifier_keys: "entry_ok (unat (c :: u8)) (key_table ! unat c)"
proof -
  have "entries_ok 0 key_table"
    by (simp add: key_table_def entries_ok_Cons entries_ok_append entries_ok_replicate entries_ok_Nil entry_ok_def)
  moreover have "unat c < 2 ^ LENGTH(8)" by (rule unsigned_less)
  ultimately show ?thesis by (simp add: entries_ok_def lengths)
qed

lemma modifier_codes:
  fixes c :: u8
  shows "key_table ! unat c = Lshift \<longleftrightarrow> c = 0x2A" "key_table ! unat c = Unlshift \<longleftrightarrow> c = 0xAA"
  "key_table ! unat c = Rshift \<longleftrightarrow> c = 0x36" "key_table ! unat c = Unrshift \<longleftrightarrow> c = 0xB6"
  "key_table ! unat c = Ctrl \<longleftrightarrow> c = 0x1D" "key_table ! unat c = Unctrl \<longleftrightarrow> c = 0x9D"
  "key_table ! unat c = Caps \<longleftrightarrow> c = 0x3A" "key_table ! unat c = Uncaps \<longleftrightarrow> c = 0xBA"
  using modifier_keys [of c] by (auto simp: entry_ok_def word_eq_iff_unsigned [where ?'a = nat])

text \<open>The controller is ready again and again.\<close>

definition answers :: "(nat \<Rightarrow> u8) \<Rightarrow> bool" where
  "answers status \<longleftrightarrow> (\<forall>n. \<exists>m \<ge> n. status m = 2)"

lemma kb_wait_returns:
  assumes "answers status"
  shows "\<exists>m. kb_wait status n = Some m"
proof -
  obtain m where m: "n \<le> m" "status m = 2" using assms by (auto simp: answers_def)
  have "\<exists>r. kb_wait status (m - d) = Some r" if "d \<le> m - n" for d
    using that
  proof (induction d)
    case 0
    then show ?case using m by (subst kb_wait.simps) simp
  next
    case (Suc d)
    then have "m - Suc d + 1 = m - d" by simp
    then show ?case using Suc by (subst kb_wait.simps) (simp del: Suc_eq_plus1)
  qed
  from this [of "m - n"] m(1) show ?thesis by simp
qed

lemma set_leds_returns:
  assumes "answers status"
  obtains n o' where "set_leds status k = Some (k\<lparr>kb_reads := n, kb_out := o'\<rparr>)"
proof -
  obtain a b where "kb_wait status (kb_reads k) = Some a" "kb_wait status a = Some b"
    using kb_wait_returns [OF assms] by metis
  then show ?thesis using that by (simp add: set_leds_def)
qed

lemma take_codes_snoc: "take_codes status (cs @ [c]) ks = obind (take_codes status cs ks) (take_code status c)"
proof (induction cs arbitrary: ks)
  case Nil
  show ?case by (cases "take_code status c ks") (auto simp: obind_def split: option.split sum.split)
next
  case (Cons d cs)
  then show ?case by (auto simp: obind_def split: option.split sum.split)
qed

text \<open>The keys that are not modifiers do not fail and leave \<open>mode\<close> and \<open>e0\<close> alone.\<close>

lemma self_char_ok:
  assumes "entry_ok (unat (scan_code k)) Do_self \<or> entry_ok (unat (scan_code k)) Minus"
  shows "\<exists>r. self_char k = Inr r"
  using assms by (auto simp: self_char_def Let_def lengths entry_ok_def)

lemma other_key:
  assumes "answers status" "c \<notin> {0x2A, 0xAA, 0x36, 0xB6, 0x1D, 0x9D, 0x3A, 0xBA, 0xE0, 0xE1}"
  shows "\<exists>k' s'. take_code status c (k, s) = Some (Inr (k', s')) \<and> kmode k' = kmode k \<and> e0 k' = e0 k"
proof -
  let ?f = "key_table ! unat c" and ?k = "k\<lparr>scan_code := c\<rparr>"
  note m = modifier_codes [of c]
  have ok: "?f = Do_self \<or> ?f = Minus \<Longrightarrow> \<exists>r. self_char ?k = Inr r"
    using modifier_keys [of c] self_char_ok [of ?k] by auto
  have run: "take_code status c (k, s) = run_key status ?f (?k, s)" using assms(2) by (simp add: take_code_def)
  obtain n o' where n: "set_leds status (?k\<lparr>leds := leds k XOR 2\<rparr>) = Some ((?k\<lparr>leds := leds k XOR 2\<rparr>)\<lparr>kb_reads := n, kb_out := o'\<rparr>)"
    using set_leds_returns [OF assms(1)] by blast
  obtain n2 o2 where n2: "set_leds status (?k\<lparr>leds := leds k XOR 1\<rparr>) = Some ((?k\<lparr>leds := leds k XOR 1\<rparr>)\<lparr>kb_reads := n2, kb_out := o2\<rparr>)"
    using set_leds_returns [OF assms(1)] by blast
  show ?thesis
  proof (cases ?f)
    case Do_self
    then show ?thesis using ok unfolding run by (auto simp: run_key_def do_self_def split: option.split)
  next
    case Minus
    then show ?thesis using ok unfolding run by (auto simp: run_key_def minus_key_def do_self_def split: option.split)
  next
    case Num
    then show ?thesis using n unfolding run by (simp add: run_key_def num_def)
  next
    case Scroll
    then show ?thesis using n2 unfolding run by (simp add: run_key_def scroll_def)
  qed (use m assms(2) run in \<open>auto simp: run_key_def cursor_def fkey_def Let_def\<close>)
qed

text \<open>The bits of \<open>mode\<close> one by one.\<close>

definition modes :: "bool \<Rightarrow> bool \<Rightarrow> bool \<Rightarrow> bool \<Rightarrow> bool \<Rightarrow> u8" where
  "modes ls rs ct cl cd = (if ls then 1 else 0) OR (if rs then 2 else 0) OR (if ct then 4 else 0)
     OR (if cl then 0x40 else 0) OR (if cd then 0x80 else 0)"

lemma mode_of_modes: "mode_of cs = modes (held 0x2A cs) (held 0x36 cs) (held 0x1D cs) (caps_on cs) (held 0x3A cs)"
  by (simp add: mode_of_def modes_def)

lemma modes_ops:
  "modes ls rs ct cl cd OR 1 = modes True rs ct cl cd" "modes ls rs ct cl cd AND 0xfe = modes False rs ct cl cd"
  "modes ls rs ct cl cd OR 2 = modes ls True ct cl cd" "modes ls rs ct cl cd AND 0xfd = modes ls False ct cl cd"
  "modes ls rs ct cl cd OR 4 = modes ls rs True cl cd" "modes ls rs ct cl cd AND 0xfb = modes ls rs False cl cd"
  "(modes ls rs ct cl cd XOR 0x40) OR 0x80 = modes ls rs ct (\<not> cl) True"
  "modes ls rs ct cl cd AND 0x7f = modes ls rs ct cl False"
  "modes ls rs ct cl cd AND 0x80 = 0 \<longleftrightarrow> \<not> cd"
  by (cases ls; cases rs; cases ct; cases cl; cases cd; simp add: modes_def)+

text \<open>The seven codes that only change \<open>mode\<close>.\<close>

definition mode_step :: "u8 \<Rightarrow> u8 \<Rightarrow> u8" where
  "mode_step c m =
     (if c = 0x2A then m OR 1 else if c = 0xAA then m AND 0xfe else if c = 0x36 then m OR 2
      else if c = 0xB6 then m AND 0xfd else if c = 0x1D then m OR 4 else if c = 0x9D then m AND 0xfb
      else m AND 0x7f)"

lemma mode_key:
  assumes "c \<in> {0x2A, 0xAA, 0x36, 0xB6, 0x1D, 0x9D, 0xBA}" "e0 k = 0"
  shows "\<exists>k'. take_code status c (k, s) = Some (Inr (k', s)) \<and> e0 k' = 0 \<and> kmode k' = mode_step c (kmode k)"
proof -
  have run: "take_code status c (k, s) = run_key status (key_table ! unat c) (k\<lparr>scan_code := c\<rparr>, s)"
    using assms(1) by (auto simp: take_code_def)
  from assms(1) have "c = 0x2A \<and> key_table ! unat c = Lshift \<or> c = 0xAA \<and> key_table ! unat c = Unlshift \<or>
      c = 0x36 \<and> key_table ! unat c = Rshift \<or> c = 0xB6 \<and> key_table ! unat c = Unrshift \<or>
      c = 0x1D \<and> key_table ! unat c = Ctrl \<or> c = 0x9D \<and> key_table ! unat c = Unctrl \<or>
      c = 0xBA \<and> key_table ! unat c = Uncaps"
    using modifier_codes [of c] by blast
  then show ?thesis unfolding run using assms(2)
    by (elim disjE conjE) (simp_all only: run_key_def lshift_def unlshift_def rshift_def unrshift_def ctrl_def unctrl_def
      uncaps_def mode_step_def, simp_all)
qed

lemma mode_step_modes:
  assumes "c \<in> {0x2A, 0xAA, 0x36, 0xB6, 0x1D, 0x9D, 0xBA}"
  shows "mode_step c (mode_of cs) = mode_of (cs @ [c])"
  using assms unfolding mode_of_modes held_snoc caps_snoc
  by (elim insertE) (simp_all add: mode_step_def modes_ops)

text \<open>C32: The modifier state follows the keys. Whatever keys are pressed and released, in any order and with
  repetition, as long as no prefix byte comes (the keys of the main block): the handler returns if the keyboard
  controller keeps getting ready, and \<open>mode\<close> says exactly which shift keys and whether the control key are
  down, whether the capitals lock is on and whether its key is down.\<close>

theorem modifiers_follow_keys:
  assumes "answers status" "0xE0 \<notin> set cs" "0xE1 \<notin> set cs" "kmode k = 0" "e0 k = 0"
  shows "\<exists>k' s'. take_codes status cs (k, s) = Some (Inr (k', s')) \<and> e0 k' = 0 \<and>
     kmode k' = (if held 0x2A cs then 1 else 0) OR (if held 0x36 cs then 2 else 0) OR (if held 0x1D cs then 4 else 0)
       OR (if caps_on cs then 0x40 else 0) OR (if held 0x3A cs then 0x80 else 0)"
  unfolding mode_of_def [symmetric] using assms(2,3)
proof (induction cs rule: rev_induct)
  case Nil
  then show ?case using assms(4,5) by (simp add: mode_of_def held_def caps_on_def)
next
  case (snoc c cs)
  then obtain k1 s1 where k1: "take_codes status cs (k, s) = Some (Inr (k1, s1))" "e0 k1 = 0" "kmode k1 = mode_of cs" by auto
  have step: "take_codes status (cs @ [c]) (k, s) = take_code status c (k1, s1)"
    unfolding take_codes_snoc k1(1) by simp
  let ?k = "k1\<lparr>scan_code := c\<rparr>"
  have run: "take_code status c (k1, s1) = run_key status (key_table ! unat c) (?k, s1)"
    using snoc.prems by (simp add: take_code_def)
  note m = k1(3) [unfolded mode_of_modes]
  show ?case
  proof (cases "c \<in> {0x2A, 0xAA, 0x36, 0xB6, 0x1D, 0x9D, 0x3A, 0xBA}")
    case False
    then have "mode_of (cs @ [c]) = mode_of cs" unfolding mode_of_modes held_snoc caps_snoc by simp
    then show ?thesis using other_key [OF assms(1), of c k1 s1] False snoc.prems k1 unfolding step by auto
  next
    case True
    show ?thesis
    proof (cases "c = 0x3A")
      case caps: True
      then have f: "key_table ! unat c = Caps" using modifier_codes(7) [of c] by blast
      obtain n o' where n: "set_leds status (?k\<lparr>leds := leds k1 XOR 0x4, kmode := (kmode k1 XOR 0x40) OR 0x80\<rparr>) =
          Some ((?k\<lparr>leds := leds k1 XOR 0x4, kmode := (kmode k1 XOR 0x40) OR 0x80\<rparr>)\<lparr>kb_reads := n, kb_out := o'\<rparr>)"
        using set_leds_returns [OF assms(1)] by blast
      show ?thesis
      proof (cases "held 0x3A cs")
        case True
        then show ?thesis using k1(2) caps unfolding step run f
          by (simp add: run_key_def caps_def m modes_ops mode_of_modes held_snoc caps_snoc)
      next
        case False
        then have "caps status ?k = Some ((?k\<lparr>leds := leds k1 XOR 0x4, kmode := (kmode k1 XOR 0x40) OR 0x80\<rparr>)\<lparr>kb_reads := n, kb_out := o'\<rparr>)"
          using n by (simp add: caps_def m modes_ops)
        with False show ?thesis using k1(2) caps unfolding step run f
          by (simp add: run_key_def m modes_ops mode_of_modes held_snoc caps_snoc)
      qed
    next
      case False
      then have "c \<in> {0x2A, 0xAA, 0x36, 0xB6, 0x1D, 0x9D, 0xBA}" using True by blast
      from mode_key [OF this k1(2)] mode_step_modes [OF this, of cs] k1(3) show ?thesis unfolding step by metis
    qed
  qed
qed

definition kbd0 :: kbd where
  "kbd0 = \<lparr>scan_code = 0, leds = 0, kmode = 0, e0 = 0, kb_out = [], kb_reads = 0\<rparr>"

theorem modifiers_follow_keys_witness:
  "\<exists>k' s'. take_codes (\<lambda>_. 2) [0x2A, 0x1E, 0x3A, 0x3A, 0x9E, 0x1D, 0xAA] (kbd0, sys0) = Some (Inr (k', s')) \<and>
     kmode k' = 0xC4"
  using modifiers_follow_keys [of "\<lambda>_. 2" "[0x2A, 0x1E, 0x3A, 0x3A, 0x9E, 0x1D, 0xAA]" kbd0 sys0]
  by (auto simp: answers_def kbd0_def held_def caps_on_def)

text \<open>A prefix byte breaks it for good, since \<open>e0\<close> is never reset: control down, a cursor key, control up
  leave the control bit set.\<close>

lemma control_sticks:
  "\<exists>k' s'. take_codes status [0x1D, 0xE0, 0x48, 0x9D] (kbd0, s) = Some (Inr (k', s')) \<and> kmode k' = 4 \<and> e0 k' = 1"
proof -
  have f: "key_table ! 0x1D = Ctrl" "key_table ! 0x9D = Unctrl" "key_table ! 0x48 = Cursor"
    using modifier_codes(5) [of "0x1D"] modifier_codes(6) [of "0x9D"]
    by (simp_all, simp add: key_table_def nth_append)
  show ?thesis
    by (simp add: take_code_def run_key_def f ctrl_def unctrl_def cursor_def kbd0_def Let_def)
qed

section \<open>From the key to the line\<close>

lemma map_ascii: "list_all (\<lambda>c. unat c < 128) key_map" "list_all (\<lambda>c. unat c < 128) shift_map"
  by (simp_all add: key_map_def shift_map_def chars_def list_all_iff set_replicate_conv_if)

lemma sle_ascii: "unat a < 128 \<Longrightarrow> unat b < 128 \<Longrightarrow> (a :: u8) \<le>s b \<longleftrightarrow> unat a \<le> unat b"
  "unat a < 128 \<Longrightarrow> unat b < 128 \<Longrightarrow> (a :: u8) <s b \<longleftrightarrow> unat a < unat b"
proof -
  assume a: "unat a < 128" "unat b < 128"
  have "sint a = int (unat a)" "sint b = int (unat b)"
    using a sint_of_nat_small [of "unat a", where ?'a = 8] sint_of_nat_small [of "unat b", where ?'a = 8] by simp_all
  then show "a \<le>s b \<longleftrightarrow> unat a \<le> unat b" "a <s b \<longleftrightarrow> unat a < unat b"
    unfolding word_sle_eq word_sless_alt by linarith+
qed

lemma modify_ascii:
  assumes "unat c < 128"
  shows "unat (modify m c) < 128"
proof -
  define d where "d = (if ch CHR ''a'' \<le>s c \<and> c \<le>s ch CHR ''}'' then c - 0x20 else c)"
  have d: "unat d < 128"
    using assms unat_sub_if' [of c "0x20"] by (auto simp: d_def sle_ascii)
  then have "unat (d - 0x40) < 128" if "64 \<le>s d"
    using that unat_sub_if' [of d "0x40"] by (auto simp: sle_ascii)
  then show ?thesis using assms d unfolding modify_def d_def [symmetric] Let_def by simp
qed

lemma self_char_ascii:
  assumes "self_char k = Inr (Some d)"
  shows "unat d < 128"
proof -
  define rmap where "rmap = (if kmode k AND 0x3 \<noteq> 0 then shift_map else key_map)"
  have b: "unat (scan_code k) < length rmap" and d: "d = modify (kmode k) (rmap ! unat (scan_code k))"
    using assms unfolding self_char_def rmap_def [symmetric] by (auto simp: Let_def split: if_splits)
  have "list_all (\<lambda>c. unat c < 128) rmap" using map_ascii by (simp add: rmap_def)
  then have "unat (rmap ! unat (scan_code k)) < 128" using b by (simp add: list_all_length)
  then show ?thesis unfolding d by (rule modify_ascii)
qed

text \<open>C33: From the key to the line. In the state between two keys, with room in the cooked queue, the interrupt
  of a key that stands for the character \<open>d\<close> (with the modifiers as they are) returns with that character
  edited into the line and nothing left in \<open>read_q\<close>.\<close>

theorem key_reaches_line:
  assumes "key_table ! unat c = Do_self" "self_char (k\<lparr>scan_code := c\<rparr>) = Inr (Some d)" "line_inv t s"
    "q_list (read_q (s_tty s)) = []" "q_list (secondary (s_tty s)) = l" "length l < 1023" "1031 < n"
  shows "\<exists>s'. keyboard_handler n status c (k, s) = Some (Inr (k\<lparr>scan_code := c\<rparr>, s')) \<and> line_inv t s' \<and>
     q_list (read_q (s_tty s')) = [] \<and> q_list (secondary (s_tty s')) = edit t l d"
proof -
  have q: "queue_inv (read_q (s_tty s))" "q_len (read_q (s_tty s)) = 0"
    using assms(3) length_q_list [of "read_q (s_tty s)"] by (simp_all add: line_inv_def tty_inv_def assms(4))
  have inv: "line_inv t (put_read d s)" "q_list (read_q (s_tty (put_read d s))) = [d]" "q_list (secondary (s_tty (put_read d s))) = l"
    using assms(3,4,5) q queue_inv_ops(1) [OF q(1)] q_list_PUTCH [OF q(1), of d]
    by (simp_all add: put_read_def line_inv_def tty_inv_def)
  have "c \<noteq> 0xE0 \<and> c \<noteq> 0xE1"
    using assms(1) modifier_keys [of c] by (auto simp: entry_ok_def)
  then have "take_code status c (k, s) = Some (Inr (k\<lparr>scan_code := c\<rparr>, put_read d s))"
    using assms(1,2) by (simp add: take_code_def run_key_def do_self_def)
  moreover obtain s' where "copy_to_cooked n (put_read d s) = Some (Inr s')" "line_inv t s'" "q_list (read_q (s_tty s')) = []"
      "q_list (secondary (s_tty s')) = edit t l d"
    using cooked_edits [OF inv, of n] self_char_ascii [OF assms(2)] assms(6,7) by auto
  ultimately show ?thesis by (simp add: keyboard_handler_def do_tty_interrupt_def)
qed

text \<open>The key A with the left shift key down.\<close>

theorem key_reaches_line_witness:
  "\<exists>s'. keyboard_handler 2000 (\<lambda>_. 2) 0x1E (kbd0\<lparr>kmode := 1\<rparr>, sys0) = Some (Inr (kbd0\<lparr>kmode := 1, scan_code := 0x1E\<rparr>, s')) \<and>
     q_list (secondary (s_tty s')) = [65]"
proof -
  have k: "key_table ! unat (0x1E :: u8) = Do_self" by (simp add: key_table_def nth_append)
  have c: "self_char ((kbd0\<lparr>kmode := 1\<rparr>)\<lparr>scan_code := 0x1E\<rparr>) = Inr (Some 65)"
    by (simp add: self_char_def lengths kbd0_def) (simp add: shift_map_def chars_def modify_def)
  have t: "line_inv (tty_table0 0x100) sys0" "q_list (read_q (s_tty sys0)) = []" "q_list (secondary (s_tty sys0)) = []"
    using typed_ok [of "[]"] by (simp_all add: typed_def)
  have "edit (tty_table0 0x100) [] 65 = [65]"
    by (simp add: edit_defs tty_table0_def)
  then show ?thesis
    using key_reaches_line [OF k c t, of 2000 "\<lambda>_. 2"] by auto
qed

end
