(* ===== verification/Steps.thy ===== *)
theory Steps
  imports Keeps Traps Kboard
begin

text \<open>
  The running kernel as steps: a system call of the running task, a page fault, an interrupt (clock, keyboard, disks), a switch to
  another task. Every step keeps every invariant of the kind of theory \<open>Keeps\<close>.
\<close>

section \<open>Steps of the running kernel\<close>

text \<open>\<open>timer_interrupt\<close> of \<open>kernel/sys_call.S\<close>: the privilege of the interrupted code is in its \<open>cs\<close>. The functions of
  timers that are over are recorded in \<open>fired\<close>; the driver's are called as steps of their own.\<close>

definition timer_interrupt :: "u32 \<Rightarrow> fsys \<Rightarrow> fsys option" where
  "timer_interrupt cs s =
     map_option (\<lambda>c. s\<lparr>fw := ck_w c, sys_timers := ck_timers c, sys_motors := ck_motors c\<rparr>)
       (do_timer (cs AND 3) \<lparr>ck_w = (fw s)\<lparr>wk := (fk s)\<lparr>jiffies := jiffies (fk s) + 1\<rparr>\<rparr>, ck_timers = sys_timers s,
          ck_motors = sys_motors s\<rparr>)"

inductive kstep :: "environment \<Rightarrow> (fsys \<Rightarrow> bmem) \<Rightarrow> fsys \<Rightarrow> fsys \<Rightarrow> bool" for env mmu where
  Call: "system_call env mmu r s = Some (Inr (r', s')) \<Longrightarrow> kstep env mmu s s'"
| Fault: "page_fault env cr2 code s = Some (Inr s') \<Longrightarrow> kstep env mmu s s'"
| Clock: "timer_interrupt cs s = Some s' \<Longrightarrow> kstep env mmu s s'"
| Key: "keyboard_handler n status code (k, tty_of s) = Some (Inr (k', t)) \<Longrightarrow> kstep env mmu s (with_tty t s)"
| Hard_disk: "hd_interrupt s = Some (Inr s') \<Longrightarrow> kstep env mmu s s'"
| Floppy: "floppy_interrupt s = Some (Inr s') \<Longrightarrow> kstep env mmu s s'"
| Floppy_timer: "floppy_timeout fn s = Some (Inr s') \<Longrightarrow> kstep env mmu s s'"
| Switch: "schedule (fk s) = Some k \<Longrightarrow> kstep env mmu s (set_fk k s)"

section \<open>What every step keeps\<close>

lemma okD: "ok P m \<Longrightarrow> m = Some (Inr a) \<Longrightarrow> P a"
  by simp

context fs_frame
begin

lemma win_result_safe: "win_result s = (a, t) \<Longrightarrow> I t = I s"
  by (auto simp: win_result_def Let_def inb_status_def split: if_splits)

lemma read_intr_safe: "I s \<Longrightarrow> ok I (read_intr s)"
  unfolding read_intr_def Let_def
  by (auto split: prod.split simp: win_result_safe intro!: ok_rules ok_obind [where Q = I] do_hd_request_safe)

lemma write_intr_safe: "I s \<Longrightarrow> ok I (write_intr s)"
  unfolding write_intr_def Let_def
  by (auto split: prod.split simp: win_result_safe intro!: ok_rules ok_obind [where Q = I] do_hd_request_safe)

lemma hd_interrupt_safe: "I s \<Longrightarrow> ok I (hd_interrupt s)"
  by (auto simp: hd_interrupt_def Let_def read_intr_safe write_intr_safe split: hd_intr.split)

lemma result_safe: "result s = (n, t) \<Longrightarrow> I t = I s"
proof -
  have "I (snd (result_loop n i s)) = I s" for n i s
    by (induction n arbitrary: i s) (simp_all add: fd_inb_status_def fd_inb_data_def Let_def)
  then show "result s = (n, t) \<Longrightarrow> ?thesis" by (metis result_def snd_conv)
qed

lemma floppy_deselect_frame [simp]: "I (floppy_deselect nr s) = I s"
  by (simp add: floppy_deselect_def Let_def)

lemma bad_flp_intr_safe [ok_rules]: "I s \<Longrightarrow> returns I (bad_flp_intr s)"
  unfolding bad_flp_intr_def Let_def fd_current_def
  by (auto split: option.split intro!: ret_kbind [where Q = I] ok_rules)

lemma copy_from_area_safe [ok_rules]: "I s \<Longrightarrow> returns I (copy_from_area r s)"
  using safe_data [of s "r_bh (request s ! r)"] by (simp add: copy_from_area_def Let_def not_less)

lemma rw_interrupt_safe: "I s \<Longrightarrow> ok I (rw_interrupt s)"
  unfolding rw_interrupt_def Let_def
  by (auto split: prod.split simp: result_safe intro!: ok_rules ok_any [where ?'a = nat] ok_obind [where Q = I] do_fd_request_safe)

lemma seek_interrupt_safe: "I s \<Longrightarrow> ok I (seek_interrupt s)"
  unfolding seek_interrupt_def Let_def
  by (auto split: prod.split simp: result_safe intro!: ok_rules ok_obind [where Q = I] do_fd_request_safe setup_rw_floppy_safe)

lemma recal_interrupt_safe: "I s \<Longrightarrow> ok I (recal_interrupt s)"
  unfolding recal_interrupt_def Let_def
  by (auto split: prod.split simp: result_safe intro!: do_fd_request_safe)

lemma reset_interrupt_safe: "I s \<Longrightarrow> ok I (reset_interrupt s)"
  unfolding reset_interrupt_def Let_def
  by (auto split: prod.split simp: result_safe intro!: do_fd_request_safe simp del: fold.simps)

lemma unexpected_floppy_frame: "I (unexpected_floppy_interrupt s) = I s"
  unfolding unexpected_floppy_interrupt_def Let_def
  by (auto split: prod.split simp: result_safe)

lemma floppy_interrupt_safe: "I s \<Longrightarrow> ok I (floppy_interrupt s)"
  by (auto simp: floppy_interrupt_def Let_def unexpected_floppy_frame rw_interrupt_safe seek_interrupt_safe
      recal_interrupt_safe reset_interrupt_safe split: fd_intr.split)

lemma floppy_timeout_safe: "I s \<Longrightarrow> ok I (floppy_timeout fn s)"
  by (simp add: floppy_timeout_def floppy_on_safe transfer_safe do_fd_request_safe)

lemma timer_interrupt_safe: "timer_interrupt cs s = Some s' \<Longrightarrow> I s \<Longrightarrow> I s'"
  by (auto simp: timer_interrupt_def)

lemma printk_safe: "I s \<Longrightarrow> ok (on2 I) (printk env k fmt args s)"
  by (auto simp: printk_def Let_def with_tty_def intro!: ok_any split: option.split)

end

context fs_inv
begin

lemma page_fault_safe: "I s \<Longrightarrow> ok I (page_fault env cr2 code s)"
  unfolding page_fault_def do_no_page_def Let_def by (auto intro!: ok_rules split: prod.split)

lemma kstep_safe: "kstep env mmu s s' \<Longrightarrow> I s \<Longrightarrow> I s'"
  by (erule kstep.cases)
    (auto dest: okD [OF system_call_safe] okD [OF page_fault_safe] okD [OF hd_interrupt_safe] okD [OF floppy_interrupt_safe]
      okD [OF floppy_timeout_safe] timer_interrupt_safe)

lemma ksteps_safe: "(kstep env mmu)\<^sup>*\<^sup>* s s' \<Longrightarrow> I s \<Longrightarrow> I s'"
  by (induction rule: rtranclp_induct) (auto intro: kstep_safe)

end


end
