(* ===== verification/Shape.thy ===== *)
theory Shape
  imports Steps
begin

text \<open>
  Two invariants of the file system. The sizes of its structures: the data of every buffer is a kilobyte, every i-node
  has nine zones, the tables and bitmaps keep their entries. And the order of the buffer cache: the free list is
  a ring through all buffers, every block is in its hash queue, no block is held twice. Both are shown to be interfaces
  of the kind of theory \<open>Keeps\<close>, so that every system call keeps them, with the drivers the kernel has, whatever the other
  tasks do meanwhile as long as they keep them too.
\<close>

section \<open>The drivers of the kernel\<close>

text \<open>The table of drivers when \<open>hd_init\<close> and \<open>floppy_init\<close> have filled it.\<close>

definition drivers :: "environment \<Rightarrow> environment" where
  "drivers env = floppy_init (hd_init (env\<lparr>request_fn := (\<lambda>_. None)\<rparr>))"

lemma drivers_simps [simp]: "others (drivers env) = others env"
  by (simp add: drivers_def floppy_init_def hd_init_def)

context fs_frame
begin

lemma drivers_safe: "request_fn (drivers env) n = Some f \<Longrightarrow> I s \<Longrightarrow> ok I (f s)"
  by (auto simp: drivers_def floppy_init_def hd_init_def do_fd_request_safe do_hd_request_safe split: if_splits)

end

section \<open>The sizes\<close>

interpretation sizes: fs_frame z "shaped z" for z
  by unfold_locales (auto simp: shaped_def)

text \<open>Taking a buffer changes only links and fields without a size.\<close>

lemma shaped_links [simp]:
  "shaped z (s\<lparr>free_list := b\<rparr>) = shaped z s" "shaped z (set_hash dev block b s) = shaped z s"
  by (simp_all add: shaped_def set_hash_def)

lemma shaped_buffer [simp]:
  "shaped z s \<Longrightarrow> (\<And>h. length (b_data h) = BLOCK_SIZE \<Longrightarrow> length (b_data (f h)) = BLOCK_SIZE) \<Longrightarrow> shaped z (upd_bh b f s)"
  by (simp add: shaped_def)

lemma take_buffer_shaped: "shaped z s \<Longrightarrow> returns (shaped z) (take_buffer dev block b s)"
proof -
  have "shaped z s \<Longrightarrow> returns (shaped z) (unlink_free b s)" "shaped z s \<Longrightarrow> returns (shaped z) (link_free b s)"
    "shaped z s \<Longrightarrow> shaped z (unlink_hash b s)" "shaped z s \<Longrightarrow> shaped z (link_hash b s)" for s
    by (auto simp: unlink_free_def link_free_def unlink_hash_def link_hash_def Let_def)
  then show "shaped z s \<Longrightarrow> ?thesis"
    unfolding take_buffer_def remove_from_queues_def insert_into_queues_def
    by (auto intro!: ret_kbind [where Q = "shaped z"])
qed

locale sizes_rest =
  fixes env :: environment and z :: sizes
  assumes others_shaped: "shaped z s \<Longrightarrow> shaped z (others env s)"
    and request_shaped: "request_fn env n = Some f \<Longrightarrow> shaped z s \<Longrightarrow> ok (shaped z) (f s)"
begin

sublocale sleeping: fs_sleep z "shaped z" env
  by unfold_locales (rule others_shaped)

lemma getblk_shaped: "shaped z s \<Longrightarrow> ok (on2 (shaped z)) (getblk env dev block s)"
proof -
  have "\<forall>dev block s. shaped z s \<longrightarrow> ok (on2 (shaped z)) (getblk env dev block s)"
    by (rule getblk.fixp_induct, unfold curry_def, intro adm_rules)
      (auto intro!: ok_rules sleeping.ok_seqs sleeping.get_hash_table_safe sleeping.sleep_fs_safe sleeping.wait_on_buffer_safe
        take_buffer_shaped)
  then show "shaped z s \<Longrightarrow> ?thesis" by blast
qed

sublocale calls: fs_inv z "shaped z" env
  by unfold_locales (auto intro: request_shaped getblk_shaped)

lemmas system_call_shaped = calls.system_call_safe

end

lemma drivers_sizes: "(\<And>s. shaped z s \<Longrightarrow> shaped z (others env s)) \<Longrightarrow> sizes_rest (drivers env) z"
  by unfold_locales (auto intro: sizes.drivers_safe)

interpretation sizes_alone: sizes_rest "drivers env0" z for z
  by (rule drivers_sizes) (simp add: env0_def)

lemma fs0_shaped: "shaped \<lparr>z_inodes = [], z_files = [], z_requests = 32, z_buffers = []\<rparr> fs0"
  by (simp add: shaped_def fs0_def buffer0_def inode0_def super0_def BLOCK_SIZE_def NR_HASH_def I_MAP_SLOTS_def
      Z_MAP_SLOTS_def NR_INODE_def small_def)

text \<open>The call \<open>dup(3)\<close>.\<close>

definition frame0 :: call_frame where
  "frame0 = \<lparr>fr_ebp = 0, fr_edi = 0, fr_esi = 0, fr_gs = 0, fr_ebx = 3, fr_ecx = 0, fr_edx = 0, fr_fs = 0x17, fr_es = 0x17,
     fr_ds = 0x17, fr_eip = 0, fr_cs = 0xf, fr_eflags = 0, fr_esp = 0, fr_ss = 0x17, fr_eax = 41\<rparr>"

lemma frame0_returns: "\<exists>r' s'. system_call (drivers env) mmu frame0 s = Some (Inr (r', s'))"
  by (cases "sys_dup 3 s") (simp add: system_call_def frame0_def sys_call_table_def resume_def)

section \<open>The cache\<close>

definition sound :: "sizes \<Rightarrow> fsys \<Rightarrow> bool" where
  "sound z s \<longleftrightarrow> shaped z s \<and> cached s"

lemma cached_cong:
  assumes "\<And>u. place (bhs s' u) = place (bhs s u)" "hash_table s' = hash_table s" "free_list s' = free_list s" "buffers s' = buffers s"
  shows "cached s' = cached s"
proof -
  have "cache_ok s' xs = cache_ok s xs" for xs
    by (rule cache_ok_cong) (use assms in \<open>simp_all add: place_def\<close>)
  then show ?thesis by (simp add: cached_def)
qed

interpretation cache: fs_frame z "sound z" for z
proof unfold_locales
  show "sound z s \<Longrightarrow> shaped z s" for s by (simp add: sound_def)
next
  fix s' s :: fsys
  assume "bhs s' = bhs s" "hash_table s' = hash_table s" "free_list s' = free_list s" "buffers s' = buffers s"
    "inodes s' = inodes s" "sb s' = sb s" "last_inode s' = last_inode s" "inode_table s' = inode_table s"
    "file_table s' = file_table s" "length (request s') = length (request s)" "root_dev s' = root_dev s"
  then show "sound z s' = sound z s" unfolding sound_def using sizes.same [of s' s] cached_cong [of s' s] by simp
next
  fix s b and f :: "buffer_head \<Rightarrow> buffer_head"
  assume "sound z s" "\<And>h. length (b_data h) = BLOCK_SIZE \<Longrightarrow> length (b_data (f h)) = BLOCK_SIZE" "\<And>h. place (f h) = place h"
  then show "sound z (upd_bh b f s)" unfolding sound_def by (subst cached_cong [of _ s]) auto
next
  fix s and g :: "u32 \<Rightarrow> m_inode"
  assume "sound z s" "\<And>p. length (i_zone (g p)) = 9"
  then show "sound z (s\<lparr>inodes := g\<rparr>)" unfolding sound_def by (subst cached_cong [of _ s]) (auto intro: sizes.set_inodes)
next
  fix s :: fsys and sp :: super_block
  assume "sound z s" "length (s_imap sp) = I_MAP_SLOTS" "length (s_zmap sp) = Z_MAP_SLOTS"
  then show "sound z (s\<lparr>sb := sp\<rparr>)" unfolding sound_def by (subst cached_cong [of _ s]) (auto intro: sizes.set_super)
next
  fix s :: fsys and n
  assume "sound z s" "n < NR_INODE"
  then show "sound z (s\<lparr>last_inode := n\<rparr>)" unfolding sound_def by (subst cached_cong [of _ s]) (auto intro: sizes.set_last)
qed

text \<open>The search through the free list ends at a buffer, and what is taken keeps its place in the order.\<close>

lemma sound_ring:
  assumes "sound z s"
  obtains xs where "cache_ok s xs" "set xs = set (z_buffers z)"
proof -
  obtain xs where xs: "cache_ok s xs" using assms unfolding sound_def cached_def by blast
  have "buffers s = z_buffers z" using assms unfolding sound_def shaped_def by blast
  then have "set xs = set (z_buffers z)" using cache_ok_facts(3) [OF xs] by metis
  with xs show ?thesis by (rule that)
qed

lemma free_scan_sound:
  assumes "sound z s"
  shows "ok (\<lambda>r. snd r \<in> set (z_buffers z)) (free_scan s (free_list s) 0)"
  unfolding ok_def
proof (intro allI impI)
  fix r assume r: "free_scan s (free_list s) 0 = Some r"
  obtain xs where xs: "cache_ok s xs" "set xs = set (z_buffers z)" by (rule sound_ring [OF assms])
  have head: "free_list s \<in> set xs" using xs(1) unfolding cache_ok_def free_ring_def by (metis hd_in_set)
  have "returns (\<lambda>(bh', tmp'). tmp' \<in> set xs \<and> (bh' = 0 \<or> bh' \<in> set xs)) r"
    using free_scan_in [OF r, of xs] xs(1) head by blast
  then show "returns (\<lambda>r. snd r \<in> set (z_buffers z)) r" unfolding xs(2) by (cases r) auto
qed

lemma take_buffer_sound:
  assumes "sound z s" "tmp \<in> set (z_buffers z)" "small dev" "find_buffer dev block s = Some 0"
  shows "returns (sound z) (take_buffer dev block tmp s)"
proof -
  define d :: u16 where "d = ucast dev"
  have d: "dev = ucast d" using assms(3) by (simp add: small_def d_def)
  obtain xs where xs: "cache_ok s xs" and b: "set xs = set (z_buffers z)" by (rule sound_ring [OF assms(1)])
  have "tmp \<in> set xs" using b assms(2) by simp
  then obtain us vs where uv: "xs = us @ tmp # vs" by (metis split_list)
  have "\<forall>c\<in>set (us @ tmp # vs). \<not> holds_block (ucast d) block s c" if "d \<noteq> 0"
    using find_buffer_spec [OF xs that, of block] assms(4) cache_ok_facts(2) [OF xs] d uv by auto
  from take_buffer_ok [OF xs [unfolded uv], of d block, OF this] obtain s' where
    "take_buffer (ucast d) block tmp s = Inr s'" "cache_ok s' (us @ vs @ [tmp])" by metis
  moreover have "returns (shaped z) (take_buffer dev block tmp s)"
    by (rule take_buffer_shaped) (use assms(1) in \<open>simp add: sound_def\<close>)
  ultimately show ?thesis using d by (auto simp: sound_def cached_def)
qed

locale cache_rest =
  fixes env :: environment and z :: sizes
  assumes others_sound: "sound z s \<Longrightarrow> sound z (others env s)"
    and request_sound: "request_fn env n = Some f \<Longrightarrow> sound z s \<Longrightarrow> ok (sound z) (f s)"
begin

sublocale asleep: fs_sleep z "sound z" env
  by unfold_locales (rule others_sound)

lemma scan_then:
  "sound z s \<Longrightarrow> (\<And>bh tmp. tmp \<in> set (z_buffers z) \<Longrightarrow> ok P (f (bh, tmp))) \<Longrightarrow> ok P (obind (free_scan s (free_list s) 0) f)"
  by (rule ok_obind [OF free_scan_sound]) auto

lemma getblk_sound: "small dev \<Longrightarrow> sound z s \<Longrightarrow> ok (on2 (sound z)) (getblk env dev block s)"
proof -
  have "\<forall>dev block s. small dev \<longrightarrow> sound z s \<longrightarrow> ok (on2 (sound z)) (getblk env dev block s)"
    by (rule getblk.fixp_induct, unfold curry_def, intro adm_rules)
      (auto intro!: ok_if ok_option scan_then asleep.ok_seqs asleep.get_hash_table_safe asleep.sleep_fs_safe asleep.wait_on_buffer_safe
        take_buffer_sound)
  then show "small dev \<Longrightarrow> sound z s \<Longrightarrow> ?thesis" by blast
qed

sublocale calls: fs_inv z "sound z" env
  by unfold_locales (auto intro: request_sound getblk_sound)

lemmas system_call_sound = calls.system_call_safe
lemmas ksteps_sound = calls.ksteps_safe

end

lemma drivers_cache: "(\<And>s. sound z s \<Longrightarrow> sound z (others env s)) \<Longrightarrow> cache_rest (drivers env) z"
  by unfold_locales (auto intro: cache.drivers_safe)

interpretation cache_alone: cache_rest "drivers env0" z for z
  by (rule drivers_cache) (simp add: env0_def)

text \<open>C2: Every system call keeps the order of the buffer cache and the sizes of the file system's structures, with the
  kernel's own drivers and whatever the other tasks do meanwhile as long as they keep them too: after any call the free list
  is a ring through all buffers, every block is in its hash queue, and no block of a device is held twice.\<close>

theorem system_calls_keep_cache:
  assumes "\<And>s. sound z s \<Longrightarrow> sound z (others env s)" "sound z s"
    and "system_call (drivers env) mmu r s = Some (Inr (r', s'))"
  shows "sound z s'"
  using cache_rest.system_call_sound [OF drivers_cache, of z env s mmu r] assms by (auto simp: ok_def)

text \<open>\<open>buffer_init\<close> makes the cache of a system whose other tables are in shape.\<close>

lemma init_heads_shaped: "shaped z s \<Longrightarrow> shaped z (fold (\<lambda>(h, b). init_head h b) ps s)"
  by (induction ps arbitrary: s) (auto simp: init_head_def)

lemma buffer_init_shaped:
  assumes "shaped z s"
  shows "shaped (z\<lparr>z_buffers := buffers (buffer_init start buffer_end s)\<rparr>) (buffer_init start buffer_end s)"
proof -
  define ps s1 where "ps = buffer_places start (if buffer_end = 0x100000 then 640 * 1024 else buffer_end)"
    and "s1 = fold (\<lambda>(h, b). init_head h b) ps s"
  have s1: "shaped z s1" unfolding s1_def by (rule init_heads_shaped [OF assms])
  then show ?thesis
    unfolding buffer_init_def Let_def ps_def [symmetric] s1_def [symmetric] by (auto simp: shaped_def)
qed

lemma cache0_sound: "sound \<lparr>z_inodes = [], z_files = [], z_requests = 32, z_buffers = buffers cache0\<rparr> cache0"
  using buffer_init_shaped [OF fs0_shaped, of "0x200000" "0x200C00"] cache0_ok(1) by (auto simp: sound_def cached_def cache0_def)

theorem system_calls_keep_cache_witness:
  "\<exists>r' s'. system_call (drivers env0) (\<lambda>_ _. 0) frame0 cache0 = Some (Inr (r', s')) \<and> cached s'"
proof -
  obtain r' s' where c: "system_call (drivers env0) (\<lambda>_ _. 0) frame0 cache0 = Some (Inr (r', s'))" using frame0_returns by blast
  with system_calls_keep_cache [OF _ cache0_sound c] show ?thesis by (auto simp: env0_def sound_def)
qed

end
