(* ===== verification/Mktime.thy ===== *)
theory Mktime
  imports Prelude
begin

text \<open>
  The clock at boot: \<open>kernel/mktime.c\<close> (\<open>kernel_mktime\<close>) and the part of \<open>kernel/main.c\<close> that turns the
  registers of the CMOS clock into a \<open>struct tm\<close>, with the division of the memory that \<open>main\<close> makes.
  The calendar the time is checked against is the Gregorian one, counted day by day.
\<close>

record tm =
  tm_sec :: u32
  tm_min :: u32
  tm_hour :: u32
  tm_mday :: u32
  tm_mon :: u32
  tm_year :: u32

definition MINUTE :: u32 where "MINUTE = 60"
definition HOUR :: u32 where "HOUR = 60 * MINUTE"
definition DAY :: u32 where "DAY = 24 * HOUR"
definition YEAR :: u32 where "YEAR = 365 * DAY"

text \<open>The first twelve values of the table; the initialiser has a thirteenth that the array has no room for.\<close>

definition month :: "u32 list" where
  "month = [0, DAY * 31, DAY * (31 + 29), DAY * (31 + 29 + 31), DAY * (31 + 29 + 31 + 30),
     DAY * (31 + 29 + 31 + 30 + 31), DAY * (31 + 29 + 31 + 30 + 31 + 30),
     DAY * (31 + 29 + 31 + 30 + 31 + 30 + 31), DAY * (31 + 29 + 31 + 30 + 31 + 30 + 31 + 31),
     DAY * (31 + 29 + 31 + 30 + 31 + 30 + 31 + 31 + 30), DAY * (31 + 29 + 31 + 30 + 31 + 30 + 31 + 31 + 30 + 31),
     DAY * (31 + 29 + 31 + 30 + 31 + 30 + 31 + 31 + 30 + 31 + 30)]"

text \<open>Signed division and remainder of C, which round towards zero.\<close>

definition cdiv :: "u32 \<Rightarrow> int \<Rightarrow> u32" where
  "cdiv a b = word_of_int (if sint a < 0 then - (- sint a div b) else sint a div b)"

definition cmod :: "u32 \<Rightarrow> int \<Rightarrow> u32" where
  "cmod a b = word_of_int (if sint a < 0 then - (- sint a mod b) else sint a mod b)"

definition kernel_mktime :: "tm \<Rightarrow> u32 kres" where
  "kernel_mktime t =
     (let year = tm_year t - 70;
          res = YEAR * year + DAY * cdiv (year + 1) 4
      in if unat (tm_mon t) < 12 then
           let res = res + month ! unat (tm_mon t);
               res = (if 1 <s tm_mon t \<and> cmod (year + 2) 4 \<noteq> 0 then res - DAY else res)
           in Inr (res + DAY * (tm_mday t - 1) + HOUR * tm_hour t + MINUTE * tm_min t + tm_sec t)
         else Inl OutOfBounds)"

text \<open>The conversion of \<open>time_init\<close>; the argument is what \<open>CMOS_READ\<close> returned for the registers.\<close>

definition BCD_TO_BIN :: "u32 \<Rightarrow> u32" where
  "BCD_TO_BIN val = (val AND 15) + signed_drop_bit 4 val * 10"

definition time_init_tm :: "tm \<Rightarrow> tm" where
  "time_init_tm t = \<lparr>tm_sec = BCD_TO_BIN (tm_sec t), tm_min = BCD_TO_BIN (tm_min t),
     tm_hour = BCD_TO_BIN (tm_hour t), tm_mday = BCD_TO_BIN (tm_mday t),
     tm_mon = BCD_TO_BIN (tm_mon t) - 1, tm_year = BCD_TO_BIN (tm_year t)\<rparr>"

definition time_init :: "tm \<Rightarrow> u32 kres" where
  "time_init cmos = kernel_mktime (time_init_tm cmos)"

text \<open>\<open>main\<close>: the end of memory, and where the buffers end and main memory starts.\<close>

definition memory_layout :: "u16 \<Rightarrow> u32 \<times> u32" where
  "memory_layout ext_mem_k =
     (let memory_end = 0x100000 + push_bit 10 (ucast ext_mem_k);
          memory_end = memory_end AND 0xfffff000;
          memory_end = (if 16 * 1024 * 1024 <s memory_end then 16 * 1024 * 1024 else memory_end);
          buffer_memory_end = (if 12 * 1024 * 1024 <s memory_end then 4 * 1024 * 1024
                               else if 6 * 1024 * 1024 <s memory_end then 2 * 1024 * 1024
                               else 1 * 1024 * 1024)
      in (memory_end, buffer_memory_end))"

section \<open>The calendar\<close>

definition leap :: "nat \<Rightarrow> bool" where
  "leap y \<longleftrightarrow> y mod 4 = 0 \<and> (y mod 100 \<noteq> 0 \<or> y mod 400 = 0)"

definition month_days :: "nat \<Rightarrow> nat \<Rightarrow> nat" where
  "month_days y m = (if m = 1 then (if leap y then 29 else 28) else if m \<in> {3, 5, 8, 10} then 30 else 31)"

text \<open>Days from the first of January 1970 to the day: whole years, whole months of the year, days.\<close>

definition epoch_days :: "nat \<Rightarrow> nat \<Rightarrow> nat \<Rightarrow> nat" where
  "epoch_days y m d = (\<Sum>i\<leftarrow>[1970..<y]. if leap i then 366 else 365) + (\<Sum>i\<leftarrow>[0..<m]. month_days y i) + (d - 1)"

definition valid_date :: "nat \<Rightarrow> nat \<Rightarrow> nat \<Rightarrow> bool" where
  "valid_date y m d \<longleftrightarrow> 1970 \<le> y \<and> y \<le> 2037 \<and> m < 12 \<and> 1 \<le> d \<and> d \<le> month_days y m"

definition tm_of :: "nat \<Rightarrow> nat \<Rightarrow> nat \<Rightarrow> nat \<Rightarrow> nat \<Rightarrow> nat \<Rightarrow> tm" where
  "tm_of y m d h mi s = \<lparr>tm_sec = of_nat s, tm_min = of_nat mi, tm_hour = of_nat h, tm_mday = of_nat d,
     tm_mon = of_nat m, tm_year = of_nat (y - 1900)\<rparr>"

lemma leap_1970: "1970 \<le> y \<Longrightarrow> y < 2100 \<Longrightarrow> leap y \<longleftrightarrow> y mod 4 = 0"
proof -
  assume y: "1970 \<le> y" "y < 2100"
  have "y mod 100 = 0 \<Longrightarrow> y = 2000"
  proof -
    assume "y mod 100 = 0"
    then obtain q where "y = 100 * q" by auto
    with y show ?thesis by auto
  qed
  then have "y mod 100 \<noteq> 0 \<or> y mod 400 = 0" by (cases "y mod 100 = 0") simp_all
  then show ?thesis unfolding leap_def by blast
qed

lemma year_days: "n \<le> 67 \<Longrightarrow> (\<Sum>i\<leftarrow>[1970..<1970 + n]. if leap i then 366 else 365) = 365 * n + (n + 1) div 4"
proof (induction n)
  case (Suc n)
  have "leap (1970 + n) \<longleftrightarrow> (n + 2) mod 4 = 0"
    using leap_1970 [of "1970 + n"] Suc.prems by (simp add: mod_simps) presburger
  moreover have "(Suc n + 1) div 4 = (n + 1) div 4 + (if (n + 2) mod 4 = 0 then 1 else 0)" by presburger
  moreover have "[1970..<1970 + Suc n] = [1970..<1970 + n] @ [1970 + n]" unfolding add_Suc_right by (rule upt_Suc_append) simp
  moreover have "(\<Sum>i\<leftarrow>[1970..<1970 + n]. if leap i then 366 else 365) = 365 * n + (n + 1) div 4"
    using Suc by simp
  ultimately show ?case by (simp only: map_append sum_list_append list.map sum_list_simps) (simp split: if_splits)
qed simp

definition month_start :: "nat list" where
  "month_start = [0, 31, 60, 91, 121, 152, 182, 213, 244, 274, 305, 335]"

lemma month_cases:
  "m < 12 \<Longrightarrow> m = 0 \<or> m = 1 \<or> m = 2 \<or> m = 3 \<or> m = 4 \<or> m = 5 \<or> m = 6 \<or> m = 7 \<or> m = 8 \<or> m = 9 \<or> m = 10 \<or> m = (11 :: nat)"
  by presburger

lemma month_sum:
  assumes "m < 12"
  shows "(\<Sum>i\<leftarrow>[0..<m]. month_days y i) + (if 1 < m \<and> \<not> leap y then 1 else 0) = month_start ! m"
  using month_cases [OF assms]
  by (elim disjE) (simp_all add: month_days_def month_start_def upt_rec)

lemma month_table: "m < 12 \<Longrightarrow> month ! m = of_nat (86400 * month_start ! m)"
  by (drule month_cases) (elim disjE; simp add: month_def month_start_def DAY_def HOUR_def MINUTE_def)

lemma cdiv_of_nat: "n < 2 ^ 31 \<Longrightarrow> 0 < b \<Longrightarrow> cdiv (of_nat n) (int b) = of_nat (n div b)"
  "n < 2 ^ 31 \<Longrightarrow> 0 < b \<Longrightarrow> cmod (of_nat n) (int b) = of_nat (n mod b)"
  by (simp_all add: cdiv_def cmod_def sint_of_nat_small flip: zdiv_int zmod_int)

text \<open>C31: \<open>kernel_mktime\<close> is right for every second of the years 1970 to 2037: the value is the number
  of seconds since the beginning of 1970 in the Gregorian calendar, and it does not overflow.\<close>

theorem mktime_correct:
  assumes "valid_date y m d" "h < 24" "mi < 60" "s < 60"
  shows "\<exists>r. kernel_mktime (tm_of y m d h mi s) = Inr r \<and> 0 \<le>s r \<and>
    unat r = 86400 * epoch_days y m d + 3600 * h + 60 * mi + s"
proof -
  define n where "n = y - 1970"
  have y: "y = 1970 + n" "n \<le> 67" "m < 12" "1 \<le> d" "d \<le> 31"
    using assms(1) by (auto simp: valid_date_def n_def month_days_def split: if_splits)
  have um: "unat (of_nat m :: u32) = m" using y(3) by (simp add: unat_of_nat_small)
  have ms: "month_start ! m \<le> 335"
    using month_cases [OF y(3)] by (elim disjE) (simp_all add: month_start_def)
  have year: "tm_year (tm_of y m d h mi s) - 70 = of_nat n" by (simp add: tm_of_def y(1))
  have lp: "leap y \<longleftrightarrow> (n + 2) mod 4 = 0"
    using leap_1970 [of y] y(1,2) by (simp add: mod_simps) presburger
  have cd: "cdiv (of_nat n + 1) 4 = of_nat ((n + 1) div 4)"
    using cdiv_of_nat(1) [of "n + 1" 4] y(2) by (simp add: add.commute)
  have cm: "cmod (of_nat n + 2) 4 = of_nat ((n + 2) mod 4)"
    using cdiv_of_nat(2) [of "n + 2" 4] y(2) by (simp add: add.commute)
  have cm0: "cmod (of_nat n + 2) 4 \<noteq> 0 \<longleftrightarrow> \<not> leap y"
  proof -
    have "(n + 2) mod 4 < 2 ^ LENGTH(32)" by (rule less_trans [of _ 4]) simp_all
    from unat_of_nat_small [OF this] have "(of_nat ((n + 2) mod 4) :: u32) = 0 \<longleftrightarrow> (n + 2) mod 4 = 0"
      by (auto simp: unsigned_eq_0_iff [where ?'a = nat, symmetric] simp del: unsigned_eq_0_iff)
    then show ?thesis unfolding cm lp by simp
  qed
  have gt: "1 <s (of_nat m :: u32) \<longleftrightarrow> 1 < m"
    using sint_of_nat_small [of m, where ?'a = 32] y(3) by (simp add: word_sless_alt)
  have ep: "epoch_days y m d = 365 * n + (n + 1) div 4 + month_start ! m - (if 1 < m \<and> \<not> leap y then 1 else 0) + (d - 1)"
    unfolding epoch_days_def y(1) year_days [OF y(2)] using month_sum [OF y(3), of "1970 + n"] by simp
  define b where "b = (if 1 < m \<and> \<not> leap y then 1 else 0 :: nat)"
  have b: "b \<le> month_start ! m" using month_sum [OF y(3), of y] by (simp add: b_def)
  define N where "N = 86400 * epoch_days y m d + 3600 * h + 60 * mi + s"
  have eN: "N = 86400 * (365 * n + (n + 1) div 4 + (month_start ! m - b) + (d - 1)) + 3600 * h + 60 * mi + s"
    using b by (simp add: N_def ep b_def)
  have "(n + 1) div 4 \<le> 17" using y(2) by simp
  then have N: "N < 2 ^ 31" unfolding eN using y ms assms(2-4) by simp
  have ds: "DAY = of_nat 86400" "HOUR = of_nat 3600" "MINUTE = of_nat 60" "YEAR = of_nat (86400 * 365)"
    by (simp_all add: DAY_def HOUR_def MINUTE_def YEAR_def)
  have d1: "(of_nat d - 1 :: u32) = of_nat (d - 1)" using y(4) by (simp add: of_nat_diff)
  have mb: "(if 1 <s (of_nat m :: u32) \<and> cmod (of_nat n + 2) 4 \<noteq> 0
      then YEAR * of_nat n + DAY * cdiv (of_nat n + 1) 4 + month ! m - DAY
      else YEAR * of_nat n + DAY * cdiv (of_nat n + 1) 4 + month ! m)
    = of_nat (86400 * (365 * n + (n + 1) div 4 + (month_start ! m - b)))"
    unfolding gt cm0 cd month_table [OF y(3)] ds using b
    by (simp add: b_def of_nat_diff algebra_simps)
  have "kernel_mktime (tm_of y m d h mi s) = Inr (of_nat N)"
  proof -
    have f: "tm_mon (tm_of y m d h mi s) = of_nat m" "tm_mday (tm_of y m d h mi s) = of_nat d"
      "tm_hour (tm_of y m d h mi s) = of_nat h" "tm_min (tm_of y m d h mi s) = of_nat mi"
      "tm_sec (tm_of y m d h mi s) = of_nat s" by (simp_all add: tm_of_def)
    show ?thesis
      unfolding kernel_mktime_def year Let_def f um mb if_P [OF y(3)]
      unfolding d1 eN ds by (simp only: of_nat_add of_nat_mult distrib_left add.assoc)
  qed
  moreover have "sint (of_nat N :: u32) = int N" using N by (intro sint_of_nat_small) simp
  ultimately show ?thesis
    using N unat_of_nat_small [of N, where ?'a = 32] by (intro exI [of _ "of_nat N"]) (simp add: word_sle_eq flip: N_def)
qed

theorem mktime_correct_witness:
  "\<exists>r. kernel_mktime (tm_of 1991 8 17 12 0 0) = Inr r \<and> unat r = 86400 * epoch_days 1991 8 17 + 43200"
  using mktime_correct [of 1991 8 17 12 0 0] by (auto simp: valid_date_def month_days_def)

end
