(* ===== verification/Boot.thy ===== *)
theory Boot
  imports Shape Mktime
begin

text \<open>
  The kernel from its start. \<open>main\<close> of \<open>kernel/main.c\<close> calls the initialisation of every part in order: memory, traps,
  console, clock of the CMOS, scheduler (\<open>sched_init\<close> of \<open>kernel/sched.c\<close>), buffers, block devices. Then it runs in user
  mode, forks, and the child (\<open>init\<close>) mounts the root, opens the terminal and starts the shell.

  From then on the kernel does one step after another: a system call of the running task, an interrupt (clock,
  keyboard, disks), a page fault, a switch to another task. While a call sleeps other steps are made in between, and so on:
  \<open>nested\<close> environments. The last theorem says what holds after any number of steps.
\<close>

section \<open>Initialisation\<close>

text \<open>What the BIOS and \<open>setup.S\<close> left behind.\<close>

record bios_data =
  ext_mem_k :: u16
  orig_root_dev :: u16
  orig_x :: u8
  orig_y :: u8
  video_mode :: u16
  video_lines :: u16
  ega_bx :: u16
  drive_data :: "u8 list"

text \<open>The addresses of the entries and structures whose addresses are stored in tables, and where the kernel ends.\<close>

record kernel_entries =
  at_trap :: "trap \<Rightarrow> u32"
  at_keyboard :: u32
  at_timer :: u32
  at_system_call :: u32
  at_hd :: u32
  at_floppy :: u32
  at_init_tss :: u32
  at_init_ldt :: u32
  at_drive_info :: u32
  kernel_end :: u32

text \<open>The machine: the state of the kernel, the drivers, the interrupt table, the masks of the two interrupt controllers, port
  0x61, the bytes sent to other ports, and the registers of the CMOS clock, read for the \<open>n\<close>-th time.\<close>

record machine =
  m_fs :: fsys
  m_env :: environment
  m_idt :: "nat \<Rightarrow> desc"
  m_pic1 :: u8
  m_pic2 :: u8
  m_port61 :: u8
  m_out :: "(u32 \<times> u8) list"
  m_cmos :: "nat \<Rightarrow> u8 \<Rightarrow> u8"
  m_cmos_reads :: nat

definition set_idt :: "nat \<Rightarrow> desc \<Rightarrow> machine \<Rightarrow> machine" where
  "set_idt n d m = m\<lparr>m_idt := (m_idt m)(n := d)\<rparr>"

definition traps_on :: "kernel_entries \<Rightarrow> machine \<Rightarrow> machine" where
  "traps_on e m = m\<lparr>m_idt := trap_init (at_trap e) (m_idt m), m_pic1 := m_pic1 m AND 0xfb, m_pic2 := m_pic2 m AND 0xdf\<rparr>"

definition tty_init :: "kernel_entries \<Rightarrow> bios_data \<Rightarrow> machine \<Rightarrow> machine" where
  "tty_init e b m =
     (let s = m_fs m; a = m_port61 m;
          k = con_init (orig_x b) (orig_y b) (video_mode b) (video_lines b) (ega_bx b) (sys_con s);
          m = set_idt 0x21 (set_trap_gate (at_keyboard e)) (m\<lparr>m_fs := s\<lparr>sys_con := k\<rparr>\<rparr>)
      in m\<lparr>m_pic1 := m_pic1 m AND 0xfd, m_out := m_out m @ [(0x61, a OR 0x80), (0x61, a)], m_port61 := a\<rparr>)"

text \<open>The clock is read until the seconds did not change meanwhile.\<close>

partial_function (option) read_clock :: "(nat \<Rightarrow> u8 \<Rightarrow> u8) \<Rightarrow> nat \<Rightarrow> (tm \<times> nat) option" where
  "read_clock c n =
     (let t = \<lparr>tm_sec = ucast (c n 0), tm_min = ucast (c (n + 1) 2), tm_hour = ucast (c (n + 2) 4), tm_mday = ucast (c (n + 3) 7),
               tm_mon = ucast (c (n + 4) 8), tm_year = ucast (c (n + 5) 9)\<rparr>
      in if tm_sec t = ucast (c (n + 6) 0) then Some (t, n + 7) else read_clock c (n + 7))"

definition clock_on :: "machine \<Rightarrow> machine kres option" where
  "clock_on m =
     (case read_clock (m_cmos m) (m_cmos_reads m) of None \<Rightarrow> None
      | Some (t, n) \<Rightarrow>
          obind (Some (time_init t)) (\<lambda>st. let s = m_fs m in
          Some (Inr (m\<lparr>m_fs := set_fk ((fk s)\<lparr>startup_time := st\<rparr>) s, m_cmos_reads := n\<rparr>))))"

definition LATCH :: u32 where "LATCH = 1193180 div 100"

definition sched_init :: "kernel_entries \<Rightarrow> machine \<Rightarrow> machine" where
  "sched_init e m =
     (let s = m_fs m;
          g = (sys_gdt s)(FIRST_TSS_ENTRY := set_tss_desc (at_init_tss e), FIRST_TSS_ENTRY + 1 := set_ldt_desc (at_init_ldt e));
          g = fold (\<lambda>i g. g(FIRST_TSS_ENTRY + 2 * i := (0, 0), FIRST_TSS_ENTRY + 2 * i + 1 := (0, 0))) [1..<NR_TASKS] g;
          k = (fk s)\<lparr>task := fold (\<lambda>i ts. ts[i := 0]) [1..<NR_TASKS] (task (fk s))\<rparr>;
          m = m\<lparr>m_fs := (set_fk k s)\<lparr>sys_gdt := g\<rparr>,
                m_out := m_out m @ [(0x43, 0x36), (0x40, ucast (LATCH AND 0xff)), (0x40, ucast (drop_bit 8 LATCH))]\<rparr>;
          m = set_idt 0x20 (set_intr_gate (at_timer e)) m;
          m = m\<lparr>m_pic1 := m_pic1 m AND NOT 0x01\<rparr>
      in set_idt 0x80 (set_system_gate (at_system_call e)) m)"

definition disks_on :: "kernel_entries \<Rightarrow> machine \<Rightarrow> machine" where
  "disks_on e m =
     (let m = set_idt 0x2E (set_intr_gate (at_hd e)) (m\<lparr>m_env := hd_init (m_env m)\<rparr>);
          m = m\<lparr>m_pic1 := m_pic1 m AND 0xfb, m_pic2 := m_pic2 m AND 0xbf\<rparr>;
          m = set_idt 0x26 (set_trap_gate (at_floppy e)) (m\<lparr>m_env := floppy_init (m_env m)\<rparr>)
      in m\<lparr>m_pic1 := m_pic1 m AND NOT 0x40\<rparr>)"

definition mem_text :: string where
  "mem_text = nl @ ''memory start: %d, end: %d'' @ nl"

definition main :: "kernel_entries \<Rightarrow> kernel_places \<Rightarrow> bios_data \<Rightarrow> machine \<Rightarrow> machine kres option" where
  "main e k b m =
     (let (memory_end, main_memory_start) = memory_layout (ext_mem_k b);
          s = (m_fs m)\<lparr>root_dev := ucast (orig_root_dev b),
                fm := (fm (m_fs m))\<lparr>phys := store_bytes (drive_data b) (at_drive_info e) (phys (fm (m_fs m)))\<rparr>\<rparr>
      in obind (Some (mem_init main_memory_start memory_end (fm s))) (\<lambda>mm.
         obind (clock_on (tty_init e b (traps_on e (m\<lparr>m_fs := s\<lparr>fm := mm\<rparr>\<rparr>)))) (\<lambda>m.
         let m = sched_init e m in
         obind (printk (m_env m) k mem_text [main_memory_start, memory_end] (m_fs m)) (\<lambda>(n, s).
         Some (Inr (disks_on e (m\<lparr>m_fs := blk_dev_init (buffer_init (kernel_end e) main_memory_start s)\<rparr>)))))))"

section \<open>The first processes\<close>

text \<open>What a process does between two forks: \<open>main\<close> greets and forks, its child \<open>init\<close> mounts the root, opens the terminal and
  forks, and the child of that starts the shell. A parent goes on with the pid as result of \<open>fork\<close> and does nothing more. The
  places are those of \<open>drive_info\<close>, of the strings and of \<open>printbuf\<close>.\<close>

record user_places =
  u_printbuf :: u32
  u_args :: u32
  u_drive_info :: u32
  u_tty0 :: u32
  u_hello :: u32
  u_argv :: u32
  u_envp :: u32

definition lib_fork :: "environment \<Rightarrow> (fsys \<Rightarrow> bmem) \<Rightarrow> call_frame \<Rightarrow> fsys \<Rightarrow> returned" where
  "lib_fork env mmu r s = syscall_stub env mmu (NR ''fork'') [] r s"

definition lib_setup :: "environment \<Rightarrow> (fsys \<Rightarrow> bmem) \<Rightarrow> u32 \<Rightarrow> call_frame \<Rightarrow> fsys \<Rightarrow> returned" where
  "lib_setup env mmu BIOS r s = syscall_stub env mmu (NR ''setup'') [BIOS] r s"

definition lib_kill :: "environment \<Rightarrow> (fsys \<Rightarrow> bmem) \<Rightarrow> u32 \<Rightarrow> u32 \<Rightarrow> call_frame \<Rightarrow> fsys \<Rightarrow> returned" where
  "lib_kill env mmu pid sig r s = syscall_stub env mmu (NR ''kill'') [pid, sig] r s"

definition bytes_of :: "string \<Rightarrow> u8 list" where
  "bytes_of t = map of_char t"

definition user_main :: "environment \<Rightarrow> (fsys \<Rightarrow> bmem) \<Rightarrow> user_places \<Rightarrow> call_frame \<Rightarrow> fsys \<Rightarrow> returned" where
  "user_main env mmu u r s =
     obind (lib_printf env mmu (u_printbuf u)
        (27 # bytes_of ''[31m In user mode!'' @ [10, 13, 27] @ bytes_of ''[0m'') (u_args u) r s) (\<lambda>(n, s).
     lib_fork env mmu r s)"

definition init :: "environment \<Rightarrow> (fsys \<Rightarrow> bmem) \<Rightarrow> user_places \<Rightarrow> call_frame \<Rightarrow> fsys \<Rightarrow> returned" where
  "init env mmu u r s =
     obind (lib_setup env mmu (u_drive_info u) r s) (\<lambda>(v, s).
     obind (lib_open env mmu (u_tty0 u) 2 0 r s) (\<lambda>(v, s).
     obind (lib_dup env mmu 0 r s) (\<lambda>(v, s).
     obind (lib_dup env mmu 0 r s) (\<lambda>(v, s).
     lib_fork env mmu r s))))"

definition init_shell :: "environment \<Rightarrow> (fsys \<Rightarrow> bmem) \<Rightarrow> user_places \<Rightarrow> call_frame \<Rightarrow> fsys \<Rightarrow> returned" where
  "init_shell env mmu u r s =
     obind (lib_printf env mmu (u_printbuf u) (bytes_of ''read to start shell'' @ [10]) (u_args u) r s) (\<lambda>(n, s).
     lib_execve env mmu (u_hello u) (u_argv u) (u_envp u) r s)"

section \<open>Nested steps\<close>

text \<open>What happens while a task sleeps: nothing, or steps during which tasks may sleep in turn, to any finite depth. The
  drivers are those of the kernel.\<close>

inductive nested :: "(fsys \<Rightarrow> bmem) \<Rightarrow> environment \<Rightarrow> bool" for mmu where
  Alone: "(\<And>s. others env s = s) \<Longrightarrow> nested mmu env"
| Steps: "(\<And>s. \<exists>inner. nested mmu inner \<and> (kstep (drivers inner) mmu)\<^sup>*\<^sup>* s (others env s)) \<Longrightarrow> nested mmu env"


section \<open>The console message\<close>

lemma decimal_text: "\<exists>cs. number v 10 (- 1) (- 1) SIGN = Some cs \<and> plain_text cs \<and> length cs \<le> 33"
proof -
  define ds where "ds = digits_of 10 (magnitude SIGN v)"
  have "magnitude SIGN v < 2 ^ 32" unfolding magnitude_def using unsigned_less [where ?'b = 32 and ?'a = nat] by simp
  then have l: "length ds \<le> 32" unfolding ds_def by (intro digits_of_length) simp_all
  have d: "\<forall>d\<in>set ds. d < 10" unfolding ds_def using digits_of_value [of 10] by simp
  have p: "unat (upper_digits ! d) < 128 \<and> upper_digits ! d \<noteq> 27" if "d < 10" for d
  proof -
    have "list_all (\<lambda>d. unat (upper_digits ! d) < 128 \<and> upper_digits ! d \<noteq> 27) [0..<10]" by code_simp
    then show ?thesis using that by (simp only: list_all_iff set_upt) simp
  qed
  have "number v 10 (- 1) (- 1) SIGN = Some (number_text v 10 (sint (- 1 :: u32)) (sint (- 1 :: u32)) SIGN)"
    by (rule number_text_eq) simp_all
  moreover have "plain_text (number_text v 10 (sint (- 1 :: u32)) (sint (- 1 :: u32)) SIGN)"
    using d p by (auto simp: number_text_def Let_def digit_text_def sign_text_def prefix_text_def plain_text_def SIGN_def
      PLUS_def SPACE_def SPECIAL_def LEFT_ADJ_def SMALL_def ZEROPAD_def ds_def)
  moreover have "length (number_text v 10 (sint (- 1 :: u32)) (sint (- 1 :: u32)) SIGN) \<le> 33"
    using l by (simp add: number_text_def Let_def digit_text_def sign_text_def prefix_text_def SIGN_def
      PLUS_def SPACE_def SPECIAL_def LEFT_ADJ_def SMALL_def ZEROPAD_def ds_def max_def)
  ultimately show ?thesis by blast
qed

lemma mem_text_prints: "\<exists>cs. vsprintf_loop m (map of_char mem_text) a [] = Some (cs, m) \<and> plain_text cs \<and> length cs \<le> 500"
proof -
  obtain x where x: "number (get_fs_long a m) 10 (- 1) (- 1) SIGN = Some x" "plain_text x" "length x \<le> 33"
    using decimal_text by blast
  obtain y where y: "number (get_fs_long (a + 4) m) 10 (- 1) (- 1) SIGN = Some y" "plain_text y" "length y \<le> 33"
    using decimal_text by blast
  show ?thesis
    using x y by (simp add: mem_text_def nl_def parse_spec_def parse_width_def parse_precision_def skip_qualifier_def is_digit_def
      convert_def print_number_def va_arg_def)
qed

section \<open>The start returns\<close>

lemma sless_nat: "unat (a :: u32) < 2 ^ 31 \<Longrightarrow> unat b < 2 ^ 31 \<Longrightarrow> a <s b \<longleftrightarrow> unat a < unat b"
  using sint_of_nat_small [of "unat a", where ?'a = 32] sint_of_nat_small [of "unat b", where ?'a = 32]
  by (simp add: word_sless_alt) (simp add: word_less_nat_alt word_less_def [symmetric])

lemma memory_layout_bounds:
  assumes "memory_layout x = (memory_end, start)"
  shows "start \<in> {0x100000, 0x200000, 0x400000}" "start \<le> memory_end" "memory_end \<le> 0x1000000"
    "unat start mod 4096 = 0" "unat memory_end mod 4096 = 0"
proof -
  define w e where "w = 0x100000 + push_bit 10 (ucast x :: u32)" and "e = w AND 0xfffff000"
  have x: "unat x < 2 ^ 16" "unat (ucast x :: u32) = unat x"
  proof -
    show b: "unat x < 2 ^ 16" using unsigned_less [where ?'b = 16 and ?'a = nat and w = x] by simp
    have "take_bit 32 (unat x) = unat x" using b by (intro take_bit_nat_eq_self) simp
    then show "unat (ucast x :: u32) = unat x" by (simp add: unsigned_ucast_eq)
  qed
  have "unat (push_bit 10 (ucast x :: u32)) = unat x * 1024" using x
    by (simp add: push_bit_eq_mult unat_mult_lem [THEN iffD1])
  then have w: "unat w = 0x100000 + unat x * 1024" using x unfolding w_def by (subst unat_plus_if') simp
  have "e = push_bit 12 (drop_bit 12 w)"
  proof -
    have m: "(0xfffff000 :: u32) = push_bit 12 (mask 20)" by (simp add: mask_numeral)
    show ?thesis unfolding e_def m by (rule bit_word_eqI) (auto simp: bit_simps)
  qed
  moreover have "unat (drop_bit 12 w) = unat w div 4096" by (simp add: unat_drop_bit_eq drop_bit_eq_div unat_div)
  ultimately have e: "unat e = unat w div 4096 * 4096"
    using w x(1) by (simp add: push_bit_eq_mult unat_mult_lem [THEN iffD1])
  then have eb: "0x100000 \<le> unat e" "unat e < 2 ^ 31" "unat e mod 4096 = 0" using w x(1) by simp_all
  define m where "m = (if 16 * 1024 * 1024 <s e then 16 * 1024 * 1024 else e)"
  have mb: "0x100000 \<le> unat m" "unat m \<le> 0x1000000" "unat m mod 4096 = 0"
    using eb by (auto simp: m_def sless_nat)
  have lay: "memory_end = m" "start = (if 12 * 1024 * 1024 <s m then 4 * 1024 * 1024
      else if 6 * 1024 * 1024 <s m then 2 * 1024 * 1024 else 1 * 1024 * 1024)"
    using assms unfolding memory_layout_def Let_def w_def [symmetric] e_def [symmetric] m_def [symmetric] by auto
  show "start \<in> {0x100000, 0x200000, 0x400000}" "start \<le> memory_end" "memory_end \<le> 0x1000000"
    "unat start mod 4096 = 0" "unat memory_end mod 4096 = 0"
    using mb by (auto simp: lay word_le_nat_alt sless_nat)
qed

lemma two_places:
  assumes "h \<le> 0x90000" "0xA0000 \<le> b"
  shows "2 \<le> length (buffer_places h b)"
proof -
  have n: "unat h \<le> 0x90000" "0xA0000 \<le> unat b" using assms by (simp_all add: word_le_nat_alt)
  have h: "unat (h + 36) = unat h + 36" "unat (h + 36 + 36) = unat h + 72"
    using n by (simp_all add: unat_plus_if')
  have b: "unat (b - 1024) = unat b - 1024" using n by (simp add: unat_sub_if')
  define b2 where "b2 = (if b - 1024 = 0x100000 then 0xA0000 else b - 1024)"
  have b2: "0xA0000 - 1024 \<le> unat b2" using n b by (auto simp: b2_def)
  then have b21: "unat (b2 - 1024) = unat b2 - 1024" by (simp add: unat_sub_if')
  have "\<not> (b < 1024 \<or> b - 1024 < h + 36 \<or> h + 36 < h)"
    using n h b by (auto simp: word_less_nat_alt)
  then have 1: "buffer_places h b = (h, b - 1024) # buffer_places (h + 36) b2"
    unfolding b2_def by (subst buffer_places.simps) simp
  have "\<not> (b2 < 1024 \<or> b2 - 1024 < h + 36 + 36 \<or> h + 36 + 36 < h + 36)"
    using n h b2 b21 by (auto simp: word_less_nat_alt)
  then have "buffer_places (h + 36) b2 \<noteq> []" by (subst buffer_places.simps) simp
  then show ?thesis unfolding 1 by (cases "buffer_places (h + 36) b2") simp_all
qed

lemma read_clock_settles:
  "c (n + 7 * j) 0 = c (n + 7 * j + 6) 0 \<Longrightarrow> \<exists>i t n'. read_clock c n = Some (t, n') \<and> tm_mon t = ucast (c i 8)"
proof (induction j arbitrary: n)
  case 0
  then show ?case by (subst read_clock.simps) (auto simp: Let_def)
next
  case (Suc j)
  show ?case
  proof (cases "(ucast (c n 0) :: u32) = ucast (c (n + 6) 0)")
    case True
    then show ?thesis by (subst read_clock.simps) (auto simp: Let_def)
  next
    case False
    then have "read_clock c n = read_clock c (n + 7)" by (subst read_clock.simps) (simp add: Let_def)
    then show ?thesis using Suc.IH [of "n + 7"] Suc.prems by (simp add: algebra_simps)
  qed
qed

lemma clock_on_returns:
  assumes "\<exists>j. m_cmos m (m_cmos_reads m + 7 * j) 0 = m_cmos m (m_cmos_reads m + 7 * j + 6) 0"
    "\<forall>i. unat (BCD_TO_BIN (ucast (m_cmos m i 8)) - 1) < 12"
  shows "\<exists>st n. clock_on m = Some (Inr (m\<lparr>m_fs := set_fk ((fk (m_fs m))\<lparr>startup_time := st\<rparr>) (m_fs m), m_cmos_reads := n\<rparr>))"
proof -
  from assms(1) obtain j where "m_cmos m (m_cmos_reads m + 7 * j) 0 = m_cmos m (m_cmos_reads m + 7 * j + 6) 0" ..
  from read_clock_settles [of "m_cmos m", OF this] obtain t i n where
    r: "read_clock (m_cmos m) (m_cmos_reads m) = Some (t, n)" "tm_mon t = ucast (m_cmos m i 8)" by blast
  have "unat (tm_mon (time_init_tm t)) < 12" using assms(2) r(2) by (simp add: time_init_tm_def)
  then obtain st where "time_init t = Inr st" by (simp add: time_init_def kernel_mktime_def Let_def)
  with r(1) show ?thesis by (auto simp: clock_on_def Let_def)
qed

lemma con_init_state [simp]: "c_state (con_init x y v l g c) = c_state c"
  by (simp add: con_init_def Let_def set_cursor_def gotoxy_def)

lemma main_runs:
  assumes "ready_tty (m_fs m)" "1000 < con_fuel (m_env m)"
    and "\<exists>j. m_cmos m (m_cmos_reads m + 7 * j) 0 = m_cmos m (m_cmos_reads m + 7 * j + 6) 0"
      "\<forall>i. unat (BCD_TO_BIN (ucast (m_cmos m i 8)) - 1) < 12"
  shows "\<exists>m'. main e k b m = Some (Inr m')"
proof -
  obtain memory_end start where lay: "memory_layout (ext_mem_k b) = (memory_end, start)" by fastforce
  define s where "s = (m_fs m)\<lparr>root_dev := ucast (orig_root_dev b),
      fm := (fm (m_fs m))\<lparr>phys := store_bytes (drive_data b) (at_drive_info e) (phys (fm (m_fs m)))\<rparr>\<rparr>"
  have "LOW_MEM \<le> start" using memory_layout_bounds(1) [OF lay] by (auto simp: LOW_MEM_def)
  from mem_init_correct [OF this memory_layout_bounds(2-5) [OF lay]]
  obtain mm where mm: "mem_init start memory_end (fm s) = Inr mm" by blast
  define m1 where "m1 = tty_init e b (traps_on e (m\<lparr>m_fs := s\<lparr>fm := mm\<rparr>\<rparr>))"
  have m1: "m_cmos m1 = m_cmos m" "m_cmos_reads m1 = m_cmos_reads m" "m_env m1 = m_env m"
    "ready_tty (m_fs m1)"
    using assms(1) by (simp_all add: m1_def tty_init_def traps_on_def set_idt_def Let_def s_def ready_tty_def)
  obtain st n where c: "clock_on m1 = Some (Inr (m1\<lparr>m_fs := set_fk ((fk (m_fs m1))\<lparr>startup_time := st\<rparr>) (m_fs m1), m_cmos_reads := n\<rparr>))"
    using clock_on_returns [of m1] assms(3,4) unfolding m1 by blast
  define m2 where "m2 = sched_init e (m1\<lparr>m_fs := set_fk ((fk (m_fs m1))\<lparr>startup_time := st\<rparr>) (m_fs m1), m_cmos_reads := n\<rparr>)"
  have m2: "m_env m2 = m_env m" "ready_tty (m_fs m2)"
    using m1 by (simp_all add: m2_def sched_init_def set_idt_def Let_def ready_tty_def)
  obtain cs where "vsprintf_loop (store_args [start, memory_end] (k_sp k) (phys (fm (m_fs m2)))) (map of_char mem_text) (k_sp k) [] =
      Some (cs, store_args [start, memory_end] (k_sp k) (phys (fm (m_fs m2))))" "plain_text cs" "length cs \<le> 500"
    using mem_text_prints by blast
  from printk_returns [OF this m2(2), of "m_env m2"] obtain s3 where
    "printk (m_env m2) k mem_text [start, memory_end] (m_fs m2) = Some (Inr (of_nat (length cs), s3))"
    using assms(2) m2(1) by auto
  then show ?thesis
    unfolding main_def lay prod.case Let_def s_def [symmetric] mm obind_simps m1_def [symmetric] c m2_def [symmetric]
    by simp
qed

section \<open>What the kernel keeps\<close>

lemma nested_sound: "nested mmu env \<Longrightarrow> sound z s \<Longrightarrow> sound z (others env s)"
proof (induction arbitrary: s rule: nested.induct)
  case (Steps env)
  from Steps.IH [of s] obtain inner where inner: "\<And>s. sound z s \<Longrightarrow> sound z (others inner s)"
      "(kstep (drivers inner) mmu)\<^sup>*\<^sup>* s (others env s)" by blast
  have "cache_rest (drivers inner) z" by (rule drivers_cache) (rule inner(1))
  from cache_rest.ksteps_sound [OF this inner(2) Steps.prems] show ?case .
qed simp

text \<open>The states between the parts of \<open>main\<close>.\<close>

lemma main_steps:
  assumes "main e k b m = Some (Inr m')"
  obtains start memory_end s m2 n s3 where "memory_layout (ext_mem_k b) = (memory_end, start)"
    "s = (m_fs m)\<lparr>root_dev := ucast (orig_root_dev b), fm := fm s\<rparr>"
    "clock_on (tty_init e b (traps_on e (m\<lparr>m_fs := s\<rparr>))) = Some (Inr m2)"
    "printk (m_env (sched_init e m2)) k mem_text [start, memory_end] (m_fs (sched_init e m2)) = Some (Inr (n, s3))"
    "m' = disks_on e ((sched_init e m2)\<lparr>m_fs := blk_dev_init (buffer_init (kernel_end e) start s3)\<rparr>)"
proof -
  obtain memory_end start where lay: "memory_layout (ext_mem_k b) = (memory_end, start)" by fastforce
  define s where "s = (m_fs m)\<lparr>root_dev := ucast (orig_root_dev b),
      fm := (fm (m_fs m))\<lparr>phys := store_bytes (drive_data b) (at_drive_info e) (phys (fm (m_fs m)))\<rparr>\<rparr>"
  obtain mm where mm: "mem_init start memory_end (fm s) = Inr mm"
    using assms unfolding main_def lay prod.case Let_def s_def [symmetric] by (cases "mem_init start memory_end (fm s)") auto
  define m1 where "m1 = tty_init e b (traps_on e (m\<lparr>m_fs := s\<lparr>fm := mm\<rparr>\<rparr>))"
  obtain m2 where m2: "clock_on m1 = Some (Inr m2)"
    using assms unfolding main_def lay prod.case Let_def s_def [symmetric] mm obind_simps m1_def [symmetric]
    by (auto simp: obind_def split: option.splits sum.splits)
  obtain n s3 where s3: "printk (m_env (sched_init e m2)) k mem_text [start, memory_end] (m_fs (sched_init e m2)) = Some (Inr (n, s3))"
    "m' = disks_on e ((sched_init e m2)\<lparr>m_fs := blk_dev_init (buffer_init (kernel_end e) start s3)\<rparr>)"
    using assms unfolding main_def lay prod.case Let_def s_def [symmetric] mm obind_simps m1_def [symmetric] m2
    by (auto simp: obind_def split: option.splits sum.splits)
  show thesis by (rule that [OF lay _ _ s3, of "s\<lparr>fm := mm\<rparr>"]) (use m2 in \<open>simp_all add: s_def m1_def\<close>)
qed

lemma clock_on_frame:
  assumes "clock_on m = Some (Inr m2)"
  shows "m_idt m2 = m_idt m" "m_pic1 m2 = m_pic1 m" "m_pic2 m2 = m_pic2 m" "shaped z (m_fs m2) = shaped z (m_fs m)"
proof -
  obtain t n where r: "read_clock (m_cmos m) (m_cmos_reads m) = Some (t, n)"
    using assms by (cases "read_clock (m_cmos m) (m_cmos_reads m)") (auto simp: clock_on_def)
  obtain st where "time_init t = Inr st" using assms r by (cases "time_init t") (auto simp: clock_on_def)
  then have "m2 = m\<lparr>m_fs := set_fk ((fk (m_fs m))\<lparr>startup_time := st\<rparr>) (m_fs m), m_cmos_reads := n\<rparr>"
    using assms r by (simp add: clock_on_def Let_def)
  then show "m_idt m2 = m_idt m" "m_pic1 m2 = m_pic1 m" "m_pic2 m2 = m_pic2 m" "shaped z (m_fs m2) = shaped z (m_fs m)"
    by (simp_all add: shaped_def)
qed

lemma main_result:
  assumes "shaped z (m_fs m)" "main e k b m = Some (Inr m')"
  shows "\<exists>s start. shaped z s \<and> start \<in> {0x100000, 0x200000, 0x400000} \<and>
    m_fs m' = blk_dev_init (buffer_init (kernel_end e) start s)"
proof (rule main_steps [OF assms(2)])
  fix memory_end start s m2 n s3
  assume st: "memory_layout (ext_mem_k b) = (memory_end, start)" "s = (m_fs m)\<lparr>root_dev := ucast (orig_root_dev b), fm := fm s\<rparr>"
    "clock_on (tty_init e b (traps_on e (m\<lparr>m_fs := s\<rparr>))) = Some (Inr m2)"
    "printk (m_env (sched_init e m2)) k mem_text [start, memory_end] (m_fs (sched_init e m2)) = Some (Inr (n, s3))"
    "m' = disks_on e ((sched_init e m2)\<lparr>m_fs := blk_dev_init (buffer_init (kernel_end e) start s3)\<rparr>)"
  have "shaped z s" using assms(1) by (subst st(2)) (simp add: shaped_def)
  then have "shaped z (m_fs m2)" unfolding clock_on_frame(4) [OF st(3)]
    by (simp add: tty_init_def traps_on_def set_idt_def Let_def shaped_def)
  then have "shaped z (m_fs (sched_init e m2))" by (simp add: sched_init_def set_idt_def Let_def shaped_def)
  from okD [OF sizes.printk_safe [OF this] st(4)] have "shaped z s3" by simp
  then show ?thesis using memory_layout_bounds(1) [OF st(1)] st(5)
    by (auto simp: disks_on_def set_idt_def Let_def intro!: exI [of _ s3])
qed

lemma main_sound:
  assumes "shaped z (m_fs m)" "main e k b m = Some (Inr m')" "kernel_end e \<noteq> 0" "kernel_end e \<le> 0x90000"
  shows "sound (z\<lparr>z_buffers := buffers (m_fs m')\<rparr>) (m_fs m')"
proof -
  obtain s start where s: "shaped z s" "start \<in> {0x100000, 0x200000, 0x400000}"
    "m_fs m' = blk_dev_init (buffer_init (kernel_end e) start s)"
    using main_result [OF assms(1,2)] by blast
  have "0xA0000 \<le> (if start = 0x100000 then 640 * 1024 else start)" using s(2) by auto
  note c = buffer_init_ok(1) [OF assms(3) two_places [OF assms(4) this]]
  have "shaped (z\<lparr>z_buffers := buffers (m_fs m')\<rparr>) (m_fs m')"
    using buffer_init_shaped [OF s(1), of "kernel_end e" start] by (simp add: s(3) blk_dev_init_def shaped_def)
  moreover have "cached (m_fs m')"
    using c cached_cong [of "m_fs m'" "buffer_init (kernel_end e) start s"] unfolding cached_def s(3) by (auto simp: blk_dev_init_def)
  ultimately show ?thesis by (simp add: sound_def)
qed

text \<open>C1: The kernel starts, and keeps the file system's order from then on. Take a machine whose tables have their static
  sizes and whose clock stands still long enough once. \<open>main\<close> returns, with the buffer cache in order. After that, any
  number of system calls, page faults, clock, keyboard and disk interrupts and task switches may follow, and while one of them
  sleeps, others again, to any depth: always the free list is a ring through all the buffers \<open>main\<close> has made, every block
  is in its hash queue, no block of a device is held twice, and no structure changed its size.\<close>

theorem kernel_stays_sound:
  assumes "shaped z (m_fs m)" "ready_tty (m_fs m)" "1000 < con_fuel (m_env m)" "kernel_end e \<noteq> 0" "kernel_end e \<le> 0x90000"
    and "\<exists>j. m_cmos m (m_cmos_reads m + 7 * j) 0 = m_cmos m (m_cmos_reads m + 7 * j + 6) 0"
      "\<forall>i. unat (BCD_TO_BIN (ucast (m_cmos m i 8)) - 1) < 12"
  shows "\<exists>m'. main e k b m = Some (Inr m') \<and>
    (\<forall>env s. nested mmu env \<and> (kstep (drivers env) mmu)\<^sup>*\<^sup>* (m_fs m') s \<longrightarrow>
      sound (z\<lparr>z_buffers := buffers (m_fs m')\<rparr>) s)"
proof -
  obtain m' where m': "main e k b m = Some (Inr m')" using main_runs [OF assms(2,3,6,7)] by blast
  note start = main_sound [OF assms(1) m' assms(4,5)]
  have "sound (z\<lparr>z_buffers := buffers (m_fs m')\<rparr>) s"
    if "nested mmu env" "(kstep (drivers env) mmu)\<^sup>*\<^sup>* (m_fs m') s" for env s
    using cache_rest.ksteps_sound [OF drivers_cache that(2) start] nested_sound [OF that(1)] by blast
  with m' show ?thesis by blast
qed

definition entries0 :: kernel_entries where
  "entries0 = \<lparr>at_trap = (\<lambda>_. 0x100), at_keyboard = 0x200, at_timer = 0x300, at_system_call = 0x400, at_hd = 0x500,
     at_floppy = 0x600, at_init_tss = 0x700, at_init_ldt = 0x800, at_drive_info = 0x900, kernel_end = 0x20000\<rparr>"

definition places0 :: kernel_places where
  "places0 = \<lparr>k_buf = 0x10000, k_sp = 0x11000, k_text = 0x12000\<rparr>"

definition bios0 :: bios_data where
  "bios0 = \<lparr>ext_mem_k = 0x3c00, orig_root_dev = 0x301, orig_x = 0, orig_y = 0, video_mode = 0x5003, video_lines = 25, ega_bx = 3,
     drive_data = replicate 32 0\<rparr>"

definition machine0 :: machine where
  "machine0 = \<lparr>m_fs = fs0, m_env = env0\<lparr>con_fuel := 2000\<rparr>, m_idt = (\<lambda>_. (0, 0)), m_pic1 = 0xff, m_pic2 = 0xff, m_port61 = 0,
     m_out = [], m_cmos = (\<lambda>_ r. if r = 8 then 1 else 0), m_cmos_reads = 0\<rparr>"

lemma machine0_runs:
  "\<exists>j. m_cmos machine0 (m_cmos_reads machine0 + 7 * j) 0 = m_cmos machine0 (m_cmos_reads machine0 + 7 * j + 6) 0"
  "\<forall>i. unat (BCD_TO_BIN (ucast (m_cmos machine0 i 8)) - 1) < 12"
  "ready_tty (m_fs machine0)" "1000 < con_fuel (m_env machine0)"
  by (simp_all add: machine0_def BCD_TO_BIN_def ready_tty_def fs0_def tty_table0_def screen0_def queue_inv_def q_list_def empty_queue_def
    q_len_def ESnormal_def)

text \<open>The machine starts, and the first thing it does is a call of \<open>dup\<close>.\<close>

theorem kernel_stays_sound_witness:
  "\<exists>m' s. main entries0 places0 bios0 machine0 = Some (Inr m') \<and> (kstep (drivers env0) (\<lambda>_ _. 0))\<^sup>*\<^sup>* (m_fs m') s \<and>
    sound \<lparr>z_inodes = [], z_files = [], z_requests = 32, z_buffers = buffers (m_fs m')\<rparr> s"
proof -
  let ?z = "\<lparr>z_inodes = [], z_files = [], z_requests = 32, z_buffers = []\<rparr>" and ?mmu = "\<lambda>_ _. 0"
  have z: "shaped ?z (m_fs machine0)" using fs0_shaped by (simp add: machine0_def)
  have e: "kernel_end entries0 \<noteq> 0" "kernel_end entries0 \<le> 0x90000" by (simp_all add: entries0_def)
  obtain m' where m': "main entries0 places0 bios0 machine0 = Some (Inr m')" "\<And>env s. nested ?mmu env \<Longrightarrow>
      (kstep (drivers env) ?mmu)\<^sup>*\<^sup>* (m_fs m') s \<Longrightarrow> sound (?z\<lparr>z_buffers := buffers (m_fs m')\<rparr>) s"
    using kernel_stays_sound [OF z machine0_runs(3,4) e machine0_runs(1,2)] by blast
  obtain r' s' where "system_call (drivers env0) ?mmu frame0 (m_fs m') = Some (Inr (r', s'))" using frame0_returns by blast
  then have st: "(kstep (drivers env0) ?mmu)\<^sup>*\<^sup>* (m_fs m') s'" by (blast intro: kstep.Call)
  moreover have "nested ?mmu env0" by (rule nested.Alone) (simp add: env0_def)
  ultimately show ?thesis using m'(1) m'(2) [of env0 s'] by (intro exI [of _ m'] exI [of _ s']) simp
qed

section \<open>The interrupts\<close>

lemma traps_on_gates:
  "m_idt (traps_on e (m\<lparr>m_fs := s\<rparr>)) = trap_init (at_trap e) (m_idt m)"
  "m_pic1 (traps_on e (m\<lparr>m_fs := s\<rparr>)) = m_pic1 m AND 0xfb" "m_pic2 (traps_on e (m\<lparr>m_fs := s\<rparr>)) = m_pic2 m AND 0xdf"
  by (simp_all add: traps_on_def)

lemma tty_init_gates:
  "m_idt (tty_init e b m) = (m_idt m)(0x21 := set_trap_gate (at_keyboard e))"
  "m_pic1 (tty_init e b m) = m_pic1 m AND 0xfd" "m_pic2 (tty_init e b m) = m_pic2 m"
  by (simp_all add: tty_init_def set_idt_def Let_def)

lemma sched_init_gates:
  "m_idt (sched_init e m) = (m_idt m)(0x20 := set_intr_gate (at_timer e), 0x80 := set_system_gate (at_system_call e))"
  "m_pic1 (sched_init e m) = m_pic1 m AND NOT 0x01" "m_pic2 (sched_init e m) = m_pic2 m"
  by (simp_all add: sched_init_def set_idt_def Let_def)

lemma disks_on_gates:
  "m_idt (disks_on e (m\<lparr>m_fs := s\<rparr>)) = (m_idt m)(0x2E := set_intr_gate (at_hd e), 0x26 := set_trap_gate (at_floppy e))"
  "m_pic1 (disks_on e (m\<lparr>m_fs := s\<rparr>)) = (m_pic1 m AND 0xfb) AND NOT 0x40" "m_pic2 (disks_on e (m\<lparr>m_fs := s\<rparr>)) = m_pic2 m AND 0xbf"
  by (simp_all add: disks_on_def set_idt_def Let_def)

text \<open>C38: What \<open>main\<close> lets in. Of the lines of the two interrupt controllers it opens exactly 0 (clock), 1 (keyboard), 2
  (the second controller) and 6 (floppy disk), and on the second 5 (coprocessor) and 6 (hard disk). The gates of clock,
  keyboard, floppy and hard disk lead to their handlers and are closed to programs; the gate 0x80 leads to \<open>system_call\<close>
  and is open to them. All other gates are those of \<open>trap_init\<close>, the one of the coprocessor too: its line is open, and
  its gate leads to the handler of reserved traps.\<close>

theorem boot_interrupts:
  assumes "main e k b m = Some (Inr m')"
  shows "(\<forall>i<8. bit (m_pic1 m') i \<longleftrightarrow> bit (m_pic1 m) i \<and> i \<notin> {0, 1, 2, 6}) \<and>
    (\<forall>i<8. bit (m_pic2 m') i \<longleftrightarrow> bit (m_pic2 m) i \<and> i \<notin> {5, 6}) \<and>
    m_idt m' 0x20 = set_intr_gate (at_timer e) \<and> m_idt m' 0x21 = set_trap_gate (at_keyboard e) \<and>
    m_idt m' 0x26 = set_trap_gate (at_floppy e) \<and> m_idt m' 0x2E = set_intr_gate (at_hd e) \<and>
    m_idt m' 0x80 = set_system_gate (at_system_call e) \<and>
    (\<forall>n. n \<notin> {0x20, 0x21, 0x26, 0x2E, 0x80} \<longrightarrow> m_idt m' n = trap_init (at_trap e) (m_idt m) n) \<and>
    m_idt m' 0x2D = set_trap_gate (at_trap e Reserved)"
proof -
  have pics: "m_pic1 m' = ((((m_pic1 m AND 0xfb) AND 0xfd) AND NOT 0x01) AND 0xfb) AND NOT 0x40"
      "m_pic2 m' = (m_pic2 m AND 0xdf) AND 0xbf"
    and idt: "m_idt m' = (trap_init (at_trap e) (m_idt m)) (0x21 := set_trap_gate (at_keyboard e), 0x20 := set_intr_gate (at_timer e),
      0x80 := set_system_gate (at_system_call e), 0x2E := set_intr_gate (at_hd e), 0x26 := set_trap_gate (at_floppy e))"
  proof (atomize (full), rule main_steps [OF assms])
    fix memory_end start s m2 n s3
    assume st: "clock_on (tty_init e b (traps_on e (m\<lparr>m_fs := s\<rparr>))) = Some (Inr m2)"
      "m' = disks_on e ((sched_init e m2)\<lparr>m_fs := blk_dev_init (buffer_init (kernel_end e) start s3)\<rparr>)"
    show "(m_pic1 m' = ((((m_pic1 m AND 0xfb) AND 0xfd) AND NOT 0x01) AND 0xfb) AND NOT 0x40 \<and>
        m_pic2 m' = (m_pic2 m AND 0xdf) AND 0xbf) \<and>
        m_idt m' = (trap_init (at_trap e) (m_idt m)) (0x21 := set_trap_gate (at_keyboard e), 0x20 := set_intr_gate (at_timer e),
          0x80 := set_system_gate (at_system_call e), 0x2E := set_intr_gate (at_hd e), 0x26 := set_trap_gate (at_floppy e))"
      unfolding st(2) disks_on_gates sched_init_gates clock_on_frame(1-3) [OF st(1)] tty_init_gates
        traps_on_gates by (intro conjI refl)
  qed
  have eight: "(\<forall>i<8. P i) \<longleftrightarrow> P 0 \<and> P 1 \<and> P 2 \<and> P 3 \<and> P 4 \<and> P 5 \<and> P 6 \<and> P (7 :: nat)" for P
    by (simp add: eval_nat_numeral All_less_Suc conj_ac)
  have "\<forall>i<8. bit (m_pic1 m') i \<longleftrightarrow> bit (m_pic1 m) i \<and> i \<notin> {0, 1, 2, 6}"
    "\<forall>i<8. bit (m_pic2 m') i \<longleftrightarrow> bit (m_pic2 m) i \<and> i \<notin> {5, 6}"
    unfolding eight pics by (simp_all add: bit_simps)
  moreover have "trap_init (at_trap e) (m_idt m) 45 = set_trap_gate (at_trap e Reserved)" by (rule trap_init_high) simp_all
  ultimately show ?thesis unfolding idt by (simp del: set_upt)
qed

theorem boot_interrupts_witness:
  "\<exists>m'. main entries0 places0 bios0 machine0 = Some (Inr m') \<and> m_pic1 m' = 0xb8 \<and> m_idt m' 0x80 = set_system_gate 0x400"
proof -
  obtain m' where m': "main entries0 places0 bios0 machine0 = Some (Inr m')" using main_runs machine0_runs by blast
  note b = boot_interrupts [OF m']
  have "bit (m_pic1 m') i \<longleftrightarrow> bit (0xb8 :: u8) i" if "i < 8" for i
  proof -
    have "bit (m_pic1 m') i \<longleftrightarrow> bit (m_pic1 machine0) i \<and> i \<notin> {0, 1, 2, 6}" using b that by blast
    moreover have "i \<in> {0, 1, 2, 3, 4, 5, 6, 7}" using that by (simp, presburger)
    ultimately show ?thesis by (auto simp: machine0_def bit_simps)
  qed
  then have "m_pic1 m' = 0xb8" by (intro bit_word_eqI) simp
  then show ?thesis using m' b by (auto simp: entries0_def)
qed

end
