(* ===== verification/Spec2Isabelle.thy ===== *)
theory Spec2Isabelle
  imports Strings Boot
begin

text \<open>
  A model of the kernel under \<open>src/book-source-code/linux_kernel_012-third\<close>, a rewrite of Linux 0.12 for
  one processor of the i386. All paths below are relative to that directory.

  \<^bold>\<open>Parts.\<close> The process side: a table of 64 tasks (\<open>kernel/sched.c\<close>), wait queues, timers, signals,
  fork, exit and wait; the memory side: pages with use counts, page tables shared copy-on-write
  (\<open>mm/memory.c\<close>); the terminal: keyboard, line discipline, console (\<open>kernel/chr_drv\<close>); the disk: requests
  in elevator order and the interrupt-driven driver (\<open>kernel/blk_drv\<close>); the file system: a cache of disk blocks,
  zones and i-nodes kept in bitmaps, directories, pipes and the system calls on files (\<open>fs\<close>), which meets the
  memory side when a program is executed and its pages are loaded on demand; the library the kernel is
  built on (\<open>lib/string.c\<close>, \<open>kernel/vsprintf.c\<close>). A task calls into the kernel and either returns or goes to
  sleep on a wait queue; interrupts (clock, keyboard, disk) change the state and wake it up.

  \<^bold>\<open>Theories.\<close>
  \<^item> \<open>Prelude\<close>: machine integers as words, errors as values (\<open>kres\<close>, \<open>obind\<close>), error numbers.
  \<^item> \<open>Strings\<close>: \<open>lib/string.c\<close> over byte memory, with the string instructions of the processor;
    \<open>Ctype\<close>: \<open>lib/ctype.c\<close>; \<open>Vsprintf\<close>: \<open>kernel/vsprintf.c\<close>; \<open>Mktime\<close>: \<open>kernel/mktime.c\<close>, the memory
    layout of \<open>kernel/main.c\<close>; \<open>Boot\<close>: \<open>main\<close>, the initialisation of every part and the first processes, up to
    the shell.
  \<^item> \<open>Task\<close>: \<open>include/linux/sched.h\<close>, the structures every process part uses; \<open>Sched\<close>, \<open>Wait\<close>, \<open>Timer\<close>:
    \<open>kernel/sched.c\<close>; \<open>Sys\<close>: \<open>kernel/sys.c\<close>; \<open>Segment\<close>: \<open>kernel/segment.c\<close>; \<open>Signal\<close>:
    \<open>kernel/signal.c\<close>; \<open>Exit\<close>: \<open>kernel/exit.c\<close>; \<open>Fork\<close>: \<open>kernel/fork.c\<close>.
  \<^item> \<open>Memory\<close>: \<open>mm/memory.c\<close>, \<open>mm/swap.c\<close>.
  \<^item> \<open>TtyQueue\<close>, \<open>Tty\<close>: \<open>kernel/chr_drv/tty_io.c\<close>, \<open>tty_ioctl.c\<close>; \<open>Console\<close>: \<open>console.c\<close>; \<open>Kboard\<close>:
    \<open>kboard.c\<close>.
  \<^item> \<open>Fs\<close>: the data of the file system (\<open>include/linux/fs.h\<close>) and the state its parts share; \<open>Blk\<close>:
    \<open>kernel/blk_drv/ll_rw_blk.c\<close>; \<open>Hd\<close>, \<open>Setup\<close>: \<open>kernel/blk_drv/hd.c\<close>; \<open>Floppy\<close>: \<open>kernel/blk_drv/floppy.c\<close>.
  \<^item> \<open>Buffer\<close>: \<open>fs/buffer.c\<close>; \<open>Bitmap\<close>: \<open>fs/bitmap.c\<close>; \<open>Truncate\<close>: \<open>fs/truncate.c\<close>; \<open>Inode\<close>: \<open>fs/inode.c\<close>;
    \<open>Super\<close>: \<open>fs/super.c\<close>; \<open>Fcntl\<close>: descriptors, \<open>fs/fcntl.c\<close> and the calls of \<open>fs/open.c\<close>, \<open>fs/stat.c\<close> that
    take one; \<open>Pipe\<close>: \<open>fs/pipe.c\<close>; \<open>Rw\<close>: \<open>fs/read_write.c\<close>, \<open>file_dev.c\<close>, \<open>char_dev.c\<close>, \<open>ioctl.c\<close>; \<open>Namei\<close>,
    \<open>Dirs\<close>: \<open>fs/namei.c\<close> and the calls of \<open>fs/open.c\<close>, \<open>fs/stat.c\<close> that take a pathname.
  \<^item> \<open>Exec\<close>: \<open>fs/exec.c\<close> and the page fault of \<open>mm/memory.c\<close> that loads a page of the program; \<open>Exits\<close>:
    \<open>do_exit\<close> of \<open>kernel/exit.c\<close>, where processes, files and terminal meet.
  \<^item> \<open>Traps\<close>: \<open>kernel/printk.c\<close>, \<open>kernel/panic.c\<close>, \<open>kernel/traps.c\<close>, \<open>mm/page.S\<close>; \<open>Syscalls\<close>: all system calls on one
    state, from the stub of the library (\<open>lib\<close>, \<open>include/unistd.h\<close>) through the entry (\<open>kernel/sys_call.S\<close>) and the table
    (\<open>include/linux/sys.h\<close>) to the function and back.
  \<^item> \<open>Keeps\<close>: what a property of the file system must satisfy to survive every system call; \<open>Steps\<close>: the running
    kernel as a step relation (\<open>kstep\<close>: calls, faults, interrupts, switches), and the same for every step; \<open>Shape\<close>: two such
    properties, for the drivers the kernel has.

  \<^bold>\<open>State and errors.\<close> Every structure of the source is a record whose fields have the widths of the
  source; pointers to tasks, buffers, i-nodes and files are addresses, a table is the list of the addresses of
  its entries, and links between the entries of the small tables (timers, requests) are indices. A function of
  the source is a function on the state of its part. What the source leaves undefined or stops on (a
  null pointer, an index outside an array, \<open>panic\<close>, a division by zero) is an error value. A loop that may go on for
  ever is a \<open>partial_function\<close> whose value is then \<open>None\<close>. A function that sleeps is cut at the call of
  \<open>schedule\<close>: what the other tasks and the interrupts do meanwhile is a function of the state, and the
  theorems hold for every such function unless they say otherwise.

  \<^bold>\<open>What is shown.\<close> The scheduler picks the right task and always returns; no sleeper is lost and a woken queue drains;
  timers fire on time as long as each is set for a later tick than those pending; signals are posted, delivered and
  protected as the manual says; pages are shared and copied with exact counts; fork, wait and release keep the
  table and the family of tasks; the terminal's queues are first-in first-out and its editing refines a
  function on lists; the console never leaves its screen; numbers are printed as the C standard asks, with the exceptions named, and read back;
  the library's calls reach their functions; a request
  joins its device's list at the elevator's place; the buffer cache stays a ring with hash queues whatever
  \<open>getblk\<close> does, whatever any system call does (\<open>system_calls_keep_cache\<close>), and in every state the kernel can reach
  from its start by steps that may be nested while tasks sleep (\<open>kernel_stays_sound\<close>); zones are given out once and given back once.
  The interfaces stated as locales are the queue contracts of \<open>TtyQueue\<close>, interpreted on the rings of the source, and those of
  \<open>Keeps\<close>: \<open>fs_frame\<close> (what elementary steps keep), \<open>fs_sleep\<close> (what the other tasks keep) and \<open>fs_inv\<close> (what drivers and
  \<open>getblk\<close> keep), under which every system call is shown to keep an invariant; \<open>Shape\<close> instantiates them with the sizes
  of all structures and with the order of the buffer cache. The lemmas of each theory follow its definitions:
  first what an operation leaves unchanged, then the invariant, then the property.

  \<^bold>\<open>Bounds and fuel.\<close> Loops over tables recurse on the number of entries left. \<open>copy_to_cooked\<close> takes
  fuel and is shown to need no more than the characters waiting and a constant; the file system, which calls the
  console, takes that fuel as \<open>con_fuel\<close> of its environment. While the text of a symbolic link is looked up no further link
  is followed, as in the source, so looking up a path needs no fuel. All other loops are structural, have
  a measure, or are partial functions, whose return is shown where a property says so.

  \<^bold>\<open>Parameters.\<close> What the file system calls outside its state is the record \<open>environment\<close>: the rest of the system
  while a task sleeps (\<open>others\<close>), the functions of the drivers (\<open>request_fn\<close>, filled in by \<open>hd_init\<close> and \<open>floppy_init\<close>), the
  CMOS (\<open>cmos\<close>). What the controllers of the disks, the keyboard and the clock answer are streams of bytes in the state. \<open>do_execve\<close> takes the map from
  linear to physical addresses the paging hardware uses (\<open>mmu\<close>).

  \<^bold>\<open>Not modelled.\<close> The assembly that loads the kernel and switches to protected mode, the build tools and exercises; the processor's own work (privilege, paging hardware, the task switch, the
  floating-point state). Loads and stores through segment registers go to a byte memory of the user
  without the permission checks of the hardware.
\<close>

end
